(* ===== verification/Py_Prelude.thy ===== *)
theory Py_Prelude
  imports
    Complex_Main
    "HOL-Library.AList"
    "HOL-Library.Char_ord"
    "HOL-Library.List_Lexorder"
    "HOL-Library.Product_Lexorder"
    "HOL-Library.Multiset"
begin

text \<open>
  Shared ground of the development: the Python values, strings, dictionaries and results that
  every component uses.

  \<^item> Strings are \<^typ>\<open>string\<close>, one \<^typ>\<open>char\<close> per code point; the model covers the code
    points below 256 (the only non-ASCII character the sources compare against, the middle
    dot U+00B7, is one of them).  Their order is Python's code point order, from
    \<^theory_text>\<open>Char_ord\<close> and \<^theory_text>\<open>List_Lexorder\<close>; tuples are compared lexicographically
    (\<^theory_text>\<open>Product_Lexorder\<close>).
  \<^item> A decoded JSON document (or any dynamically typed argument) is a \<open>pyval\<close>.  A dictionary
    is an association list in insertion order; \<^const>\<open>map_of\<close> is \<open>dict.get\<close> and
    \<^const>\<open>AList.update\<close> is \<open>d[k] = v\<close> (an old key keeps its place, a new one goes last).
  \<^item> A function that may raise returns \<open>'e + 'a\<close>: \<open>Inl\<close> for the exception.
\<close>

named_theorems py_simps \<open>evaluation rules of the Python string and dictionary operations\<close>
named_theorems res_simps \<open>case rules of results\<close>

subsection \<open>Results\<close>

definition bind_res :: "'e + 'a \<Rightarrow> ('a \<Rightarrow> 'e + 'b) \<Rightarrow> 'e + 'b" where
  "bind_res m f = (case m of Inl e \<Rightarrow> Inl e | Inr x \<Rightarrow> f x)"

definition guard :: "bool \<Rightarrow> 'e \<Rightarrow> 'e + unit" where
  "guard b e = (if b then Inr () else Inl e)"

lemma bind_res_simps [simp, res_simps]:
  "bind_res (Inl e) f = Inl e"
  "bind_res (Inr x) f = f x"
  by (simp_all add: bind_res_def)

lemma bind_res_Inr_iff [res_simps]:
  "bind_res m f = Inr y \<longleftrightarrow> (\<exists>x. m = Inr x \<and> f x = Inr y)"
  by (cases m) auto

lemma bind_res_Inl_iff [res_simps]:
  "bind_res m f = Inl e \<longleftrightarrow> m = Inl e \<or> (\<exists>x. m = Inr x \<and> f x = Inl e)"
  by (cases m) auto

lemma guard_Inr_iff [simp, res_simps]: "guard b e = Inr u \<longleftrightarrow> b"
  by (simp add: guard_def)

lemma guard_Inl_iff [simp, res_simps]: "guard b e = Inl e' \<longleftrightarrow> \<not> b \<and> e' = e"
  by (auto simp: guard_def)

lemma bind_guard [simp]: "bind_res (guard b e) f = (if b then f () else Inl e)"
  by (simp add: guard_def)

text \<open>A reason appended under a condition, and \<open>list(dict.fromkeys(xs))\<close>.\<close>

definition flag :: "bool \<Rightarrow> 'a \<Rightarrow> 'a list" where
  "flag b x = (if b then [x] else [])"

definition fromkeys :: "'a list \<Rightarrow> 'a list" where
  "fromkeys xs = rev (remdups (rev xs))"

lemma flag_Nil [simp]: "flag b x = [] \<longleftrightarrow> \<not> b"
  by (simp add: flag_def)

lemma fromkeys_Nil [simp]: "fromkeys xs = [] \<longleftrightarrow> xs = []" "set (fromkeys xs) = set xs" "distinct (fromkeys xs)"
  by (simp_all add: fromkeys_def)

text \<open>A loop that collects results and ends at the first exception.\<close>

fun map_res :: "('a \<Rightarrow> 'e + 'b) \<Rightarrow> 'a list \<Rightarrow> 'e + 'b list" where
  "map_res f [] = Inr []"
| "map_res f (x # xs) = bind_res (f x) (\<lambda>y. bind_res (map_res f xs) (\<lambda>ys. Inr (y # ys)))"

lemma map_res_Inr: "map_res f xs = Inr ys \<longleftrightarrow> list_all2 (\<lambda>x y. f x = Inr y) xs ys"
  by (induction xs arbitrary: ys) (auto simp: bind_res_Inr_iff list_all2_Cons1)

lemma map_res_set: "map_res f xs = Inr ys \<Longrightarrow> set ys = {y. \<exists>x\<in>set xs. f x = Inr y}"
  unfolding map_res_Inr by (induction rule: list_all2_induct) auto

lemma map_res_total: "(\<And>x. x \<in> set xs \<Longrightarrow> \<exists>y. f x = Inr y) \<Longrightarrow> \<exists>ys. map_res f xs = Inr ys"
  by (induction xs) fastforce+

lemma map_res_map:
  "map_res f xs = Inr ys \<Longrightarrow> (\<And>x y. f x = Inr y \<Longrightarrow> g y = h x) \<Longrightarrow> map g ys = map h xs"
  unfolding map_res_Inr by (induction rule: list_all2_induct) auto

text \<open>
  A step that reads and writes a state \<open>'s\<close> and may raise: what it wrote before raising stays.
\<close>

type_synonym ('s, 'e, 'a) act = "'s \<Rightarrow> ('e + 'a) \<times> 's"

definition act_bind :: "('s, 'e, 'a) act \<Rightarrow> ('a \<Rightarrow> ('s, 'e, 'b) act) \<Rightarrow> ('s, 'e, 'b) act" where
  "act_bind m f = (\<lambda>s. case m s of (Inl e, s') \<Rightarrow> (Inl e, s') | (Inr x, s') \<Rightarrow> f x s')"

definition act_return :: "'a \<Rightarrow> ('s, 'e, 'a) act" where
  "act_return x = (\<lambda>s. (Inr x, s))"

definition act_raise :: "'e \<Rightarrow> ('s, 'e, 'a) act" where
  "act_raise e = (\<lambda>s. (Inl e, s))"

definition act_read :: "('s \<Rightarrow> 'e + 'a) \<Rightarrow> ('s, 'e, 'a) act" where
  "act_read f = (\<lambda>s. (f s, s))"

named_theorems act_simps \<open>evaluation rules of state-and-error steps\<close>

lemma act_eval [act_simps]:
  "act_return x s = (Inr x, s)"
  "act_raise e s = (Inl e, s)"
  "act_read f s = (f s, s)"
  by (simp_all add: act_return_def act_raise_def act_read_def)

lemma act_bind_eval [act_simps]:
  "act_bind m f s = (case m s of (r, s') \<Rightarrow> case r of Inl e \<Rightarrow> (Inl e, s') | Inr x \<Rightarrow> f x s')"
  by (simp add: act_bind_def split: prod.split sum.split)

text \<open>A relation between the states before and after a step, closed under sequencing.\<close>

definition act_rel :: "('s \<Rightarrow> 's \<Rightarrow> bool) \<Rightarrow> ('s, 'e, 'a) act \<Rightarrow> bool" where
  "act_rel R m \<longleftrightarrow> (\<forall>s. R s (snd (m s)))"

lemma act_rel_read: "(\<And>s. R s s) \<Longrightarrow> act_rel R (act_read f)"
  by (simp add: act_rel_def act_simps)

lemma act_rel_return: "(\<And>s. R s s) \<Longrightarrow> act_rel R (act_return x)"
  by (simp add: act_rel_def act_simps)

lemma act_rel_raise: "(\<And>s. R s s) \<Longrightarrow> act_rel R (act_raise e)"
  by (simp add: act_rel_def act_simps)

lemma act_rel_bind:
  "(\<And>s t u. R s t \<Longrightarrow> R t u \<Longrightarrow> R s u) \<Longrightarrow> act_rel R m \<Longrightarrow> (\<And>x. act_rel R (f x)) \<Longrightarrow>
     act_rel R (act_bind m f)"
  unfolding act_rel_def by (auto simp: act_simps split: prod.split sum.split) (metis snd_conv)+

subsection \<open>Values\<close>

text \<open>
  A finite float is the rational number it denotes (Python compares floats and integers by
  exactly that number); the three other JSON floats are constructors of their own.
\<close>

datatype pyfloat = Fin rat | PosInf | NegInf | NaN

datatype pyval =
    PNone
  | PBool bool
  | PInt int
  | PFloat pyfloat
  | PStr string
  | PList "pyval list"
  | PDict "(string \<times> pyval) list"

text \<open>\<open>bool(v)\<close>\<close>

fun truthy :: "pyval \<Rightarrow> bool" where
  "truthy PNone = False"
| "truthy (PBool b) = b"
| "truthy (PInt i) = (i \<noteq> 0)"
| "truthy (PFloat f) = (f \<noteq> Fin 0)"
| "truthy (PStr s) = (s \<noteq> [])"
| "truthy (PList xs) = (xs \<noteq> [])"
| "truthy (PDict d) = (d \<noteq> [])"

text \<open>\<open>isinstance\<close> tests; in Python a \<open>bool\<close> is an \<open>int\<close>.\<close>

fun is_int :: "pyval \<Rightarrow> bool" where
  "is_int (PInt _) = True"
| "is_int (PBool _) = True"
| "is_int _ = False"

fun is_bool :: "pyval \<Rightarrow> bool" where
  "is_bool (PBool _) = True"
| "is_bool _ = False"

fun is_str :: "pyval \<Rightarrow> bool" where
  "is_str (PStr _) = True"
| "is_str _ = False"

fun is_list :: "pyval \<Rightarrow> bool" where
  "is_list (PList _) = True"
| "is_list _ = False"

fun is_dict :: "pyval \<Rightarrow> bool" where
  "is_dict (PDict _) = True"
| "is_dict _ = False"

text \<open>The integer behind an \<open>int\<close> (or \<open>bool\<close>) value.\<close>

fun as_int :: "pyval \<Rightarrow> int option" where
  "as_int (PInt i) = Some i"
| "as_int (PBool b) = Some (if b then 1 else 0)"
| "as_int _ = None"

text \<open>\<open>v.get(k)\<close> and \<open>v.get(k, default)\<close> of a mapping.\<close>

fun pget :: "pyval \<Rightarrow> string \<Rightarrow> pyval option" where
  "pget (PDict d) k = map_of d k"
| "pget _ k = None"

definition dict_get :: "(string \<times> pyval) list \<Rightarrow> string \<Rightarrow> pyval \<Rightarrow> pyval" where
  "dict_get d k dflt = (case map_of d k of None \<Rightarrow> dflt | Some v \<Rightarrow> v)"

lemma dict_get_simps [simp]:
  "map_of d k = None \<Longrightarrow> dict_get d k x = x"
  "map_of d k = Some v \<Longrightarrow> dict_get d k x = v"
  by (simp_all add: dict_get_def)

lemma update_same: "map_of d k = Some v \<Longrightarrow> AList.update k v d = d"
  by (induction d) (auto split: if_splits)

lemma map_of_update [simp]: "map_of (AList.update k v d) k' = (if k' = k then Some v else map_of d k')"
  by (simp add: update_conv)

lemma dict_get_update [simp]:
  "dict_get (AList.update k v d) k' x = (if k' = k then v else dict_get d k' x)"
  by (simp add: dict_get_def)

subsection \<open>Strings\<close>

text \<open>\<open>str.isspace\<close> of one character, below code point 256.\<close>

definition py_space :: "char \<Rightarrow> bool" where
  "py_space c \<longleftrightarrow> (let n = of_char c :: nat in
     9 \<le> n \<and> n \<le> 13 \<or> 28 \<le> n \<and> n \<le> 32 \<or> n = 133 \<or> n = 160)"

definition lstrip :: "string \<Rightarrow> string" where
  "lstrip s = dropWhile py_space s"

definition strip :: "string \<Rightarrow> string" where
  "strip s = rev (dropWhile py_space (rev (dropWhile py_space s)))"

definition starts_with :: "string \<Rightarrow> string \<Rightarrow> bool" where
  "starts_with s p \<longleftrightarrow> take (length p) s = p"

definition ends_with :: "string \<Rightarrow> string \<Rightarrow> bool" where
  "ends_with s p \<longleftrightarrow> length p \<le> length s \<and> drop (length s - length p) s = p"

text \<open>\<open>str.lower\<close> below code point 256.\<close>

definition lower_char :: "char \<Rightarrow> char" where
  "lower_char c = (let n = of_char c :: nat in
     if 65 \<le> n \<and> n \<le> 90 \<or> 192 \<le> n \<and> n \<le> 222 \<and> n \<noteq> 215 then char_of (n + 32) else c)"

definition lower :: "string \<Rightarrow> string" where
  "lower s = map lower_char s"

text \<open>\<open>s.split(c)\<close> for a one-character separator: always at least one piece.\<close>

fun split_on :: "char \<Rightarrow> string \<Rightarrow> string list" where
  "split_on c [] = [[]]"
| "split_on c (x # xs) =
     (if x = c then [] # split_on c xs
      else (case split_on c xs of [] \<Rightarrow> [[x]] | p # ps \<Rightarrow> (x # p) # ps))"

text \<open>\<open>s.partition(c)\<close> for a one-character separator: \<open>(head, found, tail)\<close>.\<close>

fun partition_on :: "char \<Rightarrow> string \<Rightarrow> string \<times> bool \<times> string" where
  "partition_on c [] = ([], False, [])"
| "partition_on c (x # xs) =
     (if x = c then ([], True, xs)
      else (case partition_on c xs of (h, f, t) \<Rightarrow> (x # h, f, t)))"

text \<open>\<open>sep.join(pieces)\<close>\<close>

fun join_with :: "string \<Rightarrow> string list \<Rightarrow> string" where
  "join_with sep [] = []"
| "join_with sep [p] = p"
| "join_with sep (p # q # ps) = p @ sep @ join_with sep (q # ps)"

lemma split_on_ne [simp]: "split_on c s \<noteq> []"
  by (induction s) (auto split: list.split)

lemma join_with_Cons_char: "join_with sep ((x # p) # ps) = x # join_with sep (p # ps)"
  by (cases ps) auto

lemma join_split [simp]: "join_with [c] (split_on c s) = s"
proof (induction s)
  case (Cons x xs)
  obtain p ps where "split_on c xs = p # ps"
    by (cases "split_on c xs") simp_all
  with Cons.IH show ?case by (auto simp: join_with_Cons_char)
qed simp

lemma split_on_no_sep: "p \<in> set (split_on c s) \<Longrightarrow> c \<notin> set p"
  by (induction s arbitrary: p) (force split: if_splits list.splits)+

lemma partition_on_recombine:
  "partition_on c s = (h, f, t) \<Longrightarrow> s = h @ (if f then c # t else []) \<and> c \<notin> set h \<and> (\<not> f \<longrightarrow> t = [])"
  by (induction s arbitrary: h f t) (auto split: if_splits prod.splits)

text \<open>
  \<open>int(s)\<close> of a string: surrounding whitespace, one optional sign, decimal digits with single
  underscores between digits.  \<open>None\<close> is \<open>ValueError\<close>.
\<close>

definition digit_val :: "char \<Rightarrow> nat option" where
  "digit_val c = (let n = of_char c :: nat in if 48 \<le> n \<and> n \<le> 57 then Some (n - 48) else None)"

fun int_digits :: "nat \<Rightarrow> string \<Rightarrow> nat option" where
  "int_digits acc [] = Some acc"
| "int_digits acc (c # cs) =
     (case digit_val c of
        Some d \<Rightarrow> int_digits (10 * acc + d) cs
      | None \<Rightarrow>
          (if c = CHR ''_'' then
             (case cs of [] \<Rightarrow> None
              | c' # cs' \<Rightarrow> (case digit_val c' of None \<Rightarrow> None
                            | Some d \<Rightarrow> int_digits (10 * acc + d) cs'))
           else None))"

definition unsigned_of_str :: "string \<Rightarrow> nat option" where
  "unsigned_of_str s = (case s of [] \<Rightarrow> None
     | c # cs \<Rightarrow> (case digit_val c of None \<Rightarrow> None | Some d \<Rightarrow> int_digits d cs))"

definition int_of_str :: "string \<Rightarrow> int option" where
  "int_of_str s = (case strip s of
       [] \<Rightarrow> None
     | c # cs \<Rightarrow>
         if c = CHR ''-'' then map_option (\<lambda>n. - int n) (unsigned_of_str cs)
         else if c = CHR ''+'' then map_option int (unsigned_of_str cs)
         else map_option int (unsigned_of_str (c # cs)))"

text \<open>
  \<open>int(str(v))\<close>: only an integer and a string can succeed; \<open>str\<close> of every other value starts
  with a letter or a bracket, or (a finite float) holds a point or an exponent.
\<close>

fun int_of_str_of :: "pyval \<Rightarrow> int option" where
  "int_of_str_of (PInt i) = Some i"
| "int_of_str_of (PStr s) = int_of_str s"
| "int_of_str_of _ = None"

subsection \<open>Lists\<close>

text \<open>
  Grouping a list by a key and reading the groups back in any duplicate-free order of the keys
  loses and repeats nothing.
\<close>

lemma mset_concat_groups:
  assumes "distinct ks" and "set (map f xs) \<subseteq> set ks"
  shows "mset (concat (map (\<lambda>k. filter (\<lambda>x. f x = k) xs) ks)) = mset xs"
  using assms
proof (induction ks arbitrary: xs)
  case Nil
  then show ?case by simp
next
  case (Cons k ks)
  let ?rest = "filter (\<lambda>x. f x \<noteq> k) xs"
  let ?groups = "\<lambda>ys. concat (map (\<lambda>k. filter (\<lambda>x. f x = k) ys) ks)"
  have "filter (\<lambda>x. f x = k') xs = filter (\<lambda>x. f x = k') ?rest" if "k' \<in> set ks" for k'
    using that Cons.prems(1) by (auto intro: filter_cong)
  then have same: "?groups xs = ?groups ?rest"
    by (intro arg_cong [where f = concat] map_cong) auto
  have "mset (?groups ?rest) = mset ?rest"
    using Cons.prems by (intro Cons.IH) auto
  then have "mset (?groups xs) = filter_mset (\<lambda>x. f x \<noteq> k) (mset xs)"
    by (simp only: same mset_filter)
  moreover have "mset xs = filter_mset (\<lambda>x. f x = k) (mset xs) + filter_mset (\<lambda>x. f x \<noteq> k) (mset xs)"
    by (rule multiset_partition)
  ultimately show ?case by simp
qed

lemma map_of_sort_key: "distinct (map fst v) \<Longrightarrow> map_of (sort_key fst v) = map_of v"
  by (metis map_of_eqI mset_sort mset_map mset_eq_imp_distinct_iff mset_eq_setD map_of_inject_set set_mset_mset)

lemma set_map_filter: "set (List.map_filter f xs) = {y. \<exists>x\<in>set xs. f x = Some y}"
  by (induction xs) (auto simp: List.map_filter_simps split: option.split)

lemma sort_remdups_eq: "set xs = set ys \<Longrightarrow> sort (remdups xs) = sort (remdups ys)"
  by (metis sorted_list_of_set_sort_remdups)

end
