(* ===== verification/Py_Fnmatch.thy ===== *)
theory Py_Fnmatch
  imports Py_Prelude
begin

text \<open>
  \<open>fnmatch.fnmatch\<close> of the Python standard library on a POSIX host (no case folding): \<open>*\<close> matches
  any run of characters, the slash included, \<open>?\<close> one character, \<open>[...]\<close> one character of a class
  and \<open>[!...]\<close> one outside it.  A bracket that is never closed is a literal.  In a class, \<open>a-b\<close>
  is a range (an empty one matches nothing) and a dash with no partner is itself.  The one corner
  left out is a class that starts with an empty range followed by an exclamation mark.
\<close>

datatype class_item = One char | Range char char

datatype glob = Star | Any | Class bool "class_item list" | Lit char

fun class_items :: "string \<Rightarrow> class_item list" where
  "class_items (a # d # b # rest) =
     (if d = CHR ''-'' then Range a b # class_items rest else One a # class_items (d # b # rest))"
| "class_items (a # rest) = One a # class_items rest"
| "class_items [] = []"

fun item_match :: "char \<Rightarrow> class_item \<Rightarrow> bool" where
  "item_match c (One a) = (c = a)"
| "item_match c (Range a b) = (a \<le> c \<and> c \<le> b)"

text \<open>
  The body of a class, after the bracket: the closing bracket is not looked for at the first
  position (nor right after the exclamation mark).
\<close>

definition upto_close :: "string \<Rightarrow> (string \<times> string) option" where
  "upto_close s = (case dropWhile (\<lambda>c. c \<noteq> CHR '']'') s of
      [] \<Rightarrow> None
    | _ # rest \<Rightarrow> Some (takeWhile (\<lambda>c. c \<noteq> CHR '']'') s, rest))"

definition class_first :: "string \<Rightarrow> (string \<times> string) option" where
  "class_first s = (case s of
      [] \<Rightarrow> None
    | c # s' \<Rightarrow>
        if c = CHR '']'' then map_option (\<lambda>(b, r). (c # b, r)) (upto_close s')
        else upto_close s)"

definition class_body :: "string \<Rightarrow> (bool \<times> string \<times> string) option" where
  "class_body s = (case s of
      [] \<Rightarrow> None
    | c # s' \<Rightarrow>
        if c = CHR ''!'' then map_option (\<lambda>(b, r). (True, b, r)) (class_first s')
        else map_option (\<lambda>(b, r). (False, b, r)) (class_first s))"

lemma upto_close_shorter: "upto_close s = Some (b, r) \<Longrightarrow> length r < length s"
  using length_dropWhile_le [of "\<lambda>c. c \<noteq> CHR '']''" s]
  by (simp add: upto_close_def split: list.splits)

lemma class_first_shorter: "class_first s = Some (b, r) \<Longrightarrow> length r < length s"
  by (auto simp: class_first_def split: list.splits if_splits dest: upto_close_shorter)

lemma class_body_shorter: "class_body s = Some (neg, b, r) \<Longrightarrow> length r < length s"
  by (auto simp: class_body_def split: list.splits if_splits dest: class_first_shorter)

function glob_of :: "string \<Rightarrow> glob list" where
  "glob_of [] = []"
| "glob_of (c # cs) =
     (if c = CHR ''*'' then Star # glob_of cs
      else if c = CHR ''?'' then Any # glob_of cs
      else if c = CHR ''['' then
        (case class_body cs of
           None \<Rightarrow> Lit c # glob_of cs
         | Some (neg, body, rest) \<Rightarrow> Class neg (class_items body) # glob_of rest)
      else Lit c # glob_of cs)"
  by pat_completeness auto
termination
  by (relation "measure length") (auto dest: class_body_shorter)

fun glob_match :: "glob list \<Rightarrow> string \<Rightarrow> bool" where
  "glob_match [] s = (s = [])"
| "glob_match (Star # g) [] = glob_match g []"
| "glob_match (Star # g) (c # s) = (glob_match g (c # s) \<or> glob_match (Star # g) s)"
| "glob_match (_ # g) [] = False"
| "glob_match (Any # g) (c # s) = glob_match g s"
| "glob_match (Lit a # g) (c # s) = (a = c \<and> glob_match g s)"
| "glob_match (Class neg items # g) (c # s) =
     ((neg \<noteq> list_ex (item_match c) items) \<and> glob_match g s)"

definition fnmatch :: "string \<Rightarrow> string \<Rightarrow> bool" where
  "fnmatch name pat = glob_match (glob_of pat) name"

lemma glob_match_Star: "glob_match (Star # g) s \<longleftrightarrow> (\<exists>k. glob_match g (drop k s))"
proof (induction s)
  case (Cons c s)
  then have "glob_match (Star # g) (c # s) \<longleftrightarrow>
      glob_match g (drop 0 (c # s)) \<or> (\<exists>k. glob_match g (drop (Suc k) (c # s)))"
    by simp
  then show ?case by (metis not0_implies_Suc)
qed simp

end
