(* ===== verification/Recon_Plan.thy ===== *)
theory Recon_Plan
  imports Py_Fnmatch
begin

text \<open>
  \<^verbatim>\<open>bench/scorer/recon_plan.py\<close>: the bounded batch plan of the frozen scope.  The definitions
  follow the module from top to bottom; \<open>plan_acc\<close> is the local state of the loop of
  \<open>build_plan\<close> that its closure \<open>flush\<close> updates.
\<close>

subsection \<open>Tiers\<close>

datatype tier = Critical | Normal | Low

text \<open>\<open>_TIER_ORDER\<close>; the order of the type is the order of the plan.\<close>

fun tier_order :: "tier \<Rightarrow> nat" where
  "tier_order Critical = 0"
| "tier_order Normal = 1"
| "tier_order Low = 2"

lemma tier_order_inject [simp]: "tier_order a = tier_order b \<longleftrightarrow> a = b"
  by (cases a; cases b) auto

instantiation tier :: linorder
begin

definition less_eq_tier :: "tier \<Rightarrow> tier \<Rightarrow> bool" where
  "less_eq_tier a b \<longleftrightarrow> tier_order a \<le> tier_order b"

definition less_tier :: "tier \<Rightarrow> tier \<Rightarrow> bool" where
  "less_tier a b \<longleftrightarrow> tier_order a < tier_order b"

instance
  by standard (auto simp: less_eq_tier_def less_tier_def)

end

definition SINK_DIR_HINTS :: "string list" where
  "SINK_DIR_HINTS =
     [''auth'', ''authz'', ''authn'', ''api'', ''handlers'', ''handler'', ''middleware'',
      ''controllers'', ''controller'', ''routes'', ''router'', ''security'', ''payment'',
      ''payments'', ''billing'', ''db'', ''database'', ''crypto'', ''webhooks'', ''webhook'']"

definition LOW_PRIORITY_DIR_HINTS :: "string list" where
  "LOW_PRIORITY_DIR_HINTS =
     [''docs'', ''doc'', ''documentation'', ''assets'', ''static'', ''public'', ''images'', ''img'']"

definition is_large_repo_mode :: "int \<Rightarrow> int \<Rightarrow> bool" where
  "is_large_repo_mode file_count threshold \<longleftrightarrow> file_count > threshold"

definition top_level_dir :: "string \<Rightarrow> string" where
  "top_level_dir path = (case partition_on (CHR ''/'') path of
     (head, sep, _) \<Rightarrow> if sep then head else ''.'')"

definition classify_tier :: "string \<Rightarrow> tier" where
  "classify_tier directory =
     (if directory = ''.'' then Normal
      else
        let segments = map lower (filter (\<lambda>seg. seg \<noteq> []) (split_on (CHR ''/'') directory))
        in if list_ex (\<lambda>s. s \<in> set SINK_DIR_HINTS) segments then Critical
           else if list_ex (\<lambda>s. s \<in> set LOW_PRIORITY_DIR_HINTS) segments then Low
           else Normal)"

definition is_excluded :: "string \<Rightarrow> string list \<Rightarrow> bool" where
  "is_excluded path exclude_globs \<longleftrightarrow> list_ex (fnmatch path) exclude_globs"

subsection \<open>Sizes and batches\<close>

definition positive_int :: "pyval \<Rightarrow> int \<Rightarrow> int" where
  "positive_int v dflt = (case int_of_str_of v of
     None \<Rightarrow> dflt
   | Some parsed \<Rightarrow> if parsed > 0 then parsed else dflt)"

text \<open>A size as the loop of \<open>_normalized_file_sizes\<close> computes it from \<open>source.get(path)\<close>.\<close>

definition normalized_size :: "pyval option \<Rightarrow> int option" where
  "normalized_size v = (case v of
     None \<Rightarrow> None
   | Some x \<Rightarrow>
       if is_bool x then None
       else (case int_of_str_of x of None \<Rightarrow> None
             | Some parsed \<Rightarrow> if parsed \<ge> 0 then Some parsed else None))"

definition normalized_file_sizes :: "string list \<Rightarrow> pyval \<Rightarrow> (string \<times> int option) list" where
  "normalized_file_sizes files file_sizes =
     map (\<lambda>path. (path, normalized_size (pget file_sizes path))) files"

definition size_of :: "(string \<times> int option) list \<Rightarrow> string \<Rightarrow> int option" where
  "size_of sizes path = (case map_of sizes path of None \<Rightarrow> None | Some s \<Rightarrow> s)"

record batch =
  batch_id :: int
  batch_dir :: string
  batch_tier :: tier
  batch_files :: "string list"
  file_count :: nat
  byte_count :: "int option"
  size_status :: string
  oversized :: bool
  missing_size_files :: "string list"
  deferred :: bool

definition is_missing :: "(string \<times> int option) list \<Rightarrow> string \<Rightarrow> bool" where
  "is_missing sizes path \<longleftrightarrow> size_of sizes path = None"

definition is_oversized :: "(string \<times> int option) list \<Rightarrow> int \<Rightarrow> string \<Rightarrow> bool" where
  "is_oversized sizes max_bytes path \<longleftrightarrow>
     (case size_of sizes path of None \<Rightarrow> False | Some n \<Rightarrow> n > max_bytes)"

definition known_bytes :: "(string \<times> int option) list \<Rightarrow> string list \<Rightarrow> int" where
  "known_bytes sizes paths =
     sum_list (map (\<lambda>p. case size_of sizes p of None \<Rightarrow> 0 | Some n \<Rightarrow> n) paths)"

definition mk_batch ::
  "int \<Rightarrow> string \<Rightarrow> tier \<Rightarrow> string list \<Rightarrow> (string \<times> int option) list \<Rightarrow> int \<Rightarrow> batch" where
  "mk_batch bid directory t paths sizes max_bytes =
     (let missing = filter (is_missing sizes) paths;
          over = filter (is_oversized sizes max_bytes) paths
      in \<lparr> batch_id = bid, batch_dir = directory, batch_tier = t, batch_files = paths,
           file_count = length paths,
           byte_count = (if missing \<noteq> [] then None else Some (known_bytes sizes paths)),
           size_status = (if missing \<noteq> [] then ''missing''
                          else if over \<noteq> [] then ''oversized'' else ''known''),
           oversized = (over \<noteq> []),
           missing_size_files = missing,
           deferred = False \<rparr>)"

subsection \<open>The loop of build_plan\<close>

record plan_config =
  max_batch_files :: int
  max_batch_bytes :: int
  sizes_of :: "(string \<times> int option) list"
  large_mode :: bool
  first_pass_cap :: int

record plan_acc =
  next_id :: int
  current :: "string list"
  current_bytes :: int
  batches :: "batch list"
  acc_oversized :: "string list"
  acc_missing :: "string list"

definition flush :: "plan_config \<Rightarrow> string \<Rightarrow> plan_acc \<Rightarrow> plan_acc" where
  "flush cfg directory acc =
     (if current acc = [] then acc
      else
        let record0 = mk_batch (next_id acc) directory (classify_tier directory) (current acc)
                        (sizes_of cfg) (max_batch_bytes cfg);
            record1 = record0\<lparr>deferred := large_mode cfg \<and> next_id acc > first_pass_cap cfg\<rparr>
        in acc\<lparr>batches := batches acc @ [record1],
               acc_oversized := acc_oversized acc @
                 filter (is_oversized (sizes_of cfg) (max_batch_bytes cfg)) (current acc),
               acc_missing := acc_missing acc @ filter (is_missing (sizes_of cfg)) (current acc),
               next_id := next_id acc + 1,
               current := [],
               current_bytes := 0\<rparr>)"

text \<open>One round of the inner loop: one path of one directory.\<close>

definition plan_path :: "plan_config \<Rightarrow> string \<Rightarrow> plan_acc \<Rightarrow> string \<Rightarrow> plan_acc" where
  "plan_path cfg directory acc path =
     (case size_of (sizes_of cfg) path of
        None \<Rightarrow> flush cfg directory ((flush cfg directory acc)\<lparr>current := [path]\<rparr>)
      | Some n \<Rightarrow>
          if n > max_batch_bytes cfg
          then flush cfg directory ((flush cfg directory acc)\<lparr>current := [path]\<rparr>)
          else
            let acc1 = (if current acc \<noteq> [] \<and>
                           (int (length (current acc)) \<ge> max_batch_files cfg \<or>
                            current_bytes acc + n > max_batch_bytes cfg)
                        then flush cfg directory acc else acc)
            in acc1\<lparr>current := current acc1 @ [path], current_bytes := current_bytes acc1 + n\<rparr>)"

text \<open>One round of the outer loop: a directory starts with an empty batch and ends with a flush.\<close>

definition plan_dir :: "plan_config \<Rightarrow> plan_acc \<Rightarrow> string \<times> string list \<Rightarrow> plan_acc" where
  "plan_dir cfg acc entry =
     (let directory = fst entry
      in flush cfg directory
           (foldl (plan_path cfg directory) (acc\<lparr>current := [], current_bytes := 0\<rparr>)
              (sort (snd entry))))"

text \<open>\<open>by_dir.setdefault(directory, []).append(path)\<close>\<close>

definition add_by_dir :: "(string \<times> string list) list \<Rightarrow> string \<Rightarrow> (string \<times> string list) list" where
  "add_by_dir by_dir path =
     (let d = top_level_dir path;
          old = (case map_of by_dir d of None \<Rightarrow> [] | Some ps \<Rightarrow> ps)
      in AList.update d (old @ [path]) by_dir)"

definition group_by_dir :: "string list \<Rightarrow> (string \<times> string list) list" where
  "group_by_dir paths = foldl add_by_dir [] paths"

definition ordered_dirs :: "(string \<times> string list) list \<Rightarrow> string list" where
  "ordered_dirs by_dir = sort_key (\<lambda>d. (classify_tier d, d)) (map fst by_dir)"

definition in_scope_files :: "pyval list \<Rightarrow> string list \<Rightarrow> string list" where
  "in_scope_files files exclude_globs =
     sort (remdups (List.map_filter
       (\<lambda>f. case f of PStr s \<Rightarrow> if s \<noteq> [] \<and> \<not> is_excluded s exclude_globs then Some s else None
                     | _ \<Rightarrow> None) files))"

record plan =
  files_in_scope :: nat
  batch_count :: nat
  large_repo_mode :: bool
  budget_batches :: "int option"
  plan_max_batch_files :: int
  plan_max_batch_bytes :: int
  plan_missing_size_files :: "string list"
  plan_oversized_files :: "string list"
  plan_batches :: "batch list"
  covered :: "int list"

definition DEFAULT_MAX_BATCH_FILES :: int where "DEFAULT_MAX_BATCH_FILES = 25"
definition DEFAULT_MAX_BATCH_BYTES :: int where "DEFAULT_MAX_BATCH_BYTES = 131072"

definition plan_config_of ::
  "string list \<Rightarrow> int \<Rightarrow> int \<Rightarrow> pyval \<Rightarrow> pyval \<Rightarrow> pyval \<Rightarrow> plan_config" where
  "plan_config_of in_scope file_threshold first_pass_batch_cap file_sizes mbf mbb =
     \<lparr>max_batch_files = positive_int mbf DEFAULT_MAX_BATCH_FILES,
      max_batch_bytes = positive_int mbb DEFAULT_MAX_BATCH_BYTES,
      sizes_of = normalized_file_sizes in_scope file_sizes,
      large_mode = is_large_repo_mode (int (length in_scope)) file_threshold,
      first_pass_cap = first_pass_batch_cap\<rparr>"

definition plan_loop :: "plan_config \<Rightarrow> string list \<Rightarrow> plan_acc" where
  "plan_loop cfg in_scope =
     (let by_dir = group_by_dir in_scope
      in foldl (plan_dir cfg)
           \<lparr>next_id = 1, current = [], current_bytes = 0, batches = [],
            acc_oversized = [], acc_missing = []\<rparr>
           (map (\<lambda>d. (d, the (map_of by_dir d))) (ordered_dirs by_dir)))"

definition build_plan ::
  "pyval list \<Rightarrow> string list \<Rightarrow> int \<Rightarrow> int \<Rightarrow> pyval \<Rightarrow> pyval \<Rightarrow> pyval \<Rightarrow> plan" where
  "build_plan files exclude_globs file_threshold first_pass_batch_cap file_sizes mbf mbb =
     (let in_scope = in_scope_files files exclude_globs;
          cfg = plan_config_of in_scope file_threshold first_pass_batch_cap file_sizes mbf mbb;
          acc = plan_loop cfg in_scope
      in \<lparr>files_in_scope = length in_scope, batch_count = length (batches acc),
          large_repo_mode = large_mode cfg,
          budget_batches = (if large_mode cfg then Some first_pass_batch_cap else None),
          plan_max_batch_files = max_batch_files cfg, plan_max_batch_bytes = max_batch_bytes cfg,
          plan_missing_size_files = sort (acc_missing acc),
          plan_oversized_files = sort (acc_oversized acc),
          plan_batches = batches acc, covered = []\<rparr>)"

subsection \<open>What one batch promises\<close>

text \<open>
  The files of an ordinary batch have known sizes and respect both caps; every other batch holds
  exactly one file, whose size is unknown or above the byte cap.
\<close>

definition ordinary :: "plan_config \<Rightarrow> string list \<Rightarrow> bool" where
  "ordinary cfg fs \<longleftrightarrow>
     int (length fs) \<le> max_batch_files cfg \<and>
     list_all (\<lambda>p. \<not> is_missing (sizes_of cfg) p \<and>
                   \<not> is_oversized (sizes_of cfg) (max_batch_bytes cfg) p) fs \<and>
     known_bytes (sizes_of cfg) fs \<le> max_batch_bytes cfg"

definition exceptional :: "plan_config \<Rightarrow> string list \<Rightarrow> bool" where
  "exceptional cfg fs \<longleftrightarrow>
     length fs = 1 \<and>
     (is_missing (sizes_of cfg) (hd fs) \<or>
      is_oversized (sizes_of cfg) (max_batch_bytes cfg) (hd fs))"

definition batch_ok :: "plan_config \<Rightarrow> batch \<Rightarrow> bool" where
  "batch_ok cfg b \<longleftrightarrow>
     batch_files b \<noteq> [] \<and>
     (ordinary cfg (batch_files b) \<or> exceptional cfg (batch_files b)) \<and>
     batch_tier b = classify_tier (batch_dir b) \<and>
     file_count b = length (batch_files b) \<and>
     missing_size_files b = filter (is_missing (sizes_of cfg)) (batch_files b) \<and>
     (oversized b \<longleftrightarrow>
        list_ex (is_oversized (sizes_of cfg) (max_batch_bytes cfg)) (batch_files b)) \<and>
     (deferred b \<longleftrightarrow> large_mode cfg \<and> batch_id b > first_pass_cap cfg)"

subsection \<open>The loop keeps the files\<close>

definition seen :: "plan_acc \<Rightarrow> string list" where
  "seen acc = concat (map batch_files (batches acc)) @ current acc"

lemmas plan_defs = flush_def plan_path_def plan_dir_def mk_batch_def Let_def

lemma flush_current [simp]: "current (flush cfg d acc) = []"
  by (simp add: plan_defs)

lemma seen_flush [simp]: "seen (flush cfg d acc) = seen acc"
  by (simp add: plan_defs seen_def)

lemma concat_flush [simp]:
  "concat (map batch_files (batches (flush cfg d acc))) = seen acc"
  using seen_flush [of cfg d acc] by (simp only: seen_def flush_current append_Nil2)

lemma seen_plan_path [simp]: "seen (plan_path cfg d acc p) = seen acc @ [p]"
proof -
  have *: "seen (a\<lparr>current := current a @ [p], current_bytes := n\<rparr>) = seen a @ [p]" for a n
    by (simp add: seen_def)
  have "seen ((flush cfg d acc)\<lparr>current := [p]\<rparr>) = seen acc @ [p]"
    by (simp add: seen_def [of "_\<lparr>current := _\<rparr>"])
  with * show ?thesis
    by (auto simp: plan_path_def Let_def split: option.split)
qed

lemma seen_plan_paths [simp]: "seen (foldl (plan_path cfg d) acc ps) = seen acc @ ps"
  by (induction ps arbitrary: acc) auto

lemma plan_dir_current [simp]: "current (plan_dir cfg acc e) = []"
  by (simp add: plan_dir_def Let_def)

lemma seen_plan_dir: "current acc = [] \<Longrightarrow> seen (plan_dir cfg acc e) = seen acc @ sort (snd e)"
  by (simp add: plan_dir_def Let_def) (simp add: seen_def)

lemma seen_plan_dirs:
  "current acc = [] \<Longrightarrow>
     current (foldl (plan_dir cfg) acc es) = [] \<and>
     seen (foldl (plan_dir cfg) acc es) = seen acc @ concat (map (\<lambda>e. sort (snd e)) es)"
  by (induction es arbitrary: acc) (auto simp: seen_plan_dir)

subsection \<open>The loop keeps the caps\<close>

definition acc_ok :: "plan_config \<Rightarrow> plan_acc \<Rightarrow> bool" where
  "acc_ok cfg acc \<longleftrightarrow>
     list_all (batch_ok cfg) (batches acc) \<and>
     next_id acc = 1 + int (length (batches acc)) \<and>
     map batch_id (batches acc) = map int [1..<Suc (length (batches acc))] \<and>
     acc_missing acc =
       filter (is_missing (sizes_of cfg)) (concat (map batch_files (batches acc))) \<and>
     acc_oversized acc =
       filter (is_oversized (sizes_of cfg) (max_batch_bytes cfg))
         (concat (map batch_files (batches acc)))"

definition current_ok :: "plan_config \<Rightarrow> plan_acc \<Rightarrow> bool" where
  "current_ok cfg acc \<longleftrightarrow>
     ordinary cfg (current acc) \<and>
     current_bytes acc = known_bytes (sizes_of cfg) (current acc)"

lemma filter_ne_iff_list_ex: "filter P xs \<noteq> [] \<longleftrightarrow> list_ex P xs"
  by (induction xs) auto

lemma known_bytes_append [simp]:
  "known_bytes sizes (xs @ ys) = known_bytes sizes xs + known_bytes sizes ys"
  by (simp add: known_bytes_def)

lemma known_bytes_Nil [simp]: "known_bytes sizes [] = 0"
  by (simp add: known_bytes_def)

lemma acc_ok_flush:
  assumes "acc_ok cfg acc" and "ordinary cfg (current acc) \<or> exceptional cfg (current acc)"
  shows "acc_ok cfg (flush cfg d acc)"
  using assms
  by (auto simp: acc_ok_def plan_defs batch_ok_def filter_ne_iff_list_ex)

lemma current_ok_empty:
  assumes "0 < max_batch_files cfg" and "0 < max_batch_bytes cfg"
  shows "current_ok cfg (acc\<lparr>current := [], current_bytes := 0\<rparr>)"
  using assms by (simp add: current_ok_def ordinary_def)

lemma flush_current_bytes: "current_ok cfg acc \<Longrightarrow> current_bytes (flush cfg d acc) = 0"
  by (auto simp: current_ok_def plan_defs)

lemma acc_ok_current_update [simp]: "acc_ok cfg (acc\<lparr>current := c\<rparr>) = acc_ok cfg acc"
  by (simp add: acc_ok_def)

lemma acc_ok_bytes_update [simp]: "acc_ok cfg (acc\<lparr>current_bytes := c\<rparr>) = acc_ok cfg acc"
  by (simp add: acc_ok_def)

lemma flush_current_ok:
  assumes "0 < max_batch_files cfg" and "0 < max_batch_bytes cfg" and "current_ok cfg acc"
  shows "current_ok cfg (flush cfg d acc)"
  using assms flush_current_bytes [OF assms(3)] by (simp add: current_ok_def ordinary_def)

lemma flush_single_bytes:
  "current_bytes (flush cfg d (a\<lparr>current := [p]\<rparr>)) = 0"
  by (simp add: plan_defs)

lemma acc_ok_plan_path:
  assumes caps: "0 < max_batch_files cfg" "0 < max_batch_bytes cfg"
    and ok: "acc_ok cfg acc" "current_ok cfg acc"
  shows "acc_ok cfg (plan_path cfg d acc p) \<and> current_ok cfg (plan_path cfg d acc p)"
proof -
  let ?f = "flush cfg d acc"
  have f: "acc_ok cfg ?f" "current_ok cfg ?f"
    using caps ok by (auto simp: current_ok_def [of cfg acc] intro: acc_ok_flush flush_current_ok)
  have alone: "acc_ok cfg (flush cfg d (?f\<lparr>current := [p]\<rparr>)) \<and>
        current_ok cfg (flush cfg d (?f\<lparr>current := [p]\<rparr>))"
    if "exceptional cfg [p]"
    using that f(1) caps
    by (auto intro!: acc_ok_flush simp: current_ok_def flush_single_bytes ordinary_def)
  have room: "current_ok cfg (a\<lparr>current := current a @ [p], current_bytes := current_bytes a + n\<rparr>)"
    if "size_of (sizes_of cfg) p = Some n" "\<not> n > max_batch_bytes cfg" "current_ok cfg a"
      "current a = [] \<or> \<not> (int (length (current a)) \<ge> max_batch_files cfg \<or>
         current_bytes a + n > max_batch_bytes cfg)" for a n
    using that caps
    by (auto simp: current_ok_def ordinary_def is_missing_def is_oversized_def known_bytes_def)
  show ?thesis
  proof (cases "size_of (sizes_of cfg) p")
    case None
    then have "exceptional cfg [p]" by (simp add: exceptional_def is_missing_def)
    with alone None show ?thesis by (simp add: plan_path_def)
  next
    case (Some n)
    show ?thesis
    proof (cases "n > max_batch_bytes cfg")
      case True
      with Some have "exceptional cfg [p]" by (simp add: exceptional_def is_oversized_def)
      with alone Some True show ?thesis by (simp add: plan_path_def)
    next
      case False
      with Some f ok room [of n ?f] room [of n acc] show ?thesis
        by (auto simp: plan_path_def Let_def)
    qed
  qed
qed

lemma acc_ok_plan_paths:
  assumes "0 < max_batch_files cfg" "0 < max_batch_bytes cfg"
  shows "acc_ok cfg acc \<Longrightarrow> current_ok cfg acc \<Longrightarrow>
    acc_ok cfg (foldl (plan_path cfg d) acc ps) \<and> current_ok cfg (foldl (plan_path cfg d) acc ps)"
  by (induction ps arbitrary: acc) (auto simp: acc_ok_plan_path [OF assms])

lemma acc_ok_plan_dir:
  assumes "0 < max_batch_files cfg" "0 < max_batch_bytes cfg" and "acc_ok cfg acc"
  shows "acc_ok cfg (plan_dir cfg acc e)"
proof -
  let ?a = "foldl (plan_path cfg (fst e)) (acc\<lparr>current := [], current_bytes := 0\<rparr>) (sort (snd e))"
  have "acc_ok cfg ?a \<and> current_ok cfg ?a"
    using assms by (intro acc_ok_plan_paths current_ok_empty) auto
  then show ?thesis
    by (auto simp: plan_dir_def Let_def current_ok_def intro: acc_ok_flush)
qed

lemma acc_ok_plan_dirs:
  assumes "0 < max_batch_files cfg" "0 < max_batch_bytes cfg"
  shows "acc_ok cfg acc \<Longrightarrow> acc_ok cfg (foldl (plan_dir cfg) acc es)"
  by (induction es arbitrary: acc) (auto simp: acc_ok_plan_dir [OF assms])


subsection \<open>Groups and their order\<close>

lemma map_of_add_by_dir:
  "map_of (add_by_dir g p) d =
     (if d = top_level_dir p
      then Some ((case map_of g d of None \<Rightarrow> [] | Some ps \<Rightarrow> ps) @ [p]) else map_of g d)"
  by (simp add: add_by_dir_def Let_def update_conv)

lemma keys_add_by_dir: "set (map fst (add_by_dir g p)) = insert (top_level_dir p) (set (map fst g))"
  by (simp add: add_by_dir_def Let_def dom_update)

lemma distinct_add_by_dir:
  "distinct (map fst g) \<Longrightarrow> distinct (map fst (add_by_dir g p))"
  by (simp add: add_by_dir_def Let_def distinct_update)

lemma group_by_dir_general:
  "distinct (map fst g) \<Longrightarrow>
     distinct (map fst (foldl add_by_dir g ps)) \<and>
     set (map fst (foldl add_by_dir g ps)) = set (map fst g) \<union> top_level_dir ` set ps \<and>
     (\<forall>d. d \<in> set (map fst g) \<union> top_level_dir ` set ps \<longrightarrow>
        map_of (foldl add_by_dir g ps) d =
          Some ((case map_of g d of None \<Rightarrow> [] | Some qs \<Rightarrow> qs) @
                filter (\<lambda>p. top_level_dir p = d) ps))"
proof (induction ps arbitrary: g)
  case Nil
  then show ?case by (auto dest: map_of_is_SomeI simp flip: dom_map_of_conv_image_fst split: option.split)
next
  case (Cons p ps)
  from Cons.IH [of "add_by_dir g p"] Cons.prems show ?case
    by (auto simp: distinct_add_by_dir keys_add_by_dir [simplified] map_of_add_by_dir)
qed

lemma group_by_dir:
  "distinct (map fst (group_by_dir ps))"
  "set (map fst (group_by_dir ps)) = top_level_dir ` set ps"
  "d \<in> top_level_dir ` set ps \<Longrightarrow>
     map_of (group_by_dir ps) d = Some (filter (\<lambda>p. top_level_dir p = d) ps)"
  using group_by_dir_general [of "[]" ps] by (simp_all add: group_by_dir_def)

lemma ordered_dirs:
  "distinct (map fst g) \<Longrightarrow> distinct (ordered_dirs g)"
  "set (ordered_dirs g) = set (map fst g)"
  "sorted (map (\<lambda>d. (classify_tier d, d)) (ordered_dirs g))"
  by (simp_all add: ordered_dirs_def)

text \<open>The batches of one directory are appended, and carry its name and its tier.\<close>

lemma flush_appends:
  "\<exists>new. batches (flush cfg d acc) = batches acc @ new \<and> (\<forall>b\<in>set new. batch_dir b = d)"
  by (auto simp: plan_defs)

lemma plan_path_appends:
  "\<exists>new. batches (plan_path cfg d acc p) = batches acc @ new \<and> (\<forall>b\<in>set new. batch_dir b = d)"
proof -
  have "\<exists>new. batches (flush cfg d ((flush cfg d acc)\<lparr>current := [p]\<rparr>)) = batches acc @ new \<and>
      (\<forall>b\<in>set new. batch_dir b = d)"
    using flush_appends [of cfg d acc] flush_appends [of cfg d "(flush cfg d acc)\<lparr>current := [p]\<rparr>"]
    by fastforce
  then show ?thesis
    using flush_appends [of cfg d acc]
    by (auto simp: plan_path_def Let_def split: option.split)
qed

lemma plan_paths_appends:
  "\<exists>new. batches (foldl (plan_path cfg d) acc ps) = batches acc @ new \<and>
     (\<forall>b\<in>set new. batch_dir b = d)"
proof (induction ps arbitrary: acc)
  case (Cons p ps)
  from Cons [of "plan_path cfg d acc p"] plan_path_appends [of cfg d acc p] show ?case
    by fastforce
qed simp

lemma plan_dir_appends:
  "current acc = [] \<Longrightarrow> \<exists>new. batches (plan_dir cfg acc e) = batches acc @ new \<and>
     (\<forall>b\<in>set new. batch_dir b = fst e) \<and> concat (map batch_files new) = sort (snd e)"
proof -
  assume cur: "current acc = []"
  let ?a = "foldl (plan_path cfg (fst e)) (acc\<lparr>current := [], current_bytes := 0\<rparr>) (sort (snd e))"
  from plan_paths_appends [of cfg "fst e" "acc\<lparr>current := [], current_bytes := 0\<rparr>" "sort (snd e)"]
    flush_appends [of cfg "fst e" ?a]
  obtain new where new: "batches (plan_dir cfg acc e) = batches acc @ new"
    "\<forall>b\<in>set new. batch_dir b = fst e"
    by (fastforce simp: plan_dir_def Let_def)
  with cur seen_plan_dir [OF cur, of cfg e] have "concat (map batch_files new) = sort (snd e)"
    by (simp add: seen_def)
  with new show ?thesis by blast
qed

lemma plan_dirs_in_dir:
  assumes "\<forall>e\<in>set es. \<forall>p\<in>set (snd e). top_level_dir p = fst e"
    and "current acc = []"
    and "\<forall>b\<in>set (batches acc). \<forall>p\<in>set (batch_files b). top_level_dir p = batch_dir b"
  shows "\<forall>b\<in>set (batches (foldl (plan_dir cfg) acc es)).
           \<forall>p\<in>set (batch_files b). top_level_dir p = batch_dir b"
  using assms
proof (induction es arbitrary: acc)
  case Nil
  then show ?case by simp
next
  case (Cons e es)
  obtain new where new: "batches (plan_dir cfg acc e) = batches acc @ new"
    "\<forall>b\<in>set new. batch_dir b = fst e" "concat (map batch_files new) = sort (snd e)"
    using plan_dir_appends Cons.prems(2) by blast
  have "set (batch_files b) \<subseteq> set (snd e)" if "b \<in> set new" for b
    using that arg_cong [OF new(3), of set] by auto
  with new(1,2) Cons.prems
  have "\<forall>b\<in>set (batches (plan_dir cfg acc e)). \<forall>p\<in>set (batch_files b). top_level_dir p = batch_dir b"
    by fastforce
  with Cons.prems Cons.IH [of "plan_dir cfg acc e"] show ?case by simp
qed

lemma plan_dirs_sorted:
  fixes f :: "string \<Rightarrow> tier \<times> string"
  assumes "sorted (map f (map fst es))" and "current acc = []"
    and "sorted (map f (map batch_dir (batches acc)))"
    and "\<forall>b\<in>set (batches acc). \<forall>e\<in>set es. f (batch_dir b) \<le> f (fst e)"
  shows "sorted (map f (map batch_dir (batches (foldl (plan_dir cfg) acc es))))"
  using assms
proof (induction es arbitrary: acc)
  case Nil
  then show ?case by simp
next
  case (Cons e es)
  obtain new where new: "batches (plan_dir cfg acc e) = batches acc @ new"
    "\<forall>b\<in>set new. batch_dir b = fst e"
    using plan_dir_appends Cons.prems(2) by blast
  have "map f (map batch_dir new) = replicate (length new) (f (fst e))"
    using new(2) by (auto intro: replicate_eqI)
  then have "sorted (map f (map batch_dir (batches (plan_dir cfg acc e))))"
    using Cons.prems new by (auto simp: sorted_append)
  moreover have "\<forall>b\<in>set (batches (plan_dir cfg acc e)). \<forall>e'\<in>set es. f (batch_dir b) \<le> f (fst e')"
    using Cons.prems new by auto
  ultimately have "sorted (map f (map batch_dir (batches (foldl (plan_dir cfg) (plan_dir cfg acc e) es))))"
    using Cons.prems by (intro Cons.IH) auto
  then show ?case by simp
qed

subsection \<open>The whole loop\<close>

lemma positive_int_pos [simp]: "0 < dflt \<Longrightarrow> 0 < positive_int v dflt"
  by (auto simp: positive_int_def split: option.split)

lemma plan_config_caps [simp]:
  "0 < max_batch_files (plan_config_of fs t c sz mbf mbb)"
  "0 < max_batch_bytes (plan_config_of fs t c sz mbf mbb)"
  by (simp_all add: plan_config_of_def DEFAULT_MAX_BATCH_FILES_def DEFAULT_MAX_BATCH_BYTES_def)

lemma acc_ok_plan_loop:
  "acc_ok (plan_config_of fs t c sz mbf mbb) (plan_loop (plan_config_of fs t c sz mbf mbb) ps)"
  unfolding plan_loop_def Let_def
  by (rule acc_ok_plan_dirs) (simp_all add: acc_ok_def)

lemma dir_entries:
  "map (\<lambda>d. (d, the (map_of (group_by_dir ps) d))) (ordered_dirs (group_by_dir ps)) =
   map (\<lambda>d. (d, filter (\<lambda>p. top_level_dir p = d) ps)) (ordered_dirs (group_by_dir ps))"
proof (rule map_cong [OF refl])
  fix d assume "d \<in> set (ordered_dirs (group_by_dir ps))"
  then have "d \<in> top_level_dir ` set ps" by (simp only: ordered_dirs group_by_dir)
  then show "(d, the (map_of (group_by_dir ps) d)) = (d, filter (\<lambda>p. top_level_dir p = d) ps)"
    by (simp only: group_by_dir option.sel)
qed

lemma plan_loop_eq:
  "plan_loop cfg ps =
     foldl (plan_dir cfg)
       \<lparr>next_id = 1, current = [], current_bytes = 0, batches = [], acc_oversized = [], acc_missing = []\<rparr>
       (map (\<lambda>d. (d, filter (\<lambda>p. top_level_dir p = d) ps)) (ordered_dirs (group_by_dir ps)))"
  by (simp only: plan_loop_def Let_def dir_entries)

lemma plan_loop_current: "current (plan_loop cfg ps) = []"
  unfolding plan_loop_def Let_def using seen_plan_dirs by auto

lemma mset_plan_loop: "mset (concat (map batch_files (batches (plan_loop cfg ps)))) = mset ps"
proof -
  let ?ds = "ordered_dirs (group_by_dir ps)"
  let ?grp = "\<lambda>d. filter (\<lambda>p. top_level_dir p = d) ps"
  have "concat (map batch_files (batches (plan_loop cfg ps))) = seen (plan_loop cfg ps)"
    by (simp add: seen_def plan_loop_current)
  also have "\<dots> = concat (map (\<lambda>e. sort (snd e)) (map (\<lambda>d. (d, ?grp d)) ?ds))"
    unfolding plan_loop_eq by (subst seen_plan_dirs [THEN conjunct2]) (simp_all add: seen_def)
  also have "\<dots> = concat (map (\<lambda>d. sort (?grp d)) ?ds)"
    by (simp add: comp_def)
  also have "mset \<dots> = mset (concat (map ?grp ?ds))"
    by (simp add: mset_concat comp_def)
  also have "\<dots> = mset ps"
  proof (rule mset_concat_groups)
    show "set (map top_level_dir ps) \<subseteq> set ?ds"
      unfolding ordered_dirs(2) group_by_dir(2) by simp
  qed (simp only: ordered_dirs group_by_dir)
  finally show ?thesis .
qed

lemma sorted_plan_loop:
  "sorted (map (\<lambda>b. (classify_tier (batch_dir b), batch_dir b)) (batches (plan_loop cfg ps)))"
proof -
  let ?f = "\<lambda>d. (classify_tier d, d)"
  have "sorted (map ?f (map batch_dir (batches (plan_loop cfg ps))))"
    unfolding plan_loop_eq
    by (rule plan_dirs_sorted) (simp_all add: comp_def ordered_dirs)
  then show ?thesis by (simp add: comp_def)
qed

lemma plan_loop_in_dir:
  "b \<in> set (batches (plan_loop cfg ps)) \<Longrightarrow> p \<in> set (batch_files b) \<Longrightarrow> top_level_dir p = batch_dir b"
proof -
  have "\<forall>b\<in>set (batches (plan_loop cfg ps)). \<forall>p\<in>set (batch_files b). top_level_dir p = batch_dir b"
    unfolding plan_loop_eq by (rule plan_dirs_in_dir) auto
  then show "b \<in> set (batches (plan_loop cfg ps)) \<Longrightarrow> p \<in> set (batch_files b) \<Longrightarrow>
      top_level_dir p = batch_dir b"
    by blast
qed

lemma set_in_scope_files:
  "set (in_scope_files files globs) = {p. PStr p \<in> set files \<and> p \<noteq> [] \<and> \<not> is_excluded p globs}"
proof -
  let ?pick = "\<lambda>f. case f of PStr s \<Rightarrow> if s \<noteq> [] \<and> \<not> is_excluded s globs then Some s else None | _ \<Rightarrow> None"
  have "?pick f = Some p \<longleftrightarrow> f = PStr p \<and> p \<noteq> [] \<and> \<not> is_excluded p globs" for f p
    by (cases f) auto
  then have "set (in_scope_files files globs) =
      {y. \<exists>f\<in>set files. f = PStr y \<and> y \<noteq> [] \<and> \<not> is_excluded y globs}"
    by (simp only: in_scope_files_def set_sort set_remdups set_map_filter)
  then show ?thesis by auto
qed

lemma distinct_in_scope_files [simp]: "distinct (in_scope_files files globs)"
  by (simp add: in_scope_files_def)

lemma build_plan_batches:
  "plan_batches (build_plan files globs t c sz mbf mbb) =
     batches (plan_loop (plan_config_of (in_scope_files files globs) t c sz mbf mbb)
       (in_scope_files files globs))"
  by (simp add: build_plan_def Let_def)


lemma build_plan_reports:
  "plan_max_batch_bytes (build_plan files globs t c sz mbf mbb) =
     max_batch_bytes (plan_config_of (in_scope_files files globs) t c sz mbf mbb)"
  "plan_missing_size_files (build_plan files globs t c sz mbf mbb) =
     sort (acc_missing (plan_loop (plan_config_of (in_scope_files files globs) t c sz mbf mbb)
       (in_scope_files files globs)))"
  "plan_oversized_files (build_plan files globs t c sz mbf mbb) =
     sort (acc_oversized (plan_loop (plan_config_of (in_scope_files files globs) t c sz mbf mbb)
       (in_scope_files files globs)))"
  by (simp_all add: build_plan_def Let_def)

lemma size_of_normalized:
  "p \<in> set fs \<Longrightarrow> size_of (normalized_file_sizes fs sz) p = normalized_size (pget sz p)"
  by (induction fs) (auto simp: size_of_def normalized_file_sizes_def)

lemma deferred_batches:
  assumes "list_all (batch_ok cfg) bs" and "map batch_id bs = map int [1..<Suc (length bs)]"
  shows "length (filter (\<lambda>b. \<not> deferred b) bs) =
    (if large_mode cfg then min (length bs) (nat (first_pass_cap cfg)) else length bs)"
proof -
  let ?P = "\<lambda>i. \<not> (large_mode cfg \<and> int i > first_pass_cap cfg)"
  have "length (filter (\<lambda>b. \<not> deferred b) bs) =
      length (filter (\<lambda>b. \<not> (large_mode cfg \<and> batch_id b > first_pass_cap cfg)) bs)"
    using assms(1) by (induction bs) (auto simp: batch_ok_def)
  also have "\<dots> = length (filter (\<lambda>i. \<not> (large_mode cfg \<and> i > first_pass_cap cfg)) (map batch_id bs))"
    by (simp add: filter_map comp_def)
  also have "\<dots> = length (filter ?P [1..<Suc (length bs)])"
    by (simp only: assms(2) filter_map comp_def length_map)
  also have "\<dots> = card {i. 1 \<le> i \<and> i \<le> length bs \<and> ?P i}"
    by (simp only: distinct_length_filter [OF distinct_upt]) (rule arg_cong [where f = card], auto)
  also have "{i. 1 \<le> i \<and> i \<le> length bs \<and> ?P i} =
      {1..(if large_mode cfg then min (length bs) (nat (first_pass_cap cfg)) else length bs)}"
    by auto
  finally show ?thesis by simp
qed

subsection \<open>Properties\<close>

text \<open>
  C18: no file is lost and none is read twice: a path occurs exactly once in the batches of the
  plan when it is a nonempty string of the input that no exclusion glob matches, and never
  otherwise, deferred batches included.
\<close>

theorem plan_covers_scope_once:
  "count_list (concat (map batch_files (plan_batches (build_plan files globs t c sz mbf mbb)))) p =
     (if PStr p \<in> set files \<and> p \<noteq> [] \<and> \<not> is_excluded p globs then 1 else 0)"
proof -
  let ?scope = "in_scope_files files globs"
  have "count_list (concat (map batch_files (plan_batches (build_plan files globs t c sz mbf mbb)))) p =
      count (mset ?scope) p"
    by (simp only: build_plan_batches mset_plan_loop flip: count_mset)
  also have "\<dots> = (if p \<in> set ?scope then 1 else 0)"
    by (simp add: distinct_count_atmost_1 [THEN iffD1])
  finally show ?thesis by (simp add: set_in_scope_files)
qed

text \<open>
  C22: every batch is bounded: it is nonempty and either keeps both caps with known sizes only, or
  it holds one single file whose size is unknown or above the byte cap, and it says so.  The caps
  in force are positive whatever the configuration holds.
\<close>

theorem plan_batches_bounded:
  "list_all (batch_ok (plan_config_of (in_scope_files files globs) t c sz mbf mbb))
     (plan_batches (build_plan files globs t c sz mbf mbb)) \<and>
   0 < plan_max_batch_files (build_plan files globs t c sz mbf mbb) \<and>
   0 < plan_max_batch_bytes (build_plan files globs t c sz mbf mbb)"
  using acc_ok_plan_loop by (simp add: build_plan_batches acc_ok_def) (simp add: build_plan_def Let_def)

text \<open>
  batches are numbered 1, 2, 3, \<dots>; outside large-repository mode none is deferred, in it
  exactly the first \<open>first_pass_batch_cap\<close> ones are eligible (all of them when there are fewer).
\<close>

theorem plan_numbering_and_deferral:
  "let plan = build_plan files globs t c sz mbf mbb in
     map batch_id (plan_batches plan) = map int [1..<Suc (batch_count plan)] \<and>
     large_repo_mode plan = (int (files_in_scope plan) > t) \<and>
     length (filter (\<lambda>b. \<not> deferred b) (plan_batches plan)) =
       (if large_repo_mode plan then min (batch_count plan) (nat c) else batch_count plan)"
proof -
  let ?cfg = "plan_config_of (in_scope_files files globs) t c sz mbf mbb"
  let ?bs = "batches (plan_loop ?cfg (in_scope_files files globs))"
  have ok: "list_all (batch_ok ?cfg) ?bs" "map batch_id ?bs = map int [1..<Suc (length ?bs)]"
    using acc_ok_plan_loop unfolding acc_ok_def by blast+
  with deferred_batches [OF ok] show ?thesis
    by (simp add: build_plan_def Let_def plan_config_of_def is_large_repo_mode_def)
qed

text \<open>
  batches come critical first, then normal, then low, by directory name within a tier, and a
  batch never mixes directories: every file of it lies in the top-level directory it names.
\<close>

theorem plan_order:
  "let bs = plan_batches (build_plan files globs t c sz mbf mbb) in
     sorted (map (\<lambda>b. (batch_tier b, batch_dir b)) bs) \<and>
     list_all (\<lambda>b. batch_tier b = classify_tier (batch_dir b) \<and>
                   list_all (\<lambda>p. top_level_dir p = batch_dir b) (batch_files b)) bs"
proof -
  let ?cfg = "plan_config_of (in_scope_files files globs) t c sz mbf mbb"
  let ?bs = "batches (plan_loop ?cfg (in_scope_files files globs))"
  have "list_all (batch_ok ?cfg) ?bs"
    using acc_ok_plan_loop unfolding acc_ok_def by blast
  then have tiers: "\<forall>b\<in>set ?bs. batch_tier b = classify_tier (batch_dir b)"
    by (simp add: list_all_iff batch_ok_def)
  then have "map (\<lambda>b. (batch_tier b, batch_dir b)) ?bs =
      map (\<lambda>b. (classify_tier (batch_dir b), batch_dir b)) ?bs"
    by simp
  with tiers sorted_plan_loop plan_loop_in_dir show ?thesis
    by (simp only: build_plan_batches Let_def list_all_iff) blast
qed

text \<open>
  the plan depends on the set of files only: neither the order of the listing nor repeated
  entries change a byte of it.
\<close>

theorem plan_order_independent:
  assumes "set files = set files'"
  shows "build_plan files globs t c sz mbf mbb = build_plan files' globs t c sz mbf mbb"
proof -
  have "in_scope_files files globs = in_scope_files files' globs"
    unfolding in_scope_files_def
    by (rule sort_remdups_eq) (simp only: set_map_filter assms)
  then show ?thesis by (simp add: build_plan_def)
qed

theorem plan_order_independent_witness:
  "build_plan [PStr ''b.py'', PStr ''src/a.py'', PStr ''b.py''] [] 800 40 (PDict []) PNone PNone =
   build_plan [PStr ''src/a.py'', PStr ''b.py''] [] 800 40 (PDict []) PNone PNone"
  by (rule plan_order_independent) auto

text \<open>
  what the byte cap cannot vouch for is reported, in path order: \<open>missing_size_files\<close> lists
  exactly the files in scope with no valid size, \<open>oversized_files\<close> exactly those above the cap.
\<close>

theorem plan_reports_unbounded_files:
  "let scope = in_scope_files files globs;
       plan = build_plan files globs t c sz mbf mbb in
     plan_missing_size_files plan = filter (\<lambda>p. normalized_size (pget sz p) = None) scope \<and>
     plan_oversized_files plan =
       filter (\<lambda>p. case normalized_size (pget sz p) of None \<Rightarrow> False
                    | Some n \<Rightarrow> n > plan_max_batch_bytes plan) scope"
proof -
  let ?scope = "in_scope_files files globs"
  let ?cfg = "plan_config_of ?scope t c sz mbf mbb"
  let ?acc = "plan_loop ?cfg ?scope"
  let ?all = "concat (map batch_files (batches ?acc))"
  have acc: "acc_missing ?acc = filter (is_missing (sizes_of ?cfg)) ?all"
    "acc_oversized ?acc = filter (is_oversized (sizes_of ?cfg) (max_batch_bytes ?cfg)) ?all"
    using acc_ok_plan_loop unfolding acc_ok_def by blast+
  have sorted_filter_all: "sort (filter P ?all) = filter P ?scope" for P
    by (rule properties_for_sort) (simp_all add: mset_plan_loop in_scope_files_def sorted_wrt_filter)
  have "filter (is_missing (sizes_of ?cfg)) ?scope =
      filter (\<lambda>p. normalized_size (pget sz p) = None) ?scope"
    by (rule filter_cong) (simp_all add: is_missing_def plan_config_of_def size_of_normalized)
  moreover have "filter (is_oversized (sizes_of ?cfg) (max_batch_bytes ?cfg)) ?scope =
      filter (\<lambda>p. case normalized_size (pget sz p) of None \<Rightarrow> False
                   | Some n \<Rightarrow> n > max_batch_bytes ?cfg) ?scope"
    by (rule filter_cong)
       (simp_all add: is_oversized_def plan_config_of_def size_of_normalized cong: option.case_cong)
  ultimately show ?thesis
    by (simp only: Let_def build_plan_reports acc sorted_filter_all simp_thms)
qed

end
