(* ===== verification/Py_Json.thy ===== *)
theory Py_Json
  imports Py_Prelude
begin

text \<open>
  The parts of Python's \<^verbatim>\<open>json\<close> module and of value comparison the sources use: \<open>==\<close> on decoded
  values, and \<open>json.dumps(v, sort_keys=True, separators=(",", ":"))\<close> with and without
  \<open>ensure_ascii\<close>.  The text of a float is a parameter (\<open>frepr\<close>): the shortest decimal form that
  \<open>float.__repr__\<close> computes is not modelled.
\<close>

subsection \<open>Equality of values\<close>

text \<open>
  Python compares \<open>True\<close>, \<open>1\<close> and \<open>1.0\<close> as equal and dictionaries up to the order of their keys;
  \<open>pnorm\<close> is the canonical form under that equality.  \<open>NaN\<close> differs from everything.
\<close>

primrec pnorm :: "pyval \<Rightarrow> pyval" where
  "pnorm PNone = PNone"
| "pnorm (PBool b) = PFloat (Fin (if b then 1 else 0))"
| "pnorm (PInt i) = PFloat (Fin (of_int i))"
| "pnorm (PFloat f) = PFloat f"
| "pnorm (PStr s) = PStr s"
| "pnorm (PList xs) = PList (map pnorm xs)"
| "pnorm (PDict d) = PDict (sort_key fst (map (map_prod id pnorm) d))"

primrec has_nan :: "pyval \<Rightarrow> bool" where
  "has_nan PNone = False"
| "has_nan (PBool b) = False"
| "has_nan (PInt i) = False"
| "has_nan (PFloat f) = (f = NaN)"
| "has_nan (PStr s) = False"
| "has_nan (PList xs) = list_ex (\<lambda>b. b) (map has_nan xs)"
| "has_nan (PDict d) = list_ex snd (map (map_prod id has_nan) d)"

definition py_eq :: "pyval \<Rightarrow> pyval \<Rightarrow> bool" where
  "py_eq a b \<longleftrightarrow> pnorm a = pnorm b \<and> \<not> has_nan a"

lemma py_eq_simps [simp, py_simps]:
  "py_eq (PStr s) v \<longleftrightarrow> v = PStr s"
  "py_eq v (PStr s) \<longleftrightarrow> v = PStr s"
  "py_eq PNone v \<longleftrightarrow> v = PNone"
  "py_eq v PNone \<longleftrightarrow> v = PNone"
  "py_eq (PInt i) (PInt j) \<longleftrightarrow> i = j"
  by (cases v; auto simp: py_eq_def)+

text \<open>A decoded document: no object has a key twice.\<close>

primrec wf_json :: "pyval \<Rightarrow> bool" where
  "wf_json PNone = True"
| "wf_json (PBool b) = True"
| "wf_json (PInt i) = True"
| "wf_json (PFloat f) = True"
| "wf_json (PStr s) = True"
| "wf_json (PList xs) = list_all (\<lambda>b. b) (map wf_json xs)"
| "wf_json (PDict d) = (distinct (map fst d) \<and> list_all snd (map (map_prod id wf_json) d))"

lemma pnorm_PStr: "pnorm v = PStr s \<longleftrightarrow> v = PStr s"
  by (cases v) auto

lemma pnorm_PList: "pnorm v = PList ys \<longleftrightarrow> (\<exists>xs. v = PList xs \<and> map pnorm xs = ys)"
  by (cases v) auto

lemma pnorm_strings: "map pnorm xs = map PStr ss \<longleftrightarrow> xs = map PStr ss"
  by (induction ss arbitrary: xs) (auto simp: pnorm_PStr map_eq_Cons_conv)

lemma pnorm_dict:
  assumes "pnorm v = pnorm (PDict e)" "wf_json v" "distinct (map fst e)"
  shows "\<exists>d. v = PDict d \<and> distinct (map fst d) \<and> (\<forall>k. map_option pnorm (map_of d k) = map_option pnorm (map_of e k))"
proof -
  obtain d where v: "v = PDict d" "distinct (map fst d)" using assms(1,2) by (cases v) auto
  have norm: "map_of (sort_key fst (map (map_prod id pnorm) x)) k = map_option pnorm (map_of x k)"
    if "distinct (map fst x)" for k and x :: "(string \<times> pyval) list"
  proof -
    have "distinct (map fst (map (map_prod id pnorm) x))" using that by (simp add: o_def)
    then show ?thesis by (simp add: map_of_sort_key) (induction x; auto)
  qed
  from assms(1) v have "sort_key fst (map (map_prod id pnorm) d) = sort_key fst (map (map_prod id pnorm) e)" by simp
  with v norm [OF v(2)] norm [OF assms(3)] show ?thesis by metis
qed

subsection \<open>Serialisation\<close>

definition digit_char :: "nat \<Rightarrow> char" where
  "digit_char n = char_of (48 + n)"

fun nat_str :: "nat \<Rightarrow> string" where
  "nat_str n = (if n < 10 then [digit_char n] else nat_str (n div 10) @ [digit_char (n mod 10)])"

declare nat_str.simps [simp del]

definition int_str :: "int \<Rightarrow> string" where
  "int_str i = (if i < 0 then CHR ''-'' # nat_str (nat (- i)) else nat_str (nat i))"

definition hex_digit :: "nat \<Rightarrow> char" where
  "hex_digit n = (if n < 10 then char_of (48 + n) else char_of (87 + n))"

definition escape_char :: "bool \<Rightarrow> char \<Rightarrow> string" where
  "escape_char ascii c =
     (let n = of_char c :: nat in
      if n = 34 then [char_of (92::nat), char_of (34::nat)]
      else if n = 92 then [char_of (92::nat), char_of (92::nat)]
      else if n = 10 then char_of (92::nat) # ''n''
      else if n = 13 then char_of (92::nat) # ''r''
      else if n = 9 then char_of (92::nat) # ''t''
      else if n = 8 then char_of (92::nat) # ''b''
      else if n = 12 then char_of (92::nat) # ''f''
      else if n < 32 \<or> (ascii \<and> n > 126)
        then char_of (92::nat) # ''u00'' @ [hex_digit (n div 16), hex_digit (n mod 16)]
      else [c])"

definition json_str :: "bool \<Rightarrow> string \<Rightarrow> string" where
  "json_str ascii s = char_of (34::nat) # concat (map (escape_char ascii) s) @ [char_of (34::nat)]"

primrec json_dumps :: "bool \<Rightarrow> (pyfloat \<Rightarrow> string) \<Rightarrow> pyval \<Rightarrow> string" where
  "json_dumps ascii frepr PNone = ''null''"
| "json_dumps ascii frepr (PBool b) = (if b then ''true'' else ''false'')"
| "json_dumps ascii frepr (PInt i) = int_str i"
| "json_dumps ascii frepr (PFloat f) = frepr f"
| "json_dumps ascii frepr (PStr s) = json_str ascii s"
| "json_dumps ascii frepr (PList xs) =
     ''['' @ join_with '','' (map (json_dumps ascii frepr) xs) @ '']''"
| "json_dumps ascii frepr (PDict d) =
     ''{'' @ join_with '',''
       (map (\<lambda>kv. json_str ascii (fst kv) @ '':'' @ snd kv)
         (sort_key fst (map (map_prod id (json_dumps ascii frepr)) d))) @ ''}''"

text \<open>What \<open>json.dumps(..., allow_nan=False)\<close> raises \<open>ValueError\<close> on.\<close>

primrec nonfinite :: "pyval \<Rightarrow> bool" where
  "nonfinite PNone = False"
| "nonfinite (PBool b) = False"
| "nonfinite (PInt i) = False"
| "nonfinite (PFloat f) = (case f of Fin q \<Rightarrow> False | _ \<Rightarrow> True)"
| "nonfinite (PStr s) = False"
| "nonfinite (PList xs) = list_ex (\<lambda>b. b) (map nonfinite xs)"
| "nonfinite (PDict d) = list_ex snd (map (map_prod id nonfinite) d)"

text \<open>The length of \<open>s.encode("utf-8")\<close>.\<close>

definition utf8_length :: "string \<Rightarrow> nat" where
  "utf8_length s = sum_list (map (\<lambda>c. if (of_char c :: nat) < 128 then 1 else 2) s)"

text \<open>\<open>str.isdecimal\<close> (below code point 256 only the ten digits) and the number it spells.\<close>

definition is_decimal :: "string \<Rightarrow> bool" where
  "is_decimal s \<longleftrightarrow> s \<noteq> [] \<and> list_all (\<lambda>c. digit_val c \<noteq> None) s"

fun decimal_val :: "nat \<Rightarrow> string \<Rightarrow> nat" where
  "decimal_val acc [] = acc"
| "decimal_val acc (c # cs) = decimal_val (10 * acc + (case digit_val c of None \<Rightarrow> 0 | Some d \<Rightarrow> d)) cs"

lemma digit_val_digit_char [simp]: "n < 10 \<Longrightarrow> digit_val (digit_char n) = Some n"
  by (simp add: digit_val_def digit_char_def)

lemma decimal_val_append: "decimal_val acc (s @ t) = decimal_val (decimal_val acc s) t"
  by (induction s arbitrary: acc) auto

lemma decimal_val_nat_str [simp]: "decimal_val 0 (nat_str n) = n"
proof (induction n rule: nat_str.induct)
  case (1 n)
  then show ?case
    by (cases "n < 10") (simp_all add: nat_str.simps [of n] decimal_val_append)
qed

lemma is_decimal_nat_str [simp]: "is_decimal (nat_str n)"
proof (induction n rule: nat_str.induct)
  case (1 n)
  then show ?case
    by (cases "n < 10") (auto simp: nat_str.simps [of n] is_decimal_def)
qed

subsection \<open>Text of values, hashing and files\<close>

text \<open>
  \<open>str(v)\<close>; the text of a float, a list or a dictionary is the parameter \<open>srepr\<close>.
\<close>

definition py_str :: "(pyval \<Rightarrow> string) \<Rightarrow> pyval \<Rightarrow> string" where
  "py_str srepr v =
     (case v of PNone \<Rightarrow> ''None'' | PBool b \<Rightarrow> if b then ''True'' else ''False''
      | PInt i \<Rightarrow> int_str i | PStr s \<Rightarrow> s | _ \<Rightarrow> srepr v)"

text \<open>What may be a dictionary key or a set element; anything else raises \<open>TypeError\<close>.\<close>

fun hashable :: "pyval \<Rightarrow> bool" where
  "hashable (PList _) = False"
| "hashable (PDict _) = False"
| "hashable _ = True"

lemma py_str_PStr [simp]: "py_str srepr (PStr s) = s"
  by (simp add: py_str_def)

text \<open>
  A file as \<open>read_text\<close> sees it, and \<open>json.loads\<close> as the parameter \<open>loads\<close> (\<open>None\<close> is a
  \<open>JSONDecodeError\<close>): the parser of the library is not modelled.
\<close>

datatype text_file = Missing | Undecodable_Text | Text string

type_synonym dict = "(string \<times> pyval) list"

type_synonym json_loads = "string \<Rightarrow> pyval option"

definition read_doc :: "json_loads \<Rightarrow> text_file \<Rightarrow> pyval option" where
  "read_doc loads f = (case f of Text s \<Rightarrow> loads s | _ \<Rightarrow> None)"

text \<open>\<open>d.get(k)\<close>, with \<open>None\<close> for a missing key.\<close>

definition getv :: "dict \<Rightarrow> string \<Rightarrow> pyval" where
  "getv d k = dict_get d k PNone"

text \<open>\<open>int(v)\<close> and what it raises.\<close>

datatype value_error = TypeError | ValueError | OverflowError | KeyError | AttributeError

fun py_int :: "pyval \<Rightarrow> value_error + int" where
  "py_int (PInt i) = Inr i"
| "py_int (PBool b) = Inr (if b then 1 else 0)"
| "py_int (PFloat (Fin q)) = Inr (if q \<ge> 0 then \<lfloor>q\<rfloor> else \<lceil>q\<rceil>)"
| "py_int (PFloat NaN) = Inl ValueError"
| "py_int (PFloat _) = Inl OverflowError"
| "py_int (PStr s) = (case int_of_str s of None \<Rightarrow> Inl ValueError | Some i \<Rightarrow> Inr i)"
| "py_int _ = Inl TypeError"

text \<open>\<open>v in S\<close> for a set of strings; hashing a list or a dictionary raises.\<close>

definition in_set :: "string list \<Rightarrow> pyval \<Rightarrow> value_error + bool" where
  "in_set S v = (if hashable v then Inr (case v of PStr s \<Rightarrow> s \<in> set S | _ \<Rightarrow> False) else Inl TypeError)"

lemma in_set_Inr: "in_set S v = Inr b \<Longrightarrow> b \<longleftrightarrow> (\<exists>s. v = PStr s \<and> s \<in> set S)"
  by (cases v) (auto simp: in_set_def)

lemma in_set_True: "in_set S v = Inr True \<Longrightarrow> v \<in> PStr ` set S"
  by (cases v) (auto simp: in_set_def)

text \<open>\<open>v[k]\<close> for a string \<open>k\<close>, and \<open>v.get(k)\<close>.\<close>

definition subscript :: "pyval \<Rightarrow> string \<Rightarrow> value_error + pyval" where
  "subscript v k =
     (case v of
        PDict d \<Rightarrow> (case map_of d k of None \<Rightarrow> Inl KeyError | Some x \<Rightarrow> Inr x)
      | _ \<Rightarrow> Inl TypeError)"

definition get_attr :: "pyval \<Rightarrow> string \<Rightarrow> value_error + pyval" where
  "get_attr v k = (case v of PDict d \<Rightarrow> Inr (getv d k) | _ \<Rightarrow> Inl AttributeError)"

text \<open>\<open>for x in v\<close>: a list, the characters of a string, the keys of a dictionary.\<close>

fun py_iter :: "pyval \<Rightarrow> value_error + pyval list" where
  "py_iter (PList xs) = Inr xs"
| "py_iter (PStr s) = Inr (map (\<lambda>c. PStr [c]) s)"
| "py_iter (PDict d) = Inr (map (\<lambda>kv. PStr (fst kv)) d)"
| "py_iter _ = Inl TypeError"

text \<open>\<open>json.dumps(v, sort_keys=True)\<close>, with the default separators.\<close>

primrec json_dumps_spaced :: "(pyfloat \<Rightarrow> string) \<Rightarrow> pyval \<Rightarrow> string" where
  "json_dumps_spaced frepr PNone = ''null''"
| "json_dumps_spaced frepr (PBool b) = (if b then ''true'' else ''false'')"
| "json_dumps_spaced frepr (PInt i) = int_str i"
| "json_dumps_spaced frepr (PFloat f) = frepr f"
| "json_dumps_spaced frepr (PStr s) = json_str True s"
| "json_dumps_spaced frepr (PList xs) =
     ''['' @ join_with '', '' (map (json_dumps_spaced frepr) xs) @ '']''"
| "json_dumps_spaced frepr (PDict d) =
     ''{'' @ join_with '', ''
       (map (\<lambda>kv. json_str True (fst kv) @ '': '' @ snd kv)
         (sort_key fst (map (map_prod id (json_dumps_spaced frepr)) d))) @ ''}''"

end
