(* ===== verification/Py_Float.thy ===== *)
theory Py_Float
  imports Py_Prelude
begin

text \<open>
  Rounding of Python's floats: the double nearest to a rational number, ties to the even one, with gradual
  underflow.  Finite doubles are the rationals this function returns; what would overflow stays a finite rational
  instead of becoming infinite.
\<close>

text \<open>The number of binary digits, and the exponent of the leading one.\<close>

function binary_digits :: "int \<Rightarrow> int" where
  "binary_digits n = (if n \<le> 0 then 0 else 1 + binary_digits (n div 2))"
  by auto

termination by (relation "measure nat") auto

declare binary_digits.simps [simp del]

definition two_to :: "int \<Rightarrow> rat" where
  "two_to e = (if 0 \<le> e then 2 ^ nat e else 1 / 2 ^ nat (- e))"

text \<open>A nonnegative fraction \<open>n / d\<close>: the exponent of its leading digit, and the nearest integer to \<open>n / d / 2 ^ e\<close>.\<close>

definition scaled :: "int \<Rightarrow> int \<Rightarrow> int \<Rightarrow> int \<times> int" where
  "scaled n d e = (if 0 \<le> e then (n, d * 2 ^ nat e) else (n * 2 ^ nat (- e), d))"

definition leading_exponent :: "int \<Rightarrow> int \<Rightarrow> int" where
  "leading_exponent n d =
     (let k = binary_digits n - binary_digits d
      in case scaled n d k of (a, b) \<Rightarrow> if b \<le> a then k else k - 1)"

definition half_even :: "int \<Rightarrow> int \<Rightarrow> int" where
  "half_even a b =
     (let r = a div b; rest = 2 * (a mod b)
      in if rest < b \<or> (rest = b \<and> even r) then r else r + 1)"

definition fl_nonneg :: "int \<Rightarrow> int \<Rightarrow> rat" where
  "fl_nonneg n d =
     (if n = 0 then 0
      else let e = max (leading_exponent n d - 52) (- 1074)
           in case scaled n d e of (a, b) \<Rightarrow> of_int (half_even a b) * two_to e)"

definition fl :: "rat \<Rightarrow> rat" where
  "fl q = (case quotient_of q of (n, d) \<Rightarrow> if n < 0 then - fl_nonneg (- n) d else fl_nonneg n d)"

lemma fl_zero [simp]: "fl 0 = 0"
  by (simp add: fl_def fl_nonneg_def)

lemma half_even_near: "0 < b \<Longrightarrow> \<bar>2 * (half_even a b * b - a)\<bar> \<le> b"
proof -
  assume b: "0 < b"
  have "a div b * b + a mod b = a" "0 \<le> a mod b" "a mod b < b" using b by simp_all
  moreover define r m where "r = a div b" and "m = a mod b"
  ultimately have "r * b + m = a" "0 \<le> m" "m < b" by simp_all
  then show ?thesis unfolding half_even_def Let_def r_def [symmetric] m_def [symmetric]
    by (auto simp: algebra_simps abs_le_iff)
qed

lemma half_even_nonneg: "0 \<le> a \<Longrightarrow> 0 < b \<Longrightarrow> 0 \<le> half_even a b"
  by (simp add: half_even_def Let_def pos_imp_zdiv_nonneg_iff)

lemma scaled_pos: "0 < d \<Longrightarrow> 0 \<le> n \<Longrightarrow> 0 \<le> fst (scaled n d e) \<and> 0 < snd (scaled n d e)"
  by (simp add: scaled_def)

lemma two_to_pos [simp]: "0 < two_to e"
  by (simp add: two_to_def)

lemma fl_of_nonneg: "0 \<le> q \<Longrightarrow> 0 \<le> fl q"
proof -
  assume q: "0 \<le> q"
  obtain n d where nd: "quotient_of q = (n, d)" by (cases "quotient_of q")
  have d: "0 < d" by (rule quotient_of_denom_pos [OF nd])
  have n: "0 \<le> n" using q quotient_of_div [OF nd] d by (simp add: zero_le_divide_iff)
  have "0 \<le> fl_nonneg n d"
    using scaled_pos [OF d n] half_even_nonneg
    by (auto simp: fl_nonneg_def Let_def split: prod.split intro!: mult_nonneg_nonneg less_imp_le [OF two_to_pos])
      (metis fst_conv snd_conv)
  then show ?thesis using n by (simp add: fl_def nd)
qed

lemma fl_one: "fl 1 = 1"
  by code_simp

end
