(* ===== verification/Reservations.thy ===== *)
theory Reservations
  imports Py_Prelude
begin

text \<open>
  The contract of a shared budget: requests take a reservation out (\<open>admit\<close>, which may refuse) and give it back
  with what they really used (\<open>settle\<close>); a request whose answer cannot be delivered gives it back a second time.
  Any number of requests interleave, one atomic operation at a time.  A state is the budget, the reservations still
  outstanding, the requests settled once with what they used, and the requests settled twice.  The two operations
  and the laws they promise are a locale; the clients' facts are proved over every interleaving.
\<close>

type_synonym ('b, 'r, 'u) ledger = "'b \<times> 'r multiset \<times> ('r \<times> 'u) multiset \<times> ('r \<times> 'u) multiset"

inductive ledger_step ::
  "('b \<Rightarrow> 'r \<Rightarrow> 'b option) \<Rightarrow> ('b \<Rightarrow> 'r \<Rightarrow> 'u \<Rightarrow> 'b) \<Rightarrow> ('r \<Rightarrow> 'u \<Rightarrow> bool) \<Rightarrow> 'u \<Rightarrow>
     ('b, 'r, 'u) ledger \<Rightarrow> ('b, 'r, 'u) ledger \<Rightarrow> bool"
  for adm stl honest unknown where
  admitted: "adm b r = Some b' \<Longrightarrow> ledger_step adm stl honest unknown (b, R, D, E) (b', add_mset r R, D, E)"
| settled: "honest r u \<Longrightarrow>
    ledger_step adm stl honest unknown (b, add_mset r R, D, E) (stl b r u, R, add_mset (r, u) D, E)"
| settled_again:
    "ledger_step adm stl honest unknown (b, R, add_mset (r, u) D, E) (stl b r unknown, R, D, add_mset (r, u) E)"

inductive ledger_run ::
  "('b \<Rightarrow> 'r \<Rightarrow> 'b option) \<Rightarrow> ('b \<Rightarrow> 'r \<Rightarrow> 'u \<Rightarrow> 'b) \<Rightarrow> ('r \<Rightarrow> 'u \<Rightarrow> bool) \<Rightarrow> 'u \<Rightarrow>
     'b \<Rightarrow> ('b, 'r, 'u) ledger \<Rightarrow> bool"
  for adm stl honest unknown begin_with where
  start: "ledger_run adm stl honest unknown begin_with (begin_with, {#}, {#}, {#})"
| step: "ledger_run adm stl honest unknown begin_with s \<Longrightarrow> ledger_step adm stl honest unknown s t \<Longrightarrow>
     ledger_run adm stl honest unknown begin_with t"

locale reservation_ledger =
  fixes adm :: "'b \<Rightarrow> 'r \<Rightarrow> 'b option"
    and stl :: "'b \<Rightarrow> 'r \<Rightarrow> 'u \<Rightarrow> 'b"
    and unknown :: 'u
    and accounts :: "('b, 'r, 'u) ledger \<Rightarrow> bool"
    and begin_with :: 'b
  assumes accounts_start: "accounts (begin_with, {#}, {#}, {#})"
    and accounts_admit: "accounts (b, R, D, E) \<Longrightarrow> adm b r = Some b' \<Longrightarrow> accounts (b', add_mset r R, D, E)"
    and accounts_settle: "accounts (b, add_mset r R, D, E) \<Longrightarrow> accounts (stl b r u, R, add_mset (r, u) D, E)"
    and accounts_again: "accounts (b, R, add_mset (r, u) D, E) \<Longrightarrow> accounts (stl b r unknown, R, D, add_mset (r, u) E)"
begin

lemma run_accounts: "ledger_run adm stl honest unknown begin_with s \<Longrightarrow> accounts s"
proof (induction rule: ledger_run.induct)
  case (step s t)
  from step.hyps(2) step.IH show ?case
    by (cases rule: ledger_step.cases) (auto intro: accounts_admit accounts_settle accounts_again)
qed (rule accounts_start)

end

text \<open>A budget that also keeps a limit, as long as what is settled is honest.\<close>

locale capped_ledger = reservation_ledger adm stl unknown accounts begin_with
  for adm :: "'b \<Rightarrow> 'r \<Rightarrow> 'b option" and stl :: "'b \<Rightarrow> 'r \<Rightarrow> 'u \<Rightarrow> 'b" and unknown :: 'u
    and accounts :: "('b, 'r, 'u) ledger \<Rightarrow> bool" and begin_with :: 'b +
  fixes capped :: "'b \<Rightarrow> bool" and honest :: "'r \<Rightarrow> 'u \<Rightarrow> bool"
  assumes capped_start: "capped begin_with"
    and capped_admit: "capped b \<Longrightarrow> adm b r = Some b' \<Longrightarrow> capped b'"
    and capped_settle: "capped b \<Longrightarrow> honest r u \<Longrightarrow> capped (stl b r u)"
    and capped_again: "capped b \<Longrightarrow> capped (stl b r unknown)"
begin

lemma run_capped: "ledger_run adm stl honest unknown begin_with s \<Longrightarrow> capped (fst s)"
proof (induction rule: ledger_run.induct)
  case start
  show ?case by (simp add: capped_start)
next
  case (step s t)
  from step.hyps(2) step.IH show ?case
    by (cases rule: ledger_step.cases) (auto intro: capped_admit capped_settle capped_again)
qed

lemma run_sound: "ledger_run adm stl honest unknown begin_with s \<Longrightarrow> accounts s \<and> capped (fst s)"
  using run_accounts run_capped by blast

end

end
