(* ===== verification/Provider_Proxy.thy ===== *)
theory Provider_Proxy
  imports Py_Json Py_Float Reservations
begin

text \<open>
  \<^verbatim>\<open>bench/provider_proxy.py\<close>: the per-invocation reverse proxy of the benchmark.  Modelled are the
  policy loader, the request normaliser, the budget with its two locked operations, and the
  handler of one POST.  Amounts of money are doubles: every float operation is rounded by \<open>fl\<close>.
  The file system is a partial map from paths to what \<open>lstat\<close> and reading would show; the upstream
  provider and the client's side of the connection are inputs of the handler.
\<close>

subsection \<open>Policy\<close>

datatype proxy_error =
    PolicyError string
  | OSError
  | JSONDecodeError
  | OverflowError
  | TypeError

definition INERT_CREDENTIAL :: string where
  "INERT_CREDENTIAL = ''benchmark-inert-client-credential''"

definition MAX_POLICY_BYTES :: int where "MAX_POLICY_BYTES = 65536"
definition MAX_HARD_REQUEST_BYTES :: int where "MAX_HARD_REQUEST_BYTES = 8388608"
definition MAX_HARD_RESPONSE_BYTES :: int where "MAX_HARD_RESPONSE_BYTES = 16777216"

text \<open>\<open>EXPECTED\<close>: upstream, path and output-cap field of each supported host.\<close>

definition EXPECTED :: "string \<Rightarrow> (string \<times> string \<times> string) option" where
  "EXPECTED host =
     (if host = ''claude'' then Some (''api.anthropic.com'', ''/v1/messages'', ''max_tokens'')
      else if host = ''codex'' then Some (''api.openai.com'', ''/v1/responses'', ''max_output_tokens'')
      else None)"

text \<open>\<open>float(i)\<close> rounds, and raises when the integer is beyond the largest double.\<close>

definition float_of_int :: "int \<Rightarrow> proxy_error + rat" where
  "float_of_int i = (if \<bar>i\<bar> < 2 ^ 1024 - 2 ^ 970 then Inr (fl (of_int i)) else Inl OverflowError)"

definition nonneg_number :: "rat \<Rightarrow> proxy_error + rat option" where
  "nonneg_number r = (if r < 0 then Inl (PolicyError ''numeric policy value must be nonnegative'')
                      else Inr (Some r))"

text \<open>\<open>_number\<close> (with its default \<open>nonnegative=True\<close>, the only way it is called)\<close>

fun number :: "pyval \<Rightarrow> proxy_error + rat option" where
  "number PNone = Inr None"
| "number (PInt i) = bind_res (float_of_int i) nonneg_number"
| "number (PFloat (Fin r)) = nonneg_number r"
| "number _ = Inl (PolicyError ''numeric policy value required'')"

fun limit_int :: "pyval \<Rightarrow> string \<Rightarrow> proxy_error + int option" where
  "limit_int PNone nm = Inr None"
| "limit_int (PInt i) nm =
     (if i < 0 then Inl (PolicyError (nm @ '' must be a nonnegative integer or null''))
      else Inr (Some i))"
| "limit_int _ nm = Inl (PolicyError (nm @ '' must be a nonnegative integer or null''))"

record file_entry =
  regular :: bool
  file_size :: int
  json_doc :: "pyval option" \<comment> \<open>\<open>json.load\<close>; \<open>None\<close> when it raises\<close>
  file_text :: string

type_synonym file_map = "string \<Rightarrow> file_entry option"

definition isabs :: "string \<Rightarrow> bool" where
  "isabs p \<longleftrightarrow> starts_with p ''/''"

definition read_json_file :: "file_map \<Rightarrow> string \<Rightarrow> int \<Rightarrow> proxy_error + (string \<times> pyval) list" where
  "read_json_file fs path maximum =
     (if \<not> isabs path then Inl (PolicyError ''policy path must be absolute'')
      else case fs path of
        None \<Rightarrow> Inl OSError
      | Some info \<Rightarrow>
          if \<not> regular info \<or> file_size info > maximum
          then Inl (PolicyError ''policy must be a bounded regular file'')
          else case json_doc info of
                 None \<Rightarrow> Inl JSONDecodeError
               | Some (PDict d) \<Rightarrow> Inr d
               | Some _ \<Rightarrow> Inl (PolicyError ''policy must be an object''))"

record policy =
  host :: string
  upstream :: string
  path :: string
  model :: string
  secret :: string
  listen_port :: int
  max_request_bytes :: int
  max_response_bytes :: int
  max_inflight_requests :: int
  max_turns :: "int option"
  max_input_tokens :: "int option"
  max_output_tokens :: "int option"
  max_spend_usd :: "rat option"
  reservation_usd :: "rat option"
  input_usd_per_million_tokens :: "rat option"
  output_usd_per_million_tokens :: "rat option"

text \<open>\<open>value is None or not 1 <= value <= maximum\<close> raises, otherwise the value\<close>

definition ceiling_in :: "int option \<Rightarrow> int \<Rightarrow> string \<Rightarrow> proxy_error + int" where
  "ceiling_in v maximum msg =
     (case v of None \<Rightarrow> Inl (PolicyError msg)
      | Some n \<Rightarrow> if 1 \<le> n \<and> n \<le> maximum then Inr n else Inl (PolicyError msg))"

definition read_secret :: "file_map \<Rightarrow> pyval \<Rightarrow> proxy_error + string" where
  "read_secret fs secret_path =
     (case secret_path of
        PStr sp \<Rightarrow>
          if \<not> isabs sp then Inl (PolicyError ''policy secret path is invalid'')
          else (case fs sp of
              None \<Rightarrow> Inl OSError
            | Some info \<Rightarrow>
                if \<not> regular info \<or> file_size info > 8192
                then Inl (PolicyError ''provider secret must be a bounded regular file'')
                else let sec = strip (file_text info)
                     in if sec = [] \<or> sec = INERT_CREDENTIAL
                        then Inl (PolicyError ''provider secret is absent or inert'')
                        else Inr sec)
      | _ \<Rightarrow> Inl (PolicyError ''policy secret path is invalid''))"

definition check_spend :: "rat option \<Rightarrow> rat option \<Rightarrow> proxy_error + unit" where
  "check_spend max_spend reservation =
     (case max_spend of
        None \<Rightarrow> guard (reservation = None)
                  (PolicyError ''unbounded spend cannot carry a reservation'')
      | Some m \<Rightarrow>
          (case reservation of
             None \<Rightarrow> Inl (PolicyError ''spend cap requires an operator reservation'')
           | Some r \<Rightarrow> guard (0 < r \<and> r \<le> m)
                         (PolicyError ''spend cap requires an operator reservation'')))"

text \<open>The numeric part of \<open>load_policy\<close>, from the controls and the limits objects.\<close>

definition load_limits ::
  "policy \<Rightarrow> pyval \<Rightarrow> (string \<times> pyval) list \<Rightarrow> (string \<times> pyval) list \<Rightarrow> proxy_error + policy" where
  "load_limits p0 port_value controls limits =
     bind_res (limit_int (dict_get controls ''max_request_bytes'' PNone) ''max_request_bytes'') (\<lambda>reqb.
     bind_res (limit_int (dict_get controls ''max_response_bytes'' PNone) ''max_response_bytes'') (\<lambda>respb.
     bind_res (limit_int (dict_get controls ''max_inflight_requests'' PNone) ''max_inflight_requests'') (\<lambda>infl.
     bind_res (ceiling_in reqb MAX_HARD_REQUEST_BYTES ''request byte ceiling is invalid'') (\<lambda>request_bytes.
     bind_res (ceiling_in respb MAX_HARD_RESPONSE_BYTES ''response byte ceiling is invalid'') (\<lambda>response_bytes.
     bind_res (ceiling_in infl 32 ''inflight ceiling is invalid'') (\<lambda>inflight_cap.
     bind_res (limit_int (dict_get limits ''max_turns'' PNone) ''max_turns'') (\<lambda>turns_cap.
     bind_res (limit_int (dict_get limits ''max_input_tokens'' PNone) ''max_input_tokens'') (\<lambda>max_input.
     bind_res (limit_int (dict_get limits ''max_output_tokens'' PNone) ''max_output_tokens'') (\<lambda>max_output.
     bind_res (guard (case max_input of None \<Rightarrow> True | Some m \<Rightarrow> request_bytes \<le> m)
                (PolicyError ''request byte ceiling exceeds input-token cap'')) (\<lambda>_.
     bind_res (number (dict_get limits ''max_spend_usd'' PNone)) (\<lambda>max_spend.
     bind_res (number (dict_get controls ''reservation_usd'' PNone)) (\<lambda>res_usd.
     bind_res (number (dict_get controls ''input_usd_per_million_tokens'' PNone)) (\<lambda>input_rate.
     bind_res (number (dict_get controls ''output_usd_per_million_tokens'' PNone)) (\<lambda>output_rate.
     bind_res (check_spend max_spend res_usd) (\<lambda>_.
     bind_res (limit_int port_value ''listen_port'') (\<lambda>port.
     bind_res (ceiling_in port 65535 ''listen port is invalid'') (\<lambda>listen.
     Inr (p0\<lparr>listen_port := listen, max_request_bytes := request_bytes,
             max_response_bytes := response_bytes, max_inflight_requests := inflight_cap,
             max_turns := turns_cap, max_input_tokens := max_input,
             max_output_tokens := max_output, max_spend_usd := max_spend,
             reservation_usd := res_usd, input_usd_per_million_tokens := input_rate,
             output_usd_per_million_tokens := output_rate\<rparr>))))))))))))))))))"

text \<open>The checks of \<open>load_policy\<close> before the numbers, in the order of the code.\<close>

definition policy_host :: "(string \<times> pyval) list \<Rightarrow> proxy_error + (string \<times> string \<times> string)" where
  "policy_host value =
     (case dict_get value ''host'' PNone of
        PStr h \<Rightarrow>
          (case EXPECTED h of
             None \<Rightarrow> Inl (PolicyError ''unsupported provider host'')
           | Some (expected_upstream, expected_path, _) \<Rightarrow> Inr (h, expected_upstream, expected_path))
      | PList _ \<Rightarrow> Inl TypeError \<comment> \<open>unhashable in \<open>host not in EXPECTED\<close>\<close>
      | PDict _ \<Rightarrow> Inl TypeError
      | _ \<Rightarrow> Inl (PolicyError ''unsupported provider host''))"

definition check_endpoint ::
  "(string \<times> pyval) list \<Rightarrow> string \<Rightarrow> string \<Rightarrow> proxy_error + unit" where
  "check_endpoint value expected_upstream expected_path =
     bind_res (guard (py_eq (dict_get value ''schema_version'' PNone) (PInt 1) \<and>
                      py_eq (dict_get value ''upstream'' PNone) (PStr expected_upstream))
                 (PolicyError ''policy upstream is not the fixed provider endpoint'')) (\<lambda>_.
     guard (py_eq (dict_get value ''allowed_method'' PNone) (PStr ''POST'') \<and>
            py_eq (dict_get value ''allowed_paths'' PNone) (PList [PStr expected_path]))
       (PolicyError ''policy endpoint allowlist is invalid''))"

definition policy_model :: "(string \<times> pyval) list \<Rightarrow> proxy_error + string" where
  "policy_model value =
     (case dict_get value ''model'' PNone of
        PStr m \<Rightarrow>
          if m = [] \<or> utf8_length m > 256 then Inl (PolicyError ''policy model is required'') else Inr m
      | _ \<Rightarrow> Inl (PolicyError ''policy model is required''))"

definition policy_objects ::
  "(string \<times> pyval) list \<Rightarrow> proxy_error + (string \<times> pyval) list \<times> (string \<times> pyval) list" where
  "policy_objects value =
     (case (dict_get value ''controls'' PNone, dict_get value ''limits'' PNone) of
        (PDict controls, PDict limits) \<Rightarrow> Inr (controls, limits)
      | _ \<Rightarrow> Inl (PolicyError ''policy requires operator controls and limits''))"

definition bare_policy :: "string \<Rightarrow> string \<Rightarrow> string \<Rightarrow> string \<Rightarrow> string \<Rightarrow> policy" where
  "bare_policy h u q m sec =
     \<lparr>host = h, upstream = u, path = q, model = m, secret = sec, listen_port = 0,
      max_request_bytes = 0, max_response_bytes = 0, max_inflight_requests = 0, max_turns = None,
      max_input_tokens = None, max_output_tokens = None, max_spend_usd = None,
      reservation_usd = None, input_usd_per_million_tokens = None,
      output_usd_per_million_tokens = None\<rparr>"

definition load_policy :: "file_map \<Rightarrow> string \<Rightarrow> proxy_error + policy" where
  "load_policy fs policy_path =
     bind_res (read_json_file fs policy_path MAX_POLICY_BYTES) (\<lambda>value.
     bind_res (policy_host value) (\<lambda>(h, expected_upstream, expected_path).
     bind_res (check_endpoint value expected_upstream expected_path) (\<lambda>_.
     bind_res (policy_model value) (\<lambda>m.
     bind_res (read_secret fs (dict_get value ''secret_path'' PNone)) (\<lambda>sec.
     bind_res (policy_objects value) (\<lambda>(controls, limits).
     load_limits (bare_policy h expected_upstream expected_path m sec)
       (dict_get value ''listen_port'' PNone) controls limits))))))"

subsection \<open>Usage\<close>

definition valid_count :: "pyval \<Rightarrow> int option" where
  "valid_count item = (case item of PInt i \<Rightarrow> if i \<ge> 0 then Some i else None | _ \<Rightarrow> None)"

text \<open>\<open>_usage\<close>: the token counts a decoded provider answer carries.\<close>

definition usage :: "pyval \<Rightarrow> int option \<times> int option" where
  "usage v =
     (case pget v ''usage'' of
        Some (PDict u) \<Rightarrow>
          (valid_count (dict_get u ''input_tokens'' (dict_get u ''input'' PNone)),
           valid_count (dict_get u ''output_tokens'' (dict_get u ''output'' PNone)))
      | _ \<Rightarrow> (None, None))"

text \<open>
  A response body: its length, the JSON document it decodes to as a whole (if it does), and the
  documents of its \<open>data:\<close> lines in order (\<open>None\<close> for a line that does not decode).
\<close>

record body =
  body_length :: int
  whole_doc :: "pyval option"
  sse_docs :: "pyval option list"

fun first_sse_usage :: "pyval option list \<Rightarrow> int option \<times> int option" where
  "first_sse_usage [] = (None, None)"
| "first_sse_usage (None # ds) = first_sse_usage ds"
| "first_sse_usage (Some v # ds) =
     (case usage v of (None, None) \<Rightarrow> first_sse_usage ds | u \<Rightarrow> u)"

definition response_usage :: "body \<Rightarrow> int option \<times> int option" where
  "response_usage raw =
     (case usage (case whole_doc raw of None \<Rightarrow> PNone | Some v \<Rightarrow> v) of
        (None, None) \<Rightarrow> first_sse_usage (sse_docs raw)
      | u \<Rightarrow> u)"

subsection \<open>Budget\<close>

record budget =
  turns :: int
  inflight :: int
  reserved :: rat
  settled :: rat
  input_reserved :: int
  input_settled :: int
  output_reserved :: int
  output_settled :: int

definition new_budget :: budget where
  "new_budget = \<lparr>turns = 0, inflight = 0, reserved = 0, settled = 0, input_reserved = 0,
                 input_settled = 0, output_reserved = 0, output_settled = 0\<rparr>"

definition usd_or_zero :: "rat option \<Rightarrow> rat" where
  "usd_or_zero r = (case r of None \<Rightarrow> 0 | Some x \<Rightarrow> x)"

definition over :: "'a::linorder option \<Rightarrow> 'a \<Rightarrow> bool" where
  "over cap n \<longleftrightarrow> (case cap of None \<Rightarrow> False | Some m \<Rightarrow> n > m)"

text \<open>\<open>Budget.admit\<close>, one atomic step under the lock: the reservation and the new budget.\<close>

definition admit :: "policy \<Rightarrow> budget \<Rightarrow> int \<Rightarrow> int \<Rightarrow> proxy_error + rat \<times> budget" where
  "admit p b input_reservation output_reservation =
     (if (case max_turns p of None \<Rightarrow> False | Some m \<Rightarrow> turns b \<ge> m)
      then Inl (PolicyError ''turn cap exhausted'')
      else if inflight b \<ge> max_inflight_requests p
      then Inl (PolicyError ''inflight cap exhausted'')
      else
        let reservation = usd_or_zero (reservation_usd p) in
        if over (max_spend_usd p) (fl (fl (settled b + reserved b) + reservation))
        then Inl (PolicyError ''spend reservation exhausted'')
        else if over (max_input_tokens p) (input_settled b + input_reserved b + input_reservation)
        then Inl (PolicyError ''input token cap exhausted'')
        else if over (max_output_tokens p) (output_settled b + output_reserved b + output_reservation)
        then Inl (PolicyError ''output token cap exhausted'')
        else Inr (reservation,
               b\<lparr>turns := turns b + 1, inflight := inflight b + 1,
                 reserved := fl (reserved b + reservation),
                 input_reserved := input_reserved b + input_reservation,
                 output_reserved := output_reserved b + output_reservation\<rparr>))"

record usage_record =
  u_input_tokens :: "int option"
  u_output_tokens :: "int option"
  u_estimated_cost :: "rat option"
  u_reserved :: rat
  u_charged :: rat
  u_overshoot :: rat
  u_cost_source :: string
  u_admitted_turns :: int
  u_inflight :: int
  u_cumulative_input :: int
  u_cumulative_output :: int

definition estimated_cost :: "policy \<Rightarrow> int option \<Rightarrow> int option \<Rightarrow> rat option" where
  "estimated_cost p input_tokens output_tokens =
     (case (input_tokens, output_tokens, input_usd_per_million_tokens p,
            output_usd_per_million_tokens p) of
        (Some i, Some t, Some ri, Some rt) \<Rightarrow>
          Some (fl (fl (fl (fl (of_int i) * ri) + fl (fl (of_int t) * rt)) / 1000000))
      | _ \<Rightarrow> None)"

text \<open>\<open>Budget.settle\<close>, one atomic step under the lock\<close>

definition settle ::
  "policy \<Rightarrow> budget \<Rightarrow> rat \<Rightarrow> int \<Rightarrow> int \<Rightarrow> int option \<Rightarrow> int option \<Rightarrow> bool \<Rightarrow> usage_record \<times> budget"
where
  "settle p b reservation input_reservation output_reservation input_tokens output_tokens uncertain =
     (let est = estimated_cost p input_tokens output_tokens;
          charged = (case est of
                       None \<Rightarrow> reservation
                     | Some c \<Rightarrow> if uncertain then reservation else max reservation c);
          b' = b\<lparr>inflight := inflight b - 1, reserved := fl (reserved b - reservation),
                 settled := fl (settled b + charged),
                 input_reserved := input_reserved b - input_reservation,
                 output_reserved := output_reserved b - output_reservation,
                 input_settled := input_settled b +
                   (case input_tokens of None \<Rightarrow> input_reservation | Some i \<Rightarrow> i),
                 output_settled := output_settled b +
                   (case output_tokens of None \<Rightarrow> output_reservation | Some t \<Rightarrow> t)\<rparr>;
          overshoot = (case max_spend_usd p of
                         None \<Rightarrow> 0
                       | Some m \<Rightarrow> if m = 0 then 0 else max 0 (fl (fl (settled b' + reserved b') - m)))
      in (\<lparr>u_input_tokens = input_tokens, u_output_tokens = output_tokens, u_estimated_cost = est,
           u_reserved = reservation, u_charged = charged, u_overshoot = overshoot,
           u_cost_source = (if est \<noteq> None then ''rate_estimated'' else ''unknown''),
           u_admitted_turns = turns b', u_inflight = inflight b',
           u_cumulative_input = input_settled b', u_cumulative_output = output_settled b'\<rparr>, b'))"

subsection \<open>Requests\<close>

text \<open>
  The body the handler reads: its length in bytes and the document it decodes to.  The result is
  the length of the normalised body, the document it encodes and the output reservation.
\<close>

definition normalize_request ::
  "(pyfloat \<Rightarrow> string) \<Rightarrow> policy \<Rightarrow> int \<Rightarrow> pyval option \<Rightarrow> proxy_error + (int \<times> pyval \<times> int)" where
  "normalize_request frepr p raw_length raw_doc =
     (if raw_length > max_request_bytes p then Inl (PolicyError ''request byte cap exceeded'')
      else case raw_doc of
        None \<Rightarrow> Inl (PolicyError ''request must be JSON'')
      | Some (PDict value) \<Rightarrow>
          if \<not> py_eq (dict_get value ''model'' PNone) (PStr (model p))
          then Inl (PolicyError ''request model is not pinned'')
          else
            let output_key = (case EXPECTED (host p) of None \<Rightarrow> [] | Some (_, _, k) \<Rightarrow> k) in
            bind_res
              (case max_output_tokens p of
                 None \<Rightarrow> Inr value
               | Some cap \<Rightarrow>
                   (case dict_get value output_key PNone of
                      PNone \<Rightarrow> Inr (AList.update output_key (PInt cap) value)
                    | PInt r \<Rightarrow>
                        if r < 0 then Inl (PolicyError ''requested output cap is invalid'')
                        else if r > cap then Inl (PolicyError ''requested output cap exceeds policy'')
                        else Inr (AList.update output_key (PInt cap) value)
                    | _ \<Rightarrow> Inl (PolicyError ''requested output cap is invalid'')))
              (\<lambda>value'.
                 let encoded_length = int (utf8_length (json_dumps False frepr (PDict value'))) in
                 if encoded_length > max_request_bytes p
                 then Inl (PolicyError ''normalized request byte cap exceeded'')
                 else case dict_get value' output_key (PInt 0) of
                        PInt n \<Rightarrow>
                          if n < 0 then Inl (PolicyError ''normalized output cap is invalid'')
                          else Inr (encoded_length, PDict value', n)
                      | _ \<Rightarrow> Inl (PolicyError ''normalized output cap is invalid''))
      | Some _ \<Rightarrow> Inl (PolicyError ''request model is not pinned''))"

text \<open>
  One POST: the path, the \<open>Content-Length\<close> header, the credential header the host uses, and the
  document of the body (its length is the announced one).
\<close>

record request =
  req_path :: string
  content_length :: "string option"
  credential :: "string option"
  req_doc :: "pyval option"

text \<open>
  What the world does with a forwarded request: the upstream call raises, or it answers with a
  status and a body; and whether writing the answer to the client succeeds.
\<close>

datatype upstream_answer = Unreachable | Answer int body

datatype event =
    Rejected string
  | Forwarded int usage_record
  | Upstream_Error usage_record

datatype outcome = Reject int string | Relay int | Dropped

definition expected_credential :: "policy \<Rightarrow> string" where
  "expected_credential p =
     (if host p = ''claude'' then INERT_CREDENTIAL else ''Bearer '' @ INERT_CREDENTIAL)"

definition underscored :: "proxy_error \<Rightarrow> string" where
  "underscored e =
     (case e of PolicyError msg \<Rightarrow> map (\<lambda>c. if c = CHR '' '' then CHR ''_'' else c) msg | _ \<Rightarrow> [])"

text \<open>
  The forwarding part of \<open>do_POST\<close>.  An exception raised anywhere in the \<open>try\<close> block, writing to
  the client included, reaches the handler that settles the reservation as uncertain.
\<close>

definition forward ::
  "policy \<Rightarrow> budget \<Rightarrow> rat \<Rightarrow> int \<Rightarrow> int \<Rightarrow> upstream_answer \<Rightarrow> bool \<Rightarrow> outcome \<times> event list \<times> budget" where
  "forward p b reservation input_reservation output_reservation ans client_alive =
     (let failed = (\<lambda>b0. let (u, b1) = settle p b0 reservation input_reservation output_reservation
                                         None None True
                         in if client_alive
                            then (Reject 502 ''upstream_unavailable'',
                                  [Rejected ''upstream_unavailable'', Upstream_Error u], b1)
                            else (Dropped, [], b1))
      in case ans of
           Unreachable \<Rightarrow> failed b
         | Answer status resp \<Rightarrow>
             if body_length resp > max_response_bytes p then failed b
             else
               let (input_tokens, output_tokens) = response_usage resp;
                   (u, b1) = settle p b reservation input_reservation output_reservation
                               input_tokens output_tokens (status \<ge> 400)
               in if client_alive then (Relay status, [Forwarded status u], b1)
                  else failed b1)"

definition do_POST ::
  "(pyfloat \<Rightarrow> string) \<Rightarrow> policy \<Rightarrow> budget \<Rightarrow> request \<Rightarrow> upstream_answer \<Rightarrow> bool \<Rightarrow>
     outcome \<times> event list \<times> budget" where
  "do_POST frepr p b req ans client_alive =
     (let reject = (\<lambda>code reason.
            if client_alive then (Reject code reason, [Rejected reason], b) else (Dropped, [], b))
      in if req_path req \<noteq> path p then reject 404 ''path_not_allowed''
         else case content_length req of
           None \<Rightarrow> reject 411 ''content_length_required''
         | Some cl \<Rightarrow>
             if \<not> is_decimal cl then reject 411 ''content_length_required''
             else
               let size = int (decimal_val 0 cl) in
               if size > max_request_bytes p then reject 413 ''request_byte_cap_exceeded''
               else if credential req \<noteq> Some (expected_credential p)
               then reject 401 ''inert_credential_required''
               else
                 case bind_res (normalize_request frepr p size (req_doc req))
                        (\<lambda>(input_reservation, doc, output_reservation).
                           bind_res (admit p b input_reservation output_reservation)
                             (\<lambda>(reservation, b1).
                               Inr (input_reservation, output_reservation, reservation, b1))) of
                   Inl e \<Rightarrow> reject 429 (underscored e)
                 | Inr (input_reservation, output_reservation, reservation, b1) \<Rightarrow>
                     forward p b1 reservation input_reservation output_reservation ans client_alive)"


subsection \<open>The budget as a ledger of reservations\<close>

text \<open>A reservation is the money, input tokens and output tokens set aside for one request.\<close>

type_synonym reservation = "rat \<times> int \<times> int"

definition admit_request :: "policy \<Rightarrow> budget \<Rightarrow> reservation \<Rightarrow> budget option" where
  "admit_request p b r =
     (case r of (usd, i, t) \<Rightarrow>
        (case admit p b i t of
           Inl _ \<Rightarrow> None
         | Inr (usd', b') \<Rightarrow> if usd' = usd then Some b' else None))"

type_synonym actual_usage = "int option \<times> int option \<times> bool"

definition settle_request :: "policy \<Rightarrow> budget \<Rightarrow> reservation \<Rightarrow> actual_usage \<Rightarrow> budget" where
  "settle_request p b r u =
     (case r of (usd, i, t) \<Rightarrow> case u of (it, ot, uncertain) \<Rightarrow> snd (settle p b usd i t it ot uncertain))"

text \<open>\<open>settle\<close> as the exception handler calls it.\<close>

definition unknown_usage :: actual_usage where "unknown_usage = (None, None, True)"

text \<open>The tokens a settled request is charged with: those reported, or else those reserved.\<close>

definition charged_tokens :: "int \<Rightarrow> int option \<Rightarrow> int" where
  "charged_tokens reservation reported = (case reported of None \<Rightarrow> reservation | Some n \<Rightarrow> n)"

definition input_of :: "reservation \<times> actual_usage \<Rightarrow> int" where
  "input_of x = (case x of ((usd, i, t), (it, ot, uncertain)) \<Rightarrow> charged_tokens i it)"

definition output_of :: "reservation \<times> actual_usage \<Rightarrow> int" where
  "output_of x = (case x of ((usd, i, t), (it, ot, uncertain)) \<Rightarrow> charged_tokens t ot)"

text \<open>
  What the counters of the budget say of the requests in flight (\<open>R\<close>), settled once (\<open>D\<close>) and settled twice
  (\<open>E\<close>).  A request settled twice is taken off the requests and tokens in flight twice.  The counters of money
  are sums of rounded doubles and say nothing exact.
\<close>

type_synonym proxy_state = "(budget, reservation, actual_usage) ledger"

definition accounts :: "proxy_state \<Rightarrow> bool" where
  "accounts s \<longleftrightarrow> (case s of (b, R, D, E) \<Rightarrow>
     inflight b = int (size R) - int (size E) \<and>
     turns b = int (size R + size D + size E) \<and>
     input_reserved b = (\<Sum>r\<in>#R. fst (snd r)) - (\<Sum>x\<in>#E. fst (snd (fst x))) \<and>
     output_reserved b = (\<Sum>r\<in>#R. snd (snd r)) - (\<Sum>x\<in>#E. snd (snd (fst x))) \<and>
     input_settled b = (\<Sum>x\<in>#D + E. input_of x) + (\<Sum>x\<in>#E. fst (snd (fst x))) \<and>
     output_settled b = (\<Sum>x\<in>#D + E. output_of x) + (\<Sum>x\<in>#E. snd (snd (fst x))))"

definition concurrency_capped :: "policy \<Rightarrow> budget \<Rightarrow> bool" where
  "concurrency_capped p b \<longleftrightarrow>
     inflight b \<le> max_inflight_requests p \<and> \<not> over (max_turns p) (turns b)"

definition usage_capped :: "policy \<Rightarrow> budget \<Rightarrow> bool" where
  "usage_capped p b \<longleftrightarrow>
     \<not> over (max_input_tokens p) (input_settled b + input_reserved b) \<and>
     \<not> over (max_output_tokens p) (output_settled b + output_reserved b)"

text \<open>The provider reports no more tokens than were set aside.\<close>

definition honest_usage :: "reservation \<Rightarrow> actual_usage \<Rightarrow> bool" where
  "honest_usage r u \<longleftrightarrow> (case r of (usd, i, t) \<Rightarrow> input_of (r, u) \<le> i \<and> output_of (r, u) \<le> t)"

lemmas ledger_defs = admit_request_def settle_request_def admit_def settle_def Let_def
lemmas charge_defs = input_of_def output_of_def charged_tokens_def

lemma accounts_new: "accounts (new_budget, {#}, {#}, {#})"
  by (simp add: accounts_def new_budget_def)

lemma accounts_admit_request:
  "accounts (b, R, D, E) \<Longrightarrow> admit_request p b r = Some b' \<Longrightarrow> accounts (b', add_mset r R, D, E)"
  by (cases r) (auto simp: ledger_defs accounts_def split: if_splits)

lemma accounts_settle_request:
  "accounts (b, add_mset r R, D, E) \<Longrightarrow> accounts (settle_request p b r u, R, add_mset (r, u) D, E)"
  by (cases r; cases u) (auto simp: ledger_defs accounts_def charge_defs)

lemma accounts_settle_again:
  "accounts (b, R, add_mset (r, u) D, E) \<Longrightarrow> accounts (settle_request p b r unknown_usage, R, D, add_mset (r, u) E)"
  by (cases r; cases u) (auto simp: ledger_defs accounts_def charge_defs unknown_usage_def)

text \<open>
  \<open>load_policy\<close> only returns policies whose caps are not negative; the caps are claimed for those.
\<close>

definition sane_caps :: "policy \<Rightarrow> bool" where
  "sane_caps p \<longleftrightarrow> 0 \<le> max_inflight_requests p \<and> \<not> over (max_turns p) 0"

definition sane_limits :: "policy \<Rightarrow> bool" where
  "sane_limits p \<longleftrightarrow> \<not> over (max_input_tokens p) 0 \<and> \<not> over (max_output_tokens p) 0"

interpretation proxy_caps:
  capped_ledger "admit_request p" "settle_request p" unknown_usage accounts new_budget
    "\<lambda>b. sane_caps p \<longrightarrow> concurrency_capped p b" "\<lambda>r u. True" for p
proof
  show "sane_caps p \<longrightarrow> concurrency_capped p new_budget"
    by (simp add: sane_caps_def concurrency_capped_def new_budget_def)
next
  fix b r b'
  assume "sane_caps p \<longrightarrow> concurrency_capped p b" "admit_request p b r = Some b'"
  then show "sane_caps p \<longrightarrow> concurrency_capped p b'"
    by (cases r) (auto simp: ledger_defs concurrency_capped_def over_def split: if_splits option.splits)
next
  fix b r u
  assume "sane_caps p \<longrightarrow> concurrency_capped p b"
  then show "sane_caps p \<longrightarrow> concurrency_capped p (settle_request p b r u)"
    by (cases r; cases u) (auto simp: ledger_defs concurrency_capped_def)
next
  fix b r
  assume "sane_caps p \<longrightarrow> concurrency_capped p b"
  then show "sane_caps p \<longrightarrow> concurrency_capped p (settle_request p b r unknown_usage)"
    by (cases r) (auto simp: ledger_defs concurrency_capped_def unknown_usage_def)
qed (auto intro: accounts_new accounts_admit_request accounts_settle_request accounts_settle_again)

lemma over_mono: "\<not> over cap b \<Longrightarrow> a \<le> b \<Longrightarrow> \<not> over cap a"
  by (auto simp: over_def split: option.splits)

lemma unknown_is_honest: "honest_usage r unknown_usage"
  by (cases r) (simp add: honest_usage_def unknown_usage_def charge_defs)

lemma usage_capped_settle:
  assumes "usage_capped p b" and "honest_usage r u"
  shows "usage_capped p (settle_request p b r u)"
proof -
  obtain usd i t it ot unc where r: "r = (usd, i, t)" and u: "u = (it, ot, unc)"
    by (cases r, cases u)
  let ?b = "settle_request p b r u"
  from assms(2) have "input_settled ?b + input_reserved ?b \<le> input_settled b + input_reserved b"
    "output_settled ?b + output_reserved ?b \<le> output_settled b + output_reserved b"
    by (auto simp: r u ledger_defs honest_usage_def charge_defs split: option.splits)
  with assms(1) show ?thesis
    unfolding usage_capped_def by (metis over_mono)
qed

interpretation proxy_limits:
  capped_ledger "admit_request p" "settle_request p" unknown_usage accounts new_budget
    "\<lambda>b. sane_limits p \<longrightarrow> usage_capped p b" honest_usage for p
proof
  show "sane_limits p \<longrightarrow> usage_capped p new_budget"
    by (simp add: sane_limits_def usage_capped_def new_budget_def)
next
  fix b r b'
  assume "sane_limits p \<longrightarrow> usage_capped p b" "admit_request p b r = Some b'"
  then show "sane_limits p \<longrightarrow> usage_capped p b'"
    by (cases r) (auto simp: ledger_defs usage_capped_def algebra_simps split: if_splits)
next
  fix b r u
  assume "sane_limits p \<longrightarrow> usage_capped p b" "honest_usage r u"
  then show "sane_limits p \<longrightarrow> usage_capped p (settle_request p b r u)"
    using usage_capped_settle by blast
next
  fix b r
  assume "sane_limits p \<longrightarrow> usage_capped p b"
  then show "sane_limits p \<longrightarrow> usage_capped p (settle_request p b r unknown_usage)"
    using usage_capped_settle unknown_is_honest by blast
qed


subsection \<open>What a loaded policy guarantees\<close>

definition not_negative :: "rat option \<Rightarrow> bool" where
  "not_negative r \<longleftrightarrow> (case r of None \<Rightarrow> True | Some x \<Rightarrow> 0 \<le> x)"

definition wf_policy :: "policy \<Rightarrow> bool" where
  "wf_policy p \<longleftrightarrow>
     (\<exists>k. EXPECTED (host p) = Some (upstream p, path p, k)) \<and>
     model p \<noteq> [] \<and> utf8_length (model p) \<le> 256 \<and> secret p \<noteq> [] \<and> secret p \<noteq> INERT_CREDENTIAL \<and>
     1 \<le> listen_port p \<and> listen_port p \<le> 65535 \<and>
     1 \<le> max_request_bytes p \<and> max_request_bytes p \<le> MAX_HARD_REQUEST_BYTES \<and>
     1 \<le> max_response_bytes p \<and> max_response_bytes p \<le> MAX_HARD_RESPONSE_BYTES \<and>
     1 \<le> max_inflight_requests p \<and> max_inflight_requests p \<le> 32 \<and>
     \<not> over (max_turns p) 0 \<and> \<not> over (max_output_tokens p) 0 \<and>
     \<not> over (max_input_tokens p) (max_request_bytes p) \<and>
     (case max_spend_usd p of
        None \<Rightarrow> reservation_usd p = None
      | Some m \<Rightarrow> (\<exists>r. reservation_usd p = Some r \<and> 0 < r \<and> r \<le> m)) \<and>
     not_negative (input_usd_per_million_tokens p) \<and> not_negative (output_usd_per_million_tokens p)"

lemma limit_int_Inr: "limit_int v nm = Inr c \<Longrightarrow> \<not> over c 0"
  by (cases v) (auto simp: over_def split: if_splits)

lemma number_Inr: "number v = Inr r \<Longrightarrow> not_negative r"
  by (cases v rule: number.cases)
    (auto simp: bind_res_Inr_iff nonneg_number_def not_negative_def split: if_splits)

lemma ceiling_in_Inr: "ceiling_in v m msg = Inr n \<Longrightarrow> 1 \<le> n \<and> n \<le> m"
  by (auto simp: ceiling_in_def split: option.splits if_splits)

lemma check_spend_Inr:
  "check_spend m r = Inr u \<Longrightarrow>
     (case m of None \<Rightarrow> r = None | Some x \<Rightarrow> (\<exists>y. r = Some y \<and> 0 < y \<and> y \<le> x))"
  by (auto simp: check_spend_def split: option.splits)

lemma read_secret_Inr: "read_secret fs v = Inr sec \<Longrightarrow> sec \<noteq> [] \<and> sec \<noteq> INERT_CREDENTIAL"
  by (auto simp: read_secret_def Let_def split: pyval.splits if_splits option.splits)

lemma load_limits_Inr:
  assumes "load_limits p0 port controls limits = Inr p"
  shows "host p = host p0 \<and> upstream p = upstream p0 \<and> path p = path p0 \<and> model p = model p0 \<and>
    secret p = secret p0 \<and> 1 \<le> listen_port p \<and> listen_port p \<le> 65535 \<and>
    1 \<le> max_request_bytes p \<and> max_request_bytes p \<le> MAX_HARD_REQUEST_BYTES \<and>
    1 \<le> max_response_bytes p \<and> max_response_bytes p \<le> MAX_HARD_RESPONSE_BYTES \<and>
    1 \<le> max_inflight_requests p \<and> max_inflight_requests p \<le> 32 \<and>
    \<not> over (max_turns p) 0 \<and> \<not> over (max_output_tokens p) 0 \<and>
    \<not> over (max_input_tokens p) (max_request_bytes p) \<and>
    (case max_spend_usd p of None \<Rightarrow> reservation_usd p = None
     | Some x \<Rightarrow> (\<exists>y. reservation_usd p = Some y \<and> 0 < y \<and> y \<le> x)) \<and>
    not_negative (input_usd_per_million_tokens p) \<and> not_negative (output_usd_per_million_tokens p)"
  using assms unfolding load_limits_def
  by (clarsimp simp only: bind_res_Inr_iff guard_Inr_iff)
     (auto dest!: limit_int_Inr ceiling_in_Inr check_spend_Inr number_Inr simp: over_def split: option.splits)

lemma policy_host_Inr: "policy_host value = Inr (h, u, q) \<Longrightarrow> \<exists>k. EXPECTED h = Some (u, q, k)"
  by (auto simp: policy_host_def split: pyval.splits option.splits)

lemma policy_model_Inr: "policy_model value = Inr m \<Longrightarrow> m \<noteq> [] \<and> utf8_length m \<le> 256"
  by (auto simp: policy_model_def split: pyval.splits if_splits)

lemma load_policy_wf:
  assumes "load_policy fs pp = Inr p"
  shows "wf_policy p"
proof -
  from assms obtain val0 h u q m sec controls limits where
    parts: "policy_host val0 = Inr (h, u, q)" "policy_model val0 = Inr m"
      "read_secret fs (dict_get val0 ''secret_path'' PNone) = Inr sec"
      "load_limits (bare_policy h u q m sec) (dict_get val0 ''listen_port'' PNone) controls limits = Inr p"
    unfolding load_policy_def by (auto simp: bind_res_Inr_iff)
  from load_limits_Inr [OF parts(4)] policy_host_Inr [OF parts(1)] policy_model_Inr [OF parts(2)]
    read_secret_Inr [OF parts(3)]
  show ?thesis by (auto simp: wf_policy_def bare_policy_def)
qed

lemma wf_policy_sane: "wf_policy p \<Longrightarrow> sane_caps p \<and> sane_limits p"
  by (auto simp: wf_policy_def sane_caps_def sane_limits_def over_def split: option.splits)


subsection \<open>Normalised requests\<close>

definition output_key_of :: "policy \<Rightarrow> string" where
  "output_key_of p = (case EXPECTED (host p) of None \<Rightarrow> [] | Some (_, _, k) \<Rightarrow> k)"

lemma output_key_not_model [simp]: "output_key_of p \<noteq> ''model''" "''model'' \<noteq> output_key_of p"
  by (auto simp: output_key_of_def EXPECTED_def split: option.splits if_splits)

lemma dict_get_map_of: "v \<noteq> x \<Longrightarrow> dict_get d k x = v \<Longrightarrow> map_of d k = Some v"
  by (simp add: dict_get_def split: option.splits)

text \<open>Shape of an accepted request: the document is a dictionary, capped as the policy says.\<close>

lemma normalize_request_Inr:
  assumes "normalize_request frepr p len (Some (PDict d)) = Inr (n, doc, t)"
  obtains d' where "doc = PDict d'" "dict_get d' ''model'' PNone = PStr (model p)"
    "n = int (utf8_length (json_dumps False frepr (PDict d')))" "n \<le> max_request_bytes p"
    "0 \<le> t" "dict_get d' (output_key_of p) (PInt 0) = PInt t"
    "\<And>cap. max_output_tokens p = Some cap \<Longrightarrow> t = cap \<and> map_of d' (output_key_of p) = Some (PInt cap)"
  using assms unfolding normalize_request_def output_key_of_def [symmetric] Let_def
  by (auto simp: bind_res_Inr_iff split: if_splits option.splits pyval.splits)

lemma normalize_request_doc:
  "normalize_request frepr p len raw = Inr r \<Longrightarrow> \<exists>d. raw = Some (PDict d)"
  unfolding normalize_request_def by (auto split: if_splits option.splits pyval.splits)

lemma normalize_request_again:
  assumes "dict_get d ''model'' PNone = PStr (model p)"
    and "n = int (utf8_length (json_dumps False frepr (PDict d)))" and "n \<le> max_request_bytes p"
    and "0 \<le> t" and "dict_get d (output_key_of p) (PInt 0) = PInt t"
    and "\<And>cap. max_output_tokens p = Some cap \<Longrightarrow> t = cap \<and> map_of d (output_key_of p) = Some (PInt cap)"
  shows "normalize_request frepr p n (Some (PDict d)) = Inr (n, PDict d, t)"
proof (cases "max_output_tokens p")
  case None
  with assms show ?thesis
    by (simp add: normalize_request_def output_key_of_def [symmetric])
next
  case (Some cap)
  with assms(6) [of cap] have "t = cap" "map_of d (output_key_of p) = Some (PInt cap)" by simp_all
  with Some assms(1-5) show ?thesis
    by (simp add: normalize_request_def output_key_of_def [symmetric] update_same)
qed

subsection \<open>The handler\<close>

lemma settle_returns:
  "snd (settle p b usd i t it ot unc) = b' \<Longrightarrow>
     inflight b' = inflight b - 1 \<and> reserved b' = fl (reserved b - usd) \<and>
     input_reserved b' = input_reserved b - i \<and> output_reserved b' = output_reserved b - t \<and>
     turns b' = turns b"
  by (auto simp: settle_def Let_def)

lemma admit_takes:
  "admit p b i t = Inr (usd, b') \<Longrightarrow>
     inflight b' = inflight b + 1 \<and> reserved b' = fl (reserved b + usd) \<and>
     input_reserved b' = input_reserved b + i \<and> output_reserved b' = output_reserved b + t \<and>
     turns b' = turns b + 1"
  by (auto simp: admit_def Let_def split: if_splits)

lemma forward_alive:
  assumes "forward p b usd i t ans True = (out, ev, b')"
  shows "inflight b' = inflight b - 1 \<and> reserved b' = fl (reserved b - usd) \<and>
     input_reserved b' = input_reserved b - i \<and> output_reserved b' = output_reserved b - t"
proof -
  from assms obtain it ot unc where "b' = snd (settle p b usd i t it ot unc)"
    unfolding forward_def Let_def
    by (cases ans) (auto split: prod.splits if_splits, (metis snd_conv)+)
  then show ?thesis using settle_returns by blast
qed

text \<open>A request either leaves the budget alone or was admitted and forwarded.\<close>

lemma do_POST_cases:
  assumes "do_POST frepr p b req ans alive = (out, ev, b')"
  shows "b' = b \<or> (\<exists>cl i doc t usd b1.
     req_path req = path p \<and> content_length req = Some cl \<and> is_decimal cl \<and>
     int (decimal_val 0 cl) \<le> max_request_bytes p \<and>
     credential req = Some (expected_credential p) \<and>
     normalize_request frepr p (int (decimal_val 0 cl)) (req_doc req) = Inr (i, doc, t) \<and>
     admit p b i t = Inr (usd, b1) \<and> forward p b1 usd i t ans alive = (out, ev, b'))"
proof -
  have split_call: "bind_res m (\<lambda>(i, doc, t). bind_res (admit p b i t) (\<lambda>(usd, b1). Inr (i, t, usd, b1)))
      = Inr (i', t', usd', b1') \<Longrightarrow> \<exists>doc. m = Inr (i', doc, t') \<and> admit p b i' t' = Inr (usd', b1')"
    for m :: "proxy_error + int \<times> pyval \<times> int" and i' t' usd' b1'
    by (auto simp: bind_res_Inr_iff)
  show ?thesis
    using assms unfolding do_POST_def Let_def
    by (auto split: if_splits option.splits sum.splits prod.splits dest!: split_call)
qed


subsection \<open>A concrete policy for the witnesses\<close>

definition example_doc :: pyval where
  "example_doc = PDict
     [(''host'', PStr ''codex''), (''schema_version'', PInt 1),
      (''upstream'', PStr ''api.openai.com''), (''allowed_method'', PStr ''POST''),
      (''allowed_paths'', PList [PStr ''/v1/responses'']), (''model'', PStr ''m''),
      (''secret_path'', PStr ''/s''),
      (''controls'', PDict [(''max_request_bytes'', PInt 100), (''max_response_bytes'', PInt 100),
                           (''max_inflight_requests'', PInt 1)]),
      (''limits'', PDict [(''max_turns'', PInt 5), (''max_output_tokens'', PInt 7)]),
      (''listen_port'', PInt 8080)]"

definition example_files :: file_map where
  "example_files p =
     (if p = ''/p'' then Some \<lparr>regular = True, file_size = 10, json_doc = Some example_doc, file_text = []\<rparr>
      else if p = ''/s'' then Some \<lparr>regular = True, file_size = 3, json_doc = None, file_text = '' k ''\<rparr>
      else None)"

definition example_policy :: policy where
  "example_policy =
     \<lparr>host = ''codex'', upstream = ''api.openai.com'', path = ''/v1/responses'', model = ''m'',
      secret = ''k'', listen_port = 8080, max_request_bytes = 100, max_response_bytes = 100,
      max_inflight_requests = 1, max_turns = Some 5, max_input_tokens = None,
      max_output_tokens = Some 7, max_spend_usd = None, reservation_usd = None,
      input_usd_per_million_tokens = None, output_usd_per_million_tokens = None\<rparr>"

definition example_request :: request where
  "example_request =
     \<lparr>req_path = ''/v1/responses'', content_length = Some ''13'',
      credential = Some (''Bearer '' @ INERT_CREDENTIAL),
      req_doc = Some (PDict [(''model'', PStr ''m'')])\<rparr>"

definition example_answer :: upstream_answer where
  "example_answer = Answer 200 \<lparr>body_length = 5, whole_doc = None, sse_docs = []\<rparr>"

lemma example_load: "load_policy example_files ''/p'' = Inr example_policy"
  by code_simp

lemma example_wf: "wf_policy example_policy"
  using example_load by (rule load_policy_wf)

text \<open>One admitted request of one input and seven output tokens, and the same request settled twice.\<close>

abbreviation proxy_run :: "policy \<Rightarrow> (reservation \<Rightarrow> actual_usage \<Rightarrow> bool) \<Rightarrow> proxy_state \<Rightarrow> bool" where
  "proxy_run p honest \<equiv> ledger_run (admit_request p) (settle_request p) honest unknown_usage new_budget"

definition example_open :: budget where
  "example_open = new_budget\<lparr>turns := 1, inflight := 1, input_reserved := 1, output_reserved := 7\<rparr>"

lemma example_admitted: "admit_request example_policy new_budget (0, 1, 7) = Some example_open"
  by (simp add: ledger_defs example_policy_def example_open_def new_budget_def usd_or_zero_def over_def)

lemma example_run: "proxy_run example_policy honest (example_open, {#(0, 1, 7)#}, {#}, {#})"
proof -
  have "ledger_step (admit_request example_policy) (settle_request example_policy) honest unknown_usage
      (new_budget, {#}, {#}, {#}) (example_open, add_mset (0, 1, 7) {#}, {#}, {#})"
    by (rule ledger_step.admitted) (rule example_admitted)
  with ledger_run.start show ?thesis by (rule ledger_run.step)
qed

subsection \<open>A handled request is a run\<close>

lemma forward_settles:
  assumes "forward p b usd i t ans alive = (out, ev, b')"
  shows "(\<exists>u. b' = settle_request p b (usd, i, t) u) \<or>
    (\<not> alive \<and> (\<exists>u. b' = settle_request p (settle_request p b (usd, i, t) u) (usd, i, t) unknown_usage))"
proof -
  have once: "\<exists>u. snd (settle p b0 usd i t it ot unc) = settle_request p b0 (usd, i, t) u" for b0 it ot unc
    by (intro exI [of _ "(it, ot, unc)"]) (simp add: settle_request_def)
  have failed: "b' = settle_request p b (usd, i, t) unknown_usage" if "b' = snd (settle p b usd i t None None True)"
    using that by (simp add: settle_request_def unknown_usage_def)
  show ?thesis
  proof (cases ans)
    case Unreachable
    then have "b' = snd (settle p b usd i t None None True)"
      using assms by (auto simp: forward_def Let_def split: prod.splits if_splits)
    then show ?thesis using failed by blast
  next
    case (Answer status resp)
    obtain it ot where tok: "response_usage resp = (it, ot)" by (cases "response_usage resp")
    let ?b1 = "snd (settle p b usd i t it ot (status \<ge> 400))"
    consider "b' = snd (settle p b usd i t None None True)" | "b' = ?b1" | "\<not> alive" "b' = snd (settle p ?b1 usd i t None None True)"
      using assms unfolding Answer by (auto simp: forward_def tok Let_def split: prod.splits if_splits)
    then show ?thesis
    proof cases
      case 3
      obtain u where u: "?b1 = settle_request p b (usd, i, t) u" using once by blast
      have "b' = settle_request p ?b1 (usd, i, t) unknown_usage"
        using 3(2) by (simp add: settle_request_def unknown_usage_def)
      then show ?thesis using 3(1) unfolding u by blast
    qed (use failed once in blast)+
  qed
qed

text \<open>
  Handling one POST to its end takes a reachable state of the budget to a reachable one with the same requests in
  flight, and settles at most one request twice, none while the client can be answered.
\<close>

lemma post_is_a_run:
  assumes run: "proxy_run p (\<lambda>r u. True) (b, R, D, E)"
    and post: "do_POST frepr p b req ans alive = (out, ev, b')"
  shows "\<exists>D' E'. proxy_run p (\<lambda>r u. True) (b', R, D', E') \<and> size E' \<le> size E + 1 \<and> (alive \<longrightarrow> E' = E)"
proof (cases "b' = b")
  case True
  then show ?thesis using run by (intro exI [of _ D] exI [of _ E]) simp
next
  case False
  then obtain i t usd b1 where adm: "admit p b i t = Inr (usd, b1)" and fw: "forward p b1 usd i t ans alive = (out, ev, b')"
    using do_POST_cases [OF post] by blast
  let ?r = "(usd, i, t)"
  have "admit_request p b ?r = Some b1" using adm by (simp add: admit_request_def)
  then have r1: "proxy_run p (\<lambda>r u. True) (b1, add_mset ?r R, D, E)" by (intro ledger_run.step [OF run] ledger_step.admitted)
  have r2: "proxy_run p (\<lambda>r u. True) (settle_request p b1 ?r u, R, add_mset (?r, u) D, E)" for u
    by (rule ledger_run.step [OF r1 ledger_step.settled]) simp
  have r3: "proxy_run p (\<lambda>r u. True) (settle_request p (settle_request p b1 ?r u) ?r unknown_usage, R, D, add_mset (?r, u) E)" for u
    by (rule ledger_run.step [OF r2 ledger_step.settled_again])
  from forward_settles [OF fw] show ?thesis
  proof (elim disjE exE conjE)
    fix u assume "b' = settle_request p b1 ?r u"
    then show ?thesis using r2 [of u] by (intro exI [of _ "add_mset (?r, u) D"] exI [of _ E]) simp
  next
    fix u assume "\<not> alive" "b' = settle_request p (settle_request p b1 ?r u) ?r unknown_usage"
    then show ?thesis using r3 [of u] by (intro exI [of _ D] exI [of _ "add_mset (?r, u) E"]) simp
  qed
qed

subsection \<open>Properties\<close>

text \<open>
  C38: the loader fails closed.  Whatever the files hold, a policy it returns names one of the
  two fixed provider endpoints, a model of 1 to 256 bytes and a real secret; its byte ceilings, port and
  concurrency are in range, its turn and token caps are not negative, its request ceiling is no larger than the
  input-token cap, its rates are not negative, and it has a reservation exactly when spending is capped, positive
  and within that cap.
\<close>

theorem load_policy_fails_closed:
  assumes "load_policy fs policy_path = Inr p"
  shows "wf_policy p"
  using assms by (rule load_policy_wf)

theorem load_policy_fails_closed_witness:
  "load_policy example_files ''/p'' = Inr example_policy \<and> wf_policy example_policy"
  using load_policy_fails_closed [OF example_load] example_load by blast

text \<open>
  C10: under every interleaving of admissions and settlements, whatever the provider reports, and with any number
  of requests settled a second time because the answer could not be written to the client, the requests in flight
  exceed \<open>max_inflight_requests\<close> by no more than the number of those second settlements (so not at all while
  clients stay connected), and no more than \<open>max_turns\<close> requests were ever admitted; the counters of the budget
  are the requests in flight less those settled twice, and all requests.
\<close>

theorem budget_concurrency_caps:
  assumes "wf_policy p" and "proxy_run p (\<lambda>r u. True) (b, R, D, E)"
  shows "int (size R) \<le> max_inflight_requests p + int (size E) \<and>
    \<not> over (max_turns p) (int (size R + size D + size E)) \<and>
    inflight b = int (size R) - int (size E) \<and> turns b = int (size R + size D + size E)"
proof -
  from proxy_caps.run_sound [OF assms(2)] wf_policy_sane [OF assms(1)]
  have "accounts (b, R, D, E)" "concurrency_capped p b" by auto
  then show ?thesis by (simp add: accounts_def concurrency_capped_def)
qed

theorem budget_concurrency_caps_witness:
  "\<exists>b. proxy_run example_policy (\<lambda>r u. True) (b, {#(0, 1, 7)#}, {#}, {#}) \<and>
    int (size {#(0::rat, 1::int, 7::int)#}) \<le> max_inflight_requests example_policy"
  using budget_concurrency_caps [OF example_wf example_run] example_run by auto

text \<open>
  C11: as long as the provider reports no more tokens than were reserved, the input tokens charged to all settled
  requests and reserved by all requests in flight never exceed the policy's cap together, and neither do the output
  tokens: under every interleaving, and also when requests are settled twice.  (Nothing of the kind holds of the
  money, whose counters are sums of rounded doubles.)
\<close>

theorem budget_usage_caps:
  assumes "wf_policy p" and "proxy_run p honest_usage (b, R, D, E)"
  shows "\<not> over (max_input_tokens p) ((\<Sum>x\<in>#D + E. input_of x) + (\<Sum>r\<in>#R. fst (snd r))) \<and>
    \<not> over (max_output_tokens p) ((\<Sum>x\<in>#D + E. output_of x) + (\<Sum>r\<in>#R. snd (snd r)))"
proof -
  from proxy_limits.run_sound [OF assms(2)] wf_policy_sane [OF assms(1)]
  have a: "accounts (b, R, D, E)" and c: "usage_capped p b" by auto
  have "input_settled b + input_reserved b = (\<Sum>x\<in>#D + E. input_of x) + (\<Sum>r\<in>#R. fst (snd r))"
    "output_settled b + output_reserved b = (\<Sum>x\<in>#D + E. output_of x) + (\<Sum>r\<in>#R. snd (snd r))"
    using a by (simp_all add: accounts_def case_prod_beta)
  then show ?thesis using c unfolding usage_capped_def by metis
qed

theorem budget_usage_caps_witness:
  "proxy_run example_policy honest_usage (example_open, {#(0, 1, 7)#}, {#}, {#}) \<and>
   \<not> over (max_output_tokens example_policy) (7::int)"
  using budget_usage_caps [OF example_wf example_run] example_run by simp

text \<open>
  The spend cap is not exact.  With a cap of 0.4 and reservations of 0.1 dollars, one request admitted and settled
  and three more admitted, two of them settled, all charged exactly what they reserved, count more than the cap:
  the doubles round up, and the usage record reports an overshoot.
\<close>

definition dime_policy :: policy where
  "dime_policy = example_policy\<lparr>max_inflight_requests := 3, max_spend_usd := Some (fl (4 / 10)), reservation_usd := Some (fl (1 / 10))\<rparr>"

lemma spend_cap_rounds_over:
  "\<exists>b D. proxy_run dime_policy (\<lambda>r u. u = unknown_usage) (b, {#(fl (1 / 10), 0, 0)#}, D, {#}) \<and>
     over (max_spend_usd dime_policy) (fl (settled b + reserved b))"
proof -
  let ?d = "fl (1 / 10)"
  let ?r = "(?d, 0, 0)"
  let ?run = "proxy_run dime_policy (\<lambda>r u. u = unknown_usage)"
  have adm: "?run (b, R, D, {#}) \<Longrightarrow> admit_request dime_policy b ?r = Some b' \<Longrightarrow> ?run (b', add_mset ?r R, D, {#})" for b R D b'
    by (rule ledger_run.step [OF _ ledger_step.admitted])
  have stl: "?run (b, add_mset ?r R, D, {#}) \<Longrightarrow> ?run (settle_request dime_policy b ?r unknown_usage, R, add_mset (?r, unknown_usage) D, {#})" for b R D
    by (rule ledger_run.step [OF _ ledger_step.settled]) simp_all
  let ?s = "\<lambda>b. settle_request dime_policy b ?r unknown_usage"
  let ?a = "\<lambda>b. the (admit_request dime_policy b ?r)"
  have ok: "admit_request dime_policy new_budget ?r = Some (?a new_budget)"
    "admit_request dime_policy (?s (?a new_budget)) ?r = Some (?a (?s (?a new_budget)))"
    "admit_request dime_policy (?a (?s (?a new_budget))) ?r = Some (?a (?a (?s (?a new_budget))))"
    "admit_request dime_policy (?a (?a (?s (?a new_budget)))) ?r = Some (?a (?a (?a (?s (?a new_budget)))))"
    by code_simp+
  have "?run (new_budget, {#}, {#}, {#})" by (rule ledger_run.start)
  from stl [OF stl [OF adm [OF adm [OF adm [OF stl [OF adm [OF this ok(1)]] ok(2)] ok(3)] ok(4)]]]
  have "\<exists>D. ?run (?s (?s (?a (?a (?a (?s (?a new_budget)))))), {#?r#}, D, {#})" by blast
  moreover have "over (max_spend_usd dime_policy) (fl (settled (?s (?s (?a (?a (?a (?s (?a new_budget))))))) +
      reserved (?s (?s (?a (?a (?a (?s (?a new_budget)))))))))"
    by code_simp
  ultimately show ?thesis by blast
qed

text \<open>
  C39: an accepted request is pinned and capped: the forwarded document asks for the policy's
  model, fits the byte ceiling, reserves a nonnegative number of output tokens, which is the
  policy's cap when there is one, and normalising it again changes nothing.
\<close>

theorem normalize_request_pins:
  assumes "normalize_request frepr p len raw = Inr (n, doc, t)"
  shows "n \<le> max_request_bytes p \<and> pget doc ''model'' = Some (PStr (model p)) \<and> 0 \<le> t \<and>
    (max_output_tokens p = None \<or>
      max_output_tokens p = Some t \<and> pget doc (output_key_of p) = Some (PInt t)) \<and>
    normalize_request frepr p n (Some doc) = Inr (n, doc, t)"
proof -
  from normalize_request_doc [OF assms] obtain d where "raw = Some (PDict d)" by blast
  from normalize_request_Inr [OF assms [unfolded this]] obtain d' where d':
    "doc = PDict d'" "dict_get d' ''model'' PNone = PStr (model p)"
    "n = int (utf8_length (json_dumps False frepr (PDict d')))" "n \<le> max_request_bytes p"
    "0 \<le> t" "dict_get d' (output_key_of p) (PInt 0) = PInt t"
    "\<And>cap. max_output_tokens p = Some cap \<Longrightarrow> t = cap \<and> map_of d' (output_key_of p) = Some (PInt cap)"
    by blast
  have model: "pget doc ''model'' = Some (PStr (model p))"
    using dict_get_map_of [OF _ d'(2)] by (simp add: d'(1))
  have cap: "max_output_tokens p = None \<or>
      max_output_tokens p = Some t \<and> pget doc (output_key_of p) = Some (PInt t)"
    using d'(7) by (cases "max_output_tokens p") (auto simp: d'(1))
  from normalize_request_again [OF d'(2-7)] have "normalize_request frepr p n (Some doc) = Inr (n, doc, t)"
    by (simp only: d'(1))
  with model cap d'(4,5) show ?thesis by blast
qed

theorem normalize_request_pins_witness:
  "normalize_request (\<lambda>f. []) example_policy 13 (Some (PDict [(''model'', PStr ''m'')])) =
     Inr (35, PDict [(''model'', PStr ''m''), (''max_output_tokens'', PInt 7)], 7) \<and>
   pget (PDict [(''model'', PStr ''m''), (''max_output_tokens'', PInt 7)]) ''model'' =
     Some (PStr (model example_policy))"
proof -
  have run: "normalize_request (\<lambda>f. []) example_policy 13 (Some (PDict [(''model'', PStr ''m'')])) =
     Inr (35, PDict [(''model'', PStr ''m''), (''max_output_tokens'', PInt 7)], 7)"
    by code_simp
  from normalize_request_pins [OF run] run show ?thesis by blast
qed

text \<open>
  only a request that names the policy's endpoint, announces a decimal length within the byte
  ceiling, carries the inert credential, normalises and is admitted can change the budget; every
  other request is refused with the books untouched.
\<close>

theorem do_POST_gate:
  assumes "do_POST frepr p b req ans alive = (out, ev, b')" and "b' \<noteq> b"
  shows "req_path req = path p \<and> credential req = Some (expected_credential p) \<and>
    (\<exists>cl i doc t usd b1. content_length req = Some cl \<and> is_decimal cl \<and>
       int (decimal_val 0 cl) \<le> max_request_bytes p \<and>
       normalize_request frepr p (int (decimal_val 0 cl)) (req_doc req) = Inr (i, doc, t) \<and>
       admit p b i t = Inr (usd, b1))"
  using do_POST_cases [OF assms(1)] assms(2) by blast

lemma example_post:
  "do_POST (\<lambda>f. []) example_policy new_budget example_request example_answer False =
     (Dropped, [], new_budget\<lparr>turns := 1, inflight := -1, input_reserved := -35, input_settled := 70,
                              output_reserved := -7, output_settled := 14\<rparr>)"
  by code_simp

lemma example_post_alive:
  "snd (snd (do_POST (\<lambda>f. []) example_policy new_budget example_request example_answer True)) =
     new_budget\<lparr>turns := 1, input_settled := 35, output_settled := 7\<rparr>"
  by code_simp

theorem do_POST_gate_witness:
  "req_path example_request = path example_policy"
  using do_POST_gate [OF example_post] by (simp add: new_budget_def)

text \<open>
  while the client can be answered, one POST returns everything it reserved, on every branch:
  refused, forwarded, upstream failure or oversized answer.  (The money comes back too, up to rounding.)
\<close>

theorem do_POST_returns_reservation:
  assumes "do_POST frepr p b req ans True = (out, ev, b')"
  shows "inflight b' = inflight b \<and>
    input_reserved b' = input_reserved b \<and> output_reserved b' = output_reserved b"
  using do_POST_cases [OF assms] by (auto dest!: forward_alive admit_takes)

theorem do_POST_returns_reservation_witness:
  "\<exists>out ev b'. do_POST (\<lambda>f. []) example_policy new_budget example_request example_answer True =
      (out, ev, b') \<and> turns b' = 1 \<and> inflight b' = 0"
proof -
  obtain out ev b' where
    run: "do_POST (\<lambda>f. []) example_policy new_budget example_request example_answer True = (out, ev, b')"
    by (cases "do_POST (\<lambda>f. []) example_policy new_budget example_request example_answer True")
  with example_post_alive have "turns b' = 1" by simp
  with run do_POST_returns_reservation [OF run] show ?thesis by (simp add: new_budget_def)
qed

text \<open>
  when writing a good answer to the client fails, the reservation is settled twice: the
  request ends one below the concurrency it started from, and its tokens are released
  a second time from reservations that belong to other requests.
\<close>

theorem disconnect_settles_twice:
  assumes "body_length resp \<le> max_response_bytes p" and "admit p b i t = Inr (usd, b1)"
    and "forward p b1 usd i t (Answer status resp) False = (out, ev, b')"
  shows "inflight b' = inflight b - 1 \<and>
    input_reserved b' = input_reserved b - i \<and> output_reserved b' = output_reserved b - t"
proof -
  obtain it ot where tok: "response_usage resp = (it, ot)" by (cases "response_usage resp")
  let ?b2 = "snd (settle p b1 usd i t it ot (status \<ge> 400))"
  have "snd (snd (forward p b1 usd i t (Answer status resp) False)) =
      snd (settle p ?b2 usd i t None None True)"
    using assms(1) by (simp add: forward_def tok Let_def case_prod_beta)
  with assms(3) have "b' = snd (settle p ?b2 usd i t None None True)" by simp
  from settle_returns [OF this [symmetric]] settle_returns [of p b1 usd i t it ot "status \<ge> 400", OF refl]
    admit_takes [OF assms(2)]
  show ?thesis by linarith
qed

theorem disconnect_settles_twice_witness:
  "\<exists>out ev b'. forward example_policy
       (new_budget\<lparr>turns := 1, inflight := 1, input_reserved := 1, output_reserved := 7\<rparr>) 0 1 7
       example_answer False = (out, ev, b') \<and> inflight b' = -1"
proof -
  let ?b1 = "new_budget\<lparr>turns := 1, inflight := 1, input_reserved := 1, output_reserved := 7\<rparr>"
  obtain out ev b' where f: "forward example_policy ?b1 0 1 7 example_answer False = (out, ev, b')"
    by (cases "forward example_policy ?b1 0 1 7 example_answer False")
  have adm: "admit example_policy new_budget 1 7 = Inr (0, ?b1)"
    by (simp add: ledger_defs example_policy_def new_budget_def usd_or_zero_def over_def)
  have "inflight b' = inflight new_budget - 1"
    using disconnect_settles_twice [OF _ adm f [unfolded example_answer_def]]
    by (simp add: example_policy_def)
  with f show ?thesis by (simp add: new_budget_def)
qed

end
