(* ===== verification/Py_Text.thy ===== *)
theory Py_Text
  imports Py_Prelude
begin

text \<open>
  String operations of Python that need more than one pass: \<open>str.replace\<close>, \<open>str.find\<close>, \<open>sub in s\<close>
  and \<open>str.splitlines\<close>.
\<close>

subsection \<open>Replacement and search\<close>

text \<open>\<open>s.replace(old, new)\<close> for a nonempty \<open>old\<close>: left to right, without overlaps.\<close>

function replace_str :: "string \<Rightarrow> string \<Rightarrow> string \<Rightarrow> string" where
  "replace_str old new s =
     (if old \<noteq> [] \<and> starts_with s old \<and> s \<noteq> []
      then new @ replace_str old new (drop (length old) s)
      else (case s of [] \<Rightarrow> [] | c # cs \<Rightarrow> c # replace_str old new cs))"
  by pat_completeness auto
termination
  by (relation "measure (\<lambda>(old, new, s). length s)") auto

declare replace_str.simps [simp del]

text \<open>\<open>s.find(sub)\<close>, with \<open>None\<close> for -1.\<close>

fun find_from :: "nat \<Rightarrow> string \<Rightarrow> string \<Rightarrow> nat option" where
  "find_from i sub [] = (if sub = [] then Some i else None)"
| "find_from i sub (c # cs) =
     (if starts_with (c # cs) sub then Some i else find_from (Suc i) sub cs)"

definition find_str :: "string \<Rightarrow> string \<Rightarrow> nat option" where
  "find_str s sub = find_from 0 sub s"

text \<open>\<open>sub in s\<close>\<close>

definition contains :: "string \<Rightarrow> string \<Rightarrow> bool" where
  "contains s sub \<longleftrightarrow> find_str s sub \<noteq> None"

lemma starts_with_append [simp]: "starts_with (p @ s) p"
  by (simp add: starts_with_def)

lemma starts_withE: "starts_with s p \<Longrightarrow> \<exists>r. s = p @ r"
  unfolding starts_with_def by (metis append_take_drop_id)

lemma find_from_Some:
  "find_from i sub s = Some k \<Longrightarrow> \<exists>u v. s = u @ sub @ v \<and> k = i + length u"
proof (induction i sub s rule: find_from.induct)
  case (1 i sub)
  then show ?case by (auto split: if_splits)
next
  case (2 i sub c cs)
  show ?case
  proof (cases "starts_with (c # cs) sub")
    case True
    then obtain r where r: "c # cs = sub @ r" using starts_withE by blast
    from True 2 have "k = i" by simp
    with r show ?thesis by (intro exI [of _ "[]"] exI [of _ r]) simp
  next
    case False
    with 2 obtain u v where "cs = u @ sub @ v" "k = Suc i + length u" by auto
    then show ?thesis by (intro exI [of _ "c # u"] exI [of _ v]) simp
  qed
qed

lemma find_from_None: "find_from i sub (u @ sub @ v) \<noteq> None"
proof (induction u arbitrary: i)
  case Nil
  then show ?case using starts_with_append [of sub v] by (cases "sub @ v") auto
qed auto

lemma contains_iff: "contains s sub \<longleftrightarrow> (\<exists>u v. s = u @ sub @ v)"
  unfolding contains_def find_str_def using find_from_Some find_from_None by blast

lemma replace_str_length:
  "new = [] \<Longrightarrow> length (replace_str old new s) \<le> length s"
proof (induction old new s rule: replace_str.induct)
  case (1 old new s)
  then show ?case
    by (subst replace_str.simps) (auto split: list.split)
qed

subsection \<open>Lines\<close>

text \<open>The line boundaries of \<open>str.splitlines\<close> below code point 256; \<open>\r\n\<close> is one boundary.\<close>

definition is_break :: "char \<Rightarrow> bool" where
  "is_break c \<longleftrightarrow> (let n = of_char c :: nat in
     10 \<le> n \<and> n \<le> 13 \<or> 28 \<le> n \<and> n \<le> 30 \<or> n = 133)"

fun splitlines :: "string \<Rightarrow> string list" where
  "splitlines [] = []"
| "splitlines (c # cs) =
     (if is_break c then
        [] # (case cs of
                [] \<Rightarrow> []
              | d # ds \<Rightarrow> if (of_char c :: nat) = 13 \<and> (of_char d :: nat) = 10
                          then splitlines ds else splitlines cs)
      else (case splitlines cs of [] \<Rightarrow> [[c]] | l # ls \<Rightarrow> (c # l) # ls))"

text \<open>\<open>str.splitlines(keepends=True)\<close>: every line with its boundary.\<close>

fun splitlines_keep :: "string \<Rightarrow> string list" where
  "splitlines_keep [] = []"
| "splitlines_keep (c # cs) =
     (if is_break c then
        (case cs of
           [] \<Rightarrow> [[c]]
         | d # ds \<Rightarrow> if (of_char c :: nat) = 13 \<and> (of_char d :: nat) = 10
                     then [c, d] # splitlines_keep ds else [c] # splitlines_keep cs)
      else (case splitlines_keep cs of [] \<Rightarrow> [[c]] | l # ls \<Rightarrow> (c # l) # ls))"

lemma concat_splitlines_keep [simp]: "concat (splitlines_keep s) = s"
proof (induction s rule: splitlines_keep.induct)
  case (2 c cs)
  then show ?case by (cases "splitlines_keep cs") (auto split: list.split)
qed simp

text \<open>\<open>s[left : right]\<close> from the first \<open>left\<close> to the last \<open>right\<close> after it, both included.\<close>

definition bracketed :: "char \<Rightarrow> char \<Rightarrow> string \<Rightarrow> string option" where
  "bracketed left right s =
     (let t = rev (dropWhile (\<lambda>x. x \<noteq> right) (rev (dropWhile (\<lambda>x. x \<noteq> left) s)))
      in if t = [] then None else Some t)"

subsection \<open>Paths\<close>

text \<open>The parts of \<open>PurePosixPath(s)\<close> after its root.\<close>

definition path_parts :: "string \<Rightarrow> string list" where
  "path_parts s = filter (\<lambda>p. p \<noteq> [] \<and> p \<noteq> ''.'') (split_on (CHR ''/'') s)"

text \<open>\<open>str(PurePosixPath(s))\<close> of a relative path.\<close>

definition posix_relative :: "string \<Rightarrow> string" where
  "posix_relative s = (if path_parts s = [] then ''.'' else join_with ''/'' (path_parts s))"

end
