(* ===== verification/Stage_System.thy ===== *)
theory Stage_System
  imports Main
begin

text \<open>
  The contract of a durable progress record: every operation may only move a rank forward, and
  what is final never changes.  The clients' facts hold for any sequence of operations.
\<close>

inductive reaches :: "('s \<Rightarrow> 's \<Rightarrow> bool) \<Rightarrow> 's \<Rightarrow> 's \<Rightarrow> bool" for step where
  stay: "reaches step s s"
| next_step: "reaches step s t \<Longrightarrow> step t u \<Longrightarrow> reaches step s u"

lemma reaches_trans: "reaches step s t \<Longrightarrow> reaches step t u \<Longrightarrow> reaches step s u"
  by (rotate_tac, induction rule: reaches.induct) (auto intro: reaches.next_step)

locale stage_system =
  fixes step :: "'s \<Rightarrow> 's \<Rightarrow> bool"
    and inv :: "'s \<Rightarrow> bool"
    and rank :: "'s \<Rightarrow> nat"
    and final :: "'s \<Rightarrow> 'o option"
  assumes step_inv: "step s t \<Longrightarrow> inv s \<Longrightarrow> inv t"
    and step_rank: "step s t \<Longrightarrow> inv s \<Longrightarrow> rank s \<le> rank t"
    and step_final: "step s t \<Longrightarrow> inv s \<Longrightarrow> final s = Some v \<Longrightarrow> final t = Some v"
begin

lemma reaches_inv: "reaches step s t \<Longrightarrow> inv s \<Longrightarrow> inv t"
  by (induction rule: reaches.induct) (auto intro: step_inv)

lemma reaches_rank: "reaches step s t \<Longrightarrow> inv s \<Longrightarrow> rank s \<le> rank t"
proof (induction rule: reaches.induct)
  case (next_step s t u)
  then show ?case using reaches_inv step_rank le_trans by blast
qed simp

lemma reaches_final: "reaches step s t \<Longrightarrow> inv s \<Longrightarrow> final s = Some v \<Longrightarrow> final t = Some v"
proof (induction rule: reaches.induct)
  case (next_step s t u)
  then show ?case using reaches_inv step_final by blast
qed simp

lemmas reaches_sound = reaches_inv reaches_rank reaches_final

end

end
