(* ===== verification/Terminal_Lifecycle.thy ===== *)
theory Terminal_Lifecycle
  imports Py_Json Py_Text Stage_System
begin

text \<open>
  \<^verbatim>\<open>scripts/_terminal_lifecycle.py\<close>: the durable closeout state of one run.  A disk maps path
  spellings to nodes; the facts of the host the module relies on are the record \<open>host\<close>: the process
  id in temporary names, \<open>Path.resolve(strict=True)\<close> and \<open>hashlib.sha256(\<dots>).hexdigest()\<close>, both
  uninterpreted.  Every function that writes is a step on the disk, and what it wrote before it
  raised stays on the disk.
\<close>

subsection \<open>Disk and host\<close>

datatype content =
    Doc pyval        \<comment> \<open>the text is a JSON document\<close>
  | Raw string       \<comment> \<open>any other text\<close>
  | Undecodable

datatype node = File content | Symlink bool | Directory | Special

type_synonym disk = "string \<Rightarrow> node option"

record host =
  pid :: string
  resolve :: "string \<Rightarrow> string option"
  sha256 :: "string \<Rightarrow> string"

datatype life_error = LifecycleError string | OSError | RanOut

definition MARKER :: string where "MARKER = ''closeout-marker.json''"
definition RECEIPT :: string where "RECEIPT = ''terminal-receipt.json''"
definition ABSENCE :: string where "ABSENCE = ''absence-observation.json''"

definition STAGES :: "string list" where
  "STAGES = [''PENDING_FINALIZATION'', ''PENDING_CLOSEOUT'', ''READY_FOR_CLEANUP'',
     ''WORKTREE_REMOVED'', ''BRANCH_REMOVED'', ''RECEIPT_PENDING'', ''COMPLETED_LANDED'',
     ''COMPLETED_RECORDED'']"

definition NONTERMINAL :: "string list" where "NONTERMINAL = take 6 STAGES"
definition TERMINAL :: "string list" where "TERMINAL = drop 6 STAGES"

definition IDENTITY_KEYS :: "string list" where
  "IDENTITY_KEYS = [''BUGSWEEP_RUN_ID'', ''BUGSWEEP_RUN_DIR'', ''BUGSWEEP_REPO_ROOT'',
     ''BUGSWEEP_BRANCH'', ''BUGSWEEP_ORIG_BRANCH'', ''BUGSWEEP_ORIG_HEAD'', ''BUGSWEEP_WORKTREE'']"

definition OPTIONAL_IDENTITY_KEYS :: "string list" where
  "OPTIONAL_IDENTITY_KEYS = [''BUGSWEEP_TARGET_ROOT'', ''BUGSWEEP_SOURCE_ROOT'', ''BUGSWEEP_INDEX_DIR'']"

definition NONEMPTY_IDENTITY_KEYS :: "string list" where
  "NONEMPTY_IDENTITY_KEYS = filter (\<lambda>k. k \<noteq> ''BUGSWEEP_WORKTREE'') IDENTITY_KEYS"

definition STATE_KEYS :: "string list" where
  "STATE_KEYS = [''BUGSWEEP_TS'', ''BUGSWEEP_RUN_ID'', ''BUGSWEEP_RUN_DIR'', ''BUGSWEEP_REPO_ROOT'',
     ''BUGSWEEP_BRANCH'', ''BUGSWEEP_ORIG_BRANCH'', ''BUGSWEEP_ORIG_HEAD'', ''BUGSWEEP_STASH_REF'',
     ''BUGSWEEP_START_EPOCH'', ''BUGSWEEP_DEADLINE_EPOCH'', ''BUGSWEEP_MAX_RUNTIME_MINUTES'',
     ''BUGSWEEP_MODE'', ''BUGSWEEP_SCOPE'', ''BUGSWEEP_CONCURRENT'', ''BUGSWEEP_WORKTREE'',
     ''BUGSWEEP_TARGET_ROOT'', ''BUGSWEEP_SOURCE_ROOT'', ''BUGSWEEP_INDEX_DIR'']"

type_synonym state_env = "(string \<times> string) list"

fun index_of :: "'a \<Rightarrow> 'a list \<Rightarrow> nat" where
  "index_of x [] = 0"
| "index_of x (y # ys) = (if x = y then 0 else Suc (index_of x ys))"

definition child :: "string \<Rightarrow> string \<Rightarrow> string" where
  "child dir nm = dir @ ''/'' @ nm"

text \<open>\<open>_regular\<close>\<close>

definition regular_file :: "disk \<Rightarrow> string \<Rightarrow> string \<Rightarrow> bool \<Rightarrow> life_error + unit" where
  "regular_file d p nm required =
     (case d p of
        None \<Rightarrow> if required then Inl (LifecycleError (''missing '' @ nm)) else Inr ()
      | Some (File _) \<Rightarrow> Inr ()
      | Some _ \<Rightarrow> Inl (LifecycleError (''unsafe path: '' @ p)))"

definition path_exists :: "disk \<Rightarrow> string \<Rightarrow> bool" where
  "path_exists d p = (case d p of None \<Rightarrow> False | Some (Symlink target_exists) \<Rightarrow> target_exists | Some _ \<Rightarrow> True)"

definition lexists :: "disk \<Rightarrow> string \<Rightarrow> bool" where
  "lexists d p \<longleftrightarrow> d p \<noteq> None"

text \<open>\<open>_run_dir\<close>\<close>

definition checked_run_dir :: "host \<Rightarrow> disk \<Rightarrow> string \<Rightarrow> life_error + string" where
  "checked_run_dir h d p =
     (case d p of
        None \<Rightarrow> Inl (LifecycleError ''missing run directory'')
      | Some Directory \<Rightarrow> (case resolve h p of None \<Rightarrow> Inl OSError | Some r \<Rightarrow> Inr r)
      | Some _ \<Rightarrow> Inl (LifecycleError ''unsafe run directory''))"

subsection \<open>The state file\<close>

definition squote :: char where "squote = char_of (39 :: nat)"
definition backslash :: char where "backslash = char_of (92 :: nat)"

definition unquote :: "string \<Rightarrow> string" where
  "unquote v =
     (if starts_with v [squote] \<and> ends_with v [squote] \<and> length v \<ge> 2
      then replace_str [squote, backslash, squote, squote] [squote] (butlast (tl v))
      else v)"

definition load_line :: "state_env \<Rightarrow> string \<Rightarrow> life_error + state_env" where
  "load_line vals raw =
     (if raw = [] \<or> starts_with raw ''#'' then Inr vals
      else case partition_on (CHR ''='') raw of (key, sep, v0) \<Rightarrow>
        if \<not> sep \<or> key \<notin> set STATE_KEYS \<or> key \<in> fst ` set vals
        then Inl (LifecycleError ''duplicate, unknown, or malformed state key'')
        else
          let v = unquote v0
          in if list_ex (\<lambda>c. (of_char c :: nat) < 32) v
             then Inl (LifecycleError ''hostile state value'')
             else Inr (vals @ [(key, v)]))"

fun load_lines :: "state_env \<Rightarrow> string list \<Rightarrow> life_error + state_env" where
  "load_lines vals [] = Inr vals"
| "load_lines vals (l # ls) = bind_res (load_line vals l) (\<lambda>vals'. load_lines vals' ls)"

definition missing_identity :: "state_env \<Rightarrow> string list" where
  "missing_identity st =
     filter (\<lambda>k. map_of st k = None \<or> map_of st k = Some []) NONEMPTY_IDENTITY_KEYS @
     (if map_of st ''BUGSWEEP_WORKTREE'' = None then [''BUGSWEEP_WORKTREE''] else [])"

definition check_identity :: "state_env \<Rightarrow> life_error + unit" where
  "check_identity st =
     guard (missing_identity st = [])
       (LifecycleError (''missing state identity: '' @ join_with '', '' (missing_identity st)))"

fun check_absolute :: "state_env \<Rightarrow> string list \<Rightarrow> life_error + unit" where
  "check_absolute st [] = Inr ()"
| "check_absolute st (k # ks) =
     (let v = (case map_of st k of None \<Rightarrow> [] | Some v \<Rightarrow> v)
      in if v \<noteq> [] \<and> \<not> starts_with v ''/''
         then Inl (LifecycleError (''unsafe non-absolute '' @ k))
         else check_absolute st ks)"

definition read_text_lines :: "content \<Rightarrow> life_error + string list" where
  "read_text_lines c =
     (case c of
        Raw s \<Rightarrow> Inr (splitlines s)
      | Undecodable \<Rightarrow> Inl (LifecycleError ''invalid state.env'')
      | Doc _ \<Rightarrow> Inl (LifecycleError ''duplicate, unknown, or malformed state key''))"

definition load_state :: "disk \<Rightarrow> string \<Rightarrow> life_error + state_env" where
  "load_state d p =
     bind_res (regular_file d p ''state.env'' True) (\<lambda>_.
     bind_res (case d p of Some (File c) \<Rightarrow> read_text_lines c
               | _ \<Rightarrow> Inl (LifecycleError ''invalid state.env'')) (\<lambda>ls.
     bind_res (load_lines [] ls) (\<lambda>st.
     bind_res (check_identity st) (\<lambda>_.
     bind_res (guard (case map_of st ''BUGSWEEP_BRANCH'' of None \<Rightarrow> False
                      | Some b \<Rightarrow> starts_with b ''bugsweep/'')
                 (LifecycleError ''state branch is outside bugsweep namespace'')) (\<lambda>_.
     bind_res (check_absolute st ([''BUGSWEEP_RUN_DIR'', ''BUGSWEEP_WORKTREE''] @ OPTIONAL_IDENTITY_KEYS)) (\<lambda>_.
     Inr st))))))"

subsection \<open>Identity and the three documents\<close>

text \<open>The identity is a dictionary of strings, sealed by the hash of its canonical JSON.\<close>

definition identity_fields :: "state_env \<Rightarrow> (string \<times> pyval) list" where
  "identity_fields st =
     map (\<lambda>k. (k, PStr (the (map_of st k)))) IDENTITY_KEYS @
     map (\<lambda>k. (k, PStr (the (map_of st k))))
       (filter (\<lambda>k. map_of st k \<noteq> None) OPTIONAL_IDENTITY_KEYS)"

definition identity :: "host \<Rightarrow> state_env \<Rightarrow> life_error + pyval" where
  "identity h st =
     bind_res (check_identity st) (\<lambda>_.
     Inr (PDict (identity_fields st @
       [(''state_sha256'', PStr (sha256 h (json_dumps True (\<lambda>f. []) (PDict (identity_fields st)))))])))"

definition state_for_run :: "host \<Rightarrow> string \<Rightarrow> state_env \<Rightarrow> life_error + unit" where
  "state_for_run h run_dir st =
     guard (case map_of st ''BUGSWEEP_RUN_DIR'' of None \<Rightarrow> False
            | Some p \<Rightarrow> resolve h p = Some run_dir)
       (LifecycleError ''run directory identity mismatch'')"

text \<open>\<open>_write_json\<close>: an exclusive temporary file, renamed over the target.\<close>

definition temp_name :: "host \<Rightarrow> string \<Rightarrow> string \<Rightarrow> string" where
  "temp_name h dir nm = child dir (''.'' @ nm @ ''.'' @ pid h @ ''.tmp'')"

definition write_json :: "host \<Rightarrow> string \<Rightarrow> string \<Rightarrow> pyval \<Rightarrow> (disk, life_error, unit) act" where
  "write_json h dir nm payload d =
     (case regular_file d (child dir nm) nm False of
        Inl e \<Rightarrow> (Inl e, d)
      | Inr _ \<Rightarrow>
          if d (temp_name h dir nm) \<noteq> None then (Inl OSError, d)
          else (Inr (), d(child dir nm \<mapsto> File (Doc payload))))"

definition read_json :: "disk \<Rightarrow> string \<Rightarrow> string \<Rightarrow> string list \<Rightarrow> life_error + (string \<times> pyval) list" where
  "read_json d dir nm required =
     bind_res (regular_file d (child dir nm) nm True) (\<lambda>_.
     case d (child dir nm) of
       Some (File (Doc (PDict flds))) \<Rightarrow>
         if set (map fst flds) = set required then Inr flds
         else Inl (LifecycleError (''invalid '' @ nm @ '' fields''))
     | Some (File (Doc _)) \<Rightarrow> Inl (LifecycleError (''invalid '' @ nm @ '' fields''))
     | _ \<Rightarrow> Inl (LifecycleError (''invalid '' @ nm)))"

definition mk_marker :: "string \<Rightarrow> pyval \<Rightarrow> pyval" where
  "mk_marker stage ident = PDict [(''schema_version'', PInt 1), (''stage'', PStr stage), (''identity'', ident)]"

definition mk_receipt :: "string \<Rightarrow> pyval \<Rightarrow> pyval" where
  "mk_receipt outcome ident = PDict [(''schema_version'', PInt 1), (''outcome'', PStr outcome), (''identity'', ident)]"

definition mk_absence :: "pyval \<Rightarrow> pyval" where
  "mk_absence ident = PDict [(''schema_version'', PInt 1), (''identity'', ident),
     (''branch_absent'', PBool True), (''worktree_absent'', PBool True)]"

text \<open>\<open>_marker\<close>: the marker's fields, and its stage, which the check makes a stage name.\<close>

definition marker_error :: life_error where
  "marker_error = LifecycleError ''invalid, replayed, or foreign closeout marker''"

definition check_marker :: "host \<Rightarrow> state_env \<Rightarrow> (string \<times> pyval) list \<Rightarrow> life_error + string" where
  "check_marker h st data =
     (case dict_get data ''stage'' PNone of
       PStr stage \<Rightarrow>
         if \<not> py_eq (dict_get data ''schema_version'' PNone) (PInt 1) \<or> stage \<notin> set STAGES
         then Inl marker_error
         else
           bind_res (identity h st) (\<lambda>ident.
           if py_eq (dict_get data ''identity'' PNone) ident then Inr stage else Inl marker_error)
     | _ \<Rightarrow> Inl marker_error)"

definition read_marker :: "host \<Rightarrow> disk \<Rightarrow> string \<Rightarrow> state_env \<Rightarrow> life_error + (string \<times> pyval) list \<times> string" where
  "read_marker h d run_dir st =
     bind_res (read_json d run_dir MARKER [''schema_version'', ''stage'', ''identity'']) (\<lambda>data.
     bind_res (check_marker h st data) (\<lambda>stage. Inr (data, stage)))"

subsection \<open>Operations\<close>

text \<open>The two checks every operation starts with; the result is the resolved run directory.\<close>

definition enter :: "host \<Rightarrow> string \<Rightarrow> state_env \<Rightarrow> (disk, life_error, string) act" where
  "enter h run_dir st =
     act_read (\<lambda>d. bind_res (checked_run_dir h d run_dir) (\<lambda>r.
                   bind_res (state_for_run h r st) (\<lambda>_. Inr r)))"

definition initialize_closeout :: "host \<Rightarrow> string \<Rightarrow> state_env \<Rightarrow> string \<Rightarrow> (disk, life_error, string) act" where
  "initialize_closeout h run_dir st stage =
     act_bind (enter h run_dir st) (\<lambda>r.
     act_bind (act_read (\<lambda>d. guard (stage \<in> set NONTERMINAL)
                 (LifecycleError ''invalid initial lifecycle stage''))) (\<lambda>_.
     act_bind (act_read (\<lambda>d. Inr (path_exists d (child r MARKER)))) (\<lambda>present.
     if present then
       act_bind (act_read (\<lambda>d. read_marker h d r st)) (\<lambda>m.
       if index_of (snd m) STAGES < index_of stage STAGES
       then act_raise (LifecycleError ''existing closeout marker disagrees'')
       else act_return (snd m))
     else
       act_bind (act_read (\<lambda>d. identity h st)) (\<lambda>ident.
       act_bind (write_json h r MARKER (mk_marker stage ident)) (\<lambda>_. act_return stage)))))"

definition advance_closeout :: "host \<Rightarrow> string \<Rightarrow> state_env \<Rightarrow> string \<Rightarrow> (disk, life_error, string) act" where
  "advance_closeout h run_dir st stage =
     act_bind (enter h run_dir st) (\<lambda>r.
     act_bind (act_read (\<lambda>d. read_marker h d r st)) (\<lambda>m.
     case m of (data, cur) \<Rightarrow>
       if cur = stage then act_return cur
       else if cur \<in> set TERMINAL then act_raise (LifecycleError ''terminal lifecycle cannot advance'')
       else if stage \<notin> set NONTERMINAL
       then act_raise (LifecycleError ''terminal receipt must be written separately'')
       else if cur = ''RECEIPT_PENDING'' \<or> stage \<noteq> NONTERMINAL ! Suc (index_of cur NONTERMINAL)
       then act_raise (LifecycleError (''cannot skip or reverse closeout stage '' @ cur @ '' -> '' @ stage))
       else act_bind (write_json h r MARKER (PDict (AList.update ''stage'' (PStr stage) data)))
              (\<lambda>_. act_return stage)))"

definition receipt_step :: "host \<Rightarrow> string \<Rightarrow> string \<Rightarrow> pyval \<Rightarrow> bool \<Rightarrow> (disk, life_error, unit) act" where
  "receipt_step h r outcome ident present =
     (if present then
        act_read (\<lambda>d. bind_res (read_json d r RECEIPT [''schema_version'', ''outcome'', ''identity''])
          (\<lambda>existing. guard (py_eq (PDict existing) (mk_receipt outcome ident))
                        (LifecycleError ''terminal receipt disagrees'')))
      else write_json h r RECEIPT (mk_receipt outcome ident))"

definition write_terminal_receipt :: "host \<Rightarrow> string \<Rightarrow> state_env \<Rightarrow> string \<Rightarrow> (disk, life_error, pyval) act" where
  "write_terminal_receipt h run_dir st outcome =
     act_bind (enter h run_dir st) (\<lambda>r.
     act_bind (act_read (\<lambda>d. read_marker h d r st)) (\<lambda>m.
       if snd m \<noteq> ''RECEIPT_PENDING'' \<or> outcome \<notin> set TERMINAL
       then act_raise (LifecycleError ''terminal receipt requires RECEIPT_PENDING'')
       else
         act_bind (act_read (\<lambda>d. identity h st)) (\<lambda>ident.
         act_bind (act_read (\<lambda>d. Inr (path_exists d (child r RECEIPT)))) (\<lambda>present.
         act_bind (receipt_step h r outcome ident present) (\<lambda>_.
         act_bind (write_json h r MARKER (PDict (AList.update ''stage'' (PStr outcome) (fst m)))) (\<lambda>_.
         act_return (mk_receipt outcome ident)))))))"

definition record_absence_observation :: "host \<Rightarrow> string \<Rightarrow> state_env \<Rightarrow> (disk, life_error, pyval) act" where
  "record_absence_observation h run_dir st =
     act_bind (enter h run_dir st) (\<lambda>r.
     act_bind (act_read (\<lambda>d. guard (case map_of st ''BUGSWEEP_WORKTREE'' of
                   None \<Rightarrow> True | Some w \<Rightarrow> w = [] \<or> \<not> lexists d w)
                 (LifecycleError ''worktree remains; cannot record absence''))) (\<lambda>_.
     act_bind (act_read (\<lambda>d. identity h st)) (\<lambda>ident.
     act_bind (act_read (\<lambda>d. Inr (path_exists d (child r ABSENCE)))) (\<lambda>present.
     act_bind
       (if present then
          act_read (\<lambda>d. bind_res (read_json d r ABSENCE
              [''schema_version'', ''identity'', ''branch_absent'', ''worktree_absent''])
            (\<lambda>existing. guard (py_eq (PDict existing) (mk_absence ident))
                          (LifecycleError ''absence observation disagrees'')))
        else write_json h r ABSENCE (mk_absence ident)) (\<lambda>_.
     act_return (mk_absence ident))))))"

text \<open>The loop of \<open>recover_absent_resources\<close>; \<open>RanOut\<close> stands for a loop that goes on.\<close>

definition EARLY :: "string list" where "EARLY = take 4 NONTERMINAL"

fun recover_loop :: "nat \<Rightarrow> host \<Rightarrow> string \<Rightarrow> state_env \<Rightarrow> string \<Rightarrow> (disk, life_error, string) act" where
  "recover_loop fuel h r st cur =
     (if cur \<notin> set EARLY then act_return cur
      else case fuel of
        0 \<Rightarrow> act_raise RanOut
      | Suc fuel' \<Rightarrow>
          act_bind (advance_closeout h r st (NONTERMINAL ! Suc (index_of cur NONTERMINAL)))
            (\<lambda>cur'. recover_loop fuel' h r st cur'))"

definition recover_absent_resources ::
  "host \<Rightarrow> string \<Rightarrow> state_env \<Rightarrow> bool \<Rightarrow> bool \<Rightarrow> (disk, life_error, string) act" where
  "recover_absent_resources h run_dir st worktree_absent branch_absent =
     (if \<not> worktree_absent \<or> \<not> branch_absent
      then act_raise (LifecycleError ''recovery requires exact worktree and branch absence'')
      else
        act_bind (enter h run_dir st) (\<lambda>r.
        act_bind (act_read (\<lambda>d. read_marker h d r st)) (\<lambda>m.
        if snd m \<in> set TERMINAL then act_return (snd m)
        else recover_loop 4 h r st (snd m))))"

definition evidence_agrees :: "disk \<Rightarrow> state_env \<Rightarrow> string \<Rightarrow> pyval \<Rightarrow> (string \<times> pyval) list \<Rightarrow>
    (string \<times> pyval) list \<Rightarrow> bool" where
  "evidence_agrees d st stage ident receipt obs \<longleftrightarrow>
     (case map_of st ''BUGSWEEP_WORKTREE'' of None \<Rightarrow> True | Some w \<Rightarrow> w = [] \<or> \<not> lexists d w) \<and>
     py_eq (dict_get receipt ''schema_version'' PNone) (PInt 1) \<and>
     py_eq (dict_get receipt ''outcome'' PNone) (PStr stage) \<and>
     py_eq (dict_get receipt ''identity'' PNone) ident \<and>
     py_eq (dict_get obs ''schema_version'' PNone) (PInt 1) \<and>
     py_eq (dict_get obs ''identity'' PNone) ident \<and>
     dict_get obs ''branch_absent'' PNone = PBool True \<and>
     dict_get obs ''worktree_absent'' PNone = PBool True"

definition reconcile_terminal :: "host \<Rightarrow> disk \<Rightarrow> string \<Rightarrow> state_env \<Rightarrow> string \<Rightarrow> life_error + string" where
  "reconcile_terminal h d r st stage =
     bind_res (read_json d r RECEIPT [''schema_version'', ''outcome'', ''identity'']) (\<lambda>receipt.
     bind_res (read_json d r ABSENCE
         [''schema_version'', ''identity'', ''branch_absent'', ''worktree_absent'']) (\<lambda>obs.
     bind_res (identity h st) (\<lambda>ident.
     if evidence_agrees d st stage ident receipt obs then Inr stage
     else Inl (LifecycleError ''terminal marker/receipt disagreement''))))"

definition reconcile_closeout :: "host \<Rightarrow> disk \<Rightarrow> string \<Rightarrow> state_env \<Rightarrow> life_error + string" where
  "reconcile_closeout h d run_dir st =
     bind_res (checked_run_dir h d run_dir) (\<lambda>r.
     bind_res (state_for_run h r st) (\<lambda>_.
     bind_res (read_marker h d r st) (\<lambda>(data, stage).
     if stage \<in> set TERMINAL then reconcile_terminal h d r st stage
     else if path_exists d (child r RECEIPT)
     then Inl (LifecycleError ''receipt exists before terminal marker'')
     else Inr stage)))"

datatype run_status = Invalid life_error | Pending string | Verified_Completed string

definition block_path :: "state_env \<Rightarrow> string" where
  "block_path st =
     (case (map_of st ''BUGSWEEP_REPO_ROOT'', map_of st ''BUGSWEEP_RUN_ID'') of
        (Some repo, Some rid) \<Rightarrow> repo @ ''/.bugsweep/state/closeout-blocked/'' @ rid @ ''.json''
      | _ \<Rightarrow> [])"

definition read_run_status :: "host \<Rightarrow> disk \<Rightarrow> string \<Rightarrow> run_status" where
  "read_run_status h d run_dir =
     (case bind_res (checked_run_dir h d run_dir) (\<lambda>r.
           bind_res (load_state d (child r ''state.env'')) (\<lambda>st.
           bind_res (reconcile_closeout h d r st) (\<lambda>stage. Inr (st, stage)))) of
        Inl e \<Rightarrow> Invalid e
      | Inr (st, stage) \<Rightarrow>
          if stage \<in> set TERMINAL then
            (if lexists d (block_path st) then Pending ''RECEIPT_PENDING'' else Verified_Completed stage)
          else Pending stage)"

fun exit_code :: "run_status \<Rightarrow> int" where
  "exit_code (Invalid e) = 2"
| "exit_code (Pending s) = 10"
| "exit_code (Verified_Completed s) = 0"

text \<open>
  The commands of \<open>main\<close> that change the disk.  A \<open>LifecycleError\<close> is exit 2; any other exception
  escapes (exit 1 with a traceback).
\<close>

datatype command = Init string | Advance string | WriteReceipt string | ObserveAbsence string | RecoverAbsent string

definition forget :: "(disk, life_error, 'a) act \<Rightarrow> (disk, life_error, unit) act" where
  "forget m = act_bind m (\<lambda>_. act_return ())"

definition run_command :: "host \<Rightarrow> string \<Rightarrow> state_env \<Rightarrow> command \<Rightarrow> (disk, life_error, unit) act" where
  "run_command h run_dir st c =
     (case c of
        Init key \<Rightarrow> forget (initialize_closeout h run_dir st key)
      | Advance key \<Rightarrow> forget (advance_closeout h run_dir st key)
      | RecoverAbsent key \<Rightarrow>
          if key \<noteq> ''confirmed''
          then act_raise (LifecycleError ''recovery requires explicit confirmed absence'')
          else forget (recover_absent_resources h run_dir st True True)
      | ObserveAbsence key \<Rightarrow>
          if key \<noteq> ''confirmed''
          then act_raise (LifecycleError ''observation requires explicit confirmed absence'')
          else forget (record_absence_observation h run_dir st)
      | WriteReceipt key \<Rightarrow> forget (write_terminal_receipt h run_dir st key))"

definition life_exit :: "life_error \<Rightarrow> int" where
  "life_exit e = (case e of LifecycleError msg \<Rightarrow> 2 | _ \<Rightarrow> 1)"

definition main_change :: "host \<Rightarrow> string \<Rightarrow> (string \<Rightarrow> command) \<Rightarrow> string option \<Rightarrow> disk \<Rightarrow> int \<times> disk" where
  "main_change h run_dir mk key d =
     (case key of
        None \<Rightarrow> (2, d)
      | Some k \<Rightarrow>
          (case act_bind (act_read (\<lambda>d. load_state d (child run_dir ''state.env'')))
                 (\<lambda>st. run_command h run_dir st (mk k)) d of
             (Inr _, d') \<Rightarrow> (0, d')
           | (Inl e, d') \<Rightarrow> (life_exit e, d')))"

text \<open>The printing commands: the exit code and what goes to the standard output.\<close>

definition main_get :: "string \<Rightarrow> string option \<Rightarrow> disk \<Rightarrow> int \<times> string" where
  "main_get run_dir key d =
     (case key of
        None \<Rightarrow> (2, [])
      | Some k \<Rightarrow>
          if k \<notin> set STATE_KEYS then (2, [])
          else (case load_state d (child run_dir ''state.env'') of
              Inl e \<Rightarrow> (life_exit e, [])
            | Inr st \<Rightarrow> (0, case map_of st k of None \<Rightarrow> [] | Some v \<Rightarrow> v)))"

definition main_terminal :: "host \<Rightarrow> string \<Rightarrow> disk \<Rightarrow> int \<times> string" where
  "main_terminal h run_dir d =
     (case bind_res (load_state d (child run_dir ''state.env'')) (\<lambda>st. reconcile_closeout h d run_dir st) of
        Inl e \<Rightarrow> (2, [])
      | Inr stage \<Rightarrow> if stage \<in> set TERMINAL then (0, stage) else (10, []))"

subsection \<open>Durable writes\<close>

text \<open>
  The atomic writes of the module.  Every command is a sequence of them, so a run that crashes
  between two writes and is taken up again is still a sequence of them.  \<open>litter\<close> is a crash inside
  \<open>_write_json\<close>, of this process or of an earlier one, that leaves its temporary file behind.
\<close>

definition run_root :: "host \<Rightarrow> state_env \<Rightarrow> string option" where
  "run_root h st = (case map_of st ''BUGSWEEP_RUN_DIR'' of None \<Rightarrow> None | Some p \<Rightarrow> resolve h p)"

definition receipt_matches :: "disk \<Rightarrow> string \<Rightarrow> string \<Rightarrow> pyval \<Rightarrow> bool" where
  "receipt_matches d r outcome ident \<longleftrightarrow>
     (\<exists>v. d (child r RECEIPT) = Some (File (Doc v)) \<and> py_eq v (mk_receipt outcome ident))"

inductive life_write :: "host \<Rightarrow> state_env \<Rightarrow> disk \<Rightarrow> disk \<Rightarrow> bool" for h st where
  create: "run_root h st = Some r \<Longrightarrow> identity h st = Inr ident \<Longrightarrow> stage \<in> set NONTERMINAL \<Longrightarrow>
     d (child r MARKER) = None \<Longrightarrow>
     life_write h st d (d(child r MARKER \<mapsto> File (Doc (mk_marker stage ident))))"
| advance: "run_root h st = Some r \<Longrightarrow> read_marker h d r st = Inr (data, cur) \<Longrightarrow>
     cur \<in> set NONTERMINAL \<Longrightarrow> cur \<noteq> ''RECEIPT_PENDING'' \<Longrightarrow>
     life_write h st d (d(child r MARKER \<mapsto>
       File (Doc (PDict (AList.update ''stage'' (PStr (NONTERMINAL ! Suc (index_of cur NONTERMINAL))) data)))))"
| receipt: "run_root h st = Some r \<Longrightarrow> identity h st = Inr ident \<Longrightarrow>
     read_marker h d r st = Inr (data, ''RECEIPT_PENDING'') \<Longrightarrow> outcome \<in> set TERMINAL \<Longrightarrow>
     d (child r RECEIPT) = None \<Longrightarrow>
     life_write h st d (d(child r RECEIPT \<mapsto> File (Doc (mk_receipt outcome ident))))"
| finish: "run_root h st = Some r \<Longrightarrow> identity h st = Inr ident \<Longrightarrow>
     read_marker h d r st = Inr (data, ''RECEIPT_PENDING'') \<Longrightarrow> outcome \<in> set TERMINAL \<Longrightarrow>
     receipt_matches d r outcome ident \<Longrightarrow>
     life_write h st d (d(child r MARKER \<mapsto> File (Doc (PDict (AList.update ''stage'' (PStr outcome) data)))))"
| observe: "run_root h st = Some r \<Longrightarrow> identity h st = Inr ident \<Longrightarrow> d (child r ABSENCE) = None \<Longrightarrow>
     (map_of st ''BUGSWEEP_WORKTREE'' = Some w \<Longrightarrow> w \<noteq> [] \<Longrightarrow> d w = None) \<Longrightarrow>
     life_write h st d (d(child r ABSENCE \<mapsto> File (Doc (mk_absence ident))))"
| litter: "run_root h st = Some r \<Longrightarrow> d (temp_name (h\<lparr>pid := q\<rparr>) r nm) = None \<Longrightarrow>
     life_write h st d (d(temp_name (h\<lparr>pid := q\<rparr>) r nm \<mapsto> File c))"

subsection \<open>Names and stages\<close>

lemmas stage_defs = STAGES_def NONTERMINAL_def TERMINAL_def EARLY_def

lemma file_names [simp]:
  "child r MARKER \<noteq> child r RECEIPT" "child r MARKER \<noteq> child r ABSENCE"
  "child r RECEIPT \<noteq> child r ABSENCE" "child r RECEIPT \<noteq> child r MARKER"
  "child r ABSENCE \<noteq> child r MARKER" "child r ABSENCE \<noteq> child r RECEIPT"
  by (simp_all add: child_def MARKER_def RECEIPT_def ABSENCE_def)

lemma temp_neq [simp]: "temp_name h r nm \<noteq> child r MARKER" "temp_name h r nm \<noteq> child r RECEIPT"
    "temp_name h r nm \<noteq> child r ABSENCE" "child r MARKER \<noteq> temp_name h r nm"
    "child r RECEIPT \<noteq> temp_name h r nm" "child r ABSENCE \<noteq> temp_name h r nm"
  by (simp_all add: temp_name_def child_def MARKER_def RECEIPT_def ABSENCE_def)

text \<open>The process id only names temporary files.\<close>

lemma pid_irrelevant [simp]:
  "identity (h\<lparr>pid := q\<rparr>) st = identity h st" "run_root (h\<lparr>pid := q\<rparr>) st = run_root h st"
  by (simp_all add: identity_def run_root_def split: option.split)

lemma pid_irrelevant_check [simp]: "check_marker (h\<lparr>pid := q\<rparr>) st data = check_marker h st data"
  by (cases "dict_get data ''stage'' PNone") (simp_all add: check_marker_def)

lemma pid_irrelevant_marker [simp]: "read_marker (h\<lparr>pid := q\<rparr>) d r st = read_marker h d r st"
  by (simp add: read_marker_def)

lemma pid_irrelevant_write [simp]: "life_write (h\<lparr>pid := q\<rparr>) st = life_write h st"
  by (intro ext) (simp add: life_write.simps)

lemma NONTERMINAL_sub: "s \<in> set NONTERMINAL \<Longrightarrow> s \<in> set STAGES"
  and TERMINAL_sub: "s \<in> set TERMINAL \<Longrightarrow> s \<in> set STAGES"
  and STAGES_split: "s \<in> set STAGES \<Longrightarrow> s \<in> set NONTERMINAL \<or> s \<in> set TERMINAL"
  and NONTERMINAL_not_TERMINAL: "s \<in> set NONTERMINAL \<Longrightarrow> s \<notin> set TERMINAL"
  and RECEIPT_PENDING_NONTERMINAL: "''RECEIPT_PENDING'' \<in> set NONTERMINAL"
  by (auto simp: stage_defs)

lemma next_stage:
  assumes "cur \<in> set NONTERMINAL" and "cur \<noteq> ''RECEIPT_PENDING''"
  shows "NONTERMINAL ! Suc (index_of cur NONTERMINAL) \<in> set NONTERMINAL"
    and "index_of (NONTERMINAL ! Suc (index_of cur NONTERMINAL)) STAGES = Suc (index_of cur STAGES)"
  using assms by (auto simp: stage_defs)

lemma terminal_last:
  "cur \<in> set NONTERMINAL \<Longrightarrow> outcome \<in> set TERMINAL \<Longrightarrow> index_of cur STAGES < index_of outcome STAGES"
  by (auto simp: stage_defs)

lemma identity_no_nan: "identity h st = Inr ident \<Longrightarrow> \<not> has_nan ident"
  by (auto simp: identity_def identity_fields_def bind_res_Inr_iff list_ex_iff comp_def)

lemma py_eq_refl: "\<not> has_nan v \<Longrightarrow> py_eq v v"
  by (simp add: py_eq_def)

lemma identity_py_eq: "identity h st = Inr ident \<Longrightarrow> py_eq ident ident"
  by (simp add: identity_no_nan py_eq_refl)

subsection \<open>Reading back\<close>

lemma read_json_cong: "d (child r nm) = d' (child r nm) \<Longrightarrow> read_json d r nm req = read_json d' r nm req"
  by (simp add: read_json_def regular_file_def)

lemma read_marker_cong: "d (child r MARKER) = d' (child r MARKER) \<Longrightarrow> read_marker h d r st = read_marker h d' r st"
  by (simp add: read_marker_def read_json_cong [of d r MARKER d'])

lemma read_marker_other [simp]: "p \<noteq> child r MARKER \<Longrightarrow> read_marker h (d(p := x)) r st = read_marker h d r st"
  by (rule read_marker_cong) simp

lemma read_json_iff:
  "read_json d r nm req = Inr flds \<longleftrightarrow>
     d (child r nm) = Some (File (Doc (PDict flds))) \<and> set (map fst flds) = set req"
  by (auto simp: read_json_def bind_res_Inr_iff regular_file_def split: option.splits node.splits
      content.splits pyval.splits if_splits)

definition marker_ok :: "pyval \<Rightarrow> (string \<times> pyval) list \<Rightarrow> string \<Rightarrow> bool" where
  "marker_ok ident data stage \<longleftrightarrow>
     dict_get data ''stage'' PNone = PStr stage \<and> stage \<in> set STAGES \<and>
     py_eq (dict_get data ''schema_version'' PNone) (PInt 1) \<and>
     py_eq (dict_get data ''identity'' PNone) ident"

lemma check_marker_iff:
  "check_marker h st data = Inr stage \<longleftrightarrow> (\<exists>ident. identity h st = Inr ident \<and> marker_ok ident data stage)"
  unfolding check_marker_def marker_ok_def
  by (cases "dict_get data ''stage'' PNone")
     (auto simp: bind_res_Inr_iff simp del: py_eq_simps split: if_splits)

lemma read_marker_iff:
  "read_marker h d r st = Inr (data, stage) \<longleftrightarrow>
     d (child r MARKER) = Some (File (Doc (PDict data))) \<and>
     set (map fst data) = {''schema_version'', ''stage'', ''identity''} \<and>
     (\<exists>ident. identity h st = Inr ident \<and> marker_ok ident data stage)"
  unfolding read_marker_def bind_res_Inr_iff by (simp add: read_json_iff check_marker_iff)

lemma marker_ok_created: "identity h st = Inr ident \<Longrightarrow> stage \<in> set STAGES \<Longrightarrow>
    marker_ok ident [(''schema_version'', PInt 1), (''stage'', PStr stage), (''identity'', ident)] stage"
  by (simp add: marker_ok_def dict_get_def identity_py_eq)

lemma read_marker_created:
  assumes "identity h st = Inr ident" and "stage \<in> set STAGES"
  shows "read_marker h (d(child r MARKER \<mapsto> File (Doc (mk_marker stage ident)))) r st =
    Inr ([(''schema_version'', PInt 1), (''stage'', PStr stage), (''identity'', ident)], stage)"
  unfolding read_marker_iff using assms by (auto simp: mk_marker_def intro: marker_ok_created)

lemma marker_ok_update:
  "marker_ok ident data cur \<Longrightarrow> stage \<in> set STAGES \<Longrightarrow> marker_ok ident (AList.update ''stage'' (PStr stage) data) stage"
  by (simp add: marker_ok_def del: py_eq_simps)

lemma keys_update_same:
  "k \<in> set (map fst data) \<Longrightarrow> set (map fst (AList.update k v data)) = set (map fst data)"
  by (auto simp: dom_update)

lemma read_marker_updated:
  assumes "read_marker h d r st = Inr (data, cur)" and "stage \<in> set STAGES"
  shows "read_marker h (d(child r MARKER \<mapsto> File (Doc (PDict (AList.update ''stage'' (PStr stage) data))))) r st =
    Inr (AList.update ''stage'' (PStr stage) data, stage)"
proof -
  from assms(1) obtain ident where keys: "set (map fst data) = {''schema_version'', ''stage'', ''identity''}"
    and id: "identity h st = Inr ident" and ok: "marker_ok ident data cur"
    by (auto simp: read_marker_iff)
  have "set (map fst (AList.update ''stage'' (PStr stage) data)) = {''schema_version'', ''stage'', ''identity''}"
    using keys keys_update_same [of "''stage''" data] by simp
  with id marker_ok_update [OF ok assms(2)] show ?thesis by (auto simp: read_marker_iff)
qed

subsection \<open>Commands are sequences of durable writes\<close>

lemma enter_same: "snd (enter h p st d) = d"
  by (simp add: enter_def act_simps)

lemma enter_Inr: "fst (enter h p st d) = Inr r \<Longrightarrow> run_root h st = Some r \<and> checked_run_dir h d p = Inr r"
  by (auto simp: enter_def act_simps bind_res_Inr_iff state_for_run_def run_root_def split: option.splits if_splits)

lemma enter_cases:
  obtains e where "enter h p st d = (Inl e, d)"
  | r where "enter h p st d = (Inr r, d)" "run_root h st = Some r" "checked_run_dir h d p = Inr r"
proof (cases "fst (enter h p st d)")
  case (Inl e)
  then show thesis using enter_same [of h p st d] that(1) by (metis prod.collapse)
next
  case (Inr r)
  then show thesis using enter_same [of h p st d] enter_Inr [OF Inr] that(2) by (metis prod.collapse)
qed

lemma write_json_cases:
  obtains e where "write_json h r nm v d = (Inl e, d)"
  | "write_json h r nm v d = (Inr (), d(child r nm \<mapsto> File (Doc v)))"
    "\<not> path_exists d (child r nm) \<longrightarrow> d (child r nm) = None"
proof (cases "regular_file d (child r nm) nm False")
  case (Inl e)
  then show thesis by (intro that(1) [of e]) (simp add: write_json_def)
next
  case (Inr u)
  then have free: "\<not> path_exists d (child r nm) \<longrightarrow> d (child r nm) = None"
    by (auto simp: regular_file_def path_exists_def split: option.splits node.splits)
  show thesis
  proof (cases "d (temp_name h r nm) = None")
    case True
    with Inr free show thesis by (intro that(2)) (simp_all add: write_json_def)
  next
    case False
    with Inr show thesis by (intro that(1) [of OSError]) (simp add: write_json_def)
  qed
qed

abbreviation life_run :: "host \<Rightarrow> state_env \<Rightarrow> disk \<Rightarrow> disk \<Rightarrow> bool" where
  "life_run h st \<equiv> reaches (life_write h st)"

lemma one_write: "life_write h st d d' \<Longrightarrow> life_run h st d d'"
  by (rule reaches.next_step [OF reaches.stay])

lemma initialize_run: "life_run h st d (snd (initialize_closeout h p st stage d))"
proof (cases h p st d rule: enter_cases)
  case (2 r)
  show ?thesis
  proof (cases "stage \<in> set NONTERMINAL \<and> \<not> path_exists d (child r MARKER)")
    case False
    then have "snd (initialize_closeout h p st stage d) = d"
      by (auto simp: initialize_closeout_def act_simps 2(1) guard_def split: sum.split)
    then show ?thesis by (simp add: reaches.stay)
  next
    case True
    show ?thesis
    proof (cases "identity h st")
      case (Inl e)
      with True show ?thesis by (simp add: initialize_closeout_def act_simps 2(1) guard_def reaches.stay)
    next
      case (Inr ident)
      show ?thesis
        by (cases h r MARKER "mk_marker stage ident" d rule: write_json_cases)
           (insert True Inr 2, auto simp: initialize_closeout_def act_simps guard_def reaches.stay
              intro!: one_write life_write.create)
    qed
  qed
qed (simp add: initialize_closeout_def act_simps reaches.stay)

lemma read_marker_stage: "read_marker h d r st = Inr (data, cur) \<Longrightarrow> cur \<in> set STAGES"
  by (auto simp: read_marker_iff marker_ok_def)

lemma advance_run: "life_run h st d (snd (advance_closeout h p st stage d))"
proof (cases h p st d rule: enter_cases)
  case (2 r)
  show ?thesis
  proof (cases "read_marker h d r st")
    case (Inl e)
    with 2 show ?thesis by (simp add: advance_closeout_def act_simps reaches.stay)
  next
    case (Inr m)
    obtain data cur where m: "m = (data, cur)" by (cases m)
    let ?new = "PDict (AList.update ''stage'' (PStr stage) data)"
    show ?thesis
    proof (cases h r MARKER ?new d rule: write_json_cases)
      case 1
      with 2 Inr m show ?thesis by (auto simp: advance_closeout_def act_simps reaches.stay)
    next
      case w: 2
      with 2 Inr m read_marker_stage [of h d r st data cur] show ?thesis
        by (auto simp: advance_closeout_def act_simps reaches.stay dest: STAGES_split
            intro!: one_write life_write.advance)
    qed
  qed
qed (simp add: advance_closeout_def act_simps reaches.stay)

lemma mk_receipt_self: "identity h st = Inr ident \<Longrightarrow> py_eq (mk_receipt outcome ident) (mk_receipt outcome ident)"
  by (rule py_eq_refl) (auto simp: mk_receipt_def dest: identity_no_nan)

lemma receipt_step_cases:
  assumes "run_root h st = Some r" "identity h st = Inr ident" "outcome \<in> set TERMINAL"
    "read_marker h d r st = Inr (data, ''RECEIPT_PENDING'')"
  obtains e where "receipt_step h r outcome ident (path_exists d (child r RECEIPT)) d = (Inl e, d)"
  | d' where "receipt_step h r outcome ident (path_exists d (child r RECEIPT)) d = (Inr (), d')"
    "receipt_matches d' r outcome ident" "life_run h st d d'"
    "read_marker h d' r st = Inr (data, ''RECEIPT_PENDING'')" "\<forall>p. p \<noteq> child r RECEIPT \<longrightarrow> d' p = d p"
proof (cases "path_exists d (child r RECEIPT)")
  case True
  show thesis
  proof (cases "fst (receipt_step h r outcome ident True d)")
    case (Inl e)
    then show thesis using that(1) [of e] True by (simp add: receipt_step_def act_simps)
  next
    case (Inr u)
    then have "receipt_matches d r outcome ident"
      by (auto simp: receipt_step_def act_simps bind_res_Inr_iff read_json_iff receipt_matches_def split: if_splits)
    with Inr assms show thesis using that(2) [of d] True
      by (simp add: receipt_step_def act_simps reaches.stay)
  qed
next
  case False
  show thesis
  proof (cases h r RECEIPT "mk_receipt outcome ident" d rule: write_json_cases)
    case (1 e)
    with False show thesis using that(1) [of e] by (simp add: receipt_step_def)
  next
    case 2
    let ?d' = "d(child r RECEIPT \<mapsto> File (Doc (mk_receipt outcome ident)))"
    have "life_run h st d ?d'"
      using 2 False assms by (intro one_write life_write.receipt) simp_all
    moreover have "receipt_matches ?d' r outcome ident"
      by (simp add: receipt_matches_def mk_receipt_self [OF assms(2)])
    ultimately show thesis using that(2) [of ?d'] 2 False assms(4) by (simp add: receipt_step_def)
  qed
qed

lemma receipt_run: "life_run h st d (snd (write_terminal_receipt h p st outcome d))"
proof (cases h p st d rule: enter_cases)
  case (2 r)
  show ?thesis
  proof (cases "read_marker h d r st")
    case (Inl e)
    with 2 show ?thesis by (simp add: write_terminal_receipt_def act_simps reaches.stay)
  next
    case (Inr m)
    obtain data cur where m: "m = (data, cur)" by (cases m)
    obtain ident where ident: "identity h st = Inr ident" using Inr m by (auto simp: read_marker_iff)
    show ?thesis
    proof (cases "cur = ''RECEIPT_PENDING'' \<and> outcome \<in> set TERMINAL")
      case False
      with 2 Inr m show ?thesis by (auto simp: write_terminal_receipt_def act_simps reaches.stay)
    next
      case ok: True
      have rm: "read_marker h d r st = Inr (data, ''RECEIPT_PENDING'')" using Inr m ok by simp
      show ?thesis
      proof (cases rule: receipt_step_cases [OF 2(2) ident conjunct2 [OF ok] rm])
        case (1 e)
        with 2 Inr m ok ident show ?thesis by (simp add: write_terminal_receipt_def act_simps reaches.stay)
      next
        case step: (2 d')
        show ?thesis
          by (cases h r MARKER "PDict (AList.update ''stage'' (PStr outcome) data)" d' rule: write_json_cases)
             (insert 2 Inr m ok ident step, auto simp: write_terminal_receipt_def act_simps
               intro: reaches.next_step life_write.finish)
      qed
    qed
  qed
qed (simp add: write_terminal_receipt_def act_simps reaches.stay)

lemma observe_run: "life_run h st d (snd (record_absence_observation h p st d))"
proof (cases h p st d rule: enter_cases)
  case (2 r)
  show ?thesis
  proof (cases "identity h st")
    case (Inl e)
    with 2 show ?thesis by (auto simp: record_absence_observation_def act_simps guard_def reaches.stay)
  next
    case (Inr ident)
    show ?thesis
    proof (cases h r ABSENCE "mk_absence ident" d rule: write_json_cases)
      case 1
      with 2 Inr show ?thesis
        by (auto simp: record_absence_observation_def act_simps guard_def reaches.stay split: sum.split)
    next
      case w: 2
      with 2 Inr show ?thesis
        by (auto simp: record_absence_observation_def act_simps guard_def reaches.stay lexists_def
            split: sum.split option.splits intro!: one_write life_write.observe)
    qed
  qed
qed (simp add: record_absence_observation_def act_simps reaches.stay)

declare recover_loop.simps [simp del]

lemma recover_loop_done: "cur \<notin> set EARLY \<Longrightarrow> recover_loop fuel h r st cur d = (Inr cur, d)"
  and recover_loop_out: "cur \<in> set EARLY \<Longrightarrow> recover_loop 0 h r st cur d = (Inl RanOut, d)"
  and recover_loop_step: "cur \<in> set EARLY \<Longrightarrow> recover_loop (Suc n) h r st cur d =
    (case advance_closeout h r st (NONTERMINAL ! Suc (index_of cur NONTERMINAL)) d of
       (Inl e, d') \<Rightarrow> (Inl e, d') | (Inr cur', d') \<Rightarrow> recover_loop n h r st cur' d')"
  by (simp_all add: recover_loop.simps act_simps split: sum.split prod.split)

lemma recover_loop_run: "life_run h st d (snd (recover_loop fuel h r st cur d))"
proof (induction fuel arbitrary: d cur)
  case 0
  show ?case by (cases "cur \<in> set EARLY") (simp_all add: recover_loop_done recover_loop_out reaches.stay)
next
  case (Suc fuel)
  show ?case
  proof (cases "cur \<in> set EARLY")
    case True
    obtain res d' where a: "advance_closeout h r st (NONTERMINAL ! Suc (index_of cur NONTERMINAL)) d = (res, d')"
      by (cases "advance_closeout h r st (NONTERMINAL ! Suc (index_of cur NONTERMINAL)) d")
    from advance_run [of h st d r "NONTERMINAL ! Suc (index_of cur NONTERMINAL)"] a have run: "life_run h st d d'" by simp
    show ?thesis
    proof (cases res)
      case (Inl e)
      with True a run show ?thesis by (simp add: recover_loop_step)
    next
      case (Inr cur')
      with True a have "recover_loop (Suc fuel) h r st cur d = recover_loop fuel h r st cur' d'"
        by (simp add: recover_loop_step)
      with reaches_trans [OF run Suc.IH [of d' cur']] show ?thesis by simp
    qed
  qed (simp add: recover_loop_done reaches.stay)
qed

lemma recover_run: "life_run h st d (snd (recover_absent_resources h p st w b d))"
  by (cases h p st d rule: enter_cases)
     (auto simp: recover_absent_resources_def act_simps reaches.stay recover_loop_run split: sum.split)

lemma forget_same: "snd (forget m d) = snd (m d)"
  by (simp add: forget_def act_simps split: prod.split sum.split)

theorem command_run: "life_run h st d (snd (run_command h p st c d))"
  by (cases c) (auto simp: run_command_def forget_same initialize_run advance_run receipt_run observe_run
    recover_run act_simps reaches.stay)

subsection \<open>What every sequence of writes preserves\<close>

definition marker_of :: "host \<Rightarrow> state_env \<Rightarrow> disk \<Rightarrow> string option" where
  "marker_of h st d = (case run_root h st of None \<Rightarrow> None
     | Some r \<Rightarrow> (case read_marker h d r st of Inl e \<Rightarrow> None | Inr m \<Rightarrow> Some (snd m)))"

definition stage_rank :: "host \<Rightarrow> state_env \<Rightarrow> disk \<Rightarrow> nat" where
  "stage_rank h st d = (case marker_of h st d of None \<Rightarrow> 0 | Some s \<Rightarrow> Suc (index_of s STAGES))"

definition outcome_of :: "host \<Rightarrow> state_env \<Rightarrow> disk \<Rightarrow> string option" where
  "outcome_of h st d = (case marker_of h st d of None \<Rightarrow> None
     | Some s \<Rightarrow> if s \<in> set TERMINAL then Some s else None)"

definition has_receipt :: "host \<Rightarrow> state_env \<Rightarrow> disk \<Rightarrow> string \<Rightarrow> bool" where
  "has_receipt h st d outcome \<longleftrightarrow>
     (\<exists>r ident. run_root h st = Some r \<and> identity h st = Inr ident \<and> receipt_matches d r outcome ident)"

definition life_inv :: "host \<Rightarrow> state_env \<Rightarrow> disk \<Rightarrow> bool" where
  "life_inv h st d \<longleftrightarrow> (\<forall>outcome. outcome_of h st d = Some outcome \<longrightarrow> has_receipt h st d outcome)"

definition receipt_file :: "host \<Rightarrow> state_env \<Rightarrow> disk \<Rightarrow> node option" where
  "receipt_file h st d = (case run_root h st of None \<Rightarrow> None | Some r \<Rightarrow> d (child r RECEIPT))"

definition absence_file :: "host \<Rightarrow> state_env \<Rightarrow> disk \<Rightarrow> node option" where
  "absence_file h st d = (case run_root h st of None \<Rightarrow> None | Some r \<Rightarrow> d (child r ABSENCE))"

lemma marker_ofI: "run_root h st = Some r \<Longrightarrow> read_marker h d r st = Inr (data, s) \<Longrightarrow> marker_of h st d = Some s"
  by (simp add: marker_of_def)

lemma receipt_matches_other [simp]:
  "p \<noteq> child r RECEIPT \<Longrightarrow> receipt_matches (d(p := x)) r outcome ident = receipt_matches d r outcome ident"
  by (simp add: receipt_matches_def)

lemma marker_of_other: "run_root h st = Some r \<Longrightarrow> p \<noteq> child r MARKER \<Longrightarrow> marker_of h st (d(p := x)) = marker_of h st d"
  by (simp add: marker_of_def)

lemma marker_of_missing: "run_root h st = Some r \<Longrightarrow> d (child r MARKER) = None \<Longrightarrow> marker_of h st d = None"
  by (simp add: marker_of_def read_marker_def read_json_def regular_file_def)

text \<open>How one write moves the marker.\<close>

lemma write_marker_cases:
  assumes "life_write h st d d'"
  obtains "marker_of h st d' = marker_of h st d"
      "\<forall>outcome. outcome_of h st d = Some outcome \<longrightarrow> has_receipt h st d outcome \<longrightarrow> has_receipt h st d' outcome"
  | s where "marker_of h st d = None" "marker_of h st d' = Some s" "s \<in> set NONTERMINAL"
  | s s' where "marker_of h st d = Some s" "marker_of h st d' = Some s'" "s \<in> set NONTERMINAL"
      "index_of s STAGES < index_of s' STAGES" "s' \<in> set TERMINAL \<longrightarrow> has_receipt h st d' s'"
  using assms
proof cases
  case (create r ident stage)
  then show thesis
    using that(2) [of stage] marker_ofI [OF create(2) read_marker_created [OF create(3) NONTERMINAL_sub [OF create(4)]]]
    by (simp add: marker_of_missing)
next
  case (advance r data cur)
  note next_ok = next_stage [OF advance(4,5)]
  show thesis
    using that(3) [of cur "NONTERMINAL ! Suc (index_of cur NONTERMINAL)"] next_ok
      marker_ofI [OF advance(2,3)] NONTERMINAL_not_TERMINAL [OF next_ok(1)]
      marker_ofI [OF advance(2) read_marker_updated [OF advance(3) NONTERMINAL_sub [OF next_ok(1)]]] advance
    by simp
next
  case (receipt r ident data outcome)
  have "outcome_of h st d = None"
    using marker_ofI [OF receipt(2,4)] NONTERMINAL_not_TERMINAL [OF RECEIPT_PENDING_NONTERMINAL]
    by (simp add: outcome_of_def)
  then show thesis
    using that(1) receipt marker_of_other [OF receipt(2), of "child r RECEIPT"] by simp
next
  case (finish r ident data outcome)
  then show thesis
    using that(3) [of "''RECEIPT_PENDING''" outcome] RECEIPT_PENDING_NONTERMINAL
      terminal_last [OF RECEIPT_PENDING_NONTERMINAL finish(5)] marker_ofI [OF finish(2,4)]
      marker_ofI [OF finish(2) read_marker_updated [OF finish(4) TERMINAL_sub [OF finish(5)]]]
    by (simp add: has_receipt_def)
next
  case (observe r ident w)
  then show thesis
    using that(1) marker_of_other [OF observe(2), of "child r ABSENCE"] by (simp add: has_receipt_def)
next
  case (litter r q nm c)
  then show thesis
    using that(1) marker_of_other [OF litter(2), of "temp_name (h\<lparr>pid := q\<rparr>) r nm"]
    by (simp add: has_receipt_def)
qed

lemma life_write_rank: "life_write h st d d' \<Longrightarrow> stage_rank h st d \<le> stage_rank h st d'"
  by (erule write_marker_cases) (simp_all add: stage_rank_def)

lemma life_write_outcome: "life_write h st d d' \<Longrightarrow> outcome_of h st d = Some v \<Longrightarrow> outcome_of h st d' = Some v"
  by (erule write_marker_cases) (auto simp: outcome_of_def dest: NONTERMINAL_not_TERMINAL split: option.splits)

lemma life_write_inv: "life_write h st d d' \<Longrightarrow> life_inv h st d \<Longrightarrow> life_inv h st d'"
  by (erule write_marker_cases)
     (auto simp: life_inv_def outcome_of_def dest: NONTERMINAL_not_TERMINAL split: option.splits if_splits)

lemma receipt_write_once: "life_write h st d d' \<Longrightarrow> receipt_file h st d = Some v \<Longrightarrow> receipt_file h st d' = Some v"
  and absence_write_once: "life_write h st d d' \<Longrightarrow> absence_file h st d = Some v \<Longrightarrow> absence_file h st d' = Some v"
  by (auto simp: receipt_file_def absence_file_def elim!: life_write.cases split: option.splits)

interpretation lifecycle: stage_system "life_write h st" "life_inv h st" "stage_rank h st" "outcome_of h st" for h st
  by unfold_locales (auto intro: life_write_inv life_write_rank life_write_outcome)

interpretation receipts: stage_system "life_write h st" "\<lambda>d. True" "\<lambda>d. if receipt_file h st d = None then 0 else 1"
    "receipt_file h st" for h st
  by unfold_locales (auto dest: receipt_write_once)

interpretation absences: stage_system "life_write h st" "\<lambda>d. True" "\<lambda>d. if absence_file h st d = None then 0 else 1"
    "absence_file h st" for h st
  by unfold_locales (auto dest: absence_write_once)

subsection \<open>Results of the operations\<close>

lemma enter_okI: "checked_run_dir h d p = Inr r \<Longrightarrow> run_root h st = Some r \<Longrightarrow> enter h p st d = (Inr r, d)"
  by (auto simp: enter_def act_simps state_for_run_def run_root_def split: option.splits)

lemma never_RanOut [simp]:
  "checked_run_dir h d p \<noteq> Inl RanOut" "identity h st \<noteq> Inl RanOut" "regular_file d p nm req \<noteq> Inl RanOut"
  "state_for_run h r st \<noteq> Inl RanOut"
  by (auto simp: checked_run_dir_def identity_def check_identity_def regular_file_def state_for_run_def
      bind_res_Inl_iff split: option.splits node.splits)

lemma read_json_RanOut [simp]: "read_json d r nm req \<noteq> Inl RanOut"
  by (auto simp: read_json_def bind_res_Inl_iff split: option.splits node.splits content.splits pyval.splits if_splits)

lemma check_marker_RanOut [simp]: "check_marker h st data \<noteq> Inl RanOut"
  by (cases "dict_get data ''stage'' PNone")
     (auto simp: check_marker_def marker_error_def bind_res_Inl_iff simp del: py_eq_simps)

lemma read_marker_RanOut [simp]: "read_marker h d r st \<noteq> Inl RanOut"
  by (auto simp: read_marker_def bind_res_Inl_iff)

lemma enter_RanOut [simp]: "fst (enter h p st d) \<noteq> Inl RanOut"
  by (auto simp: enter_def act_simps bind_res_Inl_iff)

lemma write_json_RanOut [simp]: "fst (write_json h r nm v d) \<noteq> Inl RanOut"
  by (auto simp: write_json_def split: sum.split)

lemma advance_cases:
  obtains e where "advance_closeout h p st stage d = (Inl e, d)" "e \<noteq> RanOut"
  | "advance_closeout h p st stage d = (Inr stage, d)" "marker_of h st d = Some stage"
  | r data cur where "advance_closeout h p st stage d =
        (Inr stage, d(child r MARKER \<mapsto> File (Doc (PDict (AList.update ''stage'' (PStr stage) data)))))"
      "run_root h st = Some r" "read_marker h d r st = Inr (data, cur)"
      "cur \<in> set NONTERMINAL" "cur \<noteq> ''RECEIPT_PENDING''" "stage = NONTERMINAL ! Suc (index_of cur NONTERMINAL)"
proof (cases h p st d rule: enter_cases)
  case (1 e)
  moreover have "e \<noteq> RanOut" using enter_RanOut [of h p st d] 1 by auto
  ultimately show thesis using that(1) by (simp add: advance_closeout_def act_simps)
next
  case (2 r)
  show thesis
  proof (cases "read_marker h d r st")
    case (Inl e)
    with 2 show thesis using that(1) [of e] read_marker_RanOut [of h d r st]
      by (auto simp: advance_closeout_def act_simps)
  next
    case (Inr m)
    obtain data cur where m: "m = (data, cur)" by (cases m)
    note cur = STAGES_split [OF read_marker_stage [of h d r st data cur]]
    note eval = advance_closeout_def act_simps 2 Inr m
    consider "cur = stage" | "cur \<noteq> stage" "cur \<in> set TERMINAL"
      | "cur \<noteq> stage" "cur \<notin> set TERMINAL" "stage \<notin> set NONTERMINAL"
      | "cur \<noteq> stage" "cur \<notin> set TERMINAL" "stage \<in> set NONTERMINAL"
        "cur = ''RECEIPT_PENDING'' \<or> stage \<noteq> NONTERMINAL ! Suc (index_of cur NONTERMINAL)"
      | "cur \<noteq> stage" "cur \<notin> set TERMINAL" "stage \<in> set NONTERMINAL" "cur \<noteq> ''RECEIPT_PENDING''"
        "stage = NONTERMINAL ! Suc (index_of cur NONTERMINAL)" by blast
    then show thesis
    proof cases
      case 1
      then show thesis by (intro that(2)) (use marker_ofI [of h st r d data cur] 2 Inr m in \<open>simp_all add: eval\<close>)
    next
      case 2
      then have "advance_closeout h p st stage d = (Inl (LifecycleError ''terminal lifecycle cannot advance''), d)"
        by (simp add: eval)
      then show thesis by (rule that(1)) simp
    next
      case 3
      then have "advance_closeout h p st stage d = (Inl (LifecycleError ''terminal receipt must be written separately''), d)"
        by (simp add: eval)
      then show thesis by (rule that(1)) simp
    next
      case 4
      then have "advance_closeout h p st stage d = (Inl (LifecycleError (''cannot skip or reverse closeout stage '' @ cur @ '' -> '' @ stage)), d)"
        by (auto simp: eval)
      then show thesis by (rule that(1)) simp
    next
      case 5
      show thesis
      proof (cases h r MARKER "PDict (AList.update ''stage'' (PStr stage) data)" d rule: write_json_cases)
        case (1 e)
        then have "e \<noteq> RanOut" using write_json_RanOut by (metis fst_conv)
        with 1 5 show thesis by (intro that(1) [of e]) (auto simp: eval)
      next
        case w: 2
        have "cur \<in> set NONTERMINAL" using 5 cur Inr m by simp
        with w 5 Inr m \<open>run_root h st = Some r\<close> show thesis by (intro that(3)) (auto simp: eval)
      qed
    qed
  qed
qed

lemma advance_marker:
  assumes "fst (advance_closeout h p st stage d) = Inr s"
  shows "s = stage" and "marker_of h st (snd (advance_closeout h p st stage d)) = Some stage"
proof -
  have "s = stage \<and> marker_of h st (snd (advance_closeout h p st stage d)) = Some stage"
  proof (cases h p st stage d rule: advance_cases)
    case (3 r data cur)
    from next_stage(1) [OF 3(4,5)] have "stage \<in> set STAGES" using 3(6) NONTERMINAL_sub by simp
    with 3 assms show ?thesis using marker_ofI [OF 3(2) read_marker_updated [OF 3(3)]] by simp
  qed (use assms in simp_all)
  then show "s = stage" and "marker_of h st (snd (advance_closeout h p st stage d)) = Some stage" by simp_all
qed

lemma checked_run_dir_Directory: "checked_run_dir h d p = Inr r \<Longrightarrow> d p = Some Directory"
  by (auto simp: checked_run_dir_def split: option.splits node.splits)

lemma checked_run_dir_cong: "d p = d' p \<Longrightarrow> checked_run_dir h d p = checked_run_dir h d' p"
  by (simp add: checked_run_dir_def)

lemma checked_run_dir_write:
  "checked_run_dir h d p = Inr r \<Longrightarrow> d q = None \<or> (\<exists>c. d q = Some (File c)) \<Longrightarrow>
     checked_run_dir h (d(q := x)) p = Inr r"
  by (frule checked_run_dir_Directory) (auto simp: checked_run_dir_def)

lemma write_json_file:
  "d (child r nm) = None \<or> (\<exists>c. d (child r nm) = Some (File c)) \<Longrightarrow> d (temp_name h r nm) = None \<Longrightarrow>
     write_json h r nm v d = (Inr (), d(child r nm \<mapsto> File (Doc v)))"
  by (auto simp: write_json_def regular_file_def)

lemma advance_ok:
  assumes "checked_run_dir h d p = Inr r" and "run_root h st = Some r"
    and "read_marker h d r st = Inr (data, cur)" and "d (temp_name h r MARKER) = None"
    and "cur \<in> set NONTERMINAL" and "cur \<noteq> ''RECEIPT_PENDING''"
    and "stage = NONTERMINAL ! Suc (index_of cur NONTERMINAL)"
  shows "advance_closeout h p st stage d =
    (Inr stage, d(child r MARKER \<mapsto> File (Doc (PDict (AList.update ''stage'' (PStr stage) data)))))"
proof -
  have "write_json h r MARKER (PDict (AList.update ''stage'' (PStr stage) data)) d =
      (Inr (), d(child r MARKER \<mapsto> File (Doc (PDict (AList.update ''stage'' (PStr stage) data)))))"
    using assms(3,4) by (intro write_json_file) (auto simp: read_marker_iff)
  moreover have "cur \<noteq> stage"
    using next_stage(2) [OF assms(5,6)] assms(7) by auto
  ultimately show ?thesis
    using assms next_stage(1) [OF assms(5,6)] NONTERMINAL_not_TERMINAL [OF assms(5)]
      enter_okI [OF assms(1,2)]
    by (simp add: advance_closeout_def act_simps)
qed

lemma early_next:
  assumes "cur \<in> set EARLY"
  shows "cur \<in> set NONTERMINAL" and "cur \<noteq> ''RECEIPT_PENDING''"
    and "NONTERMINAL ! Suc (index_of cur NONTERMINAL) \<in> set EARLY \<or>
       NONTERMINAL ! Suc (index_of cur NONTERMINAL) = ''BRANCH_REMOVED''"
    and "index_of (NONTERMINAL ! Suc (index_of cur NONTERMINAL)) NONTERMINAL = Suc (index_of cur NONTERMINAL)"
    and "index_of cur NONTERMINAL < 4"
  using assms by (auto simp: stage_defs)

lemma recover_loop_reaches:
  assumes "checked_run_dir h d r = Inr r" and "run_root h st = Some r"
    and "read_marker h d r st = Inr (data, cur)" and "d (temp_name h r MARKER) = None"
    and "cur \<in> set EARLY \<or> cur = ''BRANCH_REMOVED''" and "4 \<le> index_of cur NONTERMINAL + fuel"
  shows "\<exists>d'. recover_loop fuel h r st cur d = (Inr ''BRANCH_REMOVED'', d') \<and>
    marker_of h st d' = Some ''BRANCH_REMOVED'' \<and> (\<forall>q. q \<noteq> child r MARKER \<longrightarrow> d' q = d q)"
  using assms
proof (induction fuel arbitrary: d data cur)
  case 0
  then have "cur = ''BRANCH_REMOVED''" using early_next(5) [of cur] by auto
  with 0 show ?case using marker_ofI [OF 0(2,3)] recover_loop_done [of cur 0 h r st d]
    by (simp add: stage_defs)
next
  case (Suc n)
  show ?case
  proof (cases "cur \<in> set EARLY")
    case True
    let ?next = "NONTERMINAL ! Suc (index_of cur NONTERMINAL)"
    let ?data = "AList.update ''stage'' (PStr ?next) data"
    let ?d = "d(child r MARKER \<mapsto> File (Doc (PDict ?data)))"
    note step = advance_ok [OF Suc.prems(1-4) early_next(1,2) [OF True] refl]
    have "checked_run_dir h ?d r = Inr r"
      using Suc.prems(1,3) by (intro checked_run_dir_write) (auto simp: read_marker_iff)
    moreover have "read_marker h ?d r st = Inr (?data, ?next)"
      by (intro read_marker_updated [OF Suc.prems(3)] NONTERMINAL_sub next_stage(1) early_next(1,2) True)
    moreover have "?d (temp_name h r MARKER) = None" using Suc.prems(4) by simp
    ultimately have "\<exists>d'. recover_loop n h r st ?next ?d = (Inr ''BRANCH_REMOVED'', d') \<and>
        marker_of h st d' = Some ''BRANCH_REMOVED'' \<and> (\<forall>q. q \<noteq> child r MARKER \<longrightarrow> d' q = ?d q)"
      using Suc.prems(2,6) early_next(3,4) [OF True]
      by (intro Suc.IH [of ?d ?data ?next]) (simp_all del: fun_upd_apply)
    then obtain d' where "recover_loop n h r st ?next ?d = (Inr ''BRANCH_REMOVED'', d')"
      "marker_of h st d' = Some ''BRANCH_REMOVED''" "\<forall>q. q \<noteq> child r MARKER \<longrightarrow> d' q = d q"
      by (auto simp del: fun_upd_apply) (auto)
    then show ?thesis using True step by (simp add: recover_loop_step)
  next
    case False
    with Suc.prems show ?thesis using marker_ofI [OF Suc.prems(2,3)] recover_loop_done [of cur _ h r st d] by auto
  qed
qed

lemma recover_loop_fuel:
  assumes "4 \<le> index_of cur NONTERMINAL + fuel" and "recover_loop fuel h r st cur d = (res, d')"
    and "marker_of h st d = Some cur"
  shows "(\<exists>e. res = Inl e \<and> e \<noteq> RanOut) \<or> (\<exists>s. res = Inr s \<and> s \<notin> set EARLY \<and> marker_of h st d' = Some s)"
  using assms
proof (induction fuel arbitrary: d cur)
  case 0
  then have "cur \<notin> set EARLY" using early_next(5) [of cur] by auto
  with 0 show ?case by (auto simp: recover_loop_done)
next
  case (Suc n)
  show ?case
  proof (cases "cur \<in> set EARLY")
    case False
    with Suc.prems show ?thesis by (auto simp: recover_loop_done)
  next
    case True
    let ?next = "NONTERMINAL ! Suc (index_of cur NONTERMINAL)"
    obtain res' d1 where a: "advance_closeout h r st ?next d = (res', d1)"
      by (cases "advance_closeout h r st ?next d")
    show ?thesis
    proof (cases res')
      case (Inl e)
      have "e \<noteq> RanOut" using a Inl by (cases h r st ?next d rule: advance_cases) auto
      with Inl a True Suc.prems show ?thesis by (auto simp: recover_loop_step)
    next
      case (Inr s)
      with advance_marker [of h r st ?next d s] a have "s = ?next" "marker_of h st d1 = Some ?next" by simp_all
      then show ?thesis
        using Suc.IH [of ?next d1] Suc.prems True a Inr early_next(4) [OF True] by (simp add: recover_loop_step)
    qed
  qed
qed

lemma receipts_differ:
  assumes "py_eq (mk_receipt a ident) (mk_receipt b ident')"
  shows "a = b"
proof -
  let ?d = "\<lambda>a i. map (map_prod id pnorm) [(''schema_version'', PInt 1), (''outcome'', PStr a), (''identity'', i)]"
  have "sort_key fst (?d a ident) = sort_key fst (?d b ident')"
    using assms by (simp add: py_eq_def mk_receipt_def)
  then have sets: "set (?d a ident) = set (?d b ident')" by (metis set_sort)
  have "(''outcome'', PStr a) \<in> set (?d a ident)" by simp
  then have "(''outcome'', PStr a) \<in> set (?d b ident')" by (simp only: sets)
  then show ?thesis by simp
qed

lemma receipt_step_new:
  assumes "d (child r RECEIPT) = None" and "d (temp_name h r RECEIPT) = None"
  shows "receipt_step h r outcome ident False d =
    (Inr (), d(child r RECEIPT \<mapsto> File (Doc (mk_receipt outcome ident))))"
  using assms by (simp add: receipt_step_def write_json_file)

lemma receipt_step_again:
  assumes "d (child r RECEIPT) = Some (File (Doc (mk_receipt written ident)))" and "identity h st = Inr ident"
  shows "receipt_step h r outcome ident True d =
    (if outcome = written then Inr () else Inl (LifecycleError ''terminal receipt disagrees''), d)"
proof -
  have "read_json d r RECEIPT [''schema_version'', ''outcome'', ''identity''] =
      Inr [(''schema_version'', PInt 1), (''outcome'', PStr written), (''identity'', ident)]"
    using assms(1) by (auto simp: read_json_iff mk_receipt_def)
  moreover have "py_eq (mk_receipt written ident) (mk_receipt outcome ident) \<longleftrightarrow> written = outcome"
    using receipts_differ mk_receipt_self [OF assms(2)] by blast
  ultimately show ?thesis by (simp add: receipt_step_def act_simps mk_receipt_def)
qed

lemma receipt_ok:
  assumes "checked_run_dir h d p = Inr r" and "run_root h st = Some r" and "identity h st = Inr ident"
    and "read_marker h d r st = Inr (data, ''RECEIPT_PENDING'')" and "outcome \<in> set TERMINAL"
    and "receipt_step h r outcome ident (path_exists d (child r RECEIPT)) d = (Inr (), d1)"
    and "read_marker h d1 r st = Inr (data, ''RECEIPT_PENDING'')" and "d1 (temp_name h r MARKER) = None"
  shows "write_terminal_receipt h p st outcome d = (Inr (mk_receipt outcome ident),
    d1(child r MARKER \<mapsto> File (Doc (PDict (AList.update ''stage'' (PStr outcome) data)))))"
proof -
  have "write_json h r MARKER (PDict (AList.update ''stage'' (PStr outcome) data)) d1 =
      (Inr (), d1(child r MARKER \<mapsto> File (Doc (PDict (AList.update ''stage'' (PStr outcome) data)))))"
    using assms(8) by (rule write_json_file [rotated]) (use assms(7) in \<open>auto simp: read_marker_iff\<close>)
  then show ?thesis
    using assms(3-6) enter_okI [OF assms(1,2)] by (simp add: write_terminal_receipt_def act_simps)
qed

lemma reconcile_terminal_iff:
  "reconcile_terminal h d r st stage = Inr v \<longleftrightarrow> v = stage \<and>
     (\<exists>ident receipt obs. identity h st = Inr ident \<and>
        read_json d r RECEIPT [''schema_version'', ''outcome'', ''identity''] = Inr receipt \<and>
        read_json d r ABSENCE [''schema_version'', ''identity'', ''branch_absent'', ''worktree_absent''] = Inr obs \<and>
        evidence_agrees d st stage ident receipt obs)"
  unfolding reconcile_terminal_def bind_res_Inr_iff by (auto split: if_splits)

lemma state_for_run_iff: "state_for_run h r st = Inr u \<longleftrightarrow> run_root h st = Some r"
  by (simp add: state_for_run_def run_root_def split: option.split)

lemma reconcile_closeout_terminal:
  assumes "reconcile_closeout h d p st = Inr v" and "v \<in> set TERMINAL"
  obtains r data where "checked_run_dir h d p = Inr r" "run_root h st = Some r"
    "read_marker h d r st = Inr (data, v)" "reconcile_terminal h d r st v = Inr v"
proof -
  obtain r u m where dir: "checked_run_dir h d p = Inr r" and "state_for_run h r st = Inr u"
    and m: "read_marker h d r st = Inr m"
    and out: "(case m of (data, stage) \<Rightarrow>
       if stage \<in> set TERMINAL then reconcile_terminal h d r st stage
       else if path_exists d (child r RECEIPT) then Inl (LifecycleError ''receipt exists before terminal marker'')
       else Inr stage) = Inr v"
    using assms(1) unfolding reconcile_closeout_def bind_res_Inr_iff by blast
  then have root: "run_root h st = Some r" by (simp add: state_for_run_iff)
  obtain data s where ms: "m = (data, s)" by (cases m)
  note rest = out [unfolded ms prod.case]
  have "s = v" "reconcile_terminal h d r st s = Inr v"
    using rest assms(2) by (auto simp: reconcile_terminal_iff split: if_splits)
  with dir root m ms that show thesis by blast
qed

lemma evidence_agreesD:
  assumes "evidence_agrees d st stage ident receipt obs"
  shows "dict_get receipt ''outcome'' PNone = PStr stage" "py_eq (dict_get receipt ''identity'' PNone) ident"
    "py_eq (dict_get obs ''identity'' PNone) ident" "dict_get obs ''branch_absent'' PNone = PBool True"
    "dict_get obs ''worktree_absent'' PNone = PBool True"
    "\<forall>w. map_of st ''BUGSWEEP_WORKTREE'' = Some w \<longrightarrow> w = [] \<or> d w = None"
  using assms by (simp_all add: evidence_agrees_def lexists_def split: option.splits)

lemma receipt_file_read: "run_root h st = Some r \<Longrightarrow> read_json d r RECEIPT req = Inr flds \<Longrightarrow>
    receipt_file h st d = Some (File (Doc (PDict flds)))"
  and absence_file_read: "run_root h st = Some r \<Longrightarrow> read_json d r ABSENCE req = Inr flds \<Longrightarrow>
    absence_file h st d = Some (File (Doc (PDict flds)))"
  by (simp_all add: receipt_file_def absence_file_def read_json_iff)

definition good_state :: "state_env \<Rightarrow> bool" where
  "good_state vals \<longleftrightarrow> distinct (map fst vals) \<and>
     list_all (\<lambda>kv. fst kv \<in> set STATE_KEYS \<and> list_all (\<lambda>c. 32 \<le> (of_char c :: nat)) (snd kv)) vals"

lemma load_line_good: "load_line vals raw = Inr vals' \<Longrightarrow> good_state vals \<Longrightarrow> good_state vals'"
  unfolding load_line_def Let_def
  by (auto simp: good_state_def list_ex_iff list_all_iff not_less split: if_splits prod.splits)

lemma load_lines_good: "load_lines vals ls = Inr vals' \<Longrightarrow> good_state vals \<Longrightarrow> good_state vals'"
  by (induction ls arbitrary: vals) (auto simp: bind_res_Inr_iff dest: load_line_good)

lemma check_absolute_iff:
  "check_absolute st ks = Inr u \<longleftrightarrow>
     (\<forall>k\<in>set ks. \<forall>v. map_of st k = Some v \<longrightarrow> v = [] \<or> starts_with v ''/'')"
  by (induction ks) (auto simp: Let_def split: option.splits)

lemma check_identity_iff:
  "check_identity st = Inr u \<longleftrightarrow>
     (\<forall>k\<in>set NONEMPTY_IDENTITY_KEYS. \<exists>v. map_of st k = Some v \<and> v \<noteq> []) \<and>
     map_of st ''BUGSWEEP_WORKTREE'' \<noteq> None"
  by (auto simp: check_identity_def missing_identity_def filter_empty_conv)

subsection \<open>Properties\<close>

text \<open>
  C4: From a run without a marker, after any sequence of durable writes (commands, each possibly cut
  short by a crash), every further command is again such a sequence: it never moves the stage back,
  never changes a terminal outcome, a written receipt or a written observation, and a terminal
  marker it leaves always has its own matching receipt.
\<close>

theorem closeout_never_regresses:
  assumes "marker_of h st d0 = None" and "life_run h st d0 d"
  shows "let d' = snd (run_command (h\<lparr>pid := q\<rparr>) p st c d) in
    life_run h st d d' \<and> stage_rank h st d \<le> stage_rank h st d' \<and>
    (\<forall>v. outcome_of h st d = Some v \<longrightarrow> outcome_of h st d' = Some v) \<and>
    (\<forall>v. outcome_of h st d' = Some v \<longrightarrow> has_receipt h st d' v) \<and>
    (\<forall>v. receipt_file h st d = Some v \<longrightarrow> receipt_file h st d' = Some v) \<and>
    (\<forall>v. absence_file h st d = Some v \<longrightarrow> absence_file h st d' = Some v)"
proof -
  have "life_inv h st d0" using assms(1) by (simp add: life_inv_def outcome_of_def)
  then have inv: "life_inv h st d" using lifecycle.reaches_inv assms(2) by blast
  let ?d' = "snd (run_command (h\<lparr>pid := q\<rparr>) p st c d)"
  have run: "life_run h st d ?d'" using command_run [of "h\<lparr>pid := q\<rparr>" st d p c] by simp
  have "life_inv h st ?d'" using lifecycle.reaches_inv run inv by blast
  then show ?thesis
    using run inv lifecycle.reaches_rank [OF run inv] lifecycle.reaches_final [OF run inv]
      receipts.reaches_final [OF run] absences.reaches_final [OF run]
    unfolding Let_def life_inv_def by blast
qed

text \<open>
  Advancing is exact: it either fails and leaves the disk as it was, or finds the marker already
  at the requested stage and changes nothing, or moves it from one stage to the very next one, which
  it then reads back; it never enters a terminal stage.
\<close>

theorem advance_exactly_one_stage:
  "case advance_closeout h p st stage d of
     (Inl e, d') \<Rightarrow> d' = d
   | (Inr s, d') \<Rightarrow> s = stage \<and> marker_of h st d' = Some stage \<and>
       (d' = d \<or>
        (stage \<in> set NONTERMINAL \<and> (\<exists>cur. marker_of h st d = Some cur \<and>
           index_of stage STAGES = Suc (index_of cur STAGES))))"
proof (cases h p st stage d rule: advance_cases)
  case (3 r data cur)
  then show ?thesis
    using next_stage [OF 3(4,5)] advance_marker(2) [of h p st stage d stage] marker_ofI [OF 3(2,3)] by auto
qed (use advance_marker(2) [of h p st stage d stage] in auto)

text \<open>
  C40: Recovery always ends: the loop never goes on past the four early stages, so it returns or
  raises, and when it returns the marker is past the removal of both resources.
\<close>

theorem recover_terminates:
  "case recover_absent_resources h p st worktree_absent branch_absent d of
     (Inl e, d') \<Rightarrow> e \<noteq> RanOut
   | (Inr s, d') \<Rightarrow> s \<notin> set EARLY \<and> marker_of h st d' = Some s \<and> worktree_absent \<and> branch_absent"
proof (cases "worktree_absent \<and> branch_absent")
  case False
  then show ?thesis by (auto simp: recover_absent_resources_def act_simps)
next
  case flags: True
  show ?thesis
  proof (cases h p st d rule: enter_cases)
    case (1 e)
    with flags enter_RanOut [of h p st d] show ?thesis by (auto simp: recover_absent_resources_def act_simps)
  next
    case (2 r)
    show ?thesis
    proof (cases "read_marker h d r st")
      case (Inl e)
      with flags 2 read_marker_RanOut [of h d r st] show ?thesis
        by (auto simp: recover_absent_resources_def act_simps)
    next
      case (Inr m)
      obtain data cur where m: "m = (data, cur)" by (cases m)
      have mk: "marker_of h st d = Some cur" using 2 Inr m by (intro marker_ofI) simp_all
      obtain res d' where run: "recover_loop 4 h r st cur d = (res, d')" by (cases "recover_loop 4 h r st cur d")
      have "set TERMINAL \<inter> set EARLY = {}" by (simp add: stage_defs)
      then show ?thesis
        using flags 2 Inr m mk run recover_loop_fuel [OF _ run mk]
        by (cases res) (auto simp: recover_absent_resources_def act_simps)
    qed
  qed
qed

text \<open>
  C37: Recovery does its work: on a sound run directory, from any early stage and with both resources
  confirmed absent, it brings the marker to \<^verbatim>\<open>BRANCH_REMOVED\<close> and touches no other file.
\<close>

theorem recover_completes:
  assumes "checked_run_dir h d p = Inr r" and "checked_run_dir h d r = Inr r" and "run_root h st = Some r"
    and "marker_of h st d = Some cur" and "cur \<in> set EARLY" and "d (temp_name h r MARKER) = None"
  shows "\<exists>d'. recover_absent_resources h p st True True d = (Inr ''BRANCH_REMOVED'', d') \<and>
    marker_of h st d' = Some ''BRANCH_REMOVED'' \<and> (\<forall>q. q \<noteq> child r MARKER \<longrightarrow> d' q = d q)"
proof -
  obtain data where rm: "read_marker h d r st = Inr (data, cur)"
    using assms(3,4) by (auto simp: marker_of_def split: sum.splits)
  have "cur \<notin> set TERMINAL" using assms(5) by (auto simp: stage_defs)
  then show ?thesis
    using recover_loop_reaches [OF assms(2,3) rm assms(6), of 4] assms(5) rm enter_okI [OF assms(1,3)]
    by (simp add: recover_absent_resources_def act_simps)
qed

text \<open>
  A crash between the receipt and the terminal marker is repaired by asking again: the same
  outcome completes exactly as the uninterrupted command does, the other outcome is refused and
  leaves the disk as it was.
\<close>

theorem receipt_crash_replay:
  assumes "checked_run_dir h d p = Inr r" and "run_root h st = Some r" and "identity h st = Inr ident"
    and "marker_of h st d = Some ''RECEIPT_PENDING''" and "outcome \<in> set TERMINAL"
    and "other \<in> set TERMINAL" and "other \<noteq> outcome" and "d (child r RECEIPT) = None"
    and "d (temp_name h r MARKER) = None" and "d (temp_name h r RECEIPT) = None"
    and "crashed = d(child r RECEIPT \<mapsto> File (Doc (mk_receipt outcome ident)))"
  shows "fst (write_terminal_receipt h p st outcome d) = Inr (mk_receipt outcome ident) \<and>
    outcome_of h st (snd (write_terminal_receipt h p st outcome d)) = Some outcome \<and>
    write_terminal_receipt h p st outcome crashed = write_terminal_receipt h p st outcome d \<and>
    write_terminal_receipt h p st other crashed =
      (Inl (LifecycleError ''terminal receipt disagrees''), crashed)"
proof -
  obtain data where rm: "read_marker h d r st = Inr (data, ''RECEIPT_PENDING'')"
    using assms(2,4) by (auto simp: marker_of_def split: sum.splits)
  have rm': "read_marker h crashed r st = Inr (data, ''RECEIPT_PENDING'')"
    and dir': "checked_run_dir h crashed p = Inr r" and temp: "crashed (temp_name h r MARKER) = None"
    using rm assms(1,8,9) by (simp_all add: assms(11) checked_run_dir_write)
  have there: "crashed (child r RECEIPT) = Some (File (Doc (mk_receipt outcome ident)))"
    by (simp add: assms(11))
  then have ex: "path_exists crashed (child r RECEIPT)" "\<not> path_exists d (child r RECEIPT)"
    using assms(8) by (simp_all add: path_exists_def)
  note again = receipt_step_again [of crashed r outcome ident h st, OF there assms(3)]
  let ?done = "crashed(child r MARKER \<mapsto> File (Doc (PDict (AList.update ''stage'' (PStr outcome) data))))"
  have run: "write_terminal_receipt h p st outcome d = (Inr (mk_receipt outcome ident), ?done)"
    by (rule receipt_ok [OF assms(1-3) rm assms(5) _ rm' temp])
       (simp only: ex assms(11) receipt_step_new [OF assms(8,10)])
  moreover have "write_terminal_receipt h p st outcome crashed = (Inr (mk_receipt outcome ident), ?done)"
    by (rule receipt_ok [OF dir' assms(2,3) rm' assms(5) _ rm' temp])
       (simp only: ex again if_True simp_thms)
  moreover have "write_terminal_receipt h p st other crashed =
      (Inl (LifecycleError ''terminal receipt disagrees''), crashed)"
    using assms(3,6,7) rm' enter_okI [OF dir' assms(2)] again [of other]
    by (simp add: write_terminal_receipt_def act_simps ex)
  moreover have "outcome_of h st ?done = Some outcome"
    using marker_ofI [OF assms(2) read_marker_updated [OF rm' TERMINAL_sub [OF assms(5)]]] assms(5)
    by (simp add: outcome_of_def)
  ultimately show ?thesis by simp
qed

text \<open>
  C12: A run is reported as verified completed only on full evidence: a sound state file, a terminal
  marker and a receipt with that outcome under the run's own sealed identity, an observation under
  the same identity that both resources are absent, no worktree on the disk and no closeout block.
\<close>

theorem completed_status_evidence:
  assumes "read_run_status h d p = Verified_Completed v"
  shows "\<exists>r st ident obs receipt. checked_run_dir h d p = Inr r \<and>
    load_state d (child r ''state.env'') = Inr st \<and> identity h st = Inr ident \<and>
    v \<in> set TERMINAL \<and> marker_of h st d = Some v \<and>
    receipt_file h st d = Some (File (Doc (PDict receipt))) \<and>
    dict_get receipt ''outcome'' PNone = PStr v \<and> py_eq (dict_get receipt ''identity'' PNone) ident \<and>
    absence_file h st d = Some (File (Doc (PDict obs))) \<and> py_eq (dict_get obs ''identity'' PNone) ident \<and>
    dict_get obs ''branch_absent'' PNone = PBool True \<and> dict_get obs ''worktree_absent'' PNone = PBool True \<and>
    (\<forall>w. map_of st ''BUGSWEEP_WORKTREE'' = Some w \<longrightarrow> w = [] \<or> d w = None) \<and>
    d (block_path st) = None"
proof -
  obtain r st where dir: "checked_run_dir h d p = Inr r" and st: "load_state d (child r ''state.env'') = Inr st"
    and rec: "reconcile_closeout h d r st = Inr v" and v: "v \<in> set TERMINAL" and blk: "d (block_path st) = None"
    using assms by (auto simp: read_run_status_def bind_res_Inr_iff lexists_def split: sum.splits if_splits)
  from reconcile_closeout_terminal [OF rec v] obtain r' data where root: "run_root h st = Some r'"
    and rm: "read_marker h d r' st = Inr (data, v)" and rest: "reconcile_terminal h d r' st v = Inr v" by blast
  from rest obtain ident receipt obs where id: "identity h st = Inr ident"
    and ev: "read_json d r' RECEIPT [''schema_version'', ''outcome'', ''identity''] = Inr receipt"
      "read_json d r' ABSENCE [''schema_version'', ''identity'', ''branch_absent'', ''worktree_absent''] = Inr obs"
    and ok: "evidence_agrees d st v ident receipt obs" by (auto simp: reconcile_terminal_iff)
  show ?thesis
    by (intro exI conjI) (rule dir st id v marker_ofI [OF root rm] receipt_file_read [OF root ev(1)]
          absence_file_read [OF root ev(2)] evidence_agreesD [OF ok] blk)+
qed

text \<open>
  A state file that loads is inert and complete: known keys, each once, without control
  characters; every identity field present and non-empty (the worktree may be empty), the branch in
  the bugsweep namespace and the paths absolute, so its identity can always be sealed.
\<close>

theorem load_state_sound:
  assumes "load_state d p = Inr st"
  shows "good_state st \<and> (\<forall>k\<in>set NONEMPTY_IDENTITY_KEYS. \<exists>v. map_of st k = Some v \<and> v \<noteq> []) \<and>
    (\<exists>b. map_of st ''BUGSWEEP_BRANCH'' = Some b \<and> starts_with b ''bugsweep/'') \<and>
    (\<forall>k\<in>set ([''BUGSWEEP_RUN_DIR'', ''BUGSWEEP_WORKTREE''] @ OPTIONAL_IDENTITY_KEYS).
       \<forall>v. map_of st k = Some v \<longrightarrow> v = [] \<or> starts_with v ''/'') \<and>
    (\<exists>ident. identity h st = Inr ident)"
proof -
  obtain ls u u' where lines: "load_lines [] ls = Inr st" and id: "check_identity st = Inr u"
    and br: "case map_of st ''BUGSWEEP_BRANCH'' of None \<Rightarrow> False | Some b \<Rightarrow> starts_with b ''bugsweep/''"
    and abs: "check_absolute st ([''BUGSWEEP_RUN_DIR'', ''BUGSWEEP_WORKTREE''] @ OPTIONAL_IDENTITY_KEYS) = Inr u'"
    using assms unfolding load_state_def bind_res_Inr_iff guard_Inr_iff by blast
  have "good_state st" using load_lines_good [OF lines] by (simp add: good_state_def)
  moreover have "\<exists>ident. identity h st = Inr ident" using id by (simp add: identity_def)
  ultimately show ?thesis
    using id [unfolded check_identity_iff] br abs [unfolded check_absolute_iff] by (auto split: option.splits)
qed

subsection \<open>Witnesses\<close>

definition demo_host :: host where
  "demo_host = \<lparr>pid = ''1'', resolve = Some, sha256 = (\<lambda>s. ''h'')\<rparr>"

definition demo_text :: string where
  "demo_text = join_with [CHR 0x0A] [''# run'', ''BUGSWEEP_RUN_ID=7'', ''BUGSWEEP_RUN_DIR=/r'',
     ''BUGSWEEP_REPO_ROOT=/w'', ''BUGSWEEP_BRANCH=bugsweep/7'', ''BUGSWEEP_ORIG_BRANCH=main'',
     ''BUGSWEEP_ORIG_HEAD=c0'', ''BUGSWEEP_WORKTREE='']"

definition demo_state :: state_env where
  "demo_state = [(''BUGSWEEP_RUN_ID'', ''7''), (''BUGSWEEP_RUN_DIR'', ''/r''), (''BUGSWEEP_REPO_ROOT'', ''/w''),
     (''BUGSWEEP_BRANCH'', ''bugsweep/7''), (''BUGSWEEP_ORIG_BRANCH'', ''main''),
     (''BUGSWEEP_ORIG_HEAD'', ''c0''), (''BUGSWEEP_WORKTREE'', [])]"

definition demo_disk :: disk where
  "demo_disk = [''/r'' \<mapsto> Directory, ''/r/state.env'' \<mapsto> File (Raw demo_text)]"

definition demo_ident :: pyval where
  "demo_ident = (case identity demo_host demo_state of Inr i \<Rightarrow> i | Inl e \<Rightarrow> PNone)"

definition demo_at :: "string \<Rightarrow> disk" where
  "demo_at stage = demo_disk(''/r/closeout-marker.json'' \<mapsto> File (Doc (mk_marker stage demo_ident)))"

lemma demo_facts:
  "load_state demo_disk ''/r/state.env'' = Inr demo_state"
  "run_root demo_host demo_state = Some ''/r''"
  "identity demo_host demo_state = Inr demo_ident"
  "marker_of demo_host demo_state demo_disk = None"
  "checked_run_dir demo_host (demo_at ''PENDING_CLOSEOUT'') ''/r'' = Inr ''/r''"
  "marker_of demo_host demo_state (demo_at ''PENDING_CLOSEOUT'') = Some ''PENDING_CLOSEOUT''"
  by code_simp+

lemma closeout_never_regresses_witness:
  "let d' = snd (run_command (demo_host\<lparr>pid := ''2''\<rparr>) ''/r'' demo_state (Init ''PENDING_CLOSEOUT'') demo_disk) in
    stage_rank demo_host demo_state demo_disk \<le> stage_rank demo_host demo_state d' \<and>
    marker_of demo_host demo_state d' = Some ''PENDING_CLOSEOUT''"
proof -
  have "marker_of demo_host demo_state
      (snd (run_command (demo_host\<lparr>pid := ''2''\<rparr>) ''/r'' demo_state (Init ''PENDING_CLOSEOUT'') demo_disk)) =
    Some ''PENDING_CLOSEOUT''" by code_simp
  then show ?thesis
    using closeout_never_regresses [OF demo_facts(4) reaches.stay, of "''2''" "''/r''" "Init ''PENDING_CLOSEOUT''"]
    by (simp add: Let_def)
qed

lemma recover_completes_witness:
  "\<exists>d'. recover_absent_resources demo_host ''/r'' demo_state True True (demo_at ''PENDING_CLOSEOUT'') =
      (Inr ''BRANCH_REMOVED'', d') \<and> marker_of demo_host demo_state d' = Some ''BRANCH_REMOVED''"
proof -
  have "''PENDING_CLOSEOUT'' \<in> set EARLY"
    and "demo_at ''PENDING_CLOSEOUT'' (temp_name demo_host ''/r'' MARKER) = None" by code_simp+
  then show ?thesis
    using recover_completes [OF demo_facts(5) demo_facts(5) demo_facts(2) demo_facts(6)] by blast
qed

lemma receipt_crash_replay_witness:
  "write_terminal_receipt demo_host ''/r'' demo_state ''COMPLETED_RECORDED''
      ((demo_at ''RECEIPT_PENDING'')(child ''/r'' RECEIPT \<mapsto>
         File (Doc (mk_receipt ''COMPLETED_LANDED'' demo_ident)))) =
    (Inl (LifecycleError ''terminal receipt disagrees''),
     (demo_at ''RECEIPT_PENDING'')(child ''/r'' RECEIPT \<mapsto>
         File (Doc (mk_receipt ''COMPLETED_LANDED'' demo_ident))))"
proof -
  have facts: "checked_run_dir demo_host (demo_at ''RECEIPT_PENDING'') ''/r'' = Inr ''/r''"
    "marker_of demo_host demo_state (demo_at ''RECEIPT_PENDING'') = Some ''RECEIPT_PENDING''"
    "''COMPLETED_LANDED'' \<in> set TERMINAL" "''COMPLETED_RECORDED'' \<in> set TERMINAL"
    "''COMPLETED_RECORDED'' \<noteq> ''COMPLETED_LANDED''"
    "demo_at ''RECEIPT_PENDING'' (child ''/r'' RECEIPT) = None"
    "demo_at ''RECEIPT_PENDING'' (temp_name demo_host ''/r'' MARKER) = None"
    "demo_at ''RECEIPT_PENDING'' (temp_name demo_host ''/r'' RECEIPT) = None" by code_simp+
  show ?thesis
    using receipt_crash_replay [OF facts(1) demo_facts(2,3) facts(2-8) refl] by blast
qed

definition demo_done :: disk where
  "demo_done = (demo_at ''COMPLETED_LANDED'')
     (child ''/r'' RECEIPT \<mapsto> File (Doc (mk_receipt ''COMPLETED_LANDED'' demo_ident)),
      child ''/r'' ABSENCE \<mapsto> File (Doc (mk_absence demo_ident)))"

lemma completed_status_evidence_witness:
  "\<exists>st. load_state demo_done ''/r/state.env'' = Inr st \<and> marker_of demo_host st demo_done = Some ''COMPLETED_LANDED''"
proof -
  have status: "read_run_status demo_host demo_done ''/r'' = Verified_Completed ''COMPLETED_LANDED''" by code_simp
  have dir: "checked_run_dir demo_host demo_done ''/r'' = Inr ''/r''" by code_simp
  show ?thesis using completed_status_evidence [OF status] dir by (auto simp: child_def)
qed

lemma load_state_sound_witness:
  "good_state demo_state \<and> (\<exists>ident. identity demo_host demo_state = Inr ident)"
  using load_state_sound [OF demo_facts(1)] by blast

end
