(* ===== verification/Order_Free.thy ===== *)
theory Order_Free
  imports "HOL-Library.Multiset"
begin

text \<open>
  The contract of a reduction that must not depend on the order of its inputs: its step commutes.
  The client's facts: the fold is a function of the multiset of the inputs, and folding a
  concatenation in either order gives the same.
\<close>

locale order_free =
  fixes step :: "'b \<Rightarrow> 'a \<Rightarrow> 'b"
  assumes commutes: "step (step b x) y = step (step b y) x"
begin

lemma foldl_mset: "mset xs = mset ys \<Longrightarrow> foldl step b xs = foldl step b ys"
proof -
  assume eq: "mset xs = mset ys"
  have "fold (\<lambda>x b. step b x) xs = fold (\<lambda>x b. step b x) ys"
    using eq by (intro fold_multiset_equiv) (auto simp: comp_def commutes)
  then show ?thesis by (simp add: foldl_conv_fold)
qed

lemma foldl_append_swap: "foldl step b (xs @ ys) = foldl step b (ys @ xs)"
  by (intro foldl_mset) simp

end

end
