(* ===== verification/Run_Summary.thy ===== *)
theory Run_Summary
  imports Py_Json Py_Text Order_Free
begin

text \<open>
  \<^verbatim>\<open>bench/scorer/run_summary.py\<close>: the reduction of a run's ledger and recon file to
  \<^verbatim>\<open>run-summary.json\<close>.  The ledger is a list of decoded events; the reduction is total only as far
  as Python is: hashing a list or a dictionary raises (\<open>Unhashable\<close>, a \<^verbatim>\<open>TypeError\<close>), and so does a ledger
  that is not UTF-8.  \<open>Unmodelled\<close> marks the two sorts of values
  that are not all strings (or finite numbers), whose outcome is not modelled.
\<close>

subsection \<open>Events\<close>

type_synonym fields = "(string \<times> pyval) list"

datatype summary_error = Unhashable | Not_Utf8 | Unmodelled

abbreviation fld :: "fields \<Rightarrow> string \<Rightarrow> pyval" where
  "fld d k \<equiv> dict_get d k PNone"

definition FINDING_EVENTS :: "(string \<times> bool) list" where
  "FINDING_EVENTS = [(''fix_committed'', True), (''quarantine'', False), (''confirmed'', False)]"

definition SEVERITIES :: "string list" where
  "SEVERITIES = [''critical'', ''high'', ''medium'', ''low'']"

definition VOTE_ELIGIBLE_SEVERITIES :: "string list" where
  "VOTE_ELIGIBLE_SEVERITIES = [''critical'', ''high'']"

definition REPRO_STATUSES :: "string list" where
  "REPRO_STATUSES = [''none'', ''unreproduced'', ''confirmed'', ''failed'']"

definition MIN_CLUSTER_SIZE :: nat where "MIN_CLUSTER_SIZE = 2"
definition FOLLOW_UP_CAP :: nat where "FOLLOW_UP_CAP = 50"

definition parse_line :: "json_loads \<Rightarrow> string \<Rightarrow> fields option" where
  "parse_line loads raw =
     (let line = strip raw in
      if line = [] then None
      else (case loads line of Some (PDict d) \<Rightarrow> Some d | _ \<Rightarrow> None))"

definition iter_ledger_events :: "json_loads \<Rightarrow> text_file \<Rightarrow> summary_error + fields list" where
  "iter_ledger_events loads f =
     (case f of
        Missing \<Rightarrow> Inr []
      | Undecodable_Text \<Rightarrow> Inl Not_Utf8
      | Text s \<Rightarrow> Inr (List.map_filter (parse_line loads) (splitlines s)))"

text \<open>An integer that is not a boolean and is positive.\<close>

fun batch_id :: "pyval \<Rightarrow> int option" where
  "batch_id (PInt i) = (if i > 0 then Some i else None)"
| "batch_id _ = None"

definition batch_ids :: "pyval \<Rightarrow> int set" where
  "batch_ids v = (case v of PList xs \<Rightarrow> set (List.map_filter batch_id xs) | _ \<Rightarrow> {})"

definition covered_id :: "fields \<Rightarrow> int option" where
  "covered_id e =
     (if fld e ''event'' = PStr ''batch_covered''
      then batch_id (dict_get e ''batch'' (fld e ''id'')) else None)"

definition ledger_covered_ids :: "fields list \<Rightarrow> int set" where
  "ledger_covered_ids events = set (List.map_filter covered_id events)"

text \<open>\<open>x or []\<close>\<close>

definition or_empty :: "pyval \<Rightarrow> pyval" where
  "or_empty v = (if truthy v then v else PList [])"

definition recon_batch_ids :: "pyval \<Rightarrow> int set" where
  "recon_batch_ids v =
     (case v of
        PList bs \<Rightarrow> set (List.map_filter
          (\<lambda>b. case b of PDict d \<Rightarrow> batch_id (fld d ''id'') | _ \<Rightarrow> None) bs)
      | _ \<Rightarrow> {})"

definition restrict_verified :: "int set option \<Rightarrow> int set \<Rightarrow> int set" where
  "restrict_verified verified ids = (case verified of None \<Rightarrow> ids | Some v \<Rightarrow> ids \<inter> v)"

definition covered_batches :: "fields \<Rightarrow> int set \<Rightarrow> int set option \<Rightarrow> int set" where
  "covered_batches d ledger verified =
     restrict_verified verified
       (batch_ids (or_empty (fld d ''covered'')) \<inter> ledger \<inter> recon_batch_ids (or_empty (fld d ''batches'')))"

definition read_recon_coverage ::
  "json_loads \<Rightarrow> text_file \<Rightarrow> int set \<Rightarrow> int set option \<Rightarrow> nat \<times> nat" where
  "read_recon_coverage loads f ledger verified =
     (case read_doc loads f of
        Some (PDict d) \<Rightarrow>
          (card (covered_batches d ledger verified), card (recon_batch_ids (or_empty (fld d ''batches''))))
      | _ \<Rightarrow> (0, 0))"

datatype stop_reason = Stop_Partial | Stop_Stalled

definition derive_status :: "bool \<Rightarrow> nat \<Rightarrow> string \<times> stop_reason option" where
  "derive_status report_is_stub covered =
     (if \<not> report_is_stub then (''complete'', None)
      else if covered > 0 then (''partial'', Some Stop_Partial)
      else (''stalled'', Some Stop_Stalled))"

subsection \<open>Findings\<close>

record vote_split =
  vs_confirmed :: nat
  vs_total :: nat
  vs_eligible :: bool

record finding =
  f_bug_id :: "string option"
  f_severity :: pyval
  f_category :: pyval
  f_file :: pyval
  f_line :: pyval
  f_rationale :: pyval
  f_fixed :: bool
  f_repro :: string
  f_votes :: "vote_split option"

definition int_or_none :: "pyval \<Rightarrow> pyval" where
  "int_or_none v = (if is_int v then v else PNone)"

definition bug_ident :: "(pyval \<Rightarrow> string) \<Rightarrow> fields \<Rightarrow> string option" where
  "bug_ident srepr e = (case fld e ''bug_id'' of PNone \<Rightarrow> None | v \<Rightarrow> Some (py_str srepr v))"

definition finding_from_event :: "(pyval \<Rightarrow> string) \<Rightarrow> fields \<Rightarrow> bool \<Rightarrow> finding" where
  "finding_from_event srepr e fixed =
     \<lparr>f_bug_id = bug_ident srepr e, f_severity = fld e ''severity'', f_category = fld e ''category'',
      f_file = fld e ''file'', f_line = int_or_none (fld e ''line''), f_rationale = fld e ''rationale'',
      f_fixed = fixed, f_repro = ''none'', f_votes = None\<rparr>"

type_synonym counts = "(string \<times> nat) list"

definition empty_counts :: counts where
  "empty_counts = [(''critical'', 0), (''high'', 0), (''medium'', 0), (''low'', 0), (''architectural'', 0)]"

definition bump :: "string \<Rightarrow> counts \<Rightarrow> counts" where
  "bump k c = map (\<lambda>(a, n). if a = k then (a, Suc n) else (a, n)) c"

text \<open>The last valid status recorded for a bug.\<close>

definition repro_status :: "(pyval \<Rightarrow> string) \<Rightarrow> string \<Rightarrow> fields \<Rightarrow> string option" where
  "repro_status srepr bug e =
     (if fld e ''event'' = PStr ''repro_status'' \<and> bug_ident srepr e = Some bug
      then (case fld e ''status'' of PStr s \<Rightarrow> if s \<in> set REPRO_STATUSES then Some s else None | _ \<Rightarrow> None)
      else None)"

definition repro_for_bug :: "(pyval \<Rightarrow> string) \<Rightarrow> fields list \<Rightarrow> string option \<Rightarrow> string" where
  "repro_for_bug srepr events bug =
     (case bug of
        None \<Rightarrow> ''none''
      | Some b \<Rightarrow> foldl (\<lambda>status e. case repro_status srepr b e of None \<Rightarrow> status | Some s \<Rightarrow> s) ''none'' events)"

definition majority_gate :: "pyval list \<Rightarrow> vote_split" where
  "majority_gate verdicts =
     (let votes = length verdicts;
          confirmed = length (filter (\<lambda>v. v = PStr ''CONFIRMED'') verdicts)
      in \<lparr>vs_confirmed = confirmed, vs_total = votes, vs_eligible = (votes > 0 \<and> confirmed * 2 > votes)\<rparr>)"

definition votes_for_bug :: "(pyval \<Rightarrow> string) \<Rightarrow> fields list \<Rightarrow> string \<Rightarrow> pyval list" where
  "votes_for_bug srepr events bug =
     map (\<lambda>e. fld e ''verdict'')
       (filter (\<lambda>e. fld e ''event'' = PStr ''referee_vote'' \<and> bug_ident srepr e = Some bug) events)"

subsection \<open>The reduction loop\<close>

record tally =
  t_findings :: "finding list"
  t_fixed :: "string list"
  t_quarantined :: "string list"
  t_confirmed :: "string list"
  t_counts :: counts

definition empty_tally :: tally where
  "empty_tally = \<lparr>t_findings = [], t_fixed = [], t_quarantined = [], t_confirmed = [], t_counts = empty_counts\<rparr>"

text \<open>\<open>name in FINDING_EVENTS\<close> hashes the name.\<close>

definition finding_event :: "fields \<Rightarrow> summary_error + (string \<times> bool) option" where
  "finding_event e =
     (if \<not> hashable (fld e ''event'') then Inl Unhashable
      else Inr (case fld e ''event'' of
          PStr name \<Rightarrow> map_option (Pair name) (map_of FINDING_EVENTS name)
        | _ \<Rightarrow> None))"

definition count_finding :: "finding \<Rightarrow> counts \<Rightarrow> counts" where
  "count_finding f c =
     (let c1 = (case f_severity f of PStr s \<Rightarrow> if s \<in> set SEVERITIES then bump s c else c | _ \<Rightarrow> c)
      in if f_category f = PStr ''architectural'' then bump ''architectural'' c1 else c1)"

definition vote_eligible :: "finding \<Rightarrow> bool" where
  "vote_eligible f \<longleftrightarrow>
     (case f_severity f of PStr s \<Rightarrow> s \<in> set VOTE_ELIGIBLE_SEVERITIES | _ \<Rightarrow> False)"

definition attach_votes :: "(pyval \<Rightarrow> string) \<Rightarrow> fields list \<Rightarrow> finding \<Rightarrow> summary_error + finding" where
  "attach_votes srepr events f =
     (case f_bug_id f of
        None \<Rightarrow> Inr f
      | Some bug \<Rightarrow>
          if bug = [] then Inr f
          else if \<not> hashable (f_severity f) then Inl Unhashable
          else if vote_eligible f \<and> votes_for_bug srepr events bug \<noteq> []
          then Inr (f\<lparr>f_votes := Some (majority_gate (votes_for_bug srepr events bug))\<rparr>)
          else Inr f)"

definition list_bug :: "string \<Rightarrow> string option \<Rightarrow> string \<Rightarrow> string list \<Rightarrow> string list" where
  "list_bug wanted bug name ids =
     (case bug of Some b \<Rightarrow> if name = wanted \<and> b \<noteq> [] then ids @ [b] else ids | None \<Rightarrow> ids)"

definition reduce_event :: "(pyval \<Rightarrow> string) \<Rightarrow> fields list \<Rightarrow> tally \<Rightarrow> fields \<Rightarrow> summary_error + tally" where
  "reduce_event srepr events t e =
     bind_res (finding_event e) (\<lambda>m.
     case m of
       None \<Rightarrow> Inr t
     | Some (name, fixed) \<Rightarrow>
         let f = (finding_from_event srepr e fixed)
               \<lparr>f_repro := repro_for_bug srepr events (bug_ident srepr e)\<rparr>
         in bind_res (attach_votes srepr events f) (\<lambda>f'.
            Inr \<lparr>t_findings = t_findings t @ [f'],
                 t_fixed = list_bug ''fix_committed'' (f_bug_id f') name (t_fixed t),
                 t_quarantined = list_bug ''quarantine'' (f_bug_id f') name (t_quarantined t),
                 t_confirmed = list_bug ''confirmed'' (f_bug_id f') name (t_confirmed t),
                 t_counts = count_finding f' (t_counts t)\<rparr>))"

fun reduce_events ::
  "(pyval \<Rightarrow> string) \<Rightarrow> fields list \<Rightarrow> tally \<Rightarrow> fields list \<Rightarrow> summary_error + tally" where
  "reduce_events srepr events t [] = Inr t"
| "reduce_events srepr events t (e # es) =
     bind_res (reduce_event srepr events t e) (\<lambda>t'. reduce_events srepr events t' es)"

subsection \<open>Clusters\<close>

record cluster =
  c_name :: string
  c_size :: nat
  c_representative :: "string option"
  c_files :: "string list"

text \<open>\<open>groups.setdefault(key, []).append(x)\<close>\<close>

definition add_group :: "string \<Rightarrow> 'a \<Rightarrow> (string \<times> 'a list) list \<Rightarrow> (string \<times> 'a list) list" where
  "add_group k x g = AList.update k ((case map_of g k of None \<Rightarrow> [] | Some xs \<Rightarrow> xs) @ [x]) g"

text \<open>\<open>sorted({v \<dots>})\<close> of values that must be strings.\<close>

definition str_of :: "pyval \<Rightarrow> string option" where
  "str_of v = (case v of PStr s \<Rightarrow> Some s | _ \<Rightarrow> None)"

definition sorted_str_set :: "pyval list \<Rightarrow> summary_error + string list" where
  "sorted_str_set vs =
     (if \<not> list_all hashable vs then Inl Unhashable
      else if list_all is_str vs then Inr (sort (remdups (List.map_filter str_of vs)))
      else Inl Unmodelled)"

definition cluster_of :: "(pyval \<Rightarrow> string) \<Rightarrow> string \<Rightarrow> fields list \<Rightarrow> summary_error + cluster" where
  "cluster_of srepr key members =
     (let ids = sort (map (\<lambda>m. py_str srepr (fld m ''bug_id'')) (filter (\<lambda>m. truthy (fld m ''bug_id'')) members))
      in bind_res (sorted_str_set (filter truthy (map (\<lambda>m. fld m ''file'') members))) (\<lambda>files.
         Inr \<lparr>c_name = key, c_size = length members,
              c_representative = (case ids of [] \<Rightarrow> None | i # is \<Rightarrow> Some i), c_files = files\<rparr>))"

definition build_clusters :: "(pyval \<Rightarrow> string) \<Rightarrow> (string \<times> fields list) list \<Rightarrow> summary_error + cluster list" where
  "build_clusters srepr groups =
     bind_res (map_res (\<lambda>(k, ms). cluster_of srepr k ms) (filter (\<lambda>(k, ms). length ms \<ge> MIN_CLUSTER_SIZE) groups))
       (\<lambda>cs. Inr (sort_key (\<lambda>c. (- int (c_size c), c_name c)) cs))"

definition cluster_key :: "fields \<Rightarrow> string option" where
  "cluster_key e = (case fld e ''category'' of PStr s \<Rightarrow> if s = [] then None else Some s | _ \<Rightarrow> None)"

definition group_keyed :: "fields list \<Rightarrow> (string \<times> fields list) list" where
  "group_keyed members =
     foldl (\<lambda>g m. case cluster_key m of None \<Rightarrow> g | Some k \<Rightarrow> add_group k m g) [] members"

definition build_root_cause_clusters :: "(pyval \<Rightarrow> string) \<Rightarrow> fields list \<Rightarrow> summary_error + cluster list" where
  "build_root_cause_clusters srepr events =
     bind_res (map_res finding_event events) (\<lambda>ms.
     build_clusters srepr (group_keyed (map snd (filter (\<lambda>(m, e). m \<noteq> None) (zip ms events)))))"

subsection \<open>Follow-up\<close>

record follow_up =
  u_kind :: string
  u_ref :: pyval
  u_detail :: pyval

text \<open>\<open>v in ids\<close> for a set of integers: equality across the numeric types.\<close>

definition in_ids :: "pyval \<Rightarrow> int set \<Rightarrow> bool" where
  "in_ids v ids =
     (case v of PInt i \<Rightarrow> i \<in> ids | PBool b \<Rightarrow> (if b then 1 else 0) \<in> ids
      | PFloat (Fin q) \<Rightarrow> of_int \<lfloor>q\<rfloor> = q \<and> \<lfloor>q\<rfloor> \<in> ids | _ \<Rightarrow> False)"

fun uncovered_pairs :: "int set \<Rightarrow> pyval list \<Rightarrow> summary_error + (pyval \<times> pyval) list" where
  "uncovered_pairs ids [] = Inr []"
| "uncovered_pairs ids (b # bs) =
     (case b of
        PDict d \<Rightarrow>
          if fld d ''id'' = PNone then uncovered_pairs ids bs
          else if \<not> hashable (fld d ''id'') then Inl Unhashable
          else if in_ids (fld d ''id'') ids then uncovered_pairs ids bs
          else bind_res (uncovered_pairs ids bs) (\<lambda>ps. Inr ((fld d ''id'', fld d ''tier'') # ps))
      | _ \<Rightarrow> uncovered_pairs ids bs)"

definition batch_sort_key :: "(pyval \<Rightarrow> string) \<Rightarrow> pyval \<Rightarrow> nat \<times> int \<times> string" where
  "batch_sort_key srepr v =
     (case as_int v of Some i \<Rightarrow> (0, i, []) | None \<Rightarrow> (1, 0, py_str srepr v))"

definition uncovered_batch_entries ::
  "(pyval \<Rightarrow> string) \<Rightarrow> json_loads \<Rightarrow> text_file \<Rightarrow> int set \<Rightarrow> int set option \<Rightarrow> summary_error + follow_up list" where
  "uncovered_batch_entries srepr loads f ledger verified =
     (case read_doc loads f of
        Some (PDict d) \<Rightarrow>
          (case or_empty (fld d ''batches'') of
             PList bs \<Rightarrow>
               bind_res (uncovered_pairs (restrict_verified verified (batch_ids (or_empty (fld d ''covered'')) \<inter> ledger)) bs)
                 (\<lambda>ps. Inr (map (\<lambda>(i, tier). \<lparr>u_kind = ''uncovered_batch'', u_ref = PStr (py_str srepr i), u_detail = tier\<rparr>)
                         (sort_key (\<lambda>(i, tier). batch_sort_key srepr i) ps)))
           | _ \<Rightarrow> Inr [])
      | _ \<Rightarrow> Inr [])"

definition read_prior_coverage :: "json_loads \<Rightarrow> text_file \<Rightarrow> fields" where
  "read_prior_coverage loads f = (case read_doc loads f of Some (PDict d) \<Rightarrow> d | _ \<Rightarrow> [])"

fun score_num :: "pyval \<Rightarrow> rat option" where
  "score_num (PInt i) = Some (of_int i)"
| "score_num (PBool b) = Some (if b then 1 else 0)"
| "score_num (PFloat (Fin q)) = Some q"
| "score_num (PFloat _) = None"
| "score_num _ = Some 0"

definition risk_row :: "pyval \<Rightarrow> (pyval \<times> pyval) option" where
  "risk_row item =
     (case item of PDict d \<Rightarrow> if truthy (fld d ''file'') then Some (fld d ''file'', fld d ''score'') else None
      | _ \<Rightarrow> None)"

definition risk_key :: "pyval \<times> pyval \<Rightarrow> rat \<times> string" where
  "risk_key r = (- (case score_num (snd r) of None \<Rightarrow> 0 | Some q \<Rightarrow> q), case str_of (fst r) of None \<Rightarrow> [] | Some s \<Rightarrow> s)"

definition high_risk_file_entries :: "(pyval \<Rightarrow> string) \<Rightarrow> fields \<Rightarrow> summary_error + follow_up list" where
  "high_risk_file_entries srepr prior =
     (case or_empty (fld prior ''high_risk_files'') of
        PList items \<Rightarrow>
          let rows = List.map_filter risk_row items
          in if length rows \<ge> 2 \<and> \<not> list_all (\<lambda>r. is_str (fst r) \<and> score_num (snd r) \<noteq> None) rows then Inl Unmodelled
             else Inr (map (\<lambda>(file, score). \<lparr>u_kind = ''high_risk_file'', u_ref = file,
                 u_detail = (if score = PNone then PNone else PStr (py_str srepr score))\<rparr>) (sort_key risk_key rows))
      | _ \<Rightarrow> Inr [])"

definition stale_file_entries :: "fields \<Rightarrow> follow_up list" where
  "stale_file_entries prior =
     (case or_empty (fld prior ''files_audited_stale_catalog'') of
        PList fs \<Rightarrow> map (\<lambda>f. \<lparr>u_kind = ''stale_file'', u_ref = PStr f, u_detail = PNone\<rparr>)
                      (sort (remdups (List.map_filter str_of fs)))
      | _ \<Rightarrow> [])"

definition quarantined_entries :: "(pyval \<Rightarrow> string) \<Rightarrow> fields list \<Rightarrow> follow_up list" where
  "quarantined_entries srepr events =
     map (\<lambda>(bug, file). \<lparr>u_kind = ''quarantined'', u_ref = PStr bug, u_detail = file\<rparr>)
       (sort_key fst
         (map (\<lambda>e. (py_str srepr (fld e ''bug_id''), fld e ''file''))
           (filter (\<lambda>e. fld e ''event'' = PStr ''quarantine'' \<and> truthy (fld e ''bug_id'')) events)))"

definition build_follow_up ::
  "(pyval \<Rightarrow> string) \<Rightarrow> json_loads \<Rightarrow> fields list \<Rightarrow> text_file \<Rightarrow> text_file \<Rightarrow> int set \<Rightarrow> int set option \<Rightarrow>
     summary_error + follow_up list" where
  "build_follow_up srepr loads events recon prior ledger verified =
     bind_res (uncovered_batch_entries srepr loads recon ledger verified) (\<lambda>us.
     bind_res (high_risk_file_entries srepr (read_prior_coverage loads prior)) (\<lambda>rs.
     Inr (take FOLLOW_UP_CAP
       (us @ rs @ stale_file_entries (read_prior_coverage loads prior) @ quarantined_entries srepr events))))"

definition FLAKY_FIELDS :: "string list" where
  "FLAKY_FIELDS = [''test'', ''file'', ''reruns'', ''failures'']"

definition NEAR_MISS_FIELDS :: "string list" where
  "NEAR_MISS_FIELDS = [''bug_id'', ''severity'', ''category'', ''file'', ''line'', ''rationale'', ''confidence'']"

definition build_flaky :: "fields list \<Rightarrow> fields list" where
  "build_flaky events =
     map (\<lambda>e. map (\<lambda>k. (k, fld e k)) FLAKY_FIELDS) (filter (\<lambda>e. fld e ''event'' = PStr ''flaky_test'') events)"

definition near_miss :: "(pyval \<Rightarrow> string) \<Rightarrow> fields \<Rightarrow> fields" where
  "near_miss srepr e =
     map (\<lambda>k. (k, if k = ''line'' \<or> k = ''confidence'' then int_or_none (fld e k)
                   else if k = ''bug_id'' then (case bug_ident srepr e of None \<Rightarrow> PNone | Some b \<Rightarrow> PStr b)
                   else fld e k)) NEAR_MISS_FIELDS"

definition build_near_misses :: "(pyval \<Rightarrow> string) \<Rightarrow> fields list \<Rightarrow> bool \<Rightarrow> fields list" where
  "build_near_misses srepr events recall =
     (if \<not> recall then []
      else map (near_miss srepr) (filter (\<lambda>e. fld e ''event'' = PStr ''near_miss'') events))"

subsection \<open>The summary\<close>

record run_summary =
  s_mode :: "string option"
  s_status :: string
  s_audit_progress :: string
  s_stop_reason :: "stop_reason option"
  s_covered :: nat
  s_total :: nat
  s_tally :: tally
  s_clusters :: "cluster list"
  s_follow_up :: "follow_up list"
  s_flaky :: "fields list"
  s_near_misses :: "fields list"
  s_degraded :: bool

definition audit_progress :: "nat \<Rightarrow> nat \<Rightarrow> string" where
  "audit_progress covered known =
     (if known > 0 \<and> covered \<ge> known then ''complete'' else if covered > 0 then ''partial'' else ''not_started'')"

definition mk_summary ::
  "(pyval \<Rightarrow> string) \<Rightarrow> json_loads \<Rightarrow> fields list \<Rightarrow> text_file \<Rightarrow> bool \<Rightarrow> string option \<Rightarrow> bool \<Rightarrow>
     int set option \<Rightarrow> tally \<Rightarrow> cluster list \<Rightarrow> follow_up list \<Rightarrow> run_summary" where
  "mk_summary srepr loads events recon report_is_stub mode recall verified tally clusters follow =
     (let cov = read_recon_coverage loads recon (ledger_covered_ids events) verified;
          st = derive_status report_is_stub (fst cov)
      in \<lparr>s_mode = mode, s_status = fst st, s_audit_progress = audit_progress (fst cov) (snd cov),
          s_stop_reason = snd st, s_covered = fst cov, s_total = snd cov, s_tally = tally,
          s_clusters = clusters, s_follow_up = follow, s_flaky = build_flaky events,
          s_near_misses = build_near_misses srepr events recall, s_degraded = False\<rparr>)"

definition reduce_run ::
  "(pyval \<Rightarrow> string) \<Rightarrow> json_loads \<Rightarrow> text_file \<Rightarrow> text_file \<Rightarrow> bool \<Rightarrow> string option \<Rightarrow> text_file \<Rightarrow> bool \<Rightarrow>
     int set option \<Rightarrow> summary_error + run_summary" where
  "reduce_run srepr loads ledger recon report_is_stub mode prior recall verified =
     bind_res (iter_ledger_events loads ledger) (\<lambda>events.
     bind_res (reduce_events srepr events empty_tally events) (\<lambda>tally.
     bind_res (build_root_cause_clusters srepr events) (\<lambda>clusters.
     bind_res (build_follow_up srepr loads events recon prior (ledger_covered_ids events) verified) (\<lambda>follow.
     Inr (mk_summary srepr loads events recon report_is_stub mode recall verified tally clusters follow)))))"

definition reduce_run_degraded :: "nat \<Rightarrow> nat \<Rightarrow> bool \<Rightarrow> string option \<Rightarrow> run_summary" where
  "reduce_run_degraded covered known report_is_stub mode =
     (let (status, reason) = derive_status report_is_stub covered
      in \<lparr>s_mode = mode, s_status = status, s_audit_progress = audit_progress covered known,
          s_stop_reason = reason, s_covered = covered, s_total = known, s_tally = empty_tally,
          s_clusters = [], s_follow_up = [], s_flaky = [], s_near_misses = [], s_degraded = True\<rparr>)"

subsection \<open>Coverage\<close>

lemma restrict_verified_subset: "restrict_verified v ids \<subseteq> ids"
  by (auto simp: restrict_verified_def split: option.splits)

lemma finite_batch_sets [simp]: "finite (recon_batch_ids v)"
  by (cases v) (simp_all add: recon_batch_ids_def)

lemma covered_batches_subset: "covered_batches d ledger v \<subseteq> recon_batch_ids (or_empty (fld d ''batches''))"
  unfolding covered_batches_def using restrict_verified_subset by fastforce

lemma recon_coverage_le: "read_recon_coverage loads f ledger v = (c, n) \<Longrightarrow> c \<le> n"
  by (auto simp: read_recon_coverage_def intro!: card_mono covered_batches_subset
      split: option.splits pyval.splits)

lemma recon_coverage_full:
  assumes "read_recon_coverage loads f ledger v = (c, n)" and "0 < n" and "n \<le> c"
  obtains d where "read_doc loads f = Some (PDict d)"
    "covered_batches d ledger v = recon_batch_ids (or_empty (fld d ''batches''))"
    "n = card (recon_batch_ids (or_empty (fld d ''batches'')))"
proof -
  from assms obtain d where d: "read_doc loads f = Some (PDict d)" "c = card (covered_batches d ledger v)"
      "n = card (recon_batch_ids (or_empty (fld d ''batches'')))"
    by (auto simp: read_recon_coverage_def split: option.splits pyval.splits)
  have "covered_batches d ledger v = recon_batch_ids (or_empty (fld d ''batches''))"
    using d assms(3) by (intro card_seteq covered_batches_subset) simp_all
  with d that show thesis by blast
qed

lemma reduce_run_Inr:
  assumes "reduce_run srepr loads ledger recon stub mode prior recall verified = Inr s"
  obtains events covered known where "iter_ledger_events loads ledger = Inr events"
    "reduce_events srepr events empty_tally events = Inr (s_tally s)"
    "build_root_cause_clusters srepr events = Inr (s_clusters s)"
    "build_follow_up srepr loads events recon prior (ledger_covered_ids events) verified = Inr (s_follow_up s)"
    "read_recon_coverage loads recon (ledger_covered_ids events) verified = (s_covered s, s_total s)"
    "derive_status stub (s_covered s) = (s_status s, s_stop_reason s)"
    "s_audit_progress s = audit_progress (s_covered s) (s_total s)"
    "s_near_misses s = build_near_misses srepr events recall"
proof -
  obtain events tally clusters follow where parts: "iter_ledger_events loads ledger = Inr events"
      "reduce_events srepr events empty_tally events = Inr tally"
      "build_root_cause_clusters srepr events = Inr clusters"
      "build_follow_up srepr loads events recon prior (ledger_covered_ids events) verified = Inr follow"
      "Inr (mk_summary srepr loads events recon stub mode recall verified tally clusters follow) = (Inr s :: summary_error + run_summary)"
    using assms unfolding reduce_run_def bind_res_Inr_iff by blast
  from parts(5) have s: "s = mk_summary srepr loads events recon stub mode recall verified tally clusters follow"
    by simp
  show thesis
    by (rule that [of events]) (simp_all add: parts s mk_summary_def Let_def)
qed

subsection \<open>Findings\<close>

definition event_is :: "string \<Rightarrow> fields \<Rightarrow> bool" where
  "event_is name e \<longleftrightarrow> fld e ''event'' = PStr name"

definition is_finding :: "fields \<Rightarrow> bool" where
  "is_finding e \<longleftrightarrow> event_is ''fix_committed'' e \<or> event_is ''quarantine'' e \<or> event_is ''confirmed'' e"

definition bugs_named :: "(pyval \<Rightarrow> string) \<Rightarrow> string \<Rightarrow> fields list \<Rightarrow> string list" where
  "bugs_named srepr name events =
     filter (\<lambda>b. b \<noteq> []) (List.map_filter (bug_ident srepr) (filter (event_is name) events))"

lemma finding_event_None: "finding_event e = Inr None \<longleftrightarrow> hashable (fld e ''event'') \<and> \<not> is_finding e"
  by (cases "fld e ''event''") (auto simp: finding_event_def is_finding_def event_is_def FINDING_EVENTS_def)

lemma finding_event_Some:
  "finding_event e = Inr (Some (name, fixed)) \<longleftrightarrow>
     event_is name e \<and> is_finding e \<and> fixed = (name = ''fix_committed'')"
  by (cases "fld e ''event''") (auto simp: finding_event_def is_finding_def event_is_def FINDING_EVENTS_def)

lemma attach_votes_same:
  "attach_votes srepr events f = Inr f' \<Longrightarrow> f_bug_id f' = f_bug_id f \<and> f_severity f' = f_severity f \<and>
     f_category f' = f_category f \<and> f_file f' = f_file f \<and> f_fixed f' = f_fixed f \<and> f_repro f' = f_repro f"
  by (auto simp: attach_votes_def split: option.splits if_splits)

lemma reduce_event_skip: "finding_event e = Inr None \<Longrightarrow> reduce_event srepr events t e = Inr t"
  by (simp add: reduce_event_def)

lemma reduce_event_finding:
  assumes "reduce_event srepr events t e = Inr t'" and "is_finding e"
  obtains f name where "event_is name e" "t' = \<lparr>t_findings = t_findings t @ [f],
      t_fixed = list_bug ''fix_committed'' (f_bug_id f) name (t_fixed t),
      t_quarantined = list_bug ''quarantine'' (f_bug_id f) name (t_quarantined t),
      t_confirmed = list_bug ''confirmed'' (f_bug_id f) name (t_confirmed t),
      t_counts = count_finding f (t_counts t)\<rparr>"
    "attach_votes srepr events ((finding_from_event srepr e (name = ''fix_committed''))
        \<lparr>f_repro := repro_for_bug srepr events (bug_ident srepr e)\<rparr>) = Inr f"
proof -
  obtain m where m: "finding_event e = Inr m"
    using assms(1) by (cases "finding_event e") (auto simp: reduce_event_def)
  obtain name fixed where nf: "m = Some (name, fixed)"
    using m assms(2) finding_event_None [of e] by (cases m) auto
  then have "event_is name e" "fixed = (name = ''fix_committed'')"
    using m finding_event_Some [of e name fixed] by simp_all
  with assms(1) m nf that show thesis
    by (auto simp: reduce_event_def Let_def bind_res_Inr_iff)
qed

text \<open>The state of the loop after a prefix of the events.\<close>

definition tally_ok :: "(pyval \<Rightarrow> string) \<Rightarrow> fields list \<Rightarrow> fields list \<Rightarrow> tally \<Rightarrow> bool" where
  "tally_ok srepr events es t \<longleftrightarrow>
     t_fixed t = bugs_named srepr ''fix_committed'' es \<and>
     t_quarantined t = bugs_named srepr ''quarantine'' es \<and>
     t_confirmed t = bugs_named srepr ''confirmed'' es \<and>
     map f_bug_id (t_findings t) = map (bug_ident srepr) (filter is_finding es) \<and>
     t_counts t = foldl (\<lambda>c f. count_finding f c) empty_counts (t_findings t)"

lemma tally_ok_empty: "tally_ok srepr events [] empty_tally"
  by (simp add: tally_ok_def empty_tally_def bugs_named_def List.map_filter_simps)

lemma map_filter_append: "List.map_filter f (xs @ ys) = List.map_filter f xs @ List.map_filter f ys"
  by (simp add: List.map_filter_def)

lemma bugs_named_snoc:
  "bugs_named srepr name (es @ [e]) =
     (if event_is name e then list_bug name (bug_ident srepr e) name (bugs_named srepr name es)
      else bugs_named srepr name es)"
  by (auto simp: bugs_named_def list_bug_def map_filter_append List.map_filter_simps split: option.splits)

lemma event_is_unique: "event_is a e \<Longrightarrow> event_is b e \<longleftrightarrow> a = b"
  by (auto simp: event_is_def)

lemma tally_ok_step:
  assumes "reduce_event srepr events t e = Inr t'" and "tally_ok srepr events es t"
  shows "tally_ok srepr events (es @ [e]) t'"
proof (cases "is_finding e")
  case False
  moreover have "hashable (fld e ''event'')"
    using assms(1) by (auto simp: reduce_event_def bind_res_Inr_iff finding_event_def split: if_splits)
  ultimately have "t' = t" using assms(1) reduce_event_skip [of e] finding_event_None [of e] by auto
  with False assms(2) show ?thesis by (simp add: tally_ok_def bugs_named_snoc is_finding_def)
next
  case True
  with assms(1) show ?thesis
  proof (rule reduce_event_finding)
    fix f name
    assume nm: "event_is name e" and t': "t' = \<lparr>t_findings = t_findings t @ [f],
        t_fixed = list_bug ''fix_committed'' (f_bug_id f) name (t_fixed t),
        t_quarantined = list_bug ''quarantine'' (f_bug_id f) name (t_quarantined t),
        t_confirmed = list_bug ''confirmed'' (f_bug_id f) name (t_confirmed t),
        t_counts = count_finding f (t_counts t)\<rparr>"
      and at: "attach_votes srepr events ((finding_from_event srepr e (name = ''fix_committed''))
        \<lparr>f_repro := repro_for_bug srepr events (bug_ident srepr e)\<rparr>) = Inr f"
    have id: "f_bug_id f = bug_ident srepr e"
      using attach_votes_same [OF at] by (simp add: finding_from_event_def)
    show ?thesis
      using assms(2) True unfolding tally_ok_def t' id bugs_named_snoc event_is_unique [OF nm]
      by (auto simp: id list_bug_def split: option.splits)
  qed
qed

lemma tally_ok_events:
  "reduce_events srepr events t es = Inr t' \<Longrightarrow> tally_ok srepr events ds t \<Longrightarrow> tally_ok srepr events (ds @ es) t'"
proof (induction es arbitrary: t ds)
  case (Cons e es)
  then obtain t1 where "reduce_event srepr events t e = Inr t1" "reduce_events srepr events t1 es = Inr t'"
    by (auto simp: bind_res_Inr_iff)
  then show ?case using Cons.IH [of t1 "ds @ [e]"] tally_ok_step Cons.prems(2) by simp
qed simp

lemma tally_ok_run:
  "reduce_run srepr loads ledger recon stub mode prior recall verified = Inr s \<Longrightarrow>
     \<exists>events. iter_ledger_events loads ledger = Inr events \<and> tally_ok srepr events events (s_tally s)"
  by (erule reduce_run_Inr) (use tally_ok_events [OF _ tally_ok_empty] in fastforce)

text \<open>Votes.\<close>

definition votes_exact :: "(pyval \<Rightarrow> string) \<Rightarrow> fields list \<Rightarrow> finding \<Rightarrow> bool" where
  "votes_exact srepr events f \<longleftrightarrow>
     f_votes f =
       (case f_bug_id f of
          None \<Rightarrow> None
        | Some bug \<Rightarrow>
            let vs = map (\<lambda>e. fld e ''verdict'')
              (filter (\<lambda>e. event_is ''referee_vote'' e \<and> bug_ident srepr e = Some bug) events)
            in if bug \<noteq> [] \<and> f_severity f \<in> {PStr ''high'', PStr ''critical''} \<and> vs \<noteq> []
               then Some \<lparr>vs_confirmed = count_list vs (PStr ''CONFIRMED''), vs_total = length vs,
                          vs_eligible = (length vs < 2 * count_list vs (PStr ''CONFIRMED''))\<rparr>
               else None)"

lemma count_list_filter: "count_list xs y = length (filter (\<lambda>x. x = y) xs)"
  by (induction xs) auto

lemma vote_eligible_iff: "vote_eligible f \<longleftrightarrow> f_severity f \<in> {PStr ''high'', PStr ''critical''}"
  by (cases "f_severity f") (auto simp: vote_eligible_def VOTE_ELIGIBLE_SEVERITIES_def)

lemma attach_votes_exact:
  "attach_votes srepr events f = Inr f' \<Longrightarrow> f_votes f = None \<Longrightarrow> votes_exact srepr events f'"
  by (auto simp: attach_votes_def votes_exact_def vote_eligible_iff votes_for_bug_def majority_gate_def
      event_is_def count_list_filter Let_def mult.commute split: option.splits if_splits)

lemma reduce_event_votes:
  assumes "reduce_event srepr events t e = Inr t'" and "list_all (votes_exact srepr events) (t_findings t)"
  shows "list_all (votes_exact srepr events) (t_findings t')"
proof (cases "is_finding e")
  case True
  with assms(1) show ?thesis
    by (rule reduce_event_finding)
       (use assms(2) attach_votes_exact in \<open>auto simp: finding_from_event_def\<close>)
next
  case False
  have "hashable (fld e ''event'')"
    using assms(1) by (auto simp: reduce_event_def bind_res_Inr_iff finding_event_def split: if_splits)
  with False assms show ?thesis using reduce_event_skip [of e] finding_event_None [of e] by auto
qed

lemma reduce_events_votes:
  "reduce_events srepr events t es = Inr t' \<Longrightarrow> list_all (votes_exact srepr events) (t_findings t) \<Longrightarrow>
     list_all (votes_exact srepr events) (t_findings t')"
  by (induction es arbitrary: t) (auto simp: bind_res_Inr_iff dest: reduce_event_votes)

subsection \<open>Totality\<close>

definition plain :: "pyval \<Rightarrow> bool" where
  "plain v \<longleftrightarrow> v = PNone \<or> is_str v"

definition plain_event :: "fields \<Rightarrow> bool" where
  "plain_event e \<longleftrightarrow> plain (fld e ''event'') \<and> plain (fld e ''severity'') \<and> plain (fld e ''file'')"

lemma plain_hashable: "plain v \<Longrightarrow> hashable v"
  by (cases v) (auto simp: plain_def)

lemma reduce_event_total: "plain_event e \<Longrightarrow> \<exists>t'. reduce_event srepr events t e = Inr t'"
  by (auto simp: plain_event_def plain_hashable reduce_event_def finding_event_def attach_votes_def
      finding_from_event_def Let_def split: option.splits)

lemma reduce_events_total: "list_all plain_event es \<Longrightarrow> \<exists>t'. reduce_events srepr events t es = Inr t'"
proof (induction es arbitrary: t)
  case (Cons e es)
  then obtain t1 where "reduce_event srepr events t e = Inr t1" using reduce_event_total by fastforce
  then show ?case using Cons by simp
qed simp

subsection \<open>What the clusters are\<close>

definition keyed :: "string \<Rightarrow> fields list \<Rightarrow> fields list" where
  "keyed k ms = filter (\<lambda>m. cluster_key m = Some k) ms"

lemma map_of_add_group:
  "map_of (add_group k x g) k' =
     (if k' = k then Some ((case map_of g k of None \<Rightarrow> [] | Some xs \<Rightarrow> xs) @ [x]) else map_of g k')"
  by (simp add: add_group_def)

lemma distinct_add_group: "distinct (map fst g) \<Longrightarrow> distinct (map fst (add_group k x g))"
  by (simp add: add_group_def distinct_update)

lemma group_keyed_spec:
  "distinct (map fst (group_keyed ms)) \<and>
   (\<forall>k. map_of (group_keyed ms) k = (if keyed k ms = [] then None else Some (keyed k ms)))"
proof (induction ms rule: rev_induct)
  case (snoc m ms)
  then show ?case
    by (cases "cluster_key m")
       (auto simp: group_keyed_def keyed_def map_of_add_group distinct_add_group)
qed (simp add: group_keyed_def keyed_def)

lemma group_keyed_mem: "(k, xs) \<in> set (group_keyed ms) \<longleftrightarrow> xs = keyed k ms \<and> xs \<noteq> []"
  using group_keyed_spec [of ms] map_of_eq_Some_iff [of "group_keyed ms" k xs] by (auto split: if_splits)

lemma cluster_of_name: "cluster_of srepr k ms = Inr c \<Longrightarrow> c_name c = k"
  by (auto simp: cluster_of_def Let_def bind_res_Inr_iff)

abbreviation cluster_rank :: "cluster \<Rightarrow> int \<times> string" where
  "cluster_rank c \<equiv> (- int (c_size c), c_name c)"

lemma build_clusters_spec:
  assumes "build_clusters srepr (group_keyed ms) = Inr cs"
  shows "set cs = {c. \<exists>k. MIN_CLUSTER_SIZE \<le> length (keyed k ms) \<and> cluster_of srepr k (keyed k ms) = Inr c}"
    and "sorted (map cluster_rank cs)" and "distinct (map c_name cs)"
proof -
  obtain ds where ds: "map_res (\<lambda>(k, ms). cluster_of srepr k ms)
      (filter (\<lambda>(k, ms). length ms \<ge> MIN_CLUSTER_SIZE) (group_keyed ms)) = Inr ds"
    and cs: "cs = sort_key cluster_rank ds"
    using assms by (auto simp: build_clusters_def bind_res_Inr_iff)
  show "set cs = {c. \<exists>k. MIN_CLUSTER_SIZE \<le> length (keyed k ms) \<and> cluster_of srepr k (keyed k ms) = Inr c}"
    unfolding cs set_sort map_res_set [OF ds] by (auto simp: group_keyed_mem MIN_CLUSTER_SIZE_def) force
  show "sorted (map cluster_rank cs)" by (simp add: cs)
  have "map c_name ds = map fst (filter (\<lambda>(k, ms). length ms \<ge> MIN_CLUSTER_SIZE) (group_keyed ms))"
    by (rule map_res_map [OF ds]) (auto dest: cluster_of_name)
  moreover have "distinct (map fst (filter (\<lambda>(k, ms). length ms \<ge> MIN_CLUSTER_SIZE) (group_keyed ms)))"
    using group_keyed_spec [of ms] by (simp add: distinct_map_filter)
  ultimately have "distinct (map c_name ds)" by simp
  moreover have "mset (map c_name cs) = mset (map c_name ds)" by (simp add: cs)
  ultimately show "distinct (map c_name cs)" using mset_eq_imp_distinct_iff by blast
qed

lemma sorted_str_set_cong:
  assumes "set vs = set vs'"
  shows "sorted_str_set vs = sorted_str_set vs'"
proof -
  have "sort (remdups (List.map_filter str_of vs)) = sort (remdups (List.map_filter str_of vs'))"
    by (rule sort_remdups_eq) (simp add: set_map_filter assms)
  then show ?thesis by (simp add: sorted_str_set_def list_all_iff assms)
qed

lemma cluster_of_mset:
  assumes "mset ms = mset ms'"
  shows "cluster_of srepr k ms = cluster_of srepr k ms'"
proof -
  have len: "length ms = length ms'" using assms by (rule mset_eq_length)
  have ids: "sort (map (\<lambda>m. py_str srepr (fld m ''bug_id'')) (filter (\<lambda>m. truthy (fld m ''bug_id'')) ms)) =
      sort (map (\<lambda>m. py_str srepr (fld m ''bug_id'')) (filter (\<lambda>m. truthy (fld m ''bug_id'')) ms'))"
    using assms by (intro properties_for_sort) simp_all
  have "set ms = set ms'" using assms by (rule mset_eq_setD)
  then have sets: "set (filter truthy (map (\<lambda>m. fld m ''file'') ms)) = set (filter truthy (map (\<lambda>m. fld m ''file'') ms'))"
    by auto
  have "sorted_str_set (filter truthy (map (\<lambda>m. fld m ''file'') ms)) =
      sorted_str_set (filter truthy (map (\<lambda>m. fld m ''file'') ms'))"
    by (rule sorted_str_set_cong [OF sets])
  with len ids show ?thesis by (simp add: cluster_of_def)
qed

lemma clusters_order_free:
  assumes "mset ms = mset ms'" and "build_clusters srepr (group_keyed ms) = Inr cs"
  shows "build_clusters srepr (group_keyed ms') = Inr cs"
proof -
  have keyed: "mset (keyed k ms) = mset (keyed k ms')" for k
    using assms(1) by (simp add: keyed_def)
  have same: "cluster_of srepr k (keyed k ms) = cluster_of srepr k (keyed k ms')"
    and len: "length (keyed k ms) = length (keyed k ms')" for k
    using cluster_of_mset [OF keyed] mset_eq_length [OF keyed] by blast+
  obtain ds where "map_res (\<lambda>(k, ms). cluster_of srepr k ms)
      (filter (\<lambda>(k, ms). length ms \<ge> MIN_CLUSTER_SIZE) (group_keyed ms)) = Inr ds"
    using assms(2) by (auto simp: build_clusters_def bind_res_Inr_iff)
  then have ok: "MIN_CLUSTER_SIZE \<le> length (keyed k ms) \<Longrightarrow> \<exists>c. cluster_of srepr k (keyed k ms) = Inr c" for k
    unfolding map_res_Inr list_all2_conv_all_nth
    by (metis (no_types, lifting) case_prod_conv group_keyed_mem in_set_conv_nth length_0_conv mem_Collect_eq
        MIN_CLUSTER_SIZE_def not_numeral_le_zero set_filter)
  have "\<exists>ds'. map_res (\<lambda>(k, ms). cluster_of srepr k ms)
      (filter (\<lambda>(k, ms). length ms \<ge> MIN_CLUSTER_SIZE) (group_keyed ms')) = Inr ds'"
    by (rule map_res_total) (use ok same len in \<open>auto simp: group_keyed_mem\<close>)
  then obtain cs' where cs': "build_clusters srepr (group_keyed ms') = Inr cs'"
    by (auto simp: build_clusters_def bind_res_Inr_iff)
  note one = build_clusters_spec [OF assms(2)] and two = build_clusters_spec [OF cs']
  have sets: "set cs = set cs'" unfolding one(1) two(1) by (simp add: same len)
  have dist: "distinct (map cluster_rank cs)" "distinct (map cluster_rank cs')"
    using one(3) two(3) by (auto simp: distinct_map inj_on_def)
  have "cs = cs'"
    by (rule map_sorted_distinct_set_unique [where f = cluster_rank])
       (use one two sets dist in \<open>auto simp: distinct_map\<close>)
  with cs' show ?thesis by simp
qed

subsection \<open>When the reduction returns\<close>

definition plain_recon :: "json_loads \<Rightarrow> text_file \<Rightarrow> bool" where
  "plain_recon loads f \<longleftrightarrow>
     (case read_doc loads f of
        Some (PDict d) \<Rightarrow> (case or_empty (fld d ''batches'') of
            PList bs \<Rightarrow> list_all (\<lambda>b. case b of PDict e \<Rightarrow> hashable (fld e ''id'') | _ \<Rightarrow> True) bs
          | _ \<Rightarrow> True)
      | _ \<Rightarrow> True)"

definition plain_prior :: "json_loads \<Rightarrow> text_file \<Rightarrow> bool" where
  "plain_prior loads f \<longleftrightarrow>
     (case or_empty (fld (read_prior_coverage loads f) ''high_risk_files'') of
        PList items \<Rightarrow> list_all (\<lambda>r. is_str (fst r) \<and> score_num (snd r) \<noteq> None) (List.map_filter risk_row items)
      | _ \<Rightarrow> True)"

lemma uncovered_pairs_total:
  "list_all (\<lambda>b. case b of PDict e \<Rightarrow> hashable (fld e ''id'') | _ \<Rightarrow> True) bs \<Longrightarrow> \<exists>ps. uncovered_pairs ids bs = Inr ps"
  by (induction bs) (auto split: pyval.splits)

lemma bind_total: "\<exists>x. m = Inr x \<Longrightarrow> (\<And>x. \<exists>y. f x = Inr y) \<Longrightarrow> \<exists>y. bind_res m f = Inr y"
  by auto

lemma is_str_hashable: "is_str v \<Longrightarrow> hashable v"
  by (cases v) auto

lemma uncovered_batch_entries_total: "plain_recon loads f \<Longrightarrow> \<exists>us. uncovered_batch_entries srepr loads f l v = Inr us"
  unfolding plain_recon_def uncovered_batch_entries_def
  by (auto split: option.splits pyval.splits intro!: bind_total uncovered_pairs_total)

lemma high_risk_total: "plain_prior loads f \<Longrightarrow> \<exists>rs. high_risk_file_entries srepr (read_prior_coverage loads f) = Inr rs"
  unfolding plain_prior_def high_risk_file_entries_def by (auto simp: Let_def split: pyval.splits)

lemma build_follow_up_total:
  "plain_recon loads recon \<Longrightarrow> plain_prior loads prior \<Longrightarrow> \<exists>u. build_follow_up srepr loads events recon prior l v = Inr u"
  using uncovered_batch_entries_total [of loads recon srepr l v] high_risk_total [of loads prior srepr]
  by (auto simp: build_follow_up_def)

lemma cluster_of_total: "list_all plain_event ms \<Longrightarrow> \<exists>c. cluster_of srepr k ms = Inr c"
  by (auto simp: cluster_of_def Let_def sorted_str_set_def list_all_iff plain_event_def plain_def dest: is_str_hashable)

lemma clusters_total: "list_all plain_event events \<Longrightarrow> \<exists>cs. build_root_cause_clusters srepr events = Inr cs"
proof -
  assume plain: "list_all plain_event events"
  have "\<exists>ms. map_res finding_event events = Inr ms"
    using plain by (intro map_res_total) (auto simp: list_all_iff plain_event_def plain_hashable finding_event_def)
  then obtain ms where ms: "map_res finding_event events = Inr ms" ..
  let ?fs = "map snd (filter (\<lambda>(m, e). m \<noteq> None) (zip ms events))"
  have "\<exists>ds. map_res (\<lambda>(k, ms). cluster_of srepr k ms)
      (filter (\<lambda>(k, ms). length ms \<ge> MIN_CLUSTER_SIZE) (group_keyed ?fs)) = Inr ds"
  proof (rule map_res_total)
    fix x assume "x \<in> set (filter (\<lambda>(k, ms). length ms \<ge> MIN_CLUSTER_SIZE) (group_keyed ?fs))"
    then have "x \<in> set (group_keyed ?fs)" by (simp only: set_filter mem_Collect_eq)
    then have "snd x = keyed (fst x) ?fs"
      using group_keyed_mem [of "fst x" "snd x" ?fs] by (simp del: not_None_eq)
    then obtain k where x: "x = (k, keyed k ?fs)" by (metis prod.collapse)
    have "list_all plain_event (keyed k ?fs)" using plain by (auto simp: list_all_iff keyed_def dest: set_zip_rightD)
    then show "\<exists>y. (case x of (k, ms) \<Rightarrow> cluster_of srepr k ms) = Inr y"
      using cluster_of_total by (simp add: x)
  qed
  then show ?thesis by (auto simp: build_root_cause_clusters_def build_clusters_def ms)
qed

subsection \<open>Properties\<close>

lemma map_sum_bind: "map_sum id g (bind_res m f) = bind_res m (\<lambda>x. map_sum id g (f x))"
  by (cases m) simp_all

text \<open>
  The recall mode is reporting only: with it the reduction raises exactly when it raises without
  it, and the two summaries differ in the near misses alone.
\<close>

theorem recall_changes_near_misses_only:
  "map_sum id (\<lambda>s. s\<lparr>s_near_misses := []\<rparr>)
      (reduce_run srepr loads ledger recon stub mode prior True verified) =
    reduce_run srepr loads ledger recon stub mode prior False verified"
  by (simp add: reduce_run_def map_sum_bind mk_summary_def build_near_misses_def Let_def)

text \<open>
  C27: A complete audit needs both surfaces: when the summary says so, the recon file has batches and
  the id of every one of them is in its \<^verbatim>\<open>covered\<close> list, in a \<^verbatim>\<open>batch_covered\<close> ledger event, and among
  the verified ids when those are given; the covered number is then the number of batches.
\<close>

theorem complete_audit_needs_both_surfaces:
  assumes "reduce_run srepr loads ledger recon stub mode prior recall verified = Inr s"
    and "s_audit_progress s = ''complete''"
  shows "\<exists>events d. iter_ledger_events loads ledger = Inr events \<and> read_doc loads recon = Some (PDict d) \<and>
    recon_batch_ids (or_empty (fld d ''batches'')) \<noteq> {} \<and>
    recon_batch_ids (or_empty (fld d ''batches'')) \<subseteq> batch_ids (or_empty (fld d ''covered'')) \<inter> ledger_covered_ids events \<and>
    (\<forall>v. verified = Some v \<longrightarrow> recon_batch_ids (or_empty (fld d ''batches'')) \<subseteq> v) \<and>
    s_covered s = s_total s"
  using assms(1)
proof (rule reduce_run_Inr)
  fix events
  assume it: "iter_ledger_events loads ledger = Inr events"
    and cov: "read_recon_coverage loads recon (ledger_covered_ids events) verified = (s_covered s, s_total s)"
    and pr: "s_audit_progress s = audit_progress (s_covered s) (s_total s)"
  have "0 < s_total s \<and> s_total s \<le> s_covered s"
    using assms(2) pr by (auto simp: audit_progress_def split: if_splits)
  with recon_coverage_full [OF cov] obtain d where d: "read_doc loads recon = Some (PDict d)"
      "covered_batches d (ledger_covered_ids events) verified = recon_batch_ids (or_empty (fld d ''batches''))"
      "s_total s = card (recon_batch_ids (or_empty (fld d ''batches'')))" "0 < s_total s" "s_total s \<le> s_covered s"
    by blast
  then show ?thesis
    using it recon_coverage_le [OF cov]
    by (intro exI [of _ events] exI [of _ d])
       (auto simp: covered_batches_def restrict_verified_def card_gt_0_iff split: option.splits)
qed

text \<open>
  The bug lists and counts come from the three finding events alone: each list holds, in ledger
  order, the ids of exactly its own event, there is one finding per finding event, and the counts are
  those of the findings; no other event (votes, near misses, repro statuses) contributes.
\<close>

theorem tally_is_the_finding_events:
  assumes "reduce_run srepr loads ledger recon stub mode prior recall verified = Inr s"
  shows "\<exists>events. iter_ledger_events loads ledger = Inr events \<and>
    t_fixed (s_tally s) = bugs_named srepr ''fix_committed'' events \<and>
    t_quarantined (s_tally s) = bugs_named srepr ''quarantine'' events \<and>
    t_confirmed (s_tally s) = bugs_named srepr ''confirmed'' events \<and>
    map f_bug_id (t_findings (s_tally s)) = map (bug_ident srepr) (filter is_finding events) \<and>
    t_counts (s_tally s) = foldl (\<lambda>c f. count_finding f c) empty_counts (t_findings (s_tally s)) \<and>
    list_all (votes_exact srepr events) (t_findings (s_tally s))"
  using assms
proof (rule reduce_run_Inr)
  fix events
  assume it: "iter_ledger_events loads ledger = Inr events"
    and run: "reduce_events srepr events empty_tally events = Inr (s_tally s)"
  have "list_all (votes_exact srepr events) (t_findings (s_tally s))"
    by (rule reduce_events_votes [OF run]) (simp add: empty_tally_def)
  then show ?thesis
    using tally_ok_events [OF run tally_ok_empty] it by (auto simp: tally_ok_def)
qed

text \<open>
  The reduction returns on every input whose events, batch ids and risk rows hold plain values,
  whatever else is missing or malformed.
\<close>

theorem reduce_run_returns:
  assumes "iter_ledger_events loads ledger = Inr events" and "list_all plain_event events"
    and "plain_recon loads recon" and "plain_prior loads prior"
  shows "\<exists>s. reduce_run srepr loads ledger recon stub mode prior recall verified = Inr s"
  using reduce_events_total [OF assms(2), of srepr events empty_tally] clusters_total [OF assms(2), of srepr]
    build_follow_up_total [OF assms(3,4), of srepr events "ledger_covered_ids events" verified] assms(1)
  by (auto simp: reduce_run_def)

text \<open>
  It does not always return: a ledger line whose event is a JSON list or object, or a ledger that
  is not UTF-8, makes it raise, although its documentation says it never does.
\<close>

theorem reduce_run_raises:
  assumes "iter_ledger_events loads ledger = Inr (e # es)" and "\<not> hashable (fld e ''event'')"
  shows "reduce_run srepr loads ledger recon stub mode prior recall verified = Inl Unhashable \<and>
    reduce_run srepr loads Undecodable_Text recon stub mode prior recall verified = Inl Not_Utf8"
  using assms by (simp add: reduce_run_def reduce_event_def finding_event_def iter_ledger_events_def)

subsection \<open>Witnesses\<close>

definition demo_loads :: json_loads where
  "demo_loads s =
     (if s = ''a'' then Some (PDict [(''event'', PStr ''batch_covered''), (''batch'', PInt 1)])
      else if s = ''b'' then Some (PDict [(''event'', PStr ''fix_committed''), (''bug_id'', PStr ''B1'')])
      else if s = ''c'' then Some (PDict [(''event'', PList [])])
      else if s = ''r'' then Some (PDict [(''batches'', PList [PDict [(''id'', PInt 1)]]), (''covered'', PList [PInt 1])])
      else None)"

definition demo_repr :: "pyval \<Rightarrow> string" where "demo_repr v = []"

definition demo_run :: "summary_error + run_summary" where
  "demo_run = reduce_run demo_repr demo_loads (Text (''a'' @ [CHR 0x0A] @ ''b'')) (Text ''r'') False None Missing False None"

definition demo_summary :: run_summary where
  "demo_summary = (case demo_run of Inr s \<Rightarrow> s | Inl e \<Rightarrow> reduce_run_degraded 0 0 True None)"

lemma demo_run_Inr: "demo_run = Inr demo_summary"
  by code_simp

lemma complete_audit_needs_both_surfaces_witness: "s_covered demo_summary = s_total demo_summary"
proof -
  have "s_audit_progress demo_summary = ''complete''" by code_simp
  then show ?thesis
    using complete_audit_needs_both_surfaces [OF demo_run_Inr [unfolded demo_run_def]] by blast
qed

lemma tally_is_the_finding_events_witness:
  "\<exists>events. t_fixed (s_tally demo_summary) = bugs_named demo_repr ''fix_committed'' events"
  using tally_is_the_finding_events [OF demo_run_Inr [unfolded demo_run_def]] by blast

lemma reduce_run_returns_witness:
  "\<exists>s. reduce_run demo_repr demo_loads (Text ''b'') (Text ''r'') True None Missing True None = Inr s"
proof (rule reduce_run_returns)
  show "iter_ledger_events demo_loads (Text ''b'') =
      Inr [[(''event'', PStr ''fix_committed''), (''bug_id'', PStr ''B1'')]]" by code_simp
  show "list_all plain_event [[(''event'', PStr ''fix_committed''), (''bug_id'', PStr ''B1'')]]" by code_simp
  show "plain_recon demo_loads (Text ''r'')" by code_simp
  show "plain_prior demo_loads Missing" by code_simp
qed

lemma reduce_run_raises_witness:
  "reduce_run demo_repr demo_loads (Text ''c'') Missing True None Missing False None = Inl Unhashable"
proof -
  have "iter_ledger_events demo_loads (Text ''c'') = Inr [[(''event'', PList [])]]" by code_simp
  moreover have "\<not> hashable (dict_get [(''event'', PList [])] ''event'' PNone)" by simp
  ultimately show ?thesis using reduce_run_raises by blast
qed

end
