(* ===== verification/Session_Summary.thy ===== *)
theory Session_Summary
  imports Run_Summary
begin

text \<open>
  \<^verbatim>\<open>bench/scorer/session_summary.py\<close>: the merge of many run summaries (decoded dictionaries) into
  one session view.
\<close>

definition TOTAL_KEYS :: "string list" where
  "TOTAL_KEYS = [''critical'', ''high'', ''medium'', ''low'', ''architectural'']"

definition summary_count :: "fields \<Rightarrow> string \<Rightarrow> int" where
  "summary_count s k =
     (case fld s ''counts'' of
        PDict c \<Rightarrow> (case as_int (fld c k) of None \<Rightarrow> 0 | Some n \<Rightarrow> n)
      | _ \<Rightarrow> 0)"

type_synonym totals = "(string \<times> int) list"

definition empty_totals :: totals where
  "empty_totals = map (\<lambda>k. (k, 0)) TOTAL_KEYS"

definition add_summary :: "totals \<Rightarrow> fields \<Rightarrow> totals" where
  "add_summary t s = map (\<lambda>(k, n). (k, n + summary_count s k)) t"

definition merge_totals :: "fields list \<Rightarrow> totals" where
  "merge_totals ss = foldl add_summary empty_totals ss"

definition dict_items :: "pyval \<Rightarrow> fields list" where
  "dict_items v =
     (case v of PList xs \<Rightarrow> List.map_filter (\<lambda>x. case x of PDict d \<Rightarrow> Some d | _ \<Rightarrow> None) xs | _ \<Rightarrow> [])"

definition session_findings :: "fields list \<Rightarrow> fields list" where
  "session_findings ss = concat (map (\<lambda>s. dict_items (or_empty (fld s ''findings''))) ss)"

definition merge_clusters :: "(pyval \<Rightarrow> string) \<Rightarrow> fields list \<Rightarrow> summary_error + cluster list" where
  "merge_clusters srepr ss = build_clusters srepr (group_keyed (session_findings ss))"

definition follow_key :: "fields \<Rightarrow> pyval \<times> pyval" where
  "follow_key e = (fld e ''kind'', fld e ''ref'')"

definition same_key :: "pyval \<times> pyval \<Rightarrow> pyval \<times> pyval \<Rightarrow> bool" where
  "same_key a b \<longleftrightarrow> py_eq (fst a) (fst b) \<and> py_eq (snd a) (snd b)"

text \<open>The loop over all entries, with the set of keys seen so far.\<close>

fun dedup_follow_up :: "(pyval \<times> pyval) list \<Rightarrow> fields list \<Rightarrow> summary_error + fields list" where
  "dedup_follow_up seen [] = Inr []"
| "dedup_follow_up seen (e # es) =
     (let k = follow_key e
      in if \<not> hashable (fst k) \<or> \<not> hashable (snd k) then Inl Unhashable
         else if list_ex (same_key k) seen then dedup_follow_up seen es
         else bind_res (dedup_follow_up (k # seen) es) (\<lambda>r. Inr (e # r)))"

definition merge_follow_up :: "fields list \<Rightarrow> summary_error + fields list" where
  "merge_follow_up ss = dedup_follow_up [] (concat (map (\<lambda>s. dict_items (or_empty (fld s ''follow_up''))) ss))"

definition worst_status :: "string list \<Rightarrow> string" where
  "worst_status statuses =
     (if statuses = [] then ''no_runs''
      else if list_all (\<lambda>s. s = ''complete'') statuses then ''complete''
      else if list_all (\<lambda>s. s = ''stalled'') statuses then ''stalled''
      else ''partial'')"

record session =
  n_totals :: totals
  n_clusters :: "cluster list"
  n_follow_up :: "fields list"
  n_runs :: "string list"
  n_run_count :: nat
  n_input_count :: int
  n_invalid_input_count :: int
  n_worst_status :: string

definition run_statuses :: "fields list \<Rightarrow> string list" where
  "run_statuses ss = List.map_filter (\<lambda>s. str_of (fld s ''status'')) ss"

definition merge_summaries :: "(pyval \<Rightarrow> string) \<Rightarrow> fields list \<Rightarrow> pyval \<Rightarrow> summary_error + session" where
  "merge_summaries srepr ss invalid =
     (let inv = (case as_int invalid of Some n \<Rightarrow> max 0 n | None \<Rightarrow> 0)
      in bind_res (merge_clusters srepr ss) (\<lambda>cs.
         bind_res (merge_follow_up ss) (\<lambda>fs.
         Inr \<lparr>n_totals = merge_totals ss, n_clusters = cs, n_follow_up = fs, n_runs = run_statuses ss,
              n_run_count = length (run_statuses ss), n_input_count = int (length ss) + inv,
              n_invalid_input_count = inv, n_worst_status = worst_status (run_statuses ss)\<rparr>)))"

subsection \<open>Order of the inputs\<close>

interpretation totals: order_free add_summary
  by unfold_locales (auto simp: add_summary_def)

lemma bump_commutes: "bump a (bump b c) = bump b (bump a c)"
  by (auto simp: bump_def)

interpretation severity_counts: order_free "\<lambda>c f. count_finding f c"
proof
  fix b :: counts and x y :: finding
  show "count_finding y (count_finding x b) = count_finding x (count_finding y b)"
    by (cases "f_severity x"; cases "f_severity y")
       (simp_all add: count_finding_def Let_def bump_commutes)
qed

lemma mset_map_filter: "mset xs = mset ys \<Longrightarrow> mset (List.map_filter f xs) = mset (List.map_filter f ys)"
  by (simp add: List.map_filter_def)

lemma mset_concat_image: "mset (concat (map f xs)) = sum_mset (image_mset (\<lambda>x. mset (f x)) (mset xs))"
  by (induction xs) simp_all

lemma mset_concat_map: "mset xs = mset ys \<Longrightarrow> mset (concat (map f xs)) = mset (concat (map f ys))"
  by (simp add: mset_concat_image)

definition session_of :: "fields list \<Rightarrow> pyval \<Rightarrow> cluster list \<Rightarrow> fields list \<Rightarrow> session" where
  "session_of ss invalid cs fs =
     (let inv = (case as_int invalid of Some n \<Rightarrow> max 0 n | None \<Rightarrow> 0)
      in \<lparr>n_totals = merge_totals ss, n_clusters = cs, n_follow_up = fs, n_runs = run_statuses ss,
          n_run_count = length (run_statuses ss), n_input_count = int (length ss) + inv,
          n_invalid_input_count = inv, n_worst_status = worst_status (run_statuses ss)\<rparr>)"

lemma merge_summaries_Inr:
  "merge_summaries srepr ss invalid = Inr n \<longleftrightarrow>
     (\<exists>cs fs. merge_clusters srepr ss = Inr cs \<and> merge_follow_up ss = Inr fs \<and> n = session_of ss invalid cs fs)"
  unfolding merge_summaries_def session_of_def Let_def bind_res_Inr_iff by blast

lemma session_of_simps:
  "n_totals (session_of ss invalid cs fs) = merge_totals ss"
  "n_clusters (session_of ss invalid cs fs) = cs"
  "n_follow_up (session_of ss invalid cs fs) = fs"
  "n_runs (session_of ss invalid cs fs) = run_statuses ss"
  "n_run_count (session_of ss invalid cs fs) = length (run_statuses ss)"
  "n_worst_status (session_of ss invalid cs fs) = worst_status (run_statuses ss)"
  by (simp_all add: session_of_def Let_def)

lemma session_of_inputs: "length ss = length ss' \<Longrightarrow>
    n_input_count (session_of ss invalid cs fs) = n_input_count (session_of ss' invalid cs fs')"
  by (simp add: session_of_def Let_def)

lemma dedup_returns:
  "(\<exists>fs. dedup_follow_up seen es = Inr fs) \<longleftrightarrow>
     list_all (\<lambda>e. hashable (fst (follow_key e)) \<and> hashable (snd (follow_key e))) es"
  by (induction es arbitrary: seen) (auto simp: Let_def bind_res_Inr_iff)

lemma worst_status_cong: "set xs = set ys \<Longrightarrow> worst_status xs = worst_status ys"
  by (auto simp: worst_status_def list_all_iff)

text \<open>Every kept entry is new, and every entry is kept or repeats a kept or seen key.\<close>

lemma dedup_spec:
  "dedup_follow_up seen es = Inr fs \<Longrightarrow>
     set fs \<subseteq> set es \<and>
     list_all (\<lambda>e. e \<in> set fs \<or> list_ex (same_key (follow_key e)) (seen @ map follow_key fs)) es \<and>
     list_all (\<lambda>f. \<not> list_ex (same_key (follow_key f)) seen) fs \<and>
     sorted_wrt (\<lambda>f g. \<not> same_key (follow_key g) (follow_key f)) fs"
proof (induction es arbitrary: seen fs)
  case (Cons e es)
  let ?k = "follow_key e"
  show ?case
  proof (cases "list_ex (same_key ?k) seen")
    case True
    with Cons show ?thesis by (auto simp: Let_def split: if_splits)
  next
    case False
    with Cons.prems obtain r where r: "dedup_follow_up (?k # seen) es = Inr r" "fs = e # r"
      by (auto simp: Let_def bind_res_Inr_iff split: if_splits)
    from Cons.IH [OF r(1)] False show ?thesis unfolding r(2) by (auto simp: list_all_iff list_ex_iff)
  qed
qed simp

subsection \<open>Properties\<close>

text \<open>
  The session view does not depend on the order in which the run summaries are given: a merge that
  returns also returns on any permutation, with the same totals, clusters, counters and overall status.
\<close>

theorem session_order_free:
  assumes "mset ss = mset ss'" and "merge_summaries srepr ss invalid = Inr n"
  shows "\<exists>n'. merge_summaries srepr ss' invalid = Inr n' \<and> n_totals n' = n_totals n \<and>
    n_clusters n' = n_clusters n \<and> mset (n_runs n') = mset (n_runs n) \<and>
    n_run_count n' = n_run_count n \<and> n_input_count n' = n_input_count n \<and>
    n_worst_status n' = n_worst_status n"
proof -
  obtain cs fs where cs: "merge_clusters srepr ss = Inr cs" and fs: "merge_follow_up ss = Inr fs"
    and n: "n = session_of ss invalid cs fs"
    using assms(2) unfolding merge_summaries_Inr by blast
  have cs': "merge_clusters srepr ss' = Inr cs"
    unfolding merge_clusters_def
    by (rule clusters_order_free [OF _ cs [unfolded merge_clusters_def]])
       (unfold session_findings_def, rule mset_concat_map [OF assms(1)])
  let ?items = "\<lambda>ss. concat (map (\<lambda>s. dict_items (or_empty (fld s ''follow_up''))) ss)"
  have "set (?items ss) = set (?items ss')" using mset_concat_map [OF assms(1)] by (rule mset_eq_setD)
  then obtain fs' where fs': "merge_follow_up ss' = Inr fs'"
    using fs dedup_returns [of "[]" "?items ss"] dedup_returns [of "[]" "?items ss'"]
    by (auto simp: merge_follow_up_def list_all_iff)
  have runs: "mset (run_statuses ss') = mset (run_statuses ss)"
    unfolding run_statuses_def by (rule mset_map_filter [OF assms(1) [symmetric]])
  have "worst_status (run_statuses ss') = worst_status (run_statuses ss)"
    by (rule worst_status_cong) (rule mset_eq_setD [OF runs])
  moreover have "merge_totals ss' = merge_totals ss"
    using totals.foldl_mset [OF assms(1)] by (simp add: merge_totals_def)
  moreover have "merge_summaries srepr ss' invalid = Inr (session_of ss' invalid cs fs')"
    unfolding merge_summaries_Inr using cs' fs' by blast
  ultimately show ?thesis
    using runs mset_eq_length [OF runs] session_of_inputs [OF mset_eq_length [OF assms(1)], of invalid cs fs fs']
    by (intro exI [of _ "session_of ss' invalid cs fs'"]) (simp only: n session_of_simps simp_thms)
qed

lemma totals_sum:
  "foldl add_summary t ss = map (\<lambda>(k, n). (k, n + (\<Sum>s\<leftarrow>ss. summary_count s k))) t"
  by (induction ss arbitrary: t) (auto simp: add_summary_def)

lemma all_equal_set: "rs \<noteq> [] \<Longrightarrow> list_all (\<lambda>s. s = x) rs \<longleftrightarrow> set rs = {x}"
proof (cases rs)
  case (Cons r rest)
  then show ?thesis by (auto simp: list_all_iff)
qed simp

lemma worst_status_spec:
  "worst_status rs =
     (if rs = [] then ''no_runs'' else if set rs = {''complete''} then ''complete''
      else if set rs = {''stalled''} then ''stalled'' else ''partial'')"
  by (simp add: worst_status_def all_equal_set)

text \<open>
  The session totals are the sums of the per-run counts, key by key; its follow-up holds only
  entries of the runs, each run entry is in it or has the kind and reference of one that is, and no
  entry repeats an earlier one; and its status is a success only when there are runs and all completed.
\<close>

theorem session_merge_exact:
  assumes "merge_summaries srepr ss invalid = Inr n"
  shows "n_totals n = map (\<lambda>k. (k, \<Sum>s\<leftarrow>ss. summary_count s k)) TOTAL_KEYS \<and>
    (n_worst_status n = ''complete'' \<longleftrightarrow> n_run_count n > 0 \<and> set (n_runs n) = {''complete''}) \<and>
    (let items = concat (map (\<lambda>s. dict_items (or_empty (fld s ''follow_up''))) ss)
     in set (n_follow_up n) \<subseteq> set items \<and>
        list_all (\<lambda>e. e \<in> set (n_follow_up n) \<or>
          list_ex (\<lambda>f. same_key (follow_key e) (follow_key f)) (n_follow_up n)) items \<and>
        sorted_wrt (\<lambda>f g. \<not> same_key (follow_key g) (follow_key f)) (n_follow_up n))"
proof -
  obtain cs fs where fs: "merge_follow_up ss = Inr fs" and n: "n = session_of ss invalid cs fs"
    using assms unfolding merge_summaries_Inr by blast
  have "merge_totals ss = map (\<lambda>k. (k, \<Sum>s\<leftarrow>ss. summary_count s k)) TOTAL_KEYS"
    by (simp add: merge_totals_def totals_sum empty_totals_def)
  moreover have "worst_status rs = ''complete'' \<longleftrightarrow> length rs > 0 \<and> set rs = {''complete''}" for rs
    by (auto simp: worst_status_spec split: if_splits)
  moreover have "list_ex P (map f xs) \<longleftrightarrow> list_ex (\<lambda>x. P (f x)) xs" for P and f :: "fields \<Rightarrow> pyval \<times> pyval" and xs
    by (induction xs) simp_all
  ultimately show ?thesis
    using dedup_spec [OF fs [unfolded merge_follow_up_def]] unfolding n session_of_simps Let_def append_Nil
    by (simp only: simp_thms)
qed

subsection \<open>Witnesses\<close>

definition demo_a :: fields where
  "demo_a = [(''status'', PStr ''complete''), (''counts'', PDict [(''high'', PInt 1)]),
     (''findings'', PList [PDict [(''category'', PStr ''xss''), (''bug_id'', PStr ''B2''), (''file'', PStr ''f'')]])]"

definition demo_b :: fields where
  "demo_b = [(''status'', PStr ''stalled''), (''counts'', PDict [(''high'', PInt 2)]),
     (''findings'', PList [PDict [(''category'', PStr ''xss''), (''bug_id'', PStr ''B1''), (''file'', PStr ''g'')]])]"

definition demo_session :: session where
  "demo_session = (case merge_summaries demo_repr [demo_a, demo_b] (PInt 0) of Inr n \<Rightarrow> n)"

lemma demo_session_Inr: "merge_summaries demo_repr [demo_a, demo_b] (PInt 0) = Inr demo_session"
proof -
  have "\<exists>n. merge_summaries demo_repr [demo_a, demo_b] (PInt 0) = Inr n"
  proof (cases "merge_summaries demo_repr [demo_a, demo_b] (PInt 0)")
    case (Inl e)
    moreover have "\<not> isl (merge_summaries demo_repr [demo_a, demo_b] (PInt 0))" by code_simp
    ultimately show ?thesis by simp
  qed blast
  then show ?thesis by (auto simp: demo_session_def)
qed

lemma session_order_free_witness:
  "\<exists>n'. merge_summaries demo_repr [demo_b, demo_a] (PInt 0) = Inr n' \<and> n_totals n' = n_totals demo_session"
proof -
  have "mset [demo_a, demo_b] = mset [demo_b, demo_a]" by simp
  from session_order_free [OF this demo_session_Inr] show ?thesis by blast
qed

lemma session_merge_exact_witness:
  "n_totals demo_session =
     [(''critical'', 0), (''high'', 3), (''medium'', 0), (''low'', 0), (''architectural'', 0)]"
proof -
  have "map (\<lambda>k. (k, \<Sum>s\<leftarrow>[demo_a, demo_b]. summary_count s k)) TOTAL_KEYS =
      [(''critical'', 0), (''high'', 3), (''medium'', 0), (''low'', 0), (''architectural'', 0)]" by code_simp
  then show ?thesis using session_merge_exact [OF demo_session_Inr] by simp
qed

end
