(* ===== verification/Report_Parsing.thy ===== *)
theory Report_Parsing
  imports Py_Json Py_Text
begin

text \<open>
  \<^verbatim>\<open>bench/scorer/parse_report.py\<close> and \<^verbatim>\<open>bench/scorer/extract.py\<close>: from the text of a
  \<^verbatim>\<open>report.md\<close> to normalized findings, by the structured lines, by the machine-readable block, or from
  the answer of a model.  The file system is a parameter \<open>fs\<close> (\<open>None\<close>: the status call raises), the
  completion client and \<open>json.loads\<close> are parameters too.
\<close>

subsection \<open>Reading\<close>

datatype parse_error = OSError | UnicodeDecodeError | Line_Overflow

datatype source = Path string | Str string

type_synonym file_system = "string \<Rightarrow> text_file option"

definition read_file :: "file_system \<Rightarrow> string \<Rightarrow> parse_error + string" where
  "read_file fs p =
     (case fs p of
        Some (Text s) \<Rightarrow> Inr s
      | Some Undecodable_Text \<Rightarrow> Inl UnicodeDecodeError
      | _ \<Rightarrow> Inl OSError)"

definition read_source :: "file_system \<Rightarrow> source \<Rightarrow> parse_error + string" where
  "read_source fs src =
     (case src of
        Path p \<Rightarrow> read_file fs p
      | Str t \<Rightarrow>
          if CHR 0x0A \<in> set t then Inr t
          else (case fs t of
              None \<Rightarrow> Inl OSError
            | Some Missing \<Rightarrow> Inr t
            | Some _ \<Rightarrow> read_file fs t))"

subsection \<open>The section\<close>

definition SECTION_HEADER_PREFIX :: string where "SECTION_HEADER_PREFIX = ''## Confirmed but not fixed''"
definition FIELD_SEPARATOR :: char where "FIELD_SEPARATOR = CHR 0xB7"
definition BULLET_PREFIX :: string where "BULLET_PREFIX = ''- ''"
definition H3_PREFIX :: string where "H3_PREFIX = ''### ''"
definition H2_PREFIX :: string where "H2_PREFIX = ''## ''"
definition BOLD_DELIM :: string where "BOLD_DELIM = ''**''"
definition BACKTICK :: char where "BACKTICK = CHR 0x60"

record report_finding =
  rf_bug_id :: string
  rf_severity :: string
  rf_category :: string
  rf_file :: string
  rf_line :: int
  rf_rationale :: string

definition is_section_header :: "string \<Rightarrow> bool" where
  "is_section_header l =
     (let s = strip l; rest = drop (length SECTION_HEADER_PREFIX) s
      in starts_with s SECTION_HEADER_PREFIX \<and> (rest = [] \<or> starts_with rest '' ''))"

fun after_header :: "string list \<Rightarrow> string list option" where
  "after_header [] = None"
| "after_header (l # ls) = (if is_section_header l then Some ls else after_header ls)"

definition section_lines :: "string \<Rightarrow> string list" where
  "section_lines text =
     (case after_header (splitlines text) of
        None \<Rightarrow> []
      | Some ls \<Rightarrow> takeWhile (\<lambda>l. \<not> starts_with l H2_PREFIX) ls)"

subsection \<open>Fields\<close>

definition clean_category :: "string \<Rightarrow> string" where
  "clean_category c = (case find_str c '' ('' of None \<Rightarrow> c | Some i \<Rightarrow> take i c)"

lemma partition_on_length: "length (snd (snd (partition_on c s))) \<le> length s"
  by (induction s) (auto split: prod.splits)

lemma partition_on_shrinks: "partition_on c s = (h, True, t) \<Longrightarrow> length t < length s"
  by (induction s arbitrary: h) (auto split: if_splits prod.splits)

function backtick_tokens :: "string \<Rightarrow> string list" where
  "backtick_tokens s =
     (case partition_on BACKTICK s of
        (h, has_open, t) \<Rightarrow>
          if \<not> has_open then []
          else (case partition_on BACKTICK t of
              (tok, has_close, rest) \<Rightarrow>
                if \<not> has_close then [strip tok] else strip tok # backtick_tokens rest))"
  by pat_completeness auto
termination
proof (relation "measure length")
  fix s h o1 t1 has_open t p tok c1 has_close rest
  assume a: "(h, p) = partition_on BACKTICK s" "(has_open, t) = p" "\<not> \<not> has_open"
    and b: "(tok, c1) = partition_on BACKTICK t" "(has_close, rest) = c1" "\<not> \<not> has_close"
  have "length t < length s" using a by (metis partition_on_shrinks)
  moreover have "length rest < length t" using b by (metis partition_on_shrinks)
  ultimately show "(rest, s) \<in> measure length" by simp
qed simp

declare backtick_tokens.simps [simp del]

text \<open>\<open>token.rpartition(c)\<close> when \<open>c\<close> is in the token: what precedes and follows its last place.\<close>

definition rpartition_on :: "char \<Rightarrow> string \<Rightarrow> string \<times> string" where
  "rpartition_on c s =
     (case partition_on c (rev s) of (h, found, t) \<Rightarrow> (rev t, rev h))"

definition split_file_line :: "string \<Rightarrow> (string \<times> int) option" where
  "split_file_line token =
     (if CHR '':'' \<notin> set token then None
      else
        let (f, line_str) = rpartition_on (CHR '':'') token;
            line_str' = fst (partition_on (CHR ''-'') line_str)
        in map_option (Pair f) (int_of_str line_str'))"

fun locations_from :: "string \<Rightarrow> string list \<Rightarrow> (string \<times> int) list" where
  "locations_from prev [] = []"
| "locations_from prev (t # ts) =
     (case split_file_line t of
        None \<Rightarrow> locations_from prev ts
      | Some (f, n) \<Rightarrow>
          if f = [] \<and> prev = [] then locations_from prev ts
          else let f' = (if f = [] then prev else f) in (f', n) # locations_from f' ts)"

definition locations :: "string \<Rightarrow> (string \<times> int) list" where
  "locations field =
     locations_from [] (if backtick_tokens field = [] then [strip field] else backtick_tokens field)"

definition findings_for_locations :: "string \<Rightarrow> string \<Rightarrow> string \<Rightarrow> string \<Rightarrow> string \<Rightarrow> report_finding list" where
  "findings_for_locations b s c fl r =
     map (\<lambda>(f, n). \<lparr>rf_bug_id = b, rf_severity = s, rf_category = clean_category c, rf_file = f, rf_line = n, rf_rationale = r\<rparr>)
       (locations fl)"

definition fields_of :: "string \<Rightarrow> string \<Rightarrow> string list" where
  "fields_of prefix l = map strip (split_on FIELD_SEPARATOR (strip (drop (length prefix) l)))"

definition parse_bullet :: "string \<Rightarrow> report_finding list" where
  "parse_bullet l =
     (case fields_of BULLET_PREFIX l of
        [b, s, c, fl, r] \<Rightarrow> findings_for_locations b s c fl r
      | _ \<Rightarrow> [])"

definition parse_h3 :: "string \<Rightarrow> string \<Rightarrow> report_finding list" where
  "parse_h3 l cause =
     (case fields_of H3_PREFIX l of
        [b, s, c, fl] \<Rightarrow> findings_for_locations b s c fl cause
      | _ \<Rightarrow> [])"

definition unbold :: "string \<Rightarrow> string" where
  "unbold s =
     (if starts_with s BOLD_DELIM \<and> ends_with s BOLD_DELIM \<and> length s > 2 * length BOLD_DELIM
      then strip (take (length s - 4) (drop 2 s)) else s)"

fun next_cause_line :: "string list \<Rightarrow> string" where
  "next_cause_line [] = []"
| "next_cause_line (l # ls) = (if strip l = [] then next_cause_line ls else unbold (strip l))"

fun iter_findings :: "string list \<Rightarrow> report_finding list" where
  "iter_findings [] = []"
| "iter_findings (raw # rest) =
     (let l = strip raw
      in (if FIELD_SEPARATOR \<notin> set l then []
          else if starts_with l BULLET_PREFIX then parse_bullet l
          else if starts_with l H3_PREFIX then parse_h3 l (next_cause_line rest)
          else []) @ iter_findings rest)"

definition parse_report :: "file_system \<Rightarrow> source \<Rightarrow> parse_error + report_finding list" where
  "parse_report fs src =
     bind_res (read_source fs src) (\<lambda>text. Inr (iter_findings (section_lines text)))"

definition confirmed_section :: "file_system \<Rightarrow> source \<Rightarrow> parse_error + string" where
  "confirmed_section fs src =
     bind_res (read_source fs src) (\<lambda>text. Inr (join_with [CHR 0x0A] (section_lines text)))"

subsection \<open>The machine-readable block\<close>

definition JSON_BLOCK_SECTION :: string where "JSON_BLOCK_SECTION = ''## Findings (machine-readable)''"
definition JSON_FENCE_OPEN :: string where "JSON_FENCE_OPEN = [BACKTICK, BACKTICK, BACKTICK] @ ''json''"
definition JSON_FENCE_CLOSE :: string where "JSON_FENCE_CLOSE = [BACKTICK, BACKTICK, BACKTICK]"

fun after_block_header :: "string list \<Rightarrow> string list option" where
  "after_block_header [] = None"
| "after_block_header (l # ls) = (if strip l = JSON_BLOCK_SECTION then Some ls else after_block_header ls)"

fun after_fence :: "string list \<Rightarrow> string list option" where
  "after_fence [] = None"
| "after_fence (l # ls) =
     (if starts_with l H2_PREFIX then None
      else if strip l = JSON_FENCE_OPEN then Some ls
      else after_fence ls)"

definition extract_json_block_text :: "string \<Rightarrow> string option" where
  "extract_json_block_text text =
     Option.bind (after_block_header (splitlines text)) (\<lambda>ls.
     map_option (\<lambda>ls'. join_with [CHR 0x0A] (takeWhile (\<lambda>l. strip l \<noteq> JSON_FENCE_CLOSE) ls'))
       (after_fence ls))"

text \<open>\<open>_coerce_line\<close>: \<open>int(v)\<close>, where \<open>ValueError\<close> and \<open>TypeError\<close> are caught.\<close>

fun coerce_line :: "pyval \<Rightarrow> parse_error + int" where
  "coerce_line (PInt i) = Inr i"
| "coerce_line (PBool b) = Inr (if b then 1 else 0)"
| "coerce_line (PFloat (Fin q)) = Inr (if q \<ge> 0 then \<lfloor>q\<rfloor> else \<lceil>q\<rceil>)"
| "coerce_line (PFloat NaN) = Inr 0"
| "coerce_line (PFloat _) = Inl Line_Overflow"
| "coerce_line (PStr s) = Inr (case int_of_str s of None \<Rightarrow> 0 | Some i \<Rightarrow> i)"
| "coerce_line _ = Inr 0"

text \<open>\<open>str(item.get(key, ""))\<close>\<close>

definition str_field :: "(pyval \<Rightarrow> string) \<Rightarrow> (string \<times> pyval) list \<Rightarrow> string \<Rightarrow> string" where
  "str_field srepr d k = py_str srepr (dict_get d k (PStr []))"

definition item_finding ::
  "(pyval \<Rightarrow> string) \<Rightarrow> bool \<Rightarrow> (string \<times> pyval) list \<Rightarrow> parse_error + report_finding option" where
  "item_finding srepr block d =
     (let f = strip (str_field srepr d ''file'')
      in if block \<and> truthy (dict_get d ''fixed'' (PBool False)) then Inr None
         else if f = [] then Inr None
         else bind_res (coerce_line (dict_get d ''line'' PNone)) (\<lambda>n.
           Inr (Some \<lparr>rf_bug_id = str_field srepr d ''bug_id'',
             rf_severity = (if block then str_field srepr d ''severity'' else []),
             rf_category = (if block then str_field srepr d ''category'' else []),
             rf_file = f, rf_line = n, rf_rationale = str_field srepr d ''rationale''\<rparr>)))"

fun items_findings :: "(pyval \<Rightarrow> string) \<Rightarrow> bool \<Rightarrow> pyval list \<Rightarrow> parse_error + report_finding list" where
  "items_findings srepr block [] = Inr []"
| "items_findings srepr block (v # vs) =
     (case v of
        PDict d \<Rightarrow>
          bind_res (item_finding srepr block d) (\<lambda>f.
          bind_res (items_findings srepr block vs) (\<lambda>fs.
          Inr (case f of None \<Rightarrow> fs | Some x \<Rightarrow> x # fs)))
      | _ \<Rightarrow> items_findings srepr block vs)"

definition parse_json_block ::
  "(pyval \<Rightarrow> string) \<Rightarrow> json_loads \<Rightarrow> file_system \<Rightarrow> source \<Rightarrow> parse_error + report_finding list option" where
  "parse_json_block srepr loads fs src =
     bind_res (read_source fs src) (\<lambda>text.
     case extract_json_block_text text of
       None \<Rightarrow> Inr None
     | Some raw \<Rightarrow>
         (case loads raw of
            Some (PList items) \<Rightarrow> bind_res (items_findings srepr True items) (\<lambda>fs. Inr (Some fs))
          | _ \<Rightarrow> Inr None))"

subsection \<open>Extraction by a model\<close>

definition extract_json_array :: "json_loads \<Rightarrow> string \<Rightarrow> pyval list option" where
  "extract_json_array loads response =
     (case bracketed (CHR ''['') (CHR '']'') response of
        None \<Rightarrow> None
      | Some t \<Rightarrow> (case loads t of Some (PList xs) \<Rightarrow> Some xs | _ \<Rightarrow> None))"

definition parse_extracted :: "(pyval \<Rightarrow> string) \<Rightarrow> json_loads \<Rightarrow> string \<Rightarrow> parse_error + report_finding list" where
  "parse_extracted srepr loads response =
     (case extract_json_array loads response of
        None \<Rightarrow> Inr []
      | Some xs \<Rightarrow> items_findings srepr False xs)"

definition DATA_OPEN :: string where "DATA_OPEN = ''<REPORT_SECTION>''"
definition DATA_CLOSE :: string where "DATA_CLOSE = ''</REPORT_SECTION>''"

text \<open>The fixed instructions (which hold characters beyond the modelled range) and the model's answer are parameters.\<close>

definition build_extract_prompt :: "string \<Rightarrow> string \<Rightarrow> string" where
  "build_extract_prompt instructions section_text =
     instructions @ [CHR 0x0A, CHR 0x0A] @ DATA_OPEN @ [CHR 0x0A] @ section_text @ [CHR 0x0A] @ DATA_CLOSE"

definition extract_findings ::
  "(pyval \<Rightarrow> string) \<Rightarrow> json_loads \<Rightarrow> (string \<Rightarrow> string) \<Rightarrow> string \<Rightarrow> string \<Rightarrow> parse_error + report_finding list" where
  "extract_findings srepr loads answer instructions section_text =
     (if strip section_text = [] then Inr []
      else parse_extracted srepr loads (answer (build_extract_prompt instructions section_text)))"

subsection \<open>Numbers and separators\<close>

lemma dropWhile_head: "xs = [] \<or> \<not> P (hd xs) \<Longrightarrow> dropWhile P xs = xs"
  by (cases xs) auto

lemma strip_id: "s = [] \<or> (\<not> py_space (hd s) \<and> \<not> py_space (last s)) \<Longrightarrow> strip s = s"
  using dropWhile_head [of s py_space] dropWhile_head [of "rev s" py_space] by (auto simp: strip_def hd_rev)

lemma dropWhile_all: "(\<And>x. x \<in> set p \<Longrightarrow> P x) \<Longrightarrow> dropWhile P (p @ s) = dropWhile P s"
  by (induction p) auto

lemma strip_pad:
  assumes "strip s = s" and "\<And>x. x \<in> set p \<Longrightarrow> py_space x" and "\<And>x. x \<in> set q \<Longrightarrow> py_space x"
  shows "strip (p @ s @ q) = s"
proof (cases "dropWhile py_space s = []")
  case True
  then have "s = []" using assms(1) unfolding strip_def by (metis rev.simps(1) dropWhile.simps(1))
  with assms(2,3) show ?thesis
    using dropWhile_all [of q py_space "[]"] dropWhile_all [of p py_space q] by (simp add: strip_def set_dropWhileD)
next
  case False
  have "dropWhile py_space (p @ s @ q) = dropWhile py_space s @ q"
    using False assms(2) by (auto simp: dropWhile_all dropWhile_append)
  moreover have "dropWhile py_space (rev q @ t) = dropWhile py_space t" for t
    using assms(3) by (intro dropWhile_all) simp
  ultimately show ?thesis using assms(1) by (simp add: strip_def)
qed

lemma digit_not_space: "digit_val c \<noteq> None \<Longrightarrow> \<not> py_space c \<and> c \<noteq> CHR '':'' \<and> c \<noteq> CHR ''-'' \<and> c \<noteq> CHR ''+''"
  by (auto simp: digit_val_def py_space_def Let_def split: if_splits)

lemma is_decimal_all: "is_decimal s \<Longrightarrow> c \<in> set s \<Longrightarrow> digit_val c \<noteq> None"
  by (auto simp: is_decimal_def list_all_iff)

lemma int_digits_decimal: "list_all (\<lambda>c. digit_val c \<noteq> None) s \<Longrightarrow> int_digits acc s = Some (decimal_val acc s)"
  by (induction acc s rule: int_digits.induct) (auto split: option.splits)

lemma nat_str_chars: "c \<in> set (nat_str n) \<Longrightarrow> \<not> py_space c \<and> c \<noteq> CHR '':'' \<and> c \<noteq> CHR ''-'' \<and> c \<noteq> CHR ''+''"
  using is_decimal_all [OF is_decimal_nat_str] digit_not_space by blast

lemma nat_str_ne [simp]: "nat_str n \<noteq> []"
  using is_decimal_nat_str [of n] by (auto simp: is_decimal_def)

lemma int_of_str_nat_str [simp]: "int_of_str (nat_str n) = Some (int n)"
proof -
  obtain c cs where c: "nat_str n = c # cs" by (cases "nat_str n") auto
  have all: "list_all (\<lambda>c. digit_val c \<noteq> None) (c # cs)"
    using is_decimal_nat_str [of n] by (simp add: is_decimal_def c)
  have "strip (nat_str n) = nat_str n"
    using nat_str_chars [of "hd (nat_str n)" n] nat_str_chars [of "last (nat_str n)" n] by (intro strip_id) simp
  moreover have "unsigned_of_str (nat_str n) = Some (decimal_val 0 (nat_str n))"
    using all int_digits_decimal [of cs] by (auto simp: unsigned_of_str_def c split: option.split)
  moreover have "c \<noteq> CHR ''-''" "c \<noteq> CHR ''+''" using nat_str_chars [of c n] by (simp_all add: c)
  moreover have "decimal_val 0 (c # cs) = n" using decimal_val_nat_str [of n] by (simp only: c)
  ultimately show ?thesis unfolding int_of_str_def c by simp
qed

lemma partition_on_absent: "c \<notin> set s \<Longrightarrow> partition_on c s = (s, False, [])"
  by (induction s) auto

lemma partition_on_first: "c \<notin> set h \<Longrightarrow> partition_on c (h @ c # t) = (h, True, t)"
  by (induction h) auto

lemma rpartition_last: "c \<notin> set t \<Longrightarrow> rpartition_on c (h @ c # t) = (h, t)"
  by (simp add: rpartition_on_def partition_on_first)

lemma split_file_line_render: "split_file_line (f @ CHR '':'' # nat_str n) = Some (f, int n)"
proof -
  have "CHR '':'' \<notin> set (nat_str n)" "CHR ''-'' \<notin> set (nat_str n)"
    using is_decimal_all [OF is_decimal_nat_str] digit_not_space by blast+
  then show ?thesis by (simp add: split_file_line_def rpartition_last partition_on_absent)
qed

lemma locations_render:
  assumes "f \<noteq> []" and "BACKTICK \<notin> set f" and "strip f = f"
  shows "locations (f @ CHR '':'' # nat_str n) = [(f, int n)]"
proof -
  have bt: "BACKTICK \<notin> set (f @ CHR '':'' # nat_str n)"
  proof -
    have "digit_val BACKTICK = None" by code_simp
    then have "BACKTICK \<notin> set (nat_str n)" using is_decimal_all [OF is_decimal_nat_str] by metis
    with assms(2) show ?thesis by (simp add: BACKTICK_def)
  qed
  have "backtick_tokens (f @ CHR '':'' # nat_str n) = []"
    by (subst backtick_tokens.simps) (simp add: partition_on_absent [OF bt])
  moreover have "strip (f @ CHR '':'' # nat_str n) = f @ CHR '':'' # nat_str n"
  proof -
    have "\<not> py_space (hd f)"
      using assms(1,3) unfolding strip_def
      by (metis dropWhile_eq_Nil_conv hd_dropWhile rev_is_Nil_conv rev_rev_ident dropWhile_eq_self_iff set_dropWhileD
          length_dropWhile_le length_rev linorder_not_le dropWhile_idem list.exhaust_sel dropWhile.simps(2) impossible_Cons le_trans)
    moreover have "\<not> py_space (last (f @ CHR '':'' # nat_str n))"
      using nat_str_chars [of "last (nat_str n)" n] by simp
    ultimately show ?thesis using assms(1) by (intro strip_id) simp
  qed
  ultimately show ?thesis using assms(1) by (simp add: locations_def split_file_line_render)
qed

subsection \<open>Rendering a bullet\<close>

text \<open>A bullet of the five fields the parser's own documentation names.\<close>

definition pad_sep :: string where "pad_sep = [CHR '' '', FIELD_SEPARATOR, CHR '' '']"

definition render_bullet :: "report_finding \<Rightarrow> string" where
  "render_bullet f =
     BULLET_PREFIX @ join_with pad_sep
       [rf_bug_id f, rf_severity f, rf_category f, rf_file f @ '':'' @ nat_str (nat (rf_line f)), rf_rationale f]"

definition clean_text :: "string \<Rightarrow> bool" where
  "clean_text s \<longleftrightarrow> s \<noteq> [] \<and> strip s = s \<and> FIELD_SEPARATOR \<notin> set s"

definition clean_finding :: "report_finding \<Rightarrow> bool" where
  "clean_finding f \<longleftrightarrow>
     list_all clean_text [rf_bug_id f, rf_severity f, rf_category f, rf_file f, rf_rationale f] \<and>
     clean_category (rf_category f) = rf_category f \<and> BACKTICK \<notin> set (rf_file f) \<and> rf_line f \<ge> 0"

lemma strip_ends:
  assumes "strip s = s" and "s \<noteq> []"
  shows "\<not> py_space (hd s)" and "\<not> py_space (last s)"
proof -
  let ?t = "dropWhile py_space s"
  have t: "?t \<noteq> []"
  proof
    assume "?t = []"
    then have "strip s = []" by (simp only: strip_def) simp
    with assms show False by simp
  qed
  have "length s \<le> length ?t"
    using assms(1) length_dropWhile_le [of py_space "rev ?t"] by (metis length_rev strip_def)
  then have same: "?t = s"
    by (metis length_append append_self_conv2 takeWhile_dropWhile_id add_le_same_cancel2 le_zero_eq length_0_conv)
  then show "\<not> py_space (hd s)" using t hd_dropWhile [of py_space s] by simp
  have "rev (dropWhile py_space (rev s)) = s" using assms(1) same by (simp add: strip_def)
  then have "dropWhile py_space (rev s) = rev s" by (metis rev_rev_ident)
  then show "\<not> py_space (last s)" using assms(2) hd_dropWhile [of py_space "rev s"] by (simp add: hd_rev)
qed

lemma split_on_absent: "c \<notin> set p \<Longrightarrow> split_on c p = [p]"
  by (induction p) auto

lemma split_on_append: "c \<notin> set p \<Longrightarrow> split_on c (p @ c # s) = p # split_on c s"
  by (induction p) auto

lemma strip_spaces: "strip s = s \<Longrightarrow> strip (CHR '' '' # s) = s \<and> strip (s @ [CHR '' '']) = s \<and> strip (CHR '' '' # s @ [CHR '' '']) = s"
  using strip_pad [of s "[CHR '' '']" "[]"] strip_pad [of s "[]" "[CHR '' '']"] strip_pad [of s "[CHR '' '']" "[CHR '' '']"]
  by (simp add: py_space_def)

lemma split_padded:
  assumes "\<And>s. s \<in> {a, b, c, d, e} \<Longrightarrow> strip s = s \<and> FIELD_SEPARATOR \<notin> set s"
  shows "map strip (split_on FIELD_SEPARATOR (join_with pad_sep [a, b, c, d, e])) = [a, b, c, d, e]"
proof -
  have sp: "FIELD_SEPARATOR \<noteq> CHR '' ''" by (simp add: FIELD_SEPARATOR_def)
  have cut: "split_on FIELD_SEPARATOR (p @ pad_sep @ s) = (p @ [CHR '' '']) # split_on FIELD_SEPARATOR (CHR '' '' # s)"
    if "FIELD_SEPARATOR \<notin> set p" for p s
    using split_on_append [of FIELD_SEPARATOR "p @ [CHR '' '']" "CHR '' '' # s"] that sp by (simp add: pad_sep_def)
  have cut': "split_on FIELD_SEPARATOR (CHR '' '' # p @ pad_sep @ s) =
      (CHR '' '' # p @ [CHR '' '']) # split_on FIELD_SEPARATOR (CHR '' '' # s)" if "FIELD_SEPARATOR \<notin> set p" for p s
    using cut [of "CHR '' '' # p" s] that sp by simp
  have final: "split_on FIELD_SEPARATOR (CHR '' '' # e) = [CHR '' '' # e]"
    using assms [of e] sp by (intro split_on_absent) simp
  show ?thesis
    using assms by (simp add: cut cut' final strip_spaces del: split_on.simps)
qed

lemma parse_render:
  assumes "clean_finding f"
  shows "parse_bullet (render_bullet f) = [f] \<and> strip (render_bullet f) = render_bullet f \<and>
    FIELD_SEPARATOR \<in> set (render_bullet f)"
proof -
  let ?loc = "rf_file f @ '':'' @ nat_str (nat (rf_line f))"
  let ?body = "join_with pad_sep [rf_bug_id f, rf_severity f, rf_category f, ?loc, rf_rationale f]"
  have clean: "clean_text s" if "s \<in> {rf_bug_id f, rf_severity f, rf_category f, rf_file f, rf_rationale f}" for s
    using assms that by (auto simp: clean_finding_def)
  have sepdigit: "digit_val FIELD_SEPARATOR = None" by code_simp
  have loc: "strip ?loc = ?loc \<and> FIELD_SEPARATOR \<notin> set ?loc"
  proof
    have "\<not> py_space (hd ?loc)"
      using clean [of "rf_file f"] strip_ends(1) [of "rf_file f"] by (simp add: clean_text_def)
    then show "strip ?loc = ?loc"
      using nat_str_chars [of "last (nat_str (nat (rf_line f)))" "nat (rf_line f)"] by (intro strip_id) simp
    have "FIELD_SEPARATOR \<notin> set (nat_str (nat (rf_line f)))"
      using is_decimal_all [OF is_decimal_nat_str] sepdigit by metis
    then show "FIELD_SEPARATOR \<notin> set ?loc"
      using clean [of "rf_file f"] by (simp add: clean_text_def FIELD_SEPARATOR_def)
  qed
  have ends: "\<not> py_space (hd ?body)" "\<not> py_space (last ?body)" "?body \<noteq> []"
    using clean [of "rf_bug_id f"] clean [of "rf_rationale f"] strip_ends(1) [of "rf_bug_id f"]
      strip_ends(2) [of "rf_rationale f"] by (simp_all add: clean_text_def pad_sep_def)
  have "fields_of BULLET_PREFIX (render_bullet f) =
      [rf_bug_id f, rf_severity f, rf_category f, ?loc, rf_rationale f]"
  proof -
    have "strip ?body = ?body" using ends by (intro strip_id) blast
    moreover have "drop (length BULLET_PREFIX) (render_bullet f) = ?body" by (simp add: render_bullet_def)
    moreover have "map strip (split_on FIELD_SEPARATOR ?body) =
        [rf_bug_id f, rf_severity f, rf_category f, ?loc, rf_rationale f]"
    proof (rule split_padded)
      fix s assume "s \<in> {rf_bug_id f, rf_severity f, rf_category f, ?loc, rf_rationale f}"
      then consider "s = ?loc" | "s \<in> {rf_bug_id f, rf_severity f, rf_category f, rf_file f, rf_rationale f}" by blast
      then show "strip s = s \<and> FIELD_SEPARATOR \<notin> set s"
      proof cases
        case 1
        show ?thesis unfolding 1 by (rule loc)
      next
        case 2
        show ?thesis using clean [OF 2] by (simp add: clean_text_def)
      qed
    qed
    ultimately show ?thesis by (simp only: fields_of_def)
  qed
  moreover have "locations ?loc = [(rf_file f, rf_line f)]"
    using locations_render [of "rf_file f" "nat (rf_line f)"] clean [of "rf_file f"] assms
    by (simp add: clean_text_def clean_finding_def)
  moreover have "clean_category (rf_category f) = rf_category f" using assms by (simp add: clean_finding_def)
  ultimately have "parse_bullet (render_bullet f) = [f]"
    by (simp add: parse_bullet_def findings_for_locations_def)
  moreover have "strip (render_bullet f) = render_bullet f"
    using ends by (intro strip_id) (simp add: render_bullet_def BULLET_PREFIX_def py_space_def)
  moreover have "FIELD_SEPARATOR \<in> set (render_bullet f)" by (simp add: render_bullet_def pad_sep_def)
  ultimately show ?thesis by blast
qed

subsection \<open>Lines\<close>

definition plain_line :: "string \<Rightarrow> bool" where
  "plain_line l \<longleftrightarrow> l \<noteq> [] \<and> list_all (\<lambda>c. \<not> is_break c) l"

lemma splitlines_one: "plain_line l \<Longrightarrow> splitlines l = [l]"
proof (induction l)
  case (Cons c l)
  then show ?case by (cases l) (auto simp: plain_line_def)
qed (simp add: plain_line_def)

lemma splitlines_cut: "list_all (\<lambda>c. \<not> is_break c) l \<Longrightarrow> splitlines (l @ CHR 0x0A # s) = l # splitlines s"
proof (induction l)
  case Nil
  have "is_break (CHR 0x0A)" by code_simp
  then show ?case by (cases s) simp_all
qed simp

lemma splitlines_join: "list_all plain_line ls \<Longrightarrow> splitlines (join_with [CHR 0x0A] ls) = ls"
proof (induction ls)
  case (Cons l ls)
  show ?case
  proof (cases ls)
    case Nil
    with Cons.prems show ?thesis by (simp add: splitlines_one)
  next
    case c: (Cons l' ls')
    have "splitlines (l @ CHR 0x0A # join_with [CHR 0x0A] ls) = l # splitlines (join_with [CHR 0x0A] ls)"
      using Cons.prems by (intro splitlines_cut) (simp add: plain_line_def)
    with Cons c show ?thesis by simp
  qed
qed simp

lemma join_has_newline: "CHR 0x0A \<in> set (join_with [CHR 0x0A] (l # l' # ls))"
  by simp

lemma read_source_text: "read_source fs (Str (join_with [CHR 0x0A] (l # l' # ls))) = Inr (join_with [CHR 0x0A] (l # l' # ls))"
  by (simp add: read_source_def)

lemma iter_findings_render: "list_all clean_finding fs \<Longrightarrow> iter_findings (map render_bullet fs) = fs"
proof (induction fs)
  case (Cons f fs)
  then have f: "parse_bullet (render_bullet f) = [f]" "strip (render_bullet f) = render_bullet f"
      "FIELD_SEPARATOR \<in> set (render_bullet f)" using parse_render [of f] by simp_all
  have "starts_with (render_bullet f) BULLET_PREFIX" by (simp add: render_bullet_def)
  with f Cons show ?case by (simp add: Let_def)
qed simp

lemma render_not_h2: "\<not> starts_with (render_bullet f) H2_PREFIX"
  by (simp add: render_bullet_def BULLET_PREFIX_def H2_PREFIX_def starts_with_def)

text \<open>The items the machine-readable block lists: the finding and whether it is fixed.\<close>

definition block_item :: "bool \<times> report_finding \<Rightarrow> pyval" where
  "block_item x =
     PDict [(''bug_id'', PStr (rf_bug_id (snd x))), (''severity'', PStr (rf_severity (snd x))),
       (''category'', PStr (rf_category (snd x))), (''file'', PStr (rf_file (snd x))),
       (''line'', PInt (rf_line (snd x))), (''rationale'', PStr (rf_rationale (snd x))), (''fixed'', PBool (fst x))]"

lemma items_findings_block:
  "list_all (\<lambda>x. strip (rf_file (snd x)) = rf_file (snd x) \<and> rf_file (snd x) \<noteq> []) xs \<Longrightarrow>
     items_findings srepr True (map block_item xs) = Inr (map snd (filter (\<lambda>x. \<not> fst x) xs))"
  by (induction xs) (auto simp: block_item_def item_finding_def str_field_def dict_get_def Let_def)

subsection \<open>Properties\<close>

text \<open>
  The form the parser documents reads back: a report whose section holds one five-field bullet per finding, with
  clean fields, followed by another second-level section, parses to exactly those findings, in order.
\<close>

theorem report_roundtrip:
  assumes "list_all clean_finding fs" and "list_all (\<lambda>f. plain_line (render_bullet f)) fs"
    and "text = join_with [CHR 0x0A] ([''# Report'', SECTION_HEADER_PREFIX @ '' (detect-only)''] @
           map render_bullet fs @ [''## Other'', ''- ignored''])"
  shows "parse_report files (Str text) = Inr fs"
proof -
  let ?ls = "[''# Report'', SECTION_HEADER_PREFIX @ '' (detect-only)''] @ map render_bullet fs @ [''## Other'', ''- ignored'']"
  have fixed: "list_all plain_line [''# Report'', SECTION_HEADER_PREFIX @ '' (detect-only)'', ''## Other'', ''- ignored'']"
    by code_simp
  have "list_all plain_line ?ls" using fixed assms(2) by (auto simp: list_all_iff)
  then have lines: "splitlines text = ?ls" unfolding assms(3) by (rule splitlines_join)
  have hdr: "\<not> is_section_header ''# Report''" "is_section_header (SECTION_HEADER_PREFIX @ '' (detect-only)'')"
      "starts_with ''## Other'' H2_PREFIX" by code_simp+
  have "takeWhile (\<lambda>l. \<not> starts_with l H2_PREFIX) (map render_bullet fs @ [''## Other'', ''- ignored'']) = map render_bullet fs"
    using hdr(3) by (induction fs) (simp_all add: render_not_h2)
  then have "section_lines text = map render_bullet fs"
    unfolding section_lines_def lines by (simp add: hdr)
  moreover have "read_source files (Str text) = Inr text"
    unfolding assms(3) by (simp only: append.simps read_source_text)
  ultimately show ?thesis using iter_findings_render [OF assms(1)] by (simp add: parse_report_def)
qed

text \<open>
  The bullet of eight fields that \<^verbatim>\<open>SKILL.md\<close> has the skill write: id, finding key, severity, category,
  file and line, repro status, vote split, cause.
\<close>

definition skill_bullet :: "string list \<Rightarrow> string" where
  "skill_bullet parts = BULLET_PREFIX @ join_with pad_sep parts"

definition separators :: "string \<Rightarrow> nat" where
  "separators s = length (filter (\<lambda>c. c = FIELD_SEPARATOR) s)"

lemma separators_simps [simp]: "separators [] = 0" "separators (a @ b) = separators a + separators b"
  "separators (c # s) = (if c = FIELD_SEPARATOR then 1 else 0) + separators s"
  by (simp_all add: separators_def)

lemma length_split: "length (split_on FIELD_SEPARATOR s) = Suc (separators s)"
proof (induction s)
  case (Cons c s)
  then show ?case by (cases "split_on FIELD_SEPARATOR s") auto
qed simp

lemma separators_blank: "\<forall>c\<in>set s. py_space c \<Longrightarrow> separators s = 0"
proof -
  have "\<not> py_space FIELD_SEPARATOR" by code_simp
  then show "\<forall>c\<in>set s. py_space c \<Longrightarrow> separators s = 0" by (induction s) auto
qed

lemma separators_dropWhile: "separators (dropWhile py_space s) = separators s"
proof -
  have "separators (takeWhile py_space s) = 0" by (rule separators_blank) (auto dest: set_takeWhileD)
  then show ?thesis by (metis add_0 separators_simps(2) takeWhile_dropWhile_id)
qed

lemma separators_rev: "separators (rev s) = separators s"
  by (induction s) simp_all

lemma separators_strip [simp]: "separators (strip s) = separators s"
  by (simp add: strip_def separators_rev separators_dropWhile)

lemma separators_join: "parts \<noteq> [] \<Longrightarrow> length parts \<le> Suc (separators (join_with pad_sep parts))"
proof (induction parts)
  case (Cons f fs)
  have "\<not> py_space FIELD_SEPARATOR" by code_simp
  then show ?case using Cons by (cases fs) (simp_all add: pad_sep_def)
qed simp

lemma fields_of_length:
  assumes "starts_with l prefix" "separators prefix = 0"
  shows "length (fields_of prefix l) = Suc (separators l)"
proof -
  have "l = prefix @ drop (length prefix) l" using assms(1) by (simp add: starts_with_def) (metis append_take_drop_id)
  then have "separators (drop (length prefix) l) = separators l" using assms(2) by (metis add_0 separators_simps(2))
  then show ?thesis by (simp add: fields_of_def length_split)
qed

text \<open>A line with more than four separators says nothing to the parser.\<close>

lemma crowded_lines_are_dropped: "list_all (\<lambda>l. 4 < separators l) ls \<Longrightarrow> iter_findings ls = []"
proof (induction ls)
  case (Cons l ls)
  let ?l = "strip l"
  have n: "4 < separators ?l" using Cons.prems by simp
  have p: "separators BULLET_PREFIX = 0" "separators H3_PREFIX = 0" by code_simp+
  have "parse_bullet ?l = []" if "starts_with ?l BULLET_PREFIX"
    using fields_of_length [OF that p(1)] n by (auto simp: parse_bullet_def split: list.splits)
  moreover have "parse_h3 ?l cause = []" if "starts_with ?l H3_PREFIX" for cause
    using fields_of_length [OF that p(2)] n by (auto simp: parse_h3_def split: list.splits)
  ultimately show ?case using Cons by (simp add: Let_def)
qed simp


text \<open>
  The machine-readable block is read exactly: whatever the text of the block decodes to, an array of
  items gives the findings of the items that are not fixed, in order, and nothing outside the block
  matters.
\<close>

theorem json_block_exact:
  assumes "list_all plain_line (before @ body @ rest)" and "list_all (\<lambda>l. strip l \<noteq> JSON_BLOCK_SECTION) before"
    and "list_all (\<lambda>l. strip l \<noteq> JSON_FENCE_CLOSE) body"
    and "loads (join_with [CHR 0x0A] body) = Some (PList (map block_item xs))"
    and "list_all (\<lambda>x. strip (rf_file (snd x)) = rf_file (snd x) \<and> rf_file (snd x) \<noteq> []) xs"
    and "text = join_with [CHR 0x0A] (before @ [JSON_BLOCK_SECTION, JSON_FENCE_OPEN] @ body @ JSON_FENCE_CLOSE # rest)"
  shows "parse_json_block srepr loads files (Str text) = Inr (Some (map snd (filter (\<lambda>x. \<not> fst x) xs)))"
proof -
  let ?ls = "before @ [JSON_BLOCK_SECTION, JSON_FENCE_OPEN] @ body @ JSON_FENCE_CLOSE # rest"
  have "list_all plain_line [JSON_BLOCK_SECTION, JSON_FENCE_OPEN, JSON_FENCE_CLOSE]" by code_simp
  then have lines: "splitlines text = ?ls"
    unfolding assms(6) using assms(1) by (intro splitlines_join) (auto simp: list_all_iff)
  have strips: "strip JSON_BLOCK_SECTION = JSON_BLOCK_SECTION" "strip JSON_FENCE_OPEN = JSON_FENCE_OPEN"
      "strip JSON_FENCE_CLOSE = JSON_FENCE_CLOSE" "\<not> starts_with JSON_FENCE_OPEN H2_PREFIX" by code_simp+
  have "after_block_header ?ls = Some ([JSON_FENCE_OPEN] @ body @ JSON_FENCE_CLOSE # rest)"
    using assms(2) strips(1) by (induction before) simp_all
  moreover have "after_fence ([JSON_FENCE_OPEN] @ body @ JSON_FENCE_CLOSE # rest) = Some (body @ JSON_FENCE_CLOSE # rest)"
    using strips by simp
  moreover have "takeWhile (\<lambda>l. strip l \<noteq> JSON_FENCE_CLOSE) (body @ JSON_FENCE_CLOSE # rest) = body"
    using assms(3) strips(3) by (induction body) simp_all
  ultimately have "extract_json_block_text text = Some (join_with [CHR 0x0A] body)"
    by (simp add: extract_json_block_text_def lines)
  moreover have "CHR 0x0A \<in> set text"
  proof (cases before)
    case Nil
    then show ?thesis unfolding assms(6) by simp
  next
    case (Cons b bs)
    then show ?thesis unfolding assms(6) by (cases bs) simp_all
  qed
  ultimately show ?thesis
    using assms(4) items_findings_block [OF assms(5), of srepr]
    by (simp add: parse_json_block_def read_source_def)
qed

text \<open>
  A model answer can still make the extraction raise: an item with a file whose line is the JSON
  number \<^verbatim>\<open>Infinity\<close> ends in \<^verbatim>\<open>OverflowError\<close>, although the extraction is documented to need no exception
  handling.
\<close>

theorem extraction_overflows:
  assumes "strip section_text \<noteq> []" and "extract_json_array loads response = Some (PDict d # items)"
    and "answer (build_extract_prompt instructions section_text) = response"
    and "dict_get d ''line'' PNone = PFloat PosInf" and "strip (str_field srepr d ''file'') \<noteq> []"
  shows "extract_findings srepr loads answer instructions section_text = Inl Line_Overflow"
  using assms by (simp add: extract_findings_def parse_extracted_def item_finding_def Let_def)

subsection \<open>Witnesses\<close>

definition demo_finding :: report_finding where
  "demo_finding = \<lparr>rf_bug_id = ''B-1'', rf_severity = ''high'', rf_category = ''xss'', rf_file = ''a/b.py'',
     rf_line = 12, rf_rationale = ''unescaped''\<rparr>"

definition demo_fields :: "string list" where
  "demo_fields = [''B-1'', ''k'', ''high'', ''xss'', ''a.py:12'', ''confirmed'', ''2-1'', ''unescaped'']"


lemma report_roundtrip_witness:
  "\<exists>text. parse_report (\<lambda>p. None) (Str text) = Inr [demo_finding]"
proof -
  have "list_all clean_finding [demo_finding]" "list_all (\<lambda>f. plain_line (render_bullet f)) [demo_finding]"
    by code_simp+
  from report_roundtrip [OF this refl] show ?thesis by blast
qed

definition demo_items :: "(bool \<times> report_finding) list" where
  "demo_items = [(True, demo_finding), (False, demo_finding)]"

definition demo_block :: json_loads where
  "demo_block s = (if s = ''[...]'' then Some (PList (map block_item demo_items)) else None)"

lemma json_block_exact_witness:
  "\<exists>text. parse_json_block (\<lambda>v. []) demo_block (\<lambda>p. None) (Str text) = Inr (Some [demo_finding])"
proof -
  have facts: "list_all plain_line ([''# R''] @ [''[...]''] @ [''end''])"
    "list_all (\<lambda>l. strip l \<noteq> JSON_BLOCK_SECTION) [''# R'']" "list_all (\<lambda>l. strip l \<noteq> JSON_FENCE_CLOSE) [''[...]'']"
    "list_all (\<lambda>x. strip (rf_file (snd x)) = rf_file (snd x) \<and> rf_file (snd x) \<noteq> []) demo_items"
    by code_simp+
  have "demo_block (join_with [CHR 0x0A] [''[...]'']) = Some (PList (map block_item demo_items))"
    by (simp add: demo_block_def)
  moreover have "map snd (filter (\<lambda>x. \<not> fst x) demo_items) = [demo_finding]" by (simp add: demo_items_def)
  ultimately show ?thesis
    using json_block_exact [where before = "[''# R'']" and body = "[''[...]'']" and rest = "[''end'']"
        and loads = demo_block and xs = demo_items and srepr = "\<lambda>v. []" and files = "\<lambda>p. None"] facts
    by metis
qed

lemma extraction_overflows_witness:
  "extract_findings (\<lambda>v. []) (\<lambda>s. Some (PList [PDict [(''file'', PStr ''a''), (''line'', PFloat PosInf)]]))
     (\<lambda>prompt. ''[]'') [] ''x'' = Inl Line_Overflow"
  by (rule extraction_overflows [where response = "''[]''" and items = "[]"]) code_simp+

end
