(* ===== verification/Jsonl.thy ===== *)
theory Jsonl
  imports Py_Json
begin

text \<open>
  The append-only record files of \<^verbatim>\<open>scripts/_mark_batch_covered.py\<close>: opening only regular files,
  the bounded read of the newest records, and the append.  Bytes are \<^typ>\<open>char\<close>s; \<open>bytes.decode\<close>
  and \<open>json.loads\<close> are the parameter \<open>parse\<close> (\<open>None\<close> for \<open>UnicodeDecodeError\<close> and
  \<open>JSONDecodeError\<close>).
\<close>

type_synonym bytes = string
type_synonym parser = "bytes \<Rightarrow> pyval option"

definition LF :: char where "LF = CHR 0x0A"

definition blen :: "bytes \<Rightarrow> int" where "blen b = int (length b)"

lemma blen_simps [simp]: "blen [] = 0" "blen (c # b) = 1 + blen b" "blen (a @ b) = blen a + blen b" "0 \<le> blen b"
  by (simp_all add: blen_def)

text \<open>
  What a path holds.  A pipe that nobody reads blocks a writer that opens it; a symbolic link or a
  file without permission cannot be opened; a directory, device or socket is not regular.
\<close>

datatype node = Absent | Regular bytes | Pipe | Special | Unopenable

text \<open>\<open>CheckpointError\<close>, an uncaught \<open>TypeError\<close>, and an \<open>open\<close> that does not return.\<close>

datatype ck_error = Checkpoint_Error | Type_Error | Blocked

definition MAX_JSONL_LINE_BYTES :: int where "MAX_JSONL_LINE_BYTES = 65536"

subsection \<open>Reading\<close>

definition read_bounded :: "int \<Rightarrow> node \<Rightarrow> ck_error + bytes" where
  "read_bounded max_bytes n =
     (case n of
        Regular b \<Rightarrow> if blen b > max_bytes then Inl Checkpoint_Error else Inr b
      | _ \<Rightarrow> Inl Checkpoint_Error)"

definition load_json_object :: "parser \<Rightarrow> int \<Rightarrow> node \<Rightarrow> ck_error + dict" where
  "load_json_object parse max_bytes n =
     bind_res (read_bounded max_bytes n) (\<lambda>b.
     case parse b of Some (PDict d) \<Rightarrow> Inr d | _ \<Rightarrow> Inl Checkpoint_Error)"

text \<open>\<open>bytes.splitlines\<close>: \<open>\n\<close>, \<open>\r\<close> and \<open>\r\n\<close> end a line.\<close>

fun byte_lines :: "bytes \<Rightarrow> bytes list" where
  "byte_lines [] = []"
| "byte_lines (c # cs) =
     (if c = LF then [] # byte_lines cs
      else if c = CHR 0x0D then
        [] # (case cs of [] \<Rightarrow> [] | d # ds \<Rightarrow> if d = LF then byte_lines ds else byte_lines cs)
      else (case byte_lines cs of [] \<Rightarrow> [[c]] | l # ls \<Rightarrow> (c # l) # ls))"

text \<open>The window of the newest bytes, without a cut first line and without an unfinished last one.\<close>

definition drop_first_line :: "bytes \<Rightarrow> bytes" where
  "drop_first_line b = drop 1 (dropWhile (\<lambda>c. c \<noteq> LF) b)"

definition upto_last_newline :: "bytes \<Rightarrow> bytes" where
  "upto_last_newline b = rev (dropWhile (\<lambda>c. c \<noteq> LF) (rev b))"

definition committed :: "int \<Rightarrow> bytes \<Rightarrow> bytes" where
  "committed max_bytes data =
     (let offset = nat (blen data - max_bytes);
          raw = (if offset > 0 then drop_first_line (drop offset data) else data)
      in if raw \<noteq> [] \<and> last raw \<noteq> LF then upto_last_newline raw else raw)"

definition record_of :: "parser \<Rightarrow> bytes \<Rightarrow> dict option" where
  "record_of parse l =
     (if l = [] \<or> blen l > MAX_JSONL_LINE_BYTES then None
      else (case parse l of Some (PDict d) \<Rightarrow> Some d | _ \<Rightarrow> None))"

definition line_records :: "parser \<Rightarrow> bytes \<Rightarrow> dict list" where
  "line_records parse b = List.map_filter (record_of parse) (byte_lines b)"

definition read_jsonl_tail :: "parser \<Rightarrow> int \<Rightarrow> node \<Rightarrow> ck_error + dict list" where
  "read_jsonl_tail parse max_bytes n =
     (case n of
        Regular b \<Rightarrow> Inr (line_records parse (committed max_bytes b))
      | Unopenable \<Rightarrow> Inl Checkpoint_Error
      | _ \<Rightarrow> Inr [])"

subsection \<open>Writing\<close>

text \<open>\<open>s.encode("utf-8")\<close> below code point 256.\<close>

definition utf8_encode :: "string \<Rightarrow> bytes" where
  "utf8_encode s = concat (map (\<lambda>c. let n = of_char c :: nat in
     if n < 128 then [c] else [char_of (192 + n div 64), char_of (128 + n mod 64)]) s)"

definition jsonl_bytes :: "(pyfloat \<Rightarrow> string) \<Rightarrow> dict \<Rightarrow> ck_error + bytes" where
  "jsonl_bytes frepr v =
     (let data = utf8_encode (json_dumps False frepr (PDict v)) @ [LF]
      in if blen data > MAX_JSONL_LINE_BYTES then Inl Checkpoint_Error else Inr data)"

fun jsonl_all :: "(pyfloat \<Rightarrow> string) \<Rightarrow> dict list \<Rightarrow> ck_error + bytes list" where
  "jsonl_all frepr [] = Inr []"
| "jsonl_all frepr (v # vs) =
     bind_res (jsonl_bytes frepr v) (\<lambda>b. bind_res (jsonl_all frepr vs) (\<lambda>bs. Inr (b # bs)))"

definition append_bytes :: "bytes list \<Rightarrow> node \<Rightarrow> ck_error + node" where
  "append_bytes payloads n =
     (if payloads = [] then Inr n
      else (case n of
          Regular b \<Rightarrow> Inr (Regular (b @ concat payloads))
        | Absent \<Rightarrow> Inr (Regular (concat payloads))
        | Pipe \<Rightarrow> Inl Blocked
        | _ \<Rightarrow> Inl Checkpoint_Error))"

subsection \<open>Lines and windows\<close>

text \<open>A file of whole lines: empty, or ending in a newline.\<close>

definition whole_lines :: "bytes \<Rightarrow> bool" where
  "whole_lines b \<longleftrightarrow> b = [] \<or> last b = LF"

lemma whole_lines_simps [simp]: "whole_lines []" "whole_lines (b @ [LF])"
  by (simp_all add: whole_lines_def)

lemma whole_lines_append [intro]: "whole_lines a \<Longrightarrow> whole_lines b \<Longrightarrow> whole_lines (a @ b)"
  by (cases "b = []") (auto simp: whole_lines_def)

lemma byte_lines_ne [simp]: "byte_lines (c # cs) \<noteq> []"
  by (auto split: list.split)

lemma byte_lines_append: "byte_lines (a @ LF # b) = byte_lines (a @ [LF]) @ byte_lines b"
proof (induction a rule: byte_lines.induct)
  case (2 c cs)
  consider "c = LF" | "c = CHR 0x0D" "cs = []" | d ds where "c = CHR 0x0D" "cs = d # ds" | "c \<noteq> LF" "c \<noteq> CHR 0x0D"
    by (cases cs) auto
  then show ?case
  proof cases
    case 1
    then show ?thesis using "2.IH"(1) by simp
  next
    case 2
    then show ?thesis by (simp add: LF_def)
  next
    case 3
    then show ?thesis using "2.IH" by (auto simp: LF_def)
  next
    case 4
    then have IH: "byte_lines (cs @ LF # b) = byte_lines (cs @ [LF]) @ byte_lines b"
      using "2.IH"(4) by simp
    have "byte_lines (cs @ [LF]) \<noteq> []" by (cases "cs @ [LF]") (simp_all del: byte_lines.simps)
    then obtain l ls where "byte_lines (cs @ [LF]) = l # ls" by (cases "byte_lines (cs @ [LF])") simp_all
    with 4 IH show ?thesis by simp
  qed
qed (simp add: LF_def)

lemma byte_lines_whole: "whole_lines a \<Longrightarrow> byte_lines (a @ b) = byte_lines a @ byte_lines b"
proof (cases a rule: rev_cases)
  case (snoc ys y)
  moreover assume "whole_lines a"
  ultimately show ?thesis using byte_lines_append [of ys b] by (simp add: whole_lines_def)
qed simp

lemma line_records_append: "whole_lines a \<Longrightarrow> line_records parse (a @ b) = line_records parse a @ line_records parse b"
  by (simp add: line_records_def byte_lines_whole List.map_filter_def)

lemma whole_lines_dropWhile: "whole_lines (rev (dropWhile (\<lambda>c. c \<noteq> LF) b))"
  by (induction b) auto

lemma upto_last_newline_split: "\<exists>r. b = upto_last_newline b @ r \<and> LF \<notin> set r \<and> whole_lines (upto_last_newline b)"
proof -
  have "b = upto_last_newline b @ rev (takeWhile (\<lambda>c. c \<noteq> LF) (rev b))"
    unfolding upto_last_newline_def by (simp flip: rev_append)
  moreover have "LF \<notin> set (rev (takeWhile (\<lambda>c. c \<noteq> LF) (rev b)))" by (auto dest: set_takeWhileD)
  ultimately show ?thesis using whole_lines_dropWhile unfolding upto_last_newline_def by blast
qed

lemma drop_first_line_suffix: "drop_first_line b = [] \<or> (\<exists>p. b = (p @ [LF]) @ drop_first_line b)"
proof (cases "dropWhile (\<lambda>c. c \<noteq> LF) b")
  case Nil
  then show ?thesis unfolding drop_first_line_def by (simp only: drop_Nil simp_thms)
next
  case (Cons c r)
  then have "c = LF" by (simp add: dropWhile_eq_Cons_conv)
  then have "b = (takeWhile (\<lambda>c. c \<noteq> LF) b @ [LF]) @ drop_first_line b"
    using Cons takeWhile_dropWhile_id [of "\<lambda>c. c \<noteq> LF" b] by (simp add: drop_first_line_def)
  then show ?thesis by blast
qed

text \<open>What is read is a run of whole lines that reaches up to the unfinished last line.\<close>

lemma committed_raw:
  assumes "whole_lines p" and "b = p @ raw"
  shows "\<exists>q. b = p @ (if raw \<noteq> [] \<and> last raw \<noteq> LF then upto_last_newline raw else raw) @ q \<and> LF \<notin> set q"
proof (cases "raw \<noteq> [] \<and> last raw \<noteq> LF")
  case True
  obtain q where "raw = upto_last_newline raw @ q" "LF \<notin> set q" using upto_last_newline_split by blast
  then show ?thesis using True assms(2) by force
qed (use assms(2) in auto)

lemma committed_suffix:
  "\<exists>p q. b = p @ committed max_bytes b @ q \<and> whole_lines p \<and> LF \<notin> set q \<and> (blen b \<le> max_bytes \<longrightarrow> p = [])"
proof -
  let ?offset = "nat (blen b - max_bytes)"
  let ?raw = "drop_first_line (drop ?offset b)"
  consider "?offset = 0" | "?offset > 0" "?raw = []" | "?offset > 0" "?raw \<noteq> []" by blast
  then show ?thesis
  proof cases
    case 1
    then have "committed max_bytes b = (if b \<noteq> [] \<and> last b \<noteq> LF then upto_last_newline b else b)"
      by (simp add: committed_def Let_def)
    then obtain q where "b = [] @ committed max_bytes b @ q" "LF \<notin> set q"
      using committed_raw [of "[]" b b] by fastforce
    then show ?thesis using whole_lines_simps(1) by blast
  next
    case 2
    then have "committed max_bytes b = []" by (simp add: committed_def)
    then show ?thesis using 2(1) upto_last_newline_split [of b] by force
  next
    case 3
    then obtain p where "drop ?offset b = (p @ [LF]) @ ?raw" using drop_first_line_suffix by blast
    then have "b = ((take ?offset b @ p) @ [LF]) @ ?raw" by (metis append.assoc append_take_drop_id)
    then obtain q where "b = ((take ?offset b @ p) @ [LF]) @
        (if ?raw \<noteq> [] \<and> last ?raw \<noteq> LF then upto_last_newline ?raw else ?raw) @ q" "LF \<notin> set q"
      using committed_raw [OF whole_lines_simps(2)] by blast
    moreover have "committed max_bytes b = (if ?raw \<noteq> [] \<and> last ?raw \<noteq> LF then upto_last_newline ?raw else ?raw)"
      using 3(1) by (simp add: committed_def Let_def)
    ultimately have "b = ((take ?offset b @ p) @ [LF]) @ committed max_bytes b @ q \<and>
        whole_lines ((take ?offset b @ p) @ [LF]) \<and> LF \<notin> set q \<and> \<not> blen b \<le> max_bytes"
      using 3(1) by (simp add: whole_lines_def)
    then show ?thesis by blast
  qed
qed

text \<open>A file that fits its window and holds whole lines is read in full.\<close>

lemma committed_all: "whole_lines b \<Longrightarrow> blen b \<le> max_bytes \<Longrightarrow> committed max_bytes b = b"
  by (auto simp: committed_def whole_lines_def Let_def)

lemma committed_whole: "whole_lines (committed max_bytes b)"
  using upto_last_newline_split by (auto simp: committed_def whole_lines_def Let_def)

subsection \<open>What is written reads back\<close>

text \<open>The line of a record, and the documented round trip of the codec: the keys come back sorted.\<close>

definition encoded :: "(pyfloat \<Rightarrow> string) \<Rightarrow> dict \<Rightarrow> bytes" where
  "encoded frepr v = utf8_encode (json_dumps False frepr (PDict v))"

definition reads_back :: "parser \<Rightarrow> (pyfloat \<Rightarrow> string) \<Rightarrow> dict \<Rightarrow> bool" where
  "reads_back parse frepr v \<longleftrightarrow> parse (encoded frepr v) = Some (PDict (sort_key fst v))"

text \<open>A dictionary of integers and strings, as every record of these files is.\<close>

definition flat :: "dict \<Rightarrow> bool" where
  "flat v \<longleftrightarrow> distinct (map fst v) \<and> list_all (\<lambda>kv. (\<exists>i. snd kv = PInt i) \<or> (\<exists>s. snd kv = PStr s)) v"

definition no_break :: "string \<Rightarrow> bool" where
  "no_break s \<longleftrightarrow> LF \<notin> set s \<and> CHR 0x0D \<notin> set s"

lemma no_break_simps [simp]:
  "no_break []" "no_break (c # s) \<longleftrightarrow> c \<noteq> LF \<and> c \<noteq> CHR 0x0D \<and> no_break s"
  "no_break (s @ t) \<longleftrightarrow> no_break s \<and> no_break t"
  by (auto simp: no_break_def)

lemma no_break_concat: "no_break (concat ss) \<longleftrightarrow> (\<forall>s\<in>set ss. no_break s)"
  by (induction ss) auto

lemma no_break_join: "no_break sep \<Longrightarrow> (\<forall>s\<in>set ss. no_break s) \<Longrightarrow> no_break (join_with sep ss)"
  by (induction sep ss rule: join_with.induct) auto

lemma char_of_break: "n < 256 \<Longrightarrow> n \<noteq> 10 \<Longrightarrow> n \<noteq> 13 \<Longrightarrow> char_of n \<noteq> LF \<and> char_of (n :: nat) \<noteq> CHR 0x0D"
proof -
  assume n: "n < 256" "n \<noteq> 10" "n \<noteq> 13"
  have "of_char (char_of n :: char) = n" using n(1) by simp
  moreover have "of_char LF = (10 :: nat)" "of_char (CHR 0x0D) = (13 :: nat)" by (simp_all add: LF_def)
  ultimately show ?thesis using n(2,3) by metis
qed

lemma char_code: "c \<noteq> LF" "c \<noteq> CHR 0x0D" if "of_char c \<noteq> (10 :: nat)" "of_char c \<noteq> (13 :: nat)"
  using that by (auto simp: LF_def)

lemma letter_codes: "CHR ''n'' \<noteq> LF" "CHR ''r'' \<noteq> LF"
  by (simp_all add: LF_def)

lemma no_break_escape: "no_break (escape_char False c)"
proof -
  consider "of_char c = (10 :: nat)" | "of_char c = (13 :: nat)" | "of_char c \<noteq> (10 :: nat)" "of_char c \<noteq> (13 :: nat)" by blast
  then show ?thesis
  proof cases
    case 3
    have h: "hex_digit n \<noteq> LF \<and> hex_digit n \<noteq> CHR 0x0D" if "n < 16" for n
      using that by (simp add: hex_digit_def char_of_break)
    have "of_char c div 16 < (16 :: nat)" by (simp add: less_mult_imp_div_less)
    then show ?thesis using 3 h [of "of_char c div 16"] h [of "of_char c mod 16"] char_code [OF 3] char_of_break [of 92] char_of_break [of 34]
      by (auto simp: escape_char_def Let_def char_of_break LF_def)
  qed (simp_all add: escape_char_def Let_def char_of_break letter_codes)
qed

lemma no_break_json_str: "no_break (json_str False s)"
  by (auto simp: json_str_def no_break_concat no_break_escape char_of_break)

lemma no_break_nat_str: "no_break (nat_str n)"
proof (induction n rule: nat_str.induct)
  case (1 n)
  have "no_break [digit_char k]" if "k < 10" for k using that by (simp add: digit_char_def char_of_break)
  then show ?case using 1 by (simp add: nat_str.simps [of n] del: no_break_simps(2))
qed

lemma no_break_int_str: "no_break (int_str i)"
  by (simp add: int_str_def no_break_nat_str LF_def)

lemma no_break_utf8: "no_break s \<Longrightarrow> no_break (utf8_encode s)"
proof (induction s)
  case (Cons c s)
  have "of_char c div 64 < (4 :: nat)" by (simp add: less_mult_imp_div_less)
  moreover have "of_char c mod 64 < (64 :: nat)" by simp
  ultimately have "char_of (192 + of_char c div 64 :: nat) \<noteq> LF \<and> char_of (192 + of_char c div 64 :: nat) \<noteq> CHR 0x0D"
    "char_of (128 + of_char c mod 64 :: nat) \<noteq> LF \<and> char_of (128 + of_char c mod 64 :: nat) \<noteq> CHR 0x0D"
    by (simp_all add: char_of_break)
  with Cons show ?case by (simp add: utf8_encode_def Let_def)
qed (simp add: utf8_encode_def)

lemma no_break_encoded: "flat v \<Longrightarrow> no_break (encoded frepr v)"
proof -
  assume f: "flat v"
  have "no_break (json_dumps False frepr y)" if "(k, y) \<in> set v" for k y
    using that f by (fastforce simp: flat_def list_all_iff no_break_json_str no_break_int_str)
  then have "no_break (json_dumps False frepr (PDict v))"
    by (auto intro!: no_break_join simp: no_break_json_str LF_def)
  then show ?thesis unfolding encoded_def by (rule no_break_utf8)
qed

lemma encoded_ne [simp]: "encoded frepr v \<noteq> []"
  by (simp add: encoded_def utf8_encode_def)

lemma byte_lines_line: "no_break l \<Longrightarrow> byte_lines (l @ [LF]) = [l]"
  by (induction l) auto

lemma jsonl_bytes_line: "blen (encoded frepr v) < MAX_JSONL_LINE_BYTES \<Longrightarrow> jsonl_bytes frepr v = Inr (encoded frepr v @ [LF])"
  by (simp add: jsonl_bytes_def encoded_def)

lemma jsonl_all_Inr:
  "jsonl_all frepr vs = Inr bs \<Longrightarrow> bs = map (\<lambda>v. encoded frepr v @ [LF]) vs \<and>
     list_all (\<lambda>v. blen (encoded frepr v) < MAX_JSONL_LINE_BYTES) vs"
  by (induction vs arbitrary: bs) (auto simp: bind_res_Inr_iff jsonl_bytes_def Let_def encoded_def split: if_splits)

lemma jsonl_all_append:
  "jsonl_all frepr (vs @ ws) = bind_res (jsonl_all frepr vs) (\<lambda>a. bind_res (jsonl_all frepr ws) (\<lambda>b. Inr (a @ b)))"
  by (induction vs) (auto simp: bind_res_def split: sum.split)

lemma jsonl_all_subset: "jsonl_all frepr vs = Inr bs \<Longrightarrow> set ws \<subseteq> set vs \<Longrightarrow>
    jsonl_all frepr ws = Inr (map (\<lambda>v. encoded frepr v @ [LF]) ws)"
proof -
  assume all: "jsonl_all frepr vs = Inr bs" and sub: "set ws \<subseteq> set vs"
  have "blen (encoded frepr v) < MAX_JSONL_LINE_BYTES" if "v \<in> set ws" for v
    using that sub jsonl_all_Inr [OF all] by (auto simp: list_all_iff)
  then show ?thesis by (induction ws) (simp_all add: jsonl_bytes_line)
qed

lemma whole_lines_written: "whole_lines (concat (map (\<lambda>v. encoded frepr v @ [LF]) vs))"
  by (induction vs rule: rev_induct) (auto simp: whole_lines_def)

lemma line_records_written:
  "list_all flat vs \<Longrightarrow> list_all (reads_back parse frepr) vs \<Longrightarrow>
     list_all (\<lambda>v. blen (encoded frepr v) < MAX_JSONL_LINE_BYTES) vs \<Longrightarrow>
     line_records parse (concat (map (\<lambda>v. encoded frepr v @ [LF]) vs)) = map (sort_key fst) vs"
proof (induction vs)
  case (Cons v vs)
  have "record_of parse (encoded frepr v) = Some (sort_key fst v)"
    using Cons.prems by (simp add: record_of_def reads_back_def)
  moreover have "line_records parse (encoded frepr v @ [LF]) = List.map_filter (record_of parse) [encoded frepr v]"
    using Cons.prems by (simp add: line_records_def byte_lines_line no_break_encoded)
  ultimately have one: "line_records parse (encoded frepr v @ [LF]) = [sort_key fst v]"
    by (simp add: List.map_filter_simps)
  have "line_records parse ((encoded frepr v @ [LF]) @ concat (map (\<lambda>v. encoded frepr v @ [LF]) vs)) =
      sort_key fst v # map (sort_key fst) vs"
    unfolding line_records_append [OF whole_lines_simps(2)] one using Cons by simp
  then show ?case by simp
qed (simp add: line_records_def List.map_filter_simps)

lemma dict_get_sort_key: "flat v \<Longrightarrow> dict_get (sort_key fst v) k x = dict_get v k x"
  by (simp add: dict_get_def map_of_sort_key flat_def)

lemma append_bytes_append: "append_bytes (xs @ ys) n = bind_res (append_bytes xs n) (append_bytes ys)"
  by (cases n) (auto simp: append_bytes_def)

text \<open>A file that was left after a whole line, or is not there yet.\<close>

fun node_bytes :: "node \<Rightarrow> bytes" where
  "node_bytes (Regular b) = b"
| "node_bytes _ = []"

definition clean_node :: "node \<Rightarrow> bool" where
  "clean_node n \<longleftrightarrow> (n = Absent \<or> (\<exists>b. n = Regular b)) \<and> whole_lines (node_bytes n)"

lemma append_clean: "clean_node n \<Longrightarrow> append_bytes bs n = Inr n' \<Longrightarrow> node_bytes n' = node_bytes n @ concat bs"
  by (cases n) (auto simp: append_bytes_def clean_node_def split: if_splits)

lemma read_clean: "clean_node n \<Longrightarrow> blen (node_bytes n) \<le> m \<Longrightarrow>
    read_jsonl_tail parse m n = Inr (line_records parse (node_bytes n))"
  by (auto simp: clean_node_def read_jsonl_tail_def committed_all) (simp add: line_records_def List.map_filter_simps)

lemma append_lines_clean:
  assumes "clean_node n" and "append_bytes (map (\<lambda>v. encoded frepr v @ [LF]) vs) n = Inr n'"
  shows "clean_node n'" "node_bytes n' = node_bytes n @ concat (map (\<lambda>v. encoded frepr v @ [LF]) vs)"
proof -
  show b: "node_bytes n' = node_bytes n @ concat (map (\<lambda>v. encoded frepr v @ [LF]) vs)"
    using append_clean [OF assms] .
  show "clean_node n'"
    using assms whole_lines_append [OF _ whole_lines_written] whole_lines_written unfolding clean_node_def b
    by (cases n) (auto simp: append_bytes_def split: if_splits)
qed

text \<open>
  The bounded reader agrees with reading everything: what it returns are the records of a run of
  whole lines that ends where the unfinished last line starts, so the records of all the committed
  lines are the ones it leaves out followed by the ones it returns; of a file that fits it leaves out
  none.
\<close>

theorem tail_reads_newest:
  "\<exists>old new torn. b = old @ new @ torn \<and> whole_lines new \<and> LF \<notin> set torn \<and>
     read_jsonl_tail parse m (Regular b) = Inr (line_records parse new) \<and>
     line_records parse (old @ new) = line_records parse old @ line_records parse new \<and>
     (blen b \<le> m \<longrightarrow> old = [])"
proof -
  obtain p q where "b = p @ committed m b @ q" "whole_lines p" "LF \<notin> set q" "blen b \<le> m \<longrightarrow> p = []"
    using committed_suffix by blast
  moreover have "read_jsonl_tail parse m (Regular b) = Inr (line_records parse (committed m b))"
    by (simp add: read_jsonl_tail_def)
  ultimately show ?thesis using committed_whole line_records_append by metis
qed

definition demo_log :: bytes where "demo_log = ''a'' @ [LF] @ ''b'' @ [LF] @ ''to''"

lemma tail_reads_newest_witness:
  "blen demo_log \<le> 100 \<and> (\<exists>new torn. demo_log = new @ torn \<and> LF \<notin> set torn \<and>
     read_jsonl_tail (\<lambda>s. Some (PDict [(s, PNone)])) 100 (Regular demo_log) =
       Inr (line_records (\<lambda>s. Some (PDict [(s, PNone)])) new))"
proof -
  have "blen demo_log \<le> 100" by (simp add: demo_log_def blen_def)
  then show ?thesis using tail_reads_newest [of demo_log "\<lambda>s. Some (PDict [(s, PNone)])" 100] by fastforce
qed

end
