(* ===== verification/Batch_Checkpoint.thy ===== *)
theory Batch_Checkpoint
  imports Jsonl Py_Text
begin

text \<open>
  \<^verbatim>\<open>scripts/_mark_batch_covered.py\<close>: the durable checkpoint of an audited batch.  Snapshots of the
  exact Git objects are appended first, the \<open>batch_covered\<close> event second, and \<^verbatim>\<open>recon.json\<close> is
  replaced last; \<open>verify_run_coverage\<close> reads the three files back.  Git, \<open>Path.resolve\<close>,
  \<open>bytes.decode\<close>, \<open>json.loads\<close>, the text of a float and the indented \<open>json.dump\<close> are parameters.
\<close>

subsection \<open>Limits\<close>

definition MAX_RECON_BYTES :: int where "MAX_RECON_BYTES = 16 * 1024 * 1024"
definition MAX_LEDGER_TAIL_BYTES :: int where "MAX_LEDGER_TAIL_BYTES = 4 * 1024 * 1024"
definition MAX_SNAPSHOT_TAIL_BYTES :: int where "MAX_SNAPSHOT_TAIL_BYTES = 32 * 1024 * 1024"
definition MAX_BATCHES :: int where "MAX_BATCHES = 100000"
definition MAX_TOTAL_FILES :: int where "MAX_TOTAL_FILES = 500000"
definition MAX_BATCH_FILES :: int where "MAX_BATCH_FILES = 50000"
definition MAX_BATCH_PATH_BYTES :: int where "MAX_BATCH_PATH_BYTES = 8 * 1024 * 1024"
definition MAX_PATH_BYTES :: int where "MAX_PATH_BYTES = 4096"
definition MAX_GIT_OUTPUT_BYTES :: int where "MAX_GIT_OUTPUT_BYTES = 2 * 1024 * 1024"

subsection \<open>Git\<close>

text \<open>How a run of Git ends: it does not start, it is killed after the timeout, or it exits.\<close>

datatype git_run = Not_Started | Timed_Out | Exited int bytes

record platform =
  decode :: "bytes \<Rightarrow> string option"
  loads :: json_loads
  float_text :: "pyfloat \<Rightarrow> string"
  dump_doc :: "dict \<Rightarrow> bytes"
  git :: "string \<Rightarrow> string list \<Rightarrow> git_run"
  resolve :: "string \<Rightarrow> string option"
  is_dir :: "string \<Rightarrow> bool"

definition parse :: "platform \<Rightarrow> parser" where
  "parse pf b = Option.bind (decode pf b) (loads pf)"

definition is_oid :: "string \<Rightarrow> bool" where
  "is_oid s \<longleftrightarrow> (length s = 40 \<or> length s = 64) \<and> list_all (\<lambda>c. c \<in> set ''0123456789abcdef'') s"

definition git_bytes :: "platform \<Rightarrow> string \<Rightarrow> int \<Rightarrow> string list \<Rightarrow> ck_error + bytes" where
  "git_bytes pf repo max_bytes args =
     (case git pf repo args of
        Exited code out \<Rightarrow>
          if blen out > max_bytes then Inl Checkpoint_Error
          else if code \<noteq> 0 then Inl Checkpoint_Error
          else Inr out
      | _ \<Rightarrow> Inl Checkpoint_Error)"

definition decode_one_line :: "platform \<Rightarrow> bytes \<Rightarrow> ck_error + string" where
  "decode_one_line pf raw =
     (case decode pf raw of
        None \<Rightarrow> Inl Checkpoint_Error
      | Some s \<Rightarrow> (let t = strip s
                  in if t = [] \<or> LF \<in> set t \<or> CHR 0x00 \<in> set t then Inl Checkpoint_Error else Inr t))"

definition validate_repo :: "platform \<Rightarrow> string \<Rightarrow> ck_error + unit" where
  "validate_repo pf repo =
     (if \<not> is_dir pf repo then Inl Checkpoint_Error
      else bind_res (git_bytes pf repo (16 * 1024) [''rev-parse'', ''--show-toplevel'']) (\<lambda>raw.
           bind_res (decode_one_line pf raw) (\<lambda>top.
           guard (resolve pf top = Some repo) Checkpoint_Error)))"

definition resolve_commit :: "platform \<Rightarrow> string \<Rightarrow> string \<Rightarrow> ck_error + string" where
  "resolve_commit pf repo revision =
     (if revision \<noteq> ''HEAD'' \<and> \<not> is_oid revision then Inl Checkpoint_Error
      else bind_res (git_bytes pf repo 256 [''rev-parse'', ''--verify'', revision @ ''^{commit}'']) (\<lambda>raw.
           bind_res (decode_one_line pf raw) (\<lambda>oid.
           if is_oid oid then Inr oid else Inl Checkpoint_Error)))"

subsection \<open>The recon plan\<close>

definition batch_id :: "pyval \<Rightarrow> ck_error + int" where
  "batch_id v = (case v of PInt i \<Rightarrow> if i < 1 then Inl Checkpoint_Error else Inr i | _ \<Rightarrow> Inl Checkpoint_Error)"

definition safe_path :: "string \<Rightarrow> bool" where
  "safe_path p \<longleftrightarrow> p \<noteq> [] \<and> CHR 0x00 \<notin> set p \<and> \<not> starts_with p ''/'' \<and>
     list_all (\<lambda>part. part \<notin> {[], ''.'', ''..''}) (split_on (CHR ''/'') p) \<and>
     list_all (\<lambda>c. \<not> (of_char c < (32::nat)) \<and> of_char c \<noteq> (127::nat)) p \<and>
     int (utf8_length p) \<le> MAX_PATH_BYTES"

definition repo_path :: "pyval \<Rightarrow> ck_error + string" where
  "repo_path v = (case v of PStr p \<Rightarrow> if safe_path p then Inr p else Inl Checkpoint_Error | _ \<Rightarrow> Inl Checkpoint_Error)"

text \<open>What the loop over the batches has seen: ids, files, bytes of paths, and the result so far.\<close>

record plan_scan =
  sc_ids :: "int list"
  sc_files :: "string list"
  sc_bytes :: int
  sc_batches :: "(int \<times> string list) list"

definition int_in :: "int \<Rightarrow> int \<Rightarrow> 'a list \<Rightarrow> bool" where
  "int_in lo hi xs \<longleftrightarrow> lo \<le> int (length xs) \<and> int (length xs) \<le> hi"

definition batch_paths :: "dict \<Rightarrow> ck_error + string list" where
  "batch_paths b =
     (case map_of b ''files'' of
        Some (PList raw) \<Rightarrow>
          if int_in 1 MAX_BATCH_FILES raw then map_res repo_path raw else Inl Checkpoint_Error
      | _ \<Rightarrow> Inl Checkpoint_Error)"

definition check_batch_fields :: "dict \<Rightarrow> ck_error + unit" where
  "check_batch_fields b =
     bind_res (case map_of b ''dir'' of None \<Rightarrow> Inr () | Some v \<Rightarrow> guard (is_str v) Checkpoint_Error) (\<lambda>_.
     bind_res (case map_of b ''tier'' of
         None \<Rightarrow> Inr ()
       | Some v \<Rightarrow> bind_res (guard (hashable v) Type_Error) (\<lambda>_.
           guard (v \<in> {PStr ''critical'', PStr ''normal'', PStr ''low''}) Checkpoint_Error)) (\<lambda>_.
     case map_of b ''deferred'' of None \<Rightarrow> Inr () | Some v \<Rightarrow> guard (is_bool v) Checkpoint_Error))"

definition scan_batch :: "plan_scan \<Rightarrow> pyval \<Rightarrow> ck_error + plan_scan" where
  "scan_batch sc raw =
     (case raw of
        PDict b \<Rightarrow>
          bind_res (batch_id (dict_get b ''id'' PNone)) (\<lambda>i.
          bind_res (guard (i \<notin> set (sc_ids sc)) Checkpoint_Error) (\<lambda>_.
          bind_res (batch_paths b) (\<lambda>fs.
          bind_res (guard (distinct fs \<and> set fs \<inter> set (sc_files sc) = {}) Checkpoint_Error) (\<lambda>_.
          (let n = sc_bytes sc + sum_list (map (\<lambda>f. int (utf8_length f)) fs)
           in bind_res (guard (int (length (sc_files sc) + length fs) \<le> MAX_TOTAL_FILES \<and> n \<le> MAX_BATCH_PATH_BYTES)
                  Checkpoint_Error) (\<lambda>_.
              bind_res (check_batch_fields b) (\<lambda>_.
              Inr \<lparr>sc_ids = sc_ids sc @ [i], sc_files = sc_files sc @ fs, sc_bytes = n,
                   sc_batches = sc_batches sc @ [(i, sort fs)]\<rparr>)))))))
      | _ \<Rightarrow> Inl Checkpoint_Error)"

fun scan_batches :: "plan_scan \<Rightarrow> pyval list \<Rightarrow> ck_error + plan_scan" where
  "scan_batches sc [] = Inr sc"
| "scan_batches sc (b # bs) = bind_res (scan_batch sc b) (\<lambda>sc'. scan_batches sc' bs)"

definition check_count :: "dict \<Rightarrow> string \<Rightarrow> int \<Rightarrow> ck_error + unit" where
  "check_count d k n =
     (case map_of d k of None \<Rightarrow> Inr () | Some v \<Rightarrow> guard (v = PInt n) Checkpoint_Error)"

definition plan_batches :: "dict \<Rightarrow> ck_error + pyval list" where
  "plan_batches recon =
     (case map_of recon ''batches'' of
        Some (PList raw) \<Rightarrow> if int_in 1 MAX_BATCHES raw then Inr raw else Inl Checkpoint_Error
      | _ \<Rightarrow> Inl Checkpoint_Error)"

definition plan_covered :: "dict \<Rightarrow> int list \<Rightarrow> ck_error + int list" where
  "plan_covered recon ids =
     (case dict_get recon ''covered'' (PList []) of
        PList raw \<Rightarrow>
          bind_res (map_res batch_id raw) (\<lambda>covered.
          if distinct covered \<and> set covered \<subseteq> set ids then Inr covered else Inl Checkpoint_Error)
      | _ \<Rightarrow> Inl Checkpoint_Error)"

definition empty_scan :: plan_scan where
  "empty_scan = \<lparr>sc_ids = [], sc_files = [], sc_bytes = 0, sc_batches = []\<rparr>"

definition validate_recon_plan :: "dict \<Rightarrow> ck_error + (int \<times> string list) list \<times> int list" where
  "validate_recon_plan recon =
     bind_res (plan_batches recon) (\<lambda>raw.
     bind_res (scan_batches empty_scan raw) (\<lambda>sc.
     bind_res (check_count recon ''batch_count'' (int (length raw))) (\<lambda>_.
     bind_res (check_count recon ''files_in_scope'' (int (length (sc_files sc)))) (\<lambda>_.
     bind_res (plan_covered recon (sc_ids sc)) (\<lambda>covered.
     Inr (sc_batches sc, covered))))))"

definition validate_recon :: "dict \<Rightarrow> int \<Rightarrow> ck_error + string list \<times> int list" where
  "validate_recon recon requested =
     bind_res (validate_recon_plan recon) (\<lambda>(batches, covered).
     case map_of batches requested of None \<Rightarrow> Inl Checkpoint_Error | Some fs \<Rightarrow> Inr (fs, covered))"

subsection \<open>Exact Git objects\<close>

text \<open>Paths in chunks of at most 200 paths and 32,000 bytes, for one command line each.\<close>

fun chunk_paths :: "string list \<Rightarrow> int \<Rightarrow> string list \<Rightarrow> string list list" where
  "chunk_paths cur n [] = (if cur = [] then [] else [cur])"
| "chunk_paths cur n (p # ps) =
     (if cur \<noteq> [] \<and> (200 \<le> int (length cur) \<or> n + int (utf8_length p) > 32000)
      then cur # chunk_paths [p] (int (utf8_length p)) ps
      else chunk_paths (cur @ [p]) (n + int (utf8_length p)) ps)"

definition path_chunks :: "string list \<Rightarrow> string list list" where
  "path_chunks fs = chunk_paths [] 0 fs"

text \<open>\<open>bytes.split()\<close>: the words between runs of ASCII whitespace.\<close>

fun words_from :: "bytes \<Rightarrow> bytes \<Rightarrow> bytes list" where
  "words_from w [] = (if w = [] then [] else [w])"
| "words_from w (c # cs) =
     (if c = CHR '' '' \<or> (9 \<le> (of_char c :: nat) \<and> of_char c \<le> (13 :: nat))
      then (if w = [] then words_from [] cs else w # words_from [] cs)
      else words_from (w @ [c]) cs)"

definition TAB :: char where "TAB = CHR 0x09"

definition tree_record :: "platform \<Rightarrow> string list \<Rightarrow> (string \<times> string) list \<Rightarrow> bytes \<Rightarrow> ck_error + string \<times> string" where
  "tree_record pf requested result rec =
     (case partition_on TAB rec of (metadata, found, raw_path) \<Rightarrow>
        if \<not> found then Inl Checkpoint_Error
        else (case words_from [] metadata of
            [mode, kind, raw_oid] \<Rightarrow>
              if kind \<notin> {''blob'', ''commit''} then Inl Checkpoint_Error
              else (case decode pf raw_path of
                  None \<Rightarrow> Inl Checkpoint_Error
                | Some path \<Rightarrow>
                    if list_ex (\<lambda>c. (128 :: nat) \<le> of_char c) raw_oid then Inl Checkpoint_Error
                    else if path \<notin> set requested \<or> map_of result path \<noteq> None \<or> \<not> is_oid raw_oid
                    then Inl Checkpoint_Error
                    else Inr (path, raw_oid))
          | _ \<Rightarrow> Inl Checkpoint_Error))"

fun tree_records :: "platform \<Rightarrow> string list \<Rightarrow> (string \<times> string) list \<Rightarrow> bytes list \<Rightarrow> ck_error + (string \<times> string) list" where
  "tree_records pf requested result [] = Inr result"
| "tree_records pf requested result (r # rs) =
     (if r = [] then tree_records pf requested result rs
      else bind_res (tree_record pf requested result r) (\<lambda>kv.
           tree_records pf requested (result @ [kv]) rs))"

fun tree_chunks :: "platform \<Rightarrow> string \<Rightarrow> string \<Rightarrow> string list \<Rightarrow> (string \<times> string) list \<Rightarrow> string list list \<Rightarrow>
    ck_error + (string \<times> string) list" where
  "tree_chunks pf repo head requested result [] = Inr result"
| "tree_chunks pf repo head requested result (c # cs) =
     bind_res (git_bytes pf repo MAX_GIT_OUTPUT_BYTES ([''ls-tree'', ''-z'', head, ''--''] @ c)) (\<lambda>raw.
     bind_res (tree_records pf requested result (split_on (CHR 0x00) raw)) (\<lambda>result'.
     tree_chunks pf repo head requested result' cs))"

definition blob_oids :: "platform \<Rightarrow> string \<Rightarrow> string \<Rightarrow> string list \<Rightarrow> ck_error + (string \<times> string) list" where
  "blob_oids pf repo head fs =
     bind_res (tree_chunks pf repo head fs [] (path_chunks fs)) (\<lambda>result.
     if set (map fst result) = set fs then Inr result else Inl Checkpoint_Error)"

fun chunks_clean :: "platform \<Rightarrow> string \<Rightarrow> string list list \<Rightarrow> ck_error + unit" where
  "chunks_clean pf repo [] = Inr ()"
| "chunks_clean pf repo (c # cs) =
     bind_res (git_bytes pf repo MAX_GIT_OUTPUT_BYTES
         ([''status'', ''--porcelain=v1'', ''-z'', ''--untracked-files=no'', ''--''] @ c)) (\<lambda>changed.
     if changed \<noteq> [] then Inl Checkpoint_Error else chunks_clean pf repo cs)"

definition require_head_clean :: "platform \<Rightarrow> string \<Rightarrow> string list \<Rightarrow> ck_error + unit" where
  "require_head_clean pf repo fs = chunks_clean pf repo (path_chunks fs)"

subsection \<open>What the record files say\<close>

definition event_batch :: "dict \<Rightarrow> int option" where
  "event_batch v =
     (if dict_get v ''event'' PNone \<noteq> PStr ''batch_covered'' then None
      else (case batch_id (dict_get v ''batch'' (dict_get v ''id'' PNone)) of Inl _ \<Rightarrow> None | Inr i \<Rightarrow> Some i))"

definition event_exists :: "platform \<Rightarrow> node \<Rightarrow> int \<Rightarrow> ck_error + bool" where
  "event_exists pf ledger b =
     bind_res (read_jsonl_tail (parse pf) MAX_LEDGER_TAIL_BYTES ledger) (\<lambda>vs.
     Inr (Some b \<in> set (map event_batch vs)))"

definition snapshot_fields :: "string list \<Rightarrow> dict \<Rightarrow> ck_error + string \<times> string \<times> string" where
  "snapshot_fields fs v =
     (case (dict_get v ''file'' PNone, dict_get v ''head'' PNone, dict_get v ''blob_oid'' PNone) of
        (PStr f, PStr h, PStr oid) \<Rightarrow>
          if py_eq (dict_get v ''schema'' PNone) (PInt 1) \<and> f \<in> set fs \<and> is_oid h \<and> is_oid oid \<and> length h = length oid
          then Inr (f, h, oid) else Inl Checkpoint_Error
      | _ \<Rightarrow> Inl Checkpoint_Error)"

definition add_snapshot :: "(string \<times> string \<times> string) list \<Rightarrow> string \<times> string \<times> string \<Rightarrow>
    ck_error + (string \<times> string \<times> string) list" where
  "add_snapshot records r =
     (case map_of records (fst r) of
        None \<Rightarrow> Inr (records @ [r])
      | Some prior \<Rightarrow> if prior = snd r then Inr records else Inl Checkpoint_Error)"

fun snapshots_from :: "(string \<times> string \<times> string) list \<Rightarrow> int \<Rightarrow> string list \<Rightarrow> dict list \<Rightarrow>
    ck_error + (string \<times> string \<times> string) list" where
  "snapshots_from records b fs [] = Inr records"
| "snapshots_from records b fs (v # vs) =
     (if batch_id (dict_get v ''batch'' PNone) \<noteq> Inr b then snapshots_from records b fs vs
      else bind_res (snapshot_fields fs v) (\<lambda>r.
           bind_res (add_snapshot records r) (\<lambda>records'. snapshots_from records' b fs vs)))"

definition snapshot_records :: "platform \<Rightarrow> node \<Rightarrow> int \<Rightarrow> string list \<Rightarrow>
    ck_error + (string \<times> string \<times> string) list" where
  "snapshot_records pf snapshots b fs =
     bind_res (read_jsonl_tail (parse pf) MAX_SNAPSHOT_TAIL_BYTES snapshots) (\<lambda>vs. snapshots_from [] b fs vs)"

definition heads :: "(string \<times> string \<times> string) list \<Rightarrow> string list" where
  "heads records = remdups (map (fst \<circ> snd) records)"

definition prepared_head :: "platform \<Rightarrow> string \<Rightarrow> string list \<Rightarrow> (string \<times> string \<times> string) list \<Rightarrow> ck_error + string" where
  "prepared_head pf repo fs existing =
     (if existing = [] then
        bind_res (resolve_commit pf repo ''HEAD'') (\<lambda>head.
        bind_res (require_head_clean pf repo fs) (\<lambda>_. Inr head))
      else (case heads existing of
          [recorded] \<Rightarrow>
            bind_res (resolve_commit pf repo recorded) (\<lambda>head.
            if head = recorded then Inr head else Inl Checkpoint_Error)
        | _ \<Rightarrow> Inl Checkpoint_Error))"

definition verify_or_prepare :: "platform \<Rightarrow> string \<Rightarrow> string list \<Rightarrow> (string \<times> string \<times> string) list \<Rightarrow>
    ck_error + string \<times> (string \<times> string) list" where
  "verify_or_prepare pf repo fs existing =
     bind_res (prepared_head pf repo fs existing) (\<lambda>head.
     bind_res (blob_oids pf repo head fs) (\<lambda>expected.
     if list_all (\<lambda>(f, h, oid). h = head \<and> map_of expected f = Some oid) existing
     then Inr (head, expected) else Inl Checkpoint_Error))"

subsection \<open>The checkpoint\<close>

record run =
  r_recon :: node
  r_ledger :: node
  r_snapshots :: node

definition snapshot_value :: "int \<Rightarrow> string \<Rightarrow> (string \<times> string) list \<Rightarrow> string \<Rightarrow> dict" where
  "snapshot_value b head expected f =
     [(''schema'', PInt 1), (''batch'', PInt b), (''file'', PStr f), (''head'', PStr head),
      (''blob_oid'', PStr (case map_of expected f of None \<Rightarrow> [] | Some oid \<Rightarrow> oid))]"

definition event_value :: "int \<Rightarrow> dict" where
  "event_value b = [(''event'', PStr ''batch_covered''), (''batch'', PInt b)]"

text \<open>The writes of a checkpoint, in the order they are made.\<close>

datatype ck_write = Append_Snapshots "bytes list" | Append_Event "bytes list" | Publish_Recon bytes

definition perform :: "run \<Rightarrow> ck_write \<Rightarrow> ck_error + run" where
  "perform r w =
     (case w of
        Append_Snapshots bs \<Rightarrow> bind_res (append_bytes bs (r_snapshots r)) (\<lambda>n. Inr (r\<lparr>r_snapshots := n\<rparr>))
      | Append_Event bs \<Rightarrow> bind_res (append_bytes bs (r_ledger r)) (\<lambda>n. Inr (r\<lparr>r_ledger := n\<rparr>))
      | Publish_Recon doc \<Rightarrow>
          if blen doc > MAX_RECON_BYTES then Inl Checkpoint_Error else Inr (r\<lparr>r_recon := Regular doc\<rparr>))"

fun perform_all :: "run \<Rightarrow> ck_write list \<Rightarrow> (ck_error + unit) \<times> run" where
  "perform_all r [] = (Inr (), r)"
| "perform_all r (w # ws) = (case perform r w of Inl e \<Rightarrow> (Inl e, r) | Inr r' \<Rightarrow> perform_all r' ws)"

definition event_writes :: "platform \<Rightarrow> bool \<Rightarrow> int \<Rightarrow> ck_error + ck_write list" where
  "event_writes pf already b =
     (if already then Inr []
      else bind_res (jsonl_all (float_text pf) [event_value b]) (\<lambda>bs. Inr [Append_Event bs]))"

text \<open>A batch that \<^verbatim>\<open>recon.json\<close> already lists: both other surfaces are verified, a lost event is repaired.\<close>

definition recheck_covered :: "platform \<Rightarrow> string \<Rightarrow> int \<Rightarrow> string list \<Rightarrow> (string \<times> string \<times> string) list \<Rightarrow> bool \<Rightarrow>
    ck_error + ck_write list" where
  "recheck_covered pf repo b fs existing already =
     (if set (map fst existing) \<noteq> set fs then Inl Checkpoint_Error
      else bind_res (verify_or_prepare pf repo fs existing) (\<lambda>_. event_writes pf already b))"

definition receipt :: "dict \<Rightarrow> int list \<Rightarrow> int \<Rightarrow> dict" where
  "receipt recon covered b = AList.update ''covered'' (PList (map PInt (covered @ [b]))) recon"

definition cover_batch :: "platform \<Rightarrow> string \<Rightarrow> int \<Rightarrow> dict \<Rightarrow> string list \<Rightarrow> int list \<Rightarrow>
    (string \<times> string \<times> string) list \<Rightarrow> bool \<Rightarrow> ck_error + ck_write list" where
  "cover_batch pf repo b recon fs covered existing already =
     bind_res (verify_or_prepare pf repo fs existing) (\<lambda>(head, expected).
     if already \<and> set (map fst existing) \<noteq> set fs then Inl Checkpoint_Error
     else bind_res (jsonl_all (float_text pf) (map (snapshot_value b head expected) fs)) (\<lambda>full.
     if sum_list (map blen full) > MAX_SNAPSHOT_TAIL_BYTES - MAX_JSONL_LINE_BYTES then Inl Checkpoint_Error
     else bind_res (jsonl_all (float_text pf)
              (map (snapshot_value b head expected) (filter (\<lambda>f. f \<notin> set (map fst existing)) fs))) (\<lambda>new.
     bind_res (event_writes pf already b) (\<lambda>event.
     Inr (Append_Snapshots new # event @
          [Publish_Recon (dump_doc pf (receipt recon covered b))])))))"

definition checkpoint_writes :: "platform \<Rightarrow> string \<Rightarrow> run \<Rightarrow> int \<Rightarrow> ck_error + ck_write list" where
  "checkpoint_writes pf repo r b =
     bind_res (validate_repo pf repo) (\<lambda>_.
     bind_res (load_json_object (parse pf) MAX_RECON_BYTES (r_recon r)) (\<lambda>recon.
     bind_res (validate_recon recon b) (\<lambda>(fs, covered).
     bind_res (snapshot_records pf (r_snapshots r) b fs) (\<lambda>existing.
     bind_res (event_exists pf (r_ledger r) b) (\<lambda>already.
     if b \<in> set covered then recheck_covered pf repo b fs existing already
     else cover_batch pf repo b recon fs covered existing already)))))"

text \<open>Every read of \<open>_checkpoint\<close> precedes its first write.\<close>

definition checkpoint :: "platform \<Rightarrow> string \<Rightarrow> run \<Rightarrow> int \<Rightarrow> (ck_error + unit) \<times> run" where
  "checkpoint pf repo r b =
     (case checkpoint_writes pf repo r b of Inl e \<Rightarrow> (Inl e, r) | Inr ws \<Rightarrow> perform_all r ws)"

subsection \<open>Verification of a run\<close>

definition files_of :: "(int \<times> string list) list \<Rightarrow> int \<Rightarrow> string list" where
  "files_of batches b = (case map_of batches b of None \<Rightarrow> [] | Some fs \<Rightarrow> fs)"

definition ledger_covered :: "dict list \<Rightarrow> (int \<times> string list) list \<Rightarrow> int list" where
  "ledger_covered vs batches = filter (\<lambda>b. b \<in> set (map fst batches)) (List.map_filter event_batch vs)"

definition covered_batches :: "int list \<Rightarrow> int list \<Rightarrow> int list" where
  "covered_batches recon_covered ledger = sort (remdups (filter (\<lambda>b. b \<in> set ledger) recon_covered))"

text \<open>A covered batch with the one head and the complete snapshots that prove it.\<close>

record batch_proof =
  bp_batch :: int
  bp_files :: "string list"
  bp_head :: string
  bp_snapshots :: "(string \<times> string \<times> string) list"

definition batch_snapshots :: "(int \<times> string list) list \<Rightarrow> dict list \<Rightarrow> int \<Rightarrow> ck_error + batch_proof" where
  "batch_snapshots batches vs b =
     bind_res (snapshots_from [] b (files_of batches b) vs) (\<lambda>s.
     if set (map fst s) \<noteq> set (files_of batches b) then Inl Checkpoint_Error
     else (case heads s of
         [h] \<Rightarrow> Inr \<lparr>bp_batch = b, bp_files = files_of batches b, bp_head = h, bp_snapshots = s\<rparr>
       | _ \<Rightarrow> Inl Checkpoint_Error))"

definition head_objects :: "platform \<Rightarrow> string \<Rightarrow> batch_proof list \<Rightarrow> string \<Rightarrow> ck_error + string \<times> (string \<times> string) list" where
  "head_objects pf repo proofs h =
     bind_res (resolve_commit pf repo h) (\<lambda>resolved.
     if resolved \<noteq> h then Inl Checkpoint_Error
     else bind_res (blob_oids pf repo h (concat (map bp_files (filter (\<lambda>p. bp_head p = h) proofs)))) (\<lambda>objs.
          Inr (h, objs)))"

record verified =
  v_batch :: int
  v_file :: string
  v_head :: string
  v_oid :: string

definition verified_file :: "(string \<times> (string \<times> string) list) list \<Rightarrow> batch_proof \<Rightarrow> string \<Rightarrow> ck_error + verified" where
  "verified_file objects p f =
     (case (map_of (bp_snapshots p) f, map_of objects (bp_head p)) of
        (Some (h, oid), Some objs) \<Rightarrow>
          if h \<noteq> bp_head p \<or> map_of objs f \<noteq> Some oid then Inl Checkpoint_Error
          else Inr \<lparr>v_batch = bp_batch p, v_file = f, v_head = bp_head p, v_oid = oid\<rparr>
      | _ \<Rightarrow> Inl Checkpoint_Error)"

definition verified_batch :: "(string \<times> (string \<times> string) list) list \<Rightarrow> batch_proof \<Rightarrow> ck_error + verified list" where
  "verified_batch objects p = map_res (verified_file objects p) (bp_files p)"

definition verify_batches :: "platform \<Rightarrow> string \<Rightarrow> (int \<times> string list) list \<Rightarrow> dict list \<Rightarrow> int list \<Rightarrow>
    ck_error + verified list" where
  "verify_batches pf repo batches vs bs =
     bind_res (map_res (batch_snapshots batches vs) bs) (\<lambda>proofs.
     bind_res (map_res (head_objects pf repo proofs) (sort (remdups (map bp_head proofs)))) (\<lambda>objects.
     bind_res (map_res (verified_batch objects) proofs) (\<lambda>vss. Inr (concat vss))))"

definition verify_run :: "platform \<Rightarrow> string \<Rightarrow> run \<Rightarrow> ck_error + verified list" where
  "verify_run pf repo r =
     bind_res (validate_repo pf repo) (\<lambda>_.
     bind_res (load_json_object (parse pf) MAX_RECON_BYTES (r_recon r)) (\<lambda>recon.
     bind_res (validate_recon_plan recon) (\<lambda>(batches, recon_covered).
     bind_res (read_jsonl_tail (parse pf) MAX_LEDGER_TAIL_BYTES (r_ledger r)) (\<lambda>ledger.
     bind_res (read_jsonl_tail (parse pf) MAX_SNAPSHOT_TAIL_BYTES (r_snapshots r)) (\<lambda>vs.
     verify_batches pf repo batches vs (covered_batches recon_covered (ledger_covered ledger batches)))))))"

text \<open>The directories that exist, with the three files each holds.\<close>

type_synonym run_dirs = "string \<Rightarrow> run option"

definition verify_run_coverage :: "platform \<Rightarrow> run_dirs \<Rightarrow> string \<Rightarrow> string \<Rightarrow> ck_error + verified list" where
  "verify_run_coverage pf dirs run_dir repo =
     (case (resolve pf run_dir, resolve pf repo) of
        (Some d, Some root_dir) \<Rightarrow> (case dirs d of None \<Rightarrow> Inl Checkpoint_Error | Some r \<Rightarrow> verify_run pf root_dir r)
      | _ \<Rightarrow> Inl Checkpoint_Error)"

subsection \<open>The command line\<close>

definition cli_batch :: "string \<Rightarrow> bool" where
  "cli_batch s \<longleftrightarrow> 1 \<le> length s \<and> length s \<le> 7 \<and> list_all (\<lambda>c. digit_val c \<noteq> None) s \<and> digit_val (hd s) \<noteq> Some 0"

text \<open>
  The exit status and the run directory that changed.  \<open>CheckpointError\<close> and \<open>OSError\<close> are caught;
  a \<open>TypeError\<close> ends the interpreter with status 1 as well.  \<open>None\<close> is a call that does not return.
\<close>

definition exit_of :: "ck_error + 'a \<Rightarrow> int option" where
  "exit_of res = (case res of Inr _ \<Rightarrow> Some 0 | Inl Blocked \<Rightarrow> None | Inl _ \<Rightarrow> Some 1)"

definition main_checkpoint :: "platform \<Rightarrow> run_dirs \<Rightarrow> string \<Rightarrow> string \<Rightarrow> string \<Rightarrow> int option \<times> run_dirs" where
  "main_checkpoint pf dirs run_dir raw_batch repo =
     (if \<not> cli_batch raw_batch then (Some 1, dirs)
      else (case (resolve pf run_dir, resolve pf repo) of
          (Some d, Some root_dir) \<Rightarrow>
            (case dirs d of
               None \<Rightarrow> (Some 1, dirs)
             | Some r \<Rightarrow>
                 (case checkpoint pf root_dir r (int (decimal_val 0 raw_batch)) of
                    (res, r') \<Rightarrow> (exit_of res, dirs(d \<mapsto> r'))))
        | _ \<Rightarrow> (Some 1, dirs)))"

definition main :: "platform \<Rightarrow> run_dirs \<Rightarrow> string list \<Rightarrow> int option \<times> run_dirs" where
  "main pf dirs args =
     (case args of
        [a, b, c] \<Rightarrow>
          if a = ''verify'' then (exit_of (verify_run_coverage pf dirs b c), dirs)
          else main_checkpoint pf dirs a b c
      | _ \<Rightarrow> (Some 2, dirs))"

section \<open>Plans and chunks\<close>

text \<open>The chunks hold every path once, in order.\<close>

lemma concat_chunk_paths: "concat (chunk_paths cur n fs) = cur @ fs"
  by (induction cur n fs rule: chunk_paths.induct) auto

definition chunk_ok :: "string list \<Rightarrow> bool" where
  "chunk_ok c \<longleftrightarrow> c \<noteq> [] \<and> length c \<le> 200 \<and> (length c = 1 \<or> sum_list (map (\<lambda>f. int (utf8_length f)) c) \<le> 32000)"

lemma chunk_paths_ok:
  assumes "cur = [] \<or> chunk_ok cur" and "n = sum_list (map (\<lambda>f. int (utf8_length f)) cur)"
  shows "list_all chunk_ok (chunk_paths cur n fs)"
  using assms
proof (induction cur n fs rule: chunk_paths.induct)
  case (2 cur n p ps)
  show ?case
  proof (cases "cur \<noteq> [] \<and> (200 \<le> int (length cur) \<or> n + int (utf8_length p) > 32000)")
    case True
    have "chunk_ok [p]" by (simp add: chunk_ok_def)
    then have "list_all chunk_ok (chunk_paths [p] (int (utf8_length p)) ps)" using "2.IH"(1) [OF True] by simp
    then show ?thesis using True "2.prems" by simp
  next
    case False
    then have "chunk_ok (cur @ [p])" using "2.prems" by (cases cur) (auto simp: chunk_ok_def)
    moreover have "n + int (utf8_length p) = sum_list (map (\<lambda>f. int (utf8_length f)) (cur @ [p]))"
      using "2.prems" by simp
    ultimately show ?thesis using "2.IH"(2) [OF False] False by auto
  qed
qed auto

text \<open>What a scanned plan keeps: distinct ids, and files that are safe, distinct and nonempty per batch.\<close>

definition scan_ok :: "plan_scan \<Rightarrow> bool" where
  "scan_ok sc \<longleftrightarrow> distinct (sc_ids sc) \<and> map fst (sc_batches sc) = sc_ids sc \<and> list_all (\<lambda>i. 1 \<le> i) (sc_ids sc) \<and>
     distinct (sc_files sc) \<and> mset (concat (map snd (sc_batches sc))) = mset (sc_files sc) \<and>
     list_all safe_path (sc_files sc) \<and> list_all (\<lambda>x. snd x \<noteq> [] \<and> sorted (snd x)) (sc_batches sc)"

lemma repo_path_safe: "repo_path v = Inr p \<Longrightarrow> safe_path p"
  by (auto simp: repo_path_def split: pyval.splits if_splits)

lemma batch_paths_ok: "batch_paths b = Inr fs \<Longrightarrow> fs \<noteq> [] \<and> list_all safe_path fs"
  unfolding batch_paths_def
  by (auto simp: int_in_def map_res_Inr list_all2_conv_all_nth list_all_length dest!: repo_path_safe
      split: option.splits pyval.splits if_splits)

lemma scan_batch_ok: "scan_batch sc raw = Inr sc' \<Longrightarrow> scan_ok sc \<Longrightarrow> scan_ok sc'"
proof -
  assume "scan_batch sc raw = Inr sc'" and ok: "scan_ok sc"
  then obtain b i fs where b: "batch_id (dict_get b ''id'' PNone) = Inr i" "i \<notin> set (sc_ids sc)" "batch_paths b = Inr fs"
      "distinct fs" "set fs \<inter> set (sc_files sc) = {}"
    and sc': "sc_ids sc' = sc_ids sc @ [i]" "sc_files sc' = sc_files sc @ fs" "sc_batches sc' = sc_batches sc @ [(i, sort fs)]"
    unfolding scan_batch_def Let_def by (cases raw) (auto simp: bind_res_Inr_iff split: if_splits)
  have "1 \<le> i" using b(1) by (auto simp: batch_id_def split: pyval.splits if_splits)
  moreover have "sort fs \<noteq> []" using batch_paths_ok [OF b(3)] by (metis length_0_conv length_sort)
  ultimately show ?thesis
    using ok b batch_paths_ok [OF b(3)] unfolding scan_ok_def sc' by auto
qed

lemma scan_batches_ok: "scan_batches sc bs = Inr sc' \<Longrightarrow> scan_ok sc \<Longrightarrow> scan_ok sc'"
  by (induction bs arbitrary: sc) (auto simp: bind_res_Inr_iff intro: scan_batch_ok)

lemma plan_covered_ok: "plan_covered recon ids = Inr covered \<Longrightarrow> distinct covered \<and> set covered \<subseteq> set ids"
  unfolding plan_covered_def
  by (cases "dict_get recon ''covered'' (PList [])") (auto simp: bind_res_Inr_iff split: if_splits)

lemma empty_scan_ok: "scan_ok empty_scan"
  by (simp add: scan_ok_def empty_scan_def)

lemma covered_in_plan:
  assumes "validate_recon_plan recon = Inr (batches, covered)"
  shows "distinct (map fst batches)" "distinct covered" "set covered \<subseteq> set (map fst batches)"
proof -
  obtain raw sc where sc: "scan_batches empty_scan raw = Inr sc" and b: "batches = sc_batches sc"
    and c: "plan_covered recon (sc_ids sc) = Inr covered"
    using assms unfolding validate_recon_plan_def by (auto simp: bind_res_Inr_iff)
  have "map fst batches = sc_ids sc" "distinct (sc_ids sc)"
    using scan_batches_ok [OF sc empty_scan_ok] by (simp_all add: scan_ok_def b)
  then show "distinct (map fst batches)" "distinct covered" "set covered \<subseteq> set (map fst batches)"
    using plan_covered_ok [OF c] by simp_all
qed

text \<open>
  A recon plan that is accepted partitions its files: the batch ids are positive and distinct, every
  batch has a nonempty sorted list of safe repository paths, no file is in two batches, and the covered
  ids are distinct ids of the plan.
\<close>

theorem recon_plan_partitions:
  assumes "validate_recon_plan recon = Inr (batches, covered)"
  shows "distinct (map fst batches) \<and> (\<forall>(i, fs)\<in>set batches. 1 \<le> i \<and> fs \<noteq> [] \<and> sorted fs \<and> list_all safe_path fs) \<and>
    distinct (concat (map snd batches)) \<and> distinct covered \<and> set covered \<subseteq> set (map fst batches)"
proof -
  obtain raw sc where sc: "scan_batches empty_scan raw = Inr sc" and b: "batches = sc_batches sc"
    using assms unfolding validate_recon_plan_def by (auto simp: bind_res_Inr_iff)
  have ok: "scan_ok sc" using scan_batches_ok [OF sc empty_scan_ok] .
  have m: "mset (concat (map snd batches)) = mset (sc_files sc)" using ok b by (simp add: scan_ok_def)
  then have d: "distinct (concat (map snd batches))" using ok mset_eq_imp_distinct_iff unfolding scan_ok_def by blast
  have files: "set (concat (map snd batches)) = set (sc_files sc)" using m by (rule mset_eq_setD)
  have "1 \<le> i \<and> fs \<noteq> [] \<and> sorted fs \<and> list_all safe_path fs" if x: "(i, fs) \<in> set batches" for i fs
  proof -
    have "i \<in> set (map fst (sc_batches sc))" using x b by force
    then have "i \<in> set (sc_ids sc)" using ok by (simp only: scan_ok_def)
    moreover have "set fs \<subseteq> set (sc_files sc)" using x by (auto simp flip: files)
    moreover have "fs \<noteq> [] \<and> sorted fs" using ok x unfolding scan_ok_def b by (auto simp: list_all_iff)
    ultimately show ?thesis using ok by (auto simp: scan_ok_def list_all_iff)
  qed
  then have "\<forall>(i, fs)\<in>set batches. 1 \<le> i \<and> fs \<noteq> [] \<and> sorted fs \<and> list_all safe_path fs" by blast
  then show ?thesis using d covered_in_plan [OF assms] by blast
qed

text \<open>
  The command lines are bounded and complete: the chunks concatenate to the paths, and each has at
  most 200 paths and, unless it is a single path, at most 32,000 bytes.
\<close>

theorem path_chunks_bounded: "concat (path_chunks fs) = fs \<and> list_all chunk_ok (path_chunks fs)"
  unfolding path_chunks_def using concat_chunk_paths [of "[]" 0 fs] chunk_paths_ok [of "[]" 0 fs] by simp

section \<open>Verified coverage\<close>

text \<open>The batches that are covered on both surfaces: the plan's receipt and the ledger's event.\<close>

definition coverage :: "platform \<Rightarrow> run \<Rightarrow> int set" where
  "coverage pf r = {b. \<exists>recon batches covered ledger.
     load_json_object (parse pf) MAX_RECON_BYTES (r_recon r) = Inr recon \<and>
     validate_recon_plan recon = Inr (batches, covered) \<and>
     read_jsonl_tail (parse pf) MAX_LEDGER_TAIL_BYTES (r_ledger r) = Inr ledger \<and>
     b \<in> set covered \<and> Some b \<in> set (map event_batch ledger)}"

text \<open>A snapshot record of a batch's file, and the Git object it must equal.\<close>

definition recorded :: "platform \<Rightarrow> run \<Rightarrow> string list \<Rightarrow> verified \<Rightarrow> bool" where
  "recorded pf r fs v \<longleftrightarrow> (\<exists>vs s. read_jsonl_tail (parse pf) MAX_SNAPSHOT_TAIL_BYTES (r_snapshots r) = Inr vs \<and> s \<in> set vs \<and>
     batch_id (dict_get s ''batch'' PNone) = Inr (v_batch v) \<and>
     snapshot_fields fs s = Inr (v_file v, v_head v, v_oid v))"

definition in_git :: "platform \<Rightarrow> string \<Rightarrow> verified \<Rightarrow> bool" where
  "in_git pf repo v \<longleftrightarrow> resolve_commit pf repo (v_head v) = Inr (v_head v) \<and>
     (\<exists>fs objs. blob_oids pf repo (v_head v) fs = Inr objs \<and> map_of objs (v_file v) = Some (v_oid v))"

lemma add_snapshot_set: "add_snapshot rs x = Inr rs' \<Longrightarrow> set rs' = insert x (set rs)"
  by (cases x) (auto simp: add_snapshot_def dest: map_of_SomeD split: option.splits if_splits)

lemma snapshots_from_sound:
  "snapshots_from rs b fs vs = Inr rs' \<Longrightarrow> x \<in> set rs' \<Longrightarrow>
     x \<in> set rs \<or> (\<exists>v\<in>set vs. batch_id (dict_get v ''batch'' PNone) = Inr b \<and> snapshot_fields fs v = Inr x)"
  by (induction vs arbitrary: rs) (fastforce simp: bind_res_Inr_iff dest: add_snapshot_set split: if_splits)+

lemma batch_snapshots_Inr:
  assumes "batch_snapshots batches vs b = Inr p"
  shows "bp_batch p = b" "bp_files p = files_of batches b" "set (map fst (bp_snapshots p)) = set (bp_files p)"
    "snapshots_from [] b (files_of batches b) vs = Inr (bp_snapshots p)"
  using assms unfolding batch_snapshots_def
  by (auto simp: bind_res_Inr_iff split: if_splits list.splits) (force dest: equalityD1)

lemma verified_file_Inr:
  assumes "verified_file objects p f = Inr v"
  shows "\<exists>objs. map_of objects (bp_head p) = Some objs \<and> map_of objs f = Some (v_oid v) \<and>
    map_of (bp_snapshots p) f = Some (v_head v, v_oid v) \<and> v_batch v = bp_batch p \<and> v_file v = f \<and> v_head v = bp_head p"
  using assms unfolding verified_file_def by (auto split: option.splits if_splits)

lemma head_objects_Inr:
  assumes "head_objects pf repo ps h = Inr (h', objs)"
  shows "h' = h \<and> resolve_commit pf repo h = Inr h \<and> (\<exists>fs. blob_oids pf repo h fs = Inr objs)"
  using assms unfolding head_objects_def by (auto simp: bind_res_Inr_iff split: if_splits)

lemma verify_batches_sound:
  assumes "verify_batches pf repo batches vs bs = Inr out" and "v \<in> set out"
  shows "v_batch v \<in> set bs \<and> v_file v \<in> set (files_of batches (v_batch v)) \<and> in_git pf repo v \<and>
    (\<exists>s\<in>set vs. batch_id (dict_get s ''batch'' PNone) = Inr (v_batch v) \<and>
       snapshot_fields (files_of batches (v_batch v)) s = Inr (v_file v, v_head v, v_oid v))"
proof -
  obtain proofs objects vss where p: "map_res (batch_snapshots batches vs) bs = Inr proofs"
    and o: "map_res (head_objects pf repo proofs) (sort (remdups (map bp_head proofs))) = Inr objects"
    and v: "map_res (verified_batch objects) proofs = Inr vss" and out: "out = concat vss"
    using assms(1) unfolding verify_batches_def by (auto simp: bind_res_Inr_iff)
  obtain vb where "vb \<in> set vss" "v \<in> set vb" using assms(2) out by auto
  then obtain q where q: "q \<in> set proofs" "verified_batch objects q = Inr vb" using v by (auto simp: map_res_set)
  then obtain f where f: "f \<in> set (bp_files q)" "verified_file objects q f = Inr v"
    using \<open>v \<in> set vb\<close> unfolding verified_batch_def by (auto simp: map_res_set)
  obtain b where b: "b \<in> set bs" "batch_snapshots batches vs b = Inr q" using q(1) p by (auto simp: map_res_set)
  note bq = batch_snapshots_Inr [OF b(2)]
  obtain objs where objs: "map_of objects (bp_head q) = Some objs" "map_of objs f = Some (v_oid v)"
      "map_of (bp_snapshots q) f = Some (v_head v, v_oid v)" "v_batch v = b" "v_file v = f" "v_head v = bp_head q"
    using verified_file_Inr [OF f(2)] bq(1) by blast
  have "(bp_head q, objs) \<in> set objects" using objs(1) by (rule map_of_SomeD)
  then obtain h where "head_objects pf repo proofs h = Inr (bp_head q, objs)" using o by (auto simp: map_res_set)
  then have "in_git pf repo v" using head_objects_Inr objs unfolding in_git_def by metis
  moreover have "(f, v_head v, v_oid v) \<in> set (bp_snapshots q)" using objs(3) by (rule map_of_SomeD)
  ultimately show ?thesis
    using snapshots_from_sound [OF bq(4)] b(1) f(1) bq(2) objs(4,5) by auto
qed

lemma verify_batches_full:
  assumes "verify_batches pf repo batches vs bs = Inr out" and "b \<in> set bs" and "f \<in> set (files_of batches b)"
  shows "\<exists>v\<in>set out. v_batch v = b \<and> v_file v = f"
proof -
  obtain proofs objects vss where p: "map_res (batch_snapshots batches vs) bs = Inr proofs"
    and v: "map_res (verified_batch objects) proofs = Inr vss" and out: "out = concat vss"
    using assms(1) unfolding verify_batches_def by (auto simp: bind_res_Inr_iff)
  have all: "\<exists>y\<in>set ys. g x = Inr y" if "map_res g xs = Inr ys" "x \<in> set xs" for g :: "'x \<Rightarrow> ck_error + 'y" and xs ys x
    using that by (induction xs arbitrary: ys) (auto simp: bind_res_Inr_iff)
  obtain q where q: "q \<in> set proofs" "batch_snapshots batches vs b = Inr q" using all [OF p assms(2)] by blast
  obtain vb where vb: "vb \<in> set vss" "verified_batch objects q = Inr vb" using all [OF v q(1)] by blast
  obtain w where "w \<in> set vb" "verified_file objects q f = Inr w"
    using all [OF vb(2) [unfolded verified_batch_def]] assms(3) batch_snapshots_Inr [OF q(2)] by auto
  then show ?thesis using verified_file_Inr batch_snapshots_Inr(1) [OF q(2)] vb(1) out by fastforce
qed

lemma set_ledger_covered: "set (ledger_covered vs batches) = {b. Some b \<in> set (map event_batch vs)} \<inter> set (map fst batches)"
  by (auto simp: ledger_covered_def set_map_filter image_iff) (metis)+

lemma set_covered_batches: "set (covered_batches cs ls) = set cs \<inter> set ls"
  by (auto simp: covered_batches_def)

text \<open>
  C3: Verified coverage is exact: when a run verifies, the records returned are one for every file of
  every batch that both the plan and the ledger call covered and for nothing else, and each is a
  snapshot of the run whose commit and object are those of the repository.
\<close>

theorem verified_is_exact:
  assumes "verify_run pf repo r = Inr vs"
  shows "\<exists>recon batches covered. load_json_object (parse pf) MAX_RECON_BYTES (r_recon r) = Inr recon \<and>
    validate_recon_plan recon = Inr (batches, covered) \<and>
    (\<lambda>v. (v_batch v, v_file v)) ` set vs = {(b, f). b \<in> coverage pf r \<and> f \<in> set (files_of batches b)} \<and>
    list_all (\<lambda>v. recorded pf r (files_of batches (v_batch v)) v \<and> in_git pf repo v) vs"
proof -
  obtain recon batches covered ledger snaps where
    parts: "load_json_object (parse pf) MAX_RECON_BYTES (r_recon r) = Inr recon"
      "validate_recon_plan recon = Inr (batches, covered)"
      "read_jsonl_tail (parse pf) MAX_LEDGER_TAIL_BYTES (r_ledger r) = Inr ledger"
      "read_jsonl_tail (parse pf) MAX_SNAPSHOT_TAIL_BYTES (r_snapshots r) = Inr snaps"
    and v: "verify_batches pf repo batches snaps (covered_batches covered (ledger_covered ledger batches)) = Inr vs"
    using assms unfolding verify_run_def by (auto simp: bind_res_Inr_iff)
  have "set covered \<subseteq> set (map fst batches)" using covered_in_plan [OF parts(2)] by blast
  then have cov: "set (covered_batches covered (ledger_covered ledger batches)) = coverage pf r"
    unfolding set_covered_batches set_ledger_covered coverage_def using parts by auto
  have "(\<lambda>v. (v_batch v, v_file v)) ` set vs = {(b, f). b \<in> coverage pf r \<and> f \<in> set (files_of batches b)}"
    using verify_batches_sound [OF v] verify_batches_full [OF v] unfolding cov by (auto simp: image_iff) blast+
  moreover have "list_all (\<lambda>v. recorded pf r (files_of batches (v_batch v)) v \<and> in_git pf repo v) vs"
    using verify_batches_sound [OF v] parts(4) unfolding list_all_iff recorded_def by blast
  ultimately show ?thesis using parts(1,2) by blast
qed


end
