(* ===== verification/Py_Order.thy ===== *)
theory Py_Order
  imports Py_Json
begin

text \<open>
  Documents whose keys are sorted.  A file written by \<open>json.dump(..., sort_keys=True)\<close> reads back with the keys
  of every object in order; \<open>canon\<close> is that form of a document.
\<close>

subsection \<open>Sorted documents\<close>

primrec canon :: "pyval \<Rightarrow> pyval" where
  "canon PNone = PNone"
| "canon (PBool b) = PBool b"
| "canon (PInt i) = PInt i"
| "canon (PFloat f) = PFloat f"
| "canon (PStr s) = PStr s"
| "canon (PList xs) = PList (map canon xs)"
| "canon (PDict d) = PDict (sort_key fst (map (map_prod id canon) d))"

definition canon_items :: "dict \<Rightarrow> dict" where
  "canon_items d = sort_key fst (map (map_prod id canon) d)"

lemma canon_PDict: "canon (PDict d) = PDict (canon_items d)"
  by (simp add: canon_items_def)

lemma insort_map: "insort_key fst (map_prod id g x) (map (map_prod id g) xs) = map (map_prod id g) (insort_key fst x xs)"
  by (induction xs) auto

lemma sort_map: "sort_key fst (map (map_prod id g) xs) = map (map_prod id g) (sort_key fst xs)"
proof (induction xs)
  case (Cons x xs)
  then show ?case using insort_map [of g x "sort_key fst xs"] by (simp del: id_apply)
qed simp

lemma sort_twice [simp]: "sort_key f (sort_key f xs) = sort_key f xs"
  by (rule sort_key_id_if_sorted) simp

lemma canon_keys [simp]: "set (map fst (canon_items d)) = set (map fst d)" "fst ` set (canon_items d) = fst ` set d"
  by (simp_all add: canon_items_def image_image)

lemma pnorm_canon [simp]: "pnorm (canon v) = pnorm v"
proof (induction v)
  case (PDict d)
  have "map (map_prod id pnorm \<circ> map_prod id canon) d = map (map_prod id pnorm) d"
    using PDict by (force simp: map_prod_def)
  then have "sort_key fst (map (map_prod id pnorm) (sort_key fst (map (map_prod id canon) d))) =
      sort_key fst (map (map_prod id pnorm) d)"
    by (simp only: sort_map [symmetric] sort_twice map_map)
  then show ?case by simp
qed (simp_all add: map_idI)

lemma has_nan_canon [simp]: "has_nan (canon v) = has_nan v"
proof (induction v)
  case (PDict d)
  then show ?case by (force simp: list_ex_iff)
qed (auto simp: list_ex_iff)

lemma py_eq_canon [simp]: "py_eq (canon v) w = py_eq v w" "py_eq w (canon v) = py_eq w v"
  by (simp_all add: py_eq_def)

lemma sort_key_Nil [simp]: "sort_key f xs = [] \<longleftrightarrow> xs = []"
  by (metis length_0_conv length_sort)

lemma canon_atoms [simp]:
  "canon v = PNone \<longleftrightarrow> v = PNone" "canon v = PStr s \<longleftrightarrow> v = PStr s" "canon v = PBool b \<longleftrightarrow> v = PBool b"
  "canon v = PInt i \<longleftrightarrow> v = PInt i"
  by (cases v, simp_all)+

lemma canon_empty [simp]: "canon v = PList [] \<longleftrightarrow> v = PList []" "canon v = PDict [] \<longleftrightarrow> v = PDict []"
  by (cases v, simp_all)+

lemma canon_kinds [simp]: "hashable (canon v) = hashable v" "truthy (canon v) = truthy v" "is_dict (canon v) = is_dict v"
  "is_str (canon v) = is_str v" "is_bool (canon v) = is_bool v"
  by (cases v, simp_all)+

lemma map_of_canon:
  assumes "wf_json (PDict d)"
  shows "map_of (canon_items d) k = map_option canon (map_of d k)"
proof -
  have "distinct (map fst (map (map_prod id canon) d))" using assms by (simp add: o_def)
  then have "map_of (canon_items d) k = map_of (map (map_prod id canon) d) k" unfolding canon_items_def by (simp add: map_of_sort_key)
  also have "\<dots> = map_option canon (map_of d k)" by (induction d) auto
  finally show ?thesis .
qed

lemma getv_canon: "wf_json (PDict d) \<Longrightarrow> getv (canon_items d) k = canon (getv d k)"
  by (cases "map_of d k") (simp_all add: getv_def dict_get_def map_of_canon del: wf_json.simps)

lemma wf_getv:
  assumes "wf_json (PDict d)"
  shows "wf_json (getv d k)"
proof (cases "map_of d k")
  case (Some v)
  then have "(k, v) \<in> set d" by (rule map_of_SomeD)
  with assms have "wf_json v" by (auto simp: list_all_iff)
  with Some show ?thesis by (simp add: getv_def dict_get_def)
qed (simp add: getv_def dict_get_def)

lemma wf_member: "wf_json (PList xs) \<Longrightarrow> x \<in> set xs \<Longrightarrow> wf_json x"
  by (simp add: list_all_iff)

lemma dict_get_canon: "wf_json (PDict d) \<Longrightarrow> canon x = x \<Longrightarrow> dict_get (canon_items d) k x = canon (dict_get d k x)"
  by (simp add: dict_get_def map_of_canon del: wf_json.simps split: option.split)

end
