(* ===== verification/Checkpoint_Crash.thy ===== *)
theory Checkpoint_Crash
  imports Batch_Checkpoint Py_Order
begin

text \<open>
  Crashes of the batch checkpoint: the states an interrupted run can leave, and the run that resumes
  from them.
\<close>

section \<open>Crashes\<close>

text \<open>
  A crash leaves the writes done so far, and a file that was being appended to cut at any byte; the file may
  have been created and still be empty.  Nothing is appended, and nothing created, when there are no records.
  \<^verbatim>\<open>recon.json\<close> is replaced by a rename, so it is never cut.  The process crashes, not the disk: what was written
  stays.
\<close>

inductive crash :: "run \<Rightarrow> ck_write list \<Rightarrow> run \<Rightarrow> bool" where
  before: "crash r ws r"
| after: "perform r w = Inr r1 \<Longrightarrow> crash r1 ws r2 \<Longrightarrow> crash r (w # ws) r2"
| within_snapshots: "bs \<noteq> [] \<Longrightarrow> append_bytes [take k (concat bs)] (r_snapshots r) = Inr n \<Longrightarrow>
    crash r (Append_Snapshots bs # ws) (r\<lparr>r_snapshots := n\<rparr>)"
| within_event: "bs \<noteq> [] \<Longrightarrow> append_bytes [take k (concat bs)] (r_ledger r) = Inr n \<Longrightarrow>
    crash r (Append_Event bs # ws) (r\<lparr>r_ledger := n\<rparr>)"

inductive_cases crash_NilE: "crash r [] r2"
inductive_cases crash_ConsE: "crash r (w # ws) r2"

subsection \<open>Sorted plans\<close>

text \<open>A plan that was written with sorted keys says what it said before.\<close>

lemma batch_id_canon [simp]: "batch_id (canon v) = batch_id v"
  by (cases v) (simp_all add: batch_id_def)

lemma repo_path_canon [simp]: "repo_path (canon v) = repo_path v"
  by (cases v) (simp_all add: repo_path_def)

lemma map_res_canon: "(\<And>v. f (canon v) = f v) \<Longrightarrow> map_res f (map canon vs) = map_res f vs"
  by (induction vs) simp_all

lemma batch_paths_canon: "wf_json (PDict b) \<Longrightarrow> batch_paths (canon_items b) = batch_paths b"
  by (cases "map_of b ''files''"; cases "the (map_of b ''files'')")
    (simp_all add: batch_paths_def map_of_canon int_in_def map_res_canon del: wf_json.simps)

lemma check_batch_fields_canon: "wf_json (PDict b) \<Longrightarrow> check_batch_fields (canon_items b) = check_batch_fields b"
  by (simp add: check_batch_fields_def map_of_canon option.case_eq_if option.map_sel del: wf_json.simps)

lemma scan_batch_canon: "wf_json v \<Longrightarrow> scan_batch sc (canon v) = scan_batch sc v"
  by (cases v)
    (simp_all add: scan_batch_def canon_PDict dict_get_canon batch_paths_canon check_batch_fields_canon
      del: canon.simps(7) wf_json.simps)

lemma scan_batches_canon: "\<forall>v\<in>set vs. wf_json v \<Longrightarrow> scan_batches sc (map canon vs) = scan_batches sc vs"
  by (induction vs arbitrary: sc) (simp_all add: scan_batch_canon bind_res_def split: sum.split)

lemma check_count_canon: "wf_json (PDict d) \<Longrightarrow> check_count (canon_items d) k n = check_count d k n"
  by (simp add: check_count_def map_of_canon option.case_eq_if option.map_sel del: wf_json.simps)

lemma plan_covered_canon: "wf_json (PDict d) \<Longrightarrow> plan_covered (canon_items d) ids = plan_covered d ids"
  by (cases "dict_get d ''covered'' (PList [])")
    (simp_all add: plan_covered_def dict_get_canon map_res_canon del: wf_json.simps)

lemma plan_batches_canon: "wf_json (PDict d) \<Longrightarrow> plan_batches (canon_items d) = map_sum id (map canon) (plan_batches d)"
  by (cases "map_of d ''batches''"; cases "the (map_of d ''batches'')")
    (simp_all add: plan_batches_def map_of_canon int_in_def del: wf_json.simps)

lemma validate_recon_plan_canon:
  assumes "wf_json (PDict d)"
  shows "validate_recon_plan (canon_items d) = validate_recon_plan d"
proof (cases "plan_batches d")
  case (Inr raw)
  then have m: "map_of d ''batches'' = Some (PList raw)"
    by (auto simp: plan_batches_def split: option.splits pyval.splits if_splits)
  have "wf_json (PList raw)" using wf_getv [OF assms, of "''batches''"] m by (simp add: getv_def dict_get_def)
  then have "\<forall>v\<in>set raw. wf_json v" using wf_member by blast
  with assms Inr show ?thesis
    by (simp add: validate_recon_plan_def plan_batches_canon scan_batches_canon check_count_canon plan_covered_canon
        del: wf_json.simps)
qed (use assms in \<open>simp add: validate_recon_plan_def plan_batches_canon del: wf_json.simps\<close>)

lemma validate_recon_canon: "wf_json (PDict d) \<Longrightarrow> validate_recon (canon_items d) b = validate_recon d b"
  by (simp add: validate_recon_def validate_recon_plan_canon del: wf_json.simps)

subsection \<open>The writes of a checkpoint\<close>

lemma perform_simps [simp]:
  "perform r (Append_Snapshots bs) = bind_res (append_bytes bs (r_snapshots r)) (\<lambda>n. Inr (r\<lparr>r_snapshots := n\<rparr>))"
  "perform r (Append_Event bs) = bind_res (append_bytes bs (r_ledger r)) (\<lambda>n. Inr (r\<lparr>r_ledger := n\<rparr>))"
  "perform r (Publish_Recon doc) =
     (if blen doc > MAX_RECON_BYTES then Inl Checkpoint_Error else Inr (r\<lparr>r_recon := Regular doc\<rparr>))"
  by (simp_all add: perform_def)

text \<open>The snapshot of one file, as it is written and as it is read.\<close>

definition oid_of :: "(string \<times> string) list \<Rightarrow> string \<Rightarrow> string" where
  "oid_of expected f = (case map_of expected f of None \<Rightarrow> [] | Some oid \<Rightarrow> oid)"

abbreviation entry :: "string \<Rightarrow> (string \<times> string) list \<Rightarrow> string \<Rightarrow> string \<times> string \<times> string" where
  "entry head expected f \<equiv> (f, head, oid_of expected f)"

abbreviation lines_of :: "platform \<Rightarrow> dict list \<Rightarrow> bytes list" where
  "lines_of pf vs \<equiv> map (\<lambda>v. encoded (float_text pf) v @ [LF]) vs"

lemma flat_values [simp]: "flat (snapshot_value b head expected f)" "flat (event_value b)"
  by (simp_all add: flat_def snapshot_value_def event_value_def)

lemma event_batch_value: "1 \<le> b \<Longrightarrow> event_batch (sort_key fst (event_value b)) = Some b"
  by (simp add: event_batch_def dict_get_sort_key) (simp add: event_value_def dict_get_def batch_id_def)

lemma snapshot_value_fields:
  assumes "1 \<le> b" and "f \<in> set fs" and "is_oid head" and "is_oid (oid_of expected f)"
    and "length head = length (oid_of expected f)"
  shows "batch_id (dict_get (sort_key fst (snapshot_value b head expected f)) ''batch'' PNone) = Inr b"
    "snapshot_fields fs (sort_key fst (snapshot_value b head expected f)) = Inr (entry head expected f)"
  using assms
  by (simp_all add: snapshot_fields_def dict_get_sort_key)
    (simp_all add: snapshot_value_def dict_get_def batch_id_def oid_of_def)

lemma snapshots_from_append:
  "snapshots_from rs b fs (xs @ ys) = bind_res (snapshots_from rs b fs xs) (\<lambda>rs'. snapshots_from rs' b fs ys)"
  by (induction xs arbitrary: rs) (auto simp: bind_res_def split: sum.split)

lemma snapshots_from_written:
  assumes "1 \<le> b" and "set gs \<subseteq> set fs" and "distinct gs" and "set gs \<inter> set (map fst rs) = {}"
    and "is_oid head" and "\<forall>f\<in>set fs. is_oid (oid_of expected f) \<and> length head = length (oid_of expected f)"
  shows "snapshots_from rs b fs (map (sort_key fst) (map (snapshot_value b head expected) gs)) =
    Inr (rs @ map (entry head expected) gs)"
  using assms(2-4)
proof (induction gs arbitrary: rs)
  case (Cons g gs)
  have "map_of rs g = None" using Cons.prems by (simp add: map_of_eq_None_iff)
  then have "add_snapshot rs (entry head expected g) = Inr (rs @ [entry head expected g])"
    by (simp add: add_snapshot_def)
  moreover have "snapshots_from (rs @ [entry head expected g]) b fs
      (map (sort_key fst) (map (snapshot_value b head expected) gs)) =
      Inr ((rs @ [entry head expected g]) @ map (entry head expected) gs)"
    using Cons.prems by (intro Cons.IH) auto
  ultimately show ?case
    using Cons.prems(1) snapshot_value_fields [OF assms(1), of g fs head expected] assms(5,6) by simp
qed simp

lemma filter_not_take: "distinct xs \<Longrightarrow> filter (\<lambda>x. x \<notin> set (take k xs)) xs = drop k xs"
proof -
  assume d: "distinct xs"
  have "set (take k xs) \<inter> set (drop k xs) = {}" using d by (metis append_take_drop_id distinct_append)
  then have "filter (\<lambda>x. x \<notin> set (take k xs)) (take k xs @ drop k xs) = drop k xs"
    by (auto simp: filter_id_conv simp del: append_take_drop_id)
  then show ?thesis by simp
qed

lemma remdups_constant: "xs \<noteq> [] \<Longrightarrow> (\<And>y. y \<in> set xs \<Longrightarrow> y = x) \<Longrightarrow> remdups xs = [x]"
proof (induction xs)
  case (Cons y ys)
  then show ?case by (cases ys) auto
qed simp

lemma heads_single:
  assumes "existing \<noteq> []" and "list_all (\<lambda>(f, h, oid). h = head) existing"
  shows "heads existing = [head]"
  unfolding heads_def
proof (rule remdups_constant)
  fix y assume "y \<in> set (map (fst \<circ> snd) existing)"
  then obtain x where "x \<in> set existing" "y = fst (snd x)" by auto
  then show "y = head" using assms(2) by (cases x) (auto simp: list_all_iff)
qed (use assms(1) in simp)

lemma tree_records_ok:
  "tree_records pf req res rs = Inr objs \<Longrightarrow> list_all (\<lambda>x. is_oid (snd x)) res \<Longrightarrow> list_all (\<lambda>x. is_oid (snd x)) objs"
proof (induction rs arbitrary: res)
  case (Cons r rs)
  have "is_oid (snd kv)" if "tree_record pf req res r = Inr kv" for kv
    using that unfolding tree_record_def by (auto split: prod.splits if_splits list.splits option.splits)
  with Cons show ?case by (auto simp: bind_res_Inr_iff split: if_splits)
qed simp

lemma tree_chunks_ok:
  "tree_chunks pf repo head req res cs = Inr objs \<Longrightarrow> list_all (\<lambda>x. is_oid (snd x)) res \<Longrightarrow>
     list_all (\<lambda>x. is_oid (snd x)) objs"
  by (induction cs arbitrary: res) (auto simp: bind_res_Inr_iff dest: tree_records_ok)

lemma blob_oids_ok:
  assumes "blob_oids pf repo head fs = Inr objs" and "f \<in> set fs"
  shows "\<exists>oid. map_of objs f = Some oid \<and> oid_of objs f = oid \<and> is_oid oid \<and> (f, oid) \<in> set objs"
proof -
  have "list_all (\<lambda>x. is_oid (snd x)) objs" and s: "set (map fst objs) = set fs"
    using assms(1) tree_chunks_ok unfolding blob_oids_def by (auto simp: bind_res_Inr_iff split: if_splits)
  moreover obtain oid where o: "map_of objs f = Some oid"
    using assms(2) s by (metis map_of_eq_None_iff option.exhaust set_map)
  ultimately show ?thesis using map_of_SomeD [OF o] by (force simp: list_all_iff oid_of_def)
qed

subsection \<open>Resuming a checkpoint\<close>

text \<open>What the first run of a checkpoint of an uncovered batch found.\<close>

definition first_run :: "platform \<Rightarrow> string \<Rightarrow> run \<Rightarrow> int \<Rightarrow> dict \<Rightarrow> string list \<Rightarrow> int list \<Rightarrow>
    (string \<times> string \<times> string) list \<Rightarrow> string \<Rightarrow> (string \<times> string) list \<Rightarrow> bool" where
  "first_run pf repo r b recon fs covered existing head expected \<longleftrightarrow>
     validate_repo pf repo = Inr () \<and>
     load_json_object (parse pf) MAX_RECON_BYTES (r_recon r) = Inr recon \<and>
     validate_recon recon b = Inr (fs, covered) \<and> b \<notin> set covered \<and>
     snapshot_records pf (r_snapshots r) b fs = Inr existing \<and>
     verify_or_prepare pf repo fs existing = Inr (head, expected)"

text \<open>
  What the code relies on outside itself: a commit id names itself, Git uses one object format, no object of the
  loaded plan has a key twice, and the JSON written here (with \<open>sort_keys=True\<close>) reads back with sorted keys.
\<close>

definition documented :: "platform \<Rightarrow> string \<Rightarrow> int \<Rightarrow> dict \<Rightarrow> string list \<Rightarrow> int list \<Rightarrow> string \<Rightarrow>
    (string \<times> string) list \<Rightarrow> bool" where
  "documented pf repo b recon fs covered head expected \<longleftrightarrow>
     resolve_commit pf repo head = Inr head \<and> list_all (\<lambda>x. length (snd x) = length head) expected \<and>
     list_all (reads_back (parse pf) (float_text pf)) (event_value b # map (snapshot_value b head expected) fs) \<and>
     wf_json (PDict recon) \<and>
     parse pf (dump_doc pf (receipt recon covered b)) = Some (canon (PDict (receipt recon covered b)))"

lemma wf_receipt: "wf_json (PDict recon) \<Longrightarrow> wf_json (PDict (receipt recon covered b))"
proof -
  assume wf: "wf_json (PDict recon)"
  have "distinct (map fst (receipt recon covered b))" using wf by (simp add: receipt_def distinct_update)
  moreover have "wf_json v" if "(k, v) \<in> set (receipt recon covered b)" for k v
  proof -
    have "v = PList (map PInt (covered @ [b])) \<or> (k, v) \<in> set recon"
      using that unfolding receipt_def by (induction recon) (auto split: if_splits)
    then show ?thesis using wf by (auto simp: list_all_iff)
  qed
  ultimately show ?thesis by (auto simp: list_all_iff)
qed

text \<open>The published receipt, as the next run loads it.\<close>

lemma receipt_loads:
  assumes "documented pf repo b recon fs covered head expected"
    and "blen (dump_doc pf (receipt recon covered b)) \<le> MAX_RECON_BYTES"
  shows "load_json_object (parse pf) MAX_RECON_BYTES (Regular (dump_doc pf (receipt recon covered b))) =
    Inr (canon_items (receipt recon covered b))"
  using assms by (simp add: load_json_object_def read_bounded_def documented_def canon_PDict del: canon.simps(7))

lemma validated_batch:
  assumes "validate_recon recon b = Inr (fs, covered)"
  shows "1 \<le> b" "distinct fs"
proof -
  obtain batches where v: "validate_recon_plan recon = Inr (batches, covered)" and m: "map_of batches b = Some fs"
    using assms unfolding validate_recon_def by (auto simp: bind_res_Inr_iff split: option.splits)
  obtain raw sc where sc: "scan_batches empty_scan raw = Inr sc" and b: "batches = sc_batches sc"
    using v unfolding validate_recon_plan_def by (auto simp: bind_res_Inr_iff)
  have ok: "scan_ok sc" using scan_batches_ok [OF sc empty_scan_ok] .
  have x: "(b, fs) \<in> set batches" using m by (rule map_of_SomeD)
  have "b \<in> set (map fst (sc_batches sc))" using x b by force
  then have "b \<in> set (sc_ids sc)" using ok by (simp only: scan_ok_def)
  then show "1 \<le> b" using ok by (auto simp: scan_ok_def list_all_iff)
  have "distinct (concat (map snd batches))"
    using ok mset_eq_imp_distinct_iff unfolding scan_ok_def b by blast
  then show "distinct fs" using x by (auto simp: distinct_concat_iff)
qed

lemma verify_or_prepare_Inr:
  assumes "verify_or_prepare pf repo fs existing = Inr (head, expected)"
  shows "prepared_head pf repo fs existing = Inr head" "blob_oids pf repo head fs = Inr expected"
    "list_all (\<lambda>(f, h, oid). h = head \<and> map_of expected f = Some oid) existing" "is_oid head"
proof -
  show parts: "prepared_head pf repo fs existing = Inr head" "blob_oids pf repo head fs = Inr expected"
      "list_all (\<lambda>(f, h, oid). h = head \<and> map_of expected f = Some oid) existing"
    using assms unfolding verify_or_prepare_def by (auto simp: bind_res_Inr_iff split: if_splits)
  have "is_oid h" if "resolve_commit pf repo rev = Inr h" for rev h
    using that unfolding resolve_commit_def by (auto simp: bind_res_Inr_iff split: if_splits)
  then show "is_oid head"
    using parts(1) unfolding prepared_head_def by (auto simp: bind_res_Inr_iff split: if_splits list.splits)
qed

lemma verify_more:
  assumes v: "verify_or_prepare pf repo fs existing = Inr (head, expected)"
    and "resolve_commit pf repo head = Inr head" and "set gs \<subseteq> set fs"
  shows "verify_or_prepare pf repo fs (existing @ map (entry head expected) gs) = Inr (head, expected)"
proof -
  note parts = verify_or_prepare_Inr [OF v]
  have "\<forall>g\<in>set gs. map_of expected g = Some (oid_of expected g)"
    using blob_oids_ok [OF parts(2)] assms(3) by (metis subsetD)
  then have all: "list_all (\<lambda>(f, h, oid). h = head \<and> map_of expected f = Some oid) (existing @ map (entry head expected) gs)"
    using parts(3) by (auto simp: list_all_iff)
  have "prepared_head pf repo fs (existing @ map (entry head expected) gs) = Inr head"
  proof (cases "existing @ map (entry head expected) gs = []")
    case False
    have "list_all (\<lambda>(f, h, oid). h = head) (existing @ map (entry head expected) gs)"
      using all by (rule list.pred_mono_strong) auto
    then have h: "heads (existing @ map (entry head expected) gs) = [head]" using heads_single [OF False] by blast
    show ?thesis unfolding prepared_head_def if_not_P [OF False] h by (simp add: assms(2))
  qed (use parts(1) in simp)
  then show ?thesis using parts(2) all by (simp add: verify_or_prepare_def)
qed

lemma snapshots_resumed:
  assumes run: "first_run pf repo r b recon fs covered existing head expected"
    and doc: "documented pf repo b recon fs covered head expected"
    and small: "list_all (\<lambda>v. blen (encoded (float_text pf) v) < MAX_JSONL_LINE_BYTES) (map (snapshot_value b head expected) fs)"
    and gs: "set gs \<subseteq> set fs" "distinct gs" "set gs \<inter> set (map fst existing) = {}"
    and clean: "clean_node (r_snapshots r)"
    and app: "append_bytes (lines_of pf (map (snapshot_value b head expected) gs)) (r_snapshots r) = Inr n"
    and fits: "blen (node_bytes n) \<le> MAX_SNAPSHOT_TAIL_BYTES"
  shows "snapshot_records pf n b fs = Inr (existing @ map (entry head expected) gs)"
proof -
  let ?new = "map (snapshot_value b head expected) gs"
  note n = append_lines_clean [OF clean app]
  have v: "validate_recon recon b = Inr (fs, covered)" and vp: "verify_or_prepare pf repo fs existing = Inr (head, expected)"
    and sr: "snapshot_records pf (r_snapshots r) b fs = Inr existing"
    using run by (simp_all add: first_run_def)
  have "blen (node_bytes (r_snapshots r)) \<le> MAX_SNAPSHOT_TAIL_BYTES"
    using fits unfolding n(2) blen_simps using blen_simps(4) by (metis add.commute add_le_same_cancel1 order_trans le_add_same_cancel2)
  then have old: "snapshots_from [] b fs (line_records (parse pf) (node_bytes (r_snapshots r))) = Inr existing"
    using sr by (simp add: snapshot_records_def read_clean [OF clean])
  have "line_records (parse pf) (concat (lines_of pf ?new)) = map (sort_key fst) ?new"
    using small doc gs(1) by (intro line_records_written) (auto simp: list_all_iff documented_def)
  then have "line_records (parse pf) (node_bytes n) =
      line_records (parse pf) (node_bytes (r_snapshots r)) @ map (sort_key fst) ?new"
    using clean unfolding n(2) clean_node_def by (simp add: line_records_append)
  moreover have "\<forall>f\<in>set fs. is_oid (oid_of expected f) \<and> length head = length (oid_of expected f)"
    using blob_oids_ok [OF verify_or_prepare_Inr(2) [OF vp]] doc by (fastforce simp: documented_def list_all_iff)
  then have "snapshots_from existing b fs (map (sort_key fst) ?new) = Inr (existing @ map (entry head expected) gs)"
    using validated_batch(1) [OF v] gs verify_or_prepare_Inr(4) [OF vp] by (intro snapshots_from_written)
  ultimately show ?thesis
    using old by (simp add: snapshot_records_def read_clean [OF n(1) fits] snapshots_from_append)
qed

text \<open>The files still without a snapshot, and the writes of a run that finds the first \<open>k\<close> of them done.\<close>

definition missing :: "string list \<Rightarrow> (string \<times> string \<times> string) list \<Rightarrow> string list" where
  "missing fs existing = filter (\<lambda>f. f \<notin> set (map fst existing)) fs"

lemma missing_after:
  assumes "distinct fs"
  shows "missing fs (existing @ map (entry head expected) (take k (missing fs existing))) = drop k (missing fs existing)"
proof -
  have "missing fs (existing @ map (entry head expected) (take k (missing fs existing))) =
      filter (\<lambda>f. f \<notin> set (take k (missing fs existing))) (missing fs existing)"
    unfolding missing_def by (auto simp: comp_def intro!: filter_cong)
  then show ?thesis using filter_not_take [of "missing fs existing" k] assms by (simp add: missing_def)
qed

definition rest_writes :: "platform \<Rightarrow> int \<Rightarrow> dict \<Rightarrow> int list \<Rightarrow> dict list \<Rightarrow> bool \<Rightarrow> ck_write list" where
  "rest_writes pf b recon covered vs already =
     Append_Snapshots (lines_of pf vs) # (if already then [] else [Append_Event (lines_of pf [event_value b])]) @
     [Publish_Recon (dump_doc pf (receipt recon covered b))]"

lemma event_writes_Inr:
  "event_writes pf already b = Inr ws \<Longrightarrow>
     ws = (if already then [] else [Append_Event (lines_of pf [event_value b])]) \<and>
     (\<not> already \<longrightarrow> blen (encoded (float_text pf) (event_value b)) < MAX_JSONL_LINE_BYTES)"
  using jsonl_all_Inr [of "float_text pf" "[event_value b]"]
  by (auto simp: event_writes_def bind_res_Inr_iff split: if_splits)

text \<open>The first run's writes, in terms of what it found.\<close>

lemma first_writes:
  assumes "first_run pf repo r b recon fs covered existing head expected"
    and "checkpoint_writes pf repo r b = Inr ws"
  shows "\<exists>already. event_exists pf (r_ledger r) b = Inr already \<and>
    ws = rest_writes pf b recon covered (map (snapshot_value b head expected) (missing fs existing)) already \<and>
    (already \<longrightarrow> set (map fst existing) = set fs) \<and>
    event_writes pf already b = Inr (if already then [] else [Append_Event (lines_of pf [event_value b])]) \<and>
    list_all (\<lambda>v. blen (encoded (float_text pf) v) < MAX_JSONL_LINE_BYTES) (map (snapshot_value b head expected) fs) \<and>
    (\<not> already \<longrightarrow> blen (encoded (float_text pf) (event_value b)) < MAX_JSONL_LINE_BYTES) \<and>
    sum_list (map blen (lines_of pf (map (snapshot_value b head expected) fs))) \<le> MAX_SNAPSHOT_TAIL_BYTES - MAX_JSONL_LINE_BYTES"
proof -
  let ?all = "map (snapshot_value b head expected) fs"
  obtain already where ev: "event_exists pf (r_ledger r) b = Inr already"
    and w: "cover_batch pf repo b recon fs covered existing already = Inr ws"
    using assms unfolding first_run_def checkpoint_writes_def by (auto simp: bind_res_Inr_iff)
  have vp: "verify_or_prepare pf repo fs existing = Inr (head, expected)" using assms(1) by (simp add: first_run_def)
  obtain full new event where
    full: "jsonl_all (float_text pf) ?all = Inr full" "sum_list (map blen full) \<le> MAX_SNAPSHOT_TAIL_BYTES - MAX_JSONL_LINE_BYTES"
    and new: "jsonl_all (float_text pf) (map (snapshot_value b head expected) (missing fs existing)) = Inr new"
    and event: "event_writes pf already b = Inr event"
    and a: "already \<longrightarrow> set (map fst existing) = set fs"
    and ws: "ws = Append_Snapshots new # event @ [Publish_Recon (dump_doc pf (receipt recon covered b))]"
    using w unfolding cover_batch_def vp missing_def by (auto simp: bind_res_Inr_iff split: if_splits)
  show ?thesis
    using ev a event_writes_Inr [OF event] event jsonl_all_Inr [OF full(1)] jsonl_all_Inr [OF new] full(2)
    unfolding ws rest_writes_def by (intro exI [of _ already]) simp
qed

text \<open>The writes of a later run, from what it finds.\<close>

lemma resumed_writes:
  assumes run: "first_run pf repo r b recon fs covered existing head expected"
    and res: "resolve_commit pf repo head = Inr head"
    and small: "list_all (\<lambda>v. blen (encoded (float_text pf) v) < MAX_JSONL_LINE_BYTES) (map (snapshot_value b head expected) fs)"
      "sum_list (map blen (lines_of pf (map (snapshot_value b head expected) fs))) \<le> MAX_SNAPSHOT_TAIL_BYTES - MAX_JSONL_LINE_BYTES"
    and event: "event_writes pf already b = Inr (if already then [] else [Append_Event (lines_of pf [event_value b])])"
    and s: "r_recon s = r_recon r" "event_exists pf (r_ledger s) b = Inr already"
      "snapshot_records pf (r_snapshots s) b fs = Inr (existing @ map (entry head expected) (take k (missing fs existing)))"
    and full: "already \<Longrightarrow> set (map fst (existing @ map (entry head expected) (take k (missing fs existing)))) = set fs"
  shows "checkpoint_writes pf repo s b =
    Inr (rest_writes pf b recon covered (map (snapshot_value b head expected) (drop k (missing fs existing))) already)"
proof -
  let ?now = "existing @ map (entry head expected) (take k (missing fs existing))"
  have v: "validate_repo pf repo = Inr ()" "load_json_object (parse pf) MAX_RECON_BYTES (r_recon s) = Inr recon"
    "validate_recon recon b = Inr (fs, covered)" "b \<notin> set covered"
    "verify_or_prepare pf repo fs existing = Inr (head, expected)"
    using run s(1) by (simp_all add: first_run_def)
  have "set (take k (missing fs existing)) \<subseteq> set fs" by (auto simp: missing_def dest: in_set_takeD)
  then have vp: "verify_or_prepare pf repo fs ?now = Inr (head, expected)" using verify_more [OF v(5) res] by blast
  have m: "filter (\<lambda>f. f \<notin> set (map fst ?now)) fs = drop k (missing fs existing)"
    using missing_after [OF validated_batch(2) [OF v(3)]] unfolding missing_def by blast
  have all: "jsonl_all (float_text pf) (map (snapshot_value b head expected) fs) = Inr (lines_of pf (map (snapshot_value b head expected) fs))"
    using small(1) by (induction fs) (auto simp: jsonl_bytes_line)
  have "set (map (snapshot_value b head expected) (drop k (missing fs existing))) \<subseteq> set (map (snapshot_value b head expected) fs)"
    by (auto simp: missing_def dest!: in_set_dropD)
  then have new: "jsonl_all (float_text pf) (map (snapshot_value b head expected) (drop k (missing fs existing))) =
      Inr (lines_of pf (map (snapshot_value b head expected) (drop k (missing fs existing))))"
    using jsonl_all_subset [OF all] by blast
  have "cover_batch pf repo b recon fs covered ?now already =
      Inr (rest_writes pf b recon covered (map (snapshot_value b head expected) (drop k (missing fs existing))) already)"
    unfolding cover_batch_def vp m rest_writes_def using all new event full small(2) by simp
  then show ?thesis unfolding checkpoint_writes_def using v s(2,3) by (simp del: map_append)
qed

text \<open>What a run that ends has done.\<close>

lemma rest_performed:
  assumes "perform_all r (rest_writes pf b recon covered vs already) = (Inr (), r1)"
  obtains n l where "append_bytes (lines_of pf vs) (r_snapshots r) = Inr n"
      "append_bytes (if already then [] else lines_of pf [event_value b]) (r_ledger r) = Inr l"
      "blen (dump_doc pf (receipt recon covered b)) \<le> MAX_RECON_BYTES"
      "r1 = r\<lparr>r_recon := Regular (dump_doc pf (receipt recon covered b)), r_ledger := l, r_snapshots := n\<rparr>"
proof -
  have none: "append_bytes [] m = Inr m" for m by (simp add: append_bytes_def)
  have "\<exists>n l. append_bytes (lines_of pf vs) (r_snapshots r) = Inr n \<and>
      append_bytes (if already then [] else lines_of pf [event_value b]) (r_ledger r) = Inr l \<and>
      blen (dump_doc pf (receipt recon covered b)) \<le> MAX_RECON_BYTES \<and>
      r1 = r\<lparr>r_recon := Regular (dump_doc pf (receipt recon covered b)), r_ledger := l, r_snapshots := n\<rparr>"
    using assms unfolding rest_writes_def by (auto simp: none bind_res_def split: sum.splits if_splits)
  then show ?thesis using that by blast
qed

text \<open>A file that was cut at a byte and still ends in whole lines was cut between two of its records.\<close>

definition opened :: "node \<Rightarrow> node \<Rightarrow> bool" where
  "opened n m \<longleftrightarrow> m = n \<or> (n = Absent \<and> m = Regular [])"

lemma opened_refl [simp]: "opened n n"
  by (simp add: opened_def)

lemma opened_append: "opened n m \<Longrightarrow> bs \<noteq> [] \<Longrightarrow> append_bytes bs m = append_bytes bs n"
  by (auto simp: opened_def append_bytes_def)

lemma opened_read: "opened n m \<Longrightarrow> read_jsonl_tail p w m = read_jsonl_tail p w n"
  by (auto simp: opened_def read_jsonl_tail_def line_records_def committed_def drop_first_line_def List.map_filter_simps)

lemma append_possible: "clean_node n \<Longrightarrow> \<exists>m. append_bytes bs n = Inr m"
  by (cases n) (auto simp: append_bytes_def clean_node_def)

lemma whole_lines_suffix: "whole_lines (a @ b) \<Longrightarrow> whole_lines b"
  by (cases "b = []") (auto simp: whole_lines_def)

lemma whole_prefix:
  assumes "\<forall>l\<in>set ls. \<exists>m. l = m @ [LF] \<and> LF \<notin> set m" and "whole_lines (take k (concat ls))"
  shows "\<exists>j. take k (concat ls) = concat (take j ls)"
  using assms
proof (induction ls arbitrary: k)
  case (Cons l ls)
  obtain m where m: "l = m @ [LF]" "LF \<notin> set m" using Cons.prems(1) by auto
  show ?case
  proof (cases "length l \<le> k")
    case True
    then have split: "take k (concat (l # ls)) = l @ take (k - length l) (concat ls)" by simp
    then have "whole_lines (take (k - length l) (concat ls))"
      using Cons.prems(2) whole_lines_suffix [of l] by metis
    then obtain j where "take (k - length l) (concat ls) = concat (take j ls)" using Cons by fastforce
    then show ?thesis unfolding split by (intro exI [of _ "Suc j"]) simp
  next
    case False
    then have t: "take k (concat (l # ls)) = take k m" by (simp add: m(1))
    then have "take k m = []"
      using Cons.prems(2) m(2) unfolding whole_lines_def by (metis in_set_takeD last_in_set)
    then show ?thesis unfolding t by (intro exI [of _ 0]) simp
  qed
qed simp

lemma cut_append:
  assumes "\<forall>l\<in>set ls. \<exists>m. l = m @ [LF] \<and> LF \<notin> set m" and "clean_node n" "clean_node m"
    and cut: "append_bytes [take k (concat ls)] n = Inr m"
  shows "\<exists>j nj. append_bytes (take j ls) n = Inr nj \<and> opened nj m"
proof -
  have b: "node_bytes m = node_bytes n @ take k (concat ls)" using append_clean [OF assms(2) cut] by simp
  then have "whole_lines (take k (concat ls))" using assms(3) whole_lines_suffix by (metis clean_node_def)
  then obtain j where j: "take k (concat ls) = concat (take j ls)" using whole_prefix [OF assms(1)] by blast
  show ?thesis
  proof (cases "take j ls = []")
    case True
    then have "take k (concat ls) = []" unfolding j by (simp only: concat.simps)
    then have "opened n m" using cut assms(2) by (auto simp: append_bytes_def clean_node_def opened_def)
    then show ?thesis by (intro exI [of _ 0] exI [of _ n]) (simp add: append_bytes_def)
  next
    case False
    then have "append_bytes (take j ls) n = Inr m"
      using cut unfolding j append_bytes_def by (cases n) simp_all
    then show ?thesis by (intro exI [of _ j] exI [of _ m]) simp
  qed
qed

lemma lines_end: "list_all flat vs \<Longrightarrow> \<forall>l\<in>set (lines_of pf vs). \<exists>m. l = m @ [LF] \<and> LF \<notin> set m"
  using no_break_encoded by (fastforce simp: no_break_def list_all_iff)

text \<open>
  The states a crash can leave in which the record files end in whole lines: some of the records of one append
  are written, and the rest still fits behind them.
\<close>

definition part_done :: "platform \<Rightarrow> run \<Rightarrow> dict list \<Rightarrow> bytes list \<Rightarrow> node \<Rightarrow> node \<Rightarrow> run \<Rightarrow> bool" where
  "part_done pf r vs ev n l r2 \<longleftrightarrow>
     (\<exists>k nk m lm. append_bytes (take k (lines_of pf vs)) (r_snapshots r) = Inr nk \<and> opened nk m \<and>
        opened (r_ledger r) lm \<and> append_bytes (drop k (lines_of pf vs)) m = Inr n \<and> append_bytes ev lm = Inr l \<and>
        r2 = r\<lparr>r_ledger := lm, r_snapshots := m\<rparr>)"

lemma part_snapshots:
  assumes vs: "list_all flat vs" and clean: "clean_node (r_snapshots r)" "clean_node m"
    and n: "append_bytes (lines_of pf vs) (r_snapshots r) = Inr n" and l: "append_bytes ev (r_ledger r) = Inr l"
    and cut: "vs \<noteq> []" "append_bytes [take k (concat (lines_of pf vs))] (r_snapshots r) = Inr m"
  shows "part_done pf r vs ev n l (r\<lparr>r_snapshots := m\<rparr>)"
proof -
  let ?ls = "lines_of pf vs"
  obtain j nj where nj: "append_bytes (take j ?ls) (r_snapshots r) = Inr nj" "opened nj m"
    using cut_append [OF lines_end [OF vs] clean cut(2)] by blast
  have "append_bytes (take j ?ls @ drop j ?ls) (r_snapshots r) = Inr n" using n by simp
  then have rest: "append_bytes (drop j ?ls) nj = Inr n" unfolding append_bytes_append nj by simp
  show ?thesis
  proof (cases "m = nj")
    case True
    then show ?thesis unfolding part_done_def using nj rest l by (intro exI [of _ j] exI [of _ nj] exI [of _ nj] exI [of _ "r_ledger r"]) simp
  next
    case False
    then have abs: "nj = Absent" "m = Regular []" using nj(2) by (auto simp: opened_def)
    then have "r_snapshots r = Absent" using nj(1) by (cases "r_snapshots r") (auto simp: append_bytes_def split: if_splits)
    moreover from this have "append_bytes ?ls m = Inr n"
      using n opened_append [of Absent m ?ls] cut(1) abs by (simp add: opened_def)
    ultimately show ?thesis unfolding part_done_def using abs l
      by (intro exI [of _ 0] exI [of _ Absent] exI [of _ m] exI [of _ "r_ledger r"]) (simp add: append_bytes_def [of "[]"] opened_def)
  qed
qed

lemma part_full:
  assumes "append_bytes (lines_of pf vs) (r_snapshots r) = Inr n" and "opened (r_ledger r) lm" "append_bytes ev lm = Inr l"
  shows "part_done pf r vs ev n l (r\<lparr>r_ledger := lm, r_snapshots := n\<rparr>)"
  unfolding part_done_def using assms
  by (intro exI [of _ "length (lines_of pf vs)"] exI [of _ n] exI [of _ lm]) (simp add: append_bytes_def [of "[]"])

lemma crash_states:
  assumes vs: "list_all flat vs" and clean: "clean_node (r_snapshots r)" "clean_node (r_ledger r)"
      "clean_node (r_snapshots r2)" "clean_node (r_ledger r2)"
    and n: "append_bytes (lines_of pf vs) (r_snapshots r) = Inr n"
    and l: "append_bytes (if already then [] else lines_of pf [event_value b]) (r_ledger r) = Inr l"
    and r1: "r1 = r\<lparr>r_recon := Regular (dump_doc pf (receipt recon covered b)), r_ledger := l, r_snapshots := n\<rparr>"
    and crash: "crash r (rest_writes pf b recon covered vs already) r2"
  shows "part_done pf r vs (if already then [] else lines_of pf [event_value b]) n l r2 \<or>
    r2 = r\<lparr>r_ledger := l, r_snapshots := n\<rparr> \<or> r2 = r1"
proof -
  let ?ev = "if already then [] else lines_of pf [event_value b]"
  let ?part = "part_done pf r vs ?ev n l r2"
  let ?done = "r2 = r\<lparr>r_ledger := l, r_snapshots := n\<rparr> \<or> r2 = r1"
  have at_start: ?part if "r2 = r"
    unfolding part_done_def using n l that
    by (intro exI [of _ 0] exI [of _ "r_snapshots r"] exI [of _ "r_ledger r"]) (simp add: append_bytes_def [of "[]"])
  have at_event: "?part \<or> ?done"
    if go: "crash (r\<lparr>r_snapshots := n\<rparr>) ((if already then [] else [Append_Event (lines_of pf [event_value b])]) @
        [Publish_Recon (dump_doc pf (receipt recon covered b))]) r2"
  proof -
    have none: "append_bytes [] x = Inr x" for x by (simp add: append_bytes_def)
    have cutting: "?part \<or> ?done" if a: "\<not> already" and c: "append_bytes [take k (concat (lines_of pf [event_value b]))] (r_ledger r) = Inr m"
      and r2: "r2 = r\<lparr>r_snapshots := n, r_ledger := m\<rparr>" for k m
    proof -
      have "clean_node m" using clean(4) by (simp add: r2)
      then obtain j nj where nj: "append_bytes (take j (lines_of pf [event_value b])) (r_ledger r) = Inr nj" "opened nj m"
        using cut_append [OF lines_end [of "[event_value b]"] clean(2) _ c] by auto
      show ?thesis
      proof (cases j)
        case 0
        then have o: "opened (r_ledger r) m" using nj by (simp add: none)
        then have "append_bytes ?ev m = Inr l" using l a opened_append [OF o, of "lines_of pf [event_value b]"] by simp
        then have "part_done pf r vs ?ev n l (r\<lparr>r_ledger := m, r_snapshots := n\<rparr>)" by (rule part_full [OF n o])
        moreover have "r2 = r\<lparr>r_ledger := m, r_snapshots := n\<rparr>" by (simp add: r2)
        ultimately show ?thesis by (simp only: simp_thms)
      next
        case (Suc i)
        then have "nj = l" using nj(1) l a by simp
        moreover have "l \<noteq> Absent" using l a by (cases "r_ledger r") (auto simp: append_bytes_def)
        ultimately show ?thesis using nj(2) by (simp add: r2 opened_def)
      qed
    qed
    have full: ?part if "r2 = r\<lparr>r_snapshots := n\<rparr>" using part_full [OF n opened_refl l] that by simp
    have publish: ?done if "crash (r\<lparr>r_snapshots := n, r_ledger := l\<rparr>) [Publish_Recon (dump_doc pf (receipt recon covered b))] r2"
      using that unfolding r1 by (auto simp: bind_res_Inr_iff split: if_splits elim!: crash_ConsE crash_NilE)
    show ?thesis
    proof (cases already)
      case True
      then have "r\<lparr>r_snapshots := n, r_ledger := l\<rparr> = r\<lparr>r_snapshots := n\<rparr>" using l by (simp add: none)
      then show ?thesis using go publish True by simp
    next
      case False
      have line: "append_bytes (lines_of pf [event_value b]) (r_ledger r) = Inr l" using l False by simp
      consider "r2 = r\<lparr>r_snapshots := n\<rparr>"
        | "crash (r\<lparr>r_snapshots := n, r_ledger := l\<rparr>) [Publish_Recon (dump_doc pf (receipt recon covered b))] r2"
        | k m where "append_bytes [take k (concat (lines_of pf [event_value b]))] (r_ledger r) = Inr m"
            "r2 = r\<lparr>r_snapshots := n, r_ledger := m\<rparr>"
        using go False line by (auto simp: bind_res_Inr_iff elim!: crash_ConsE [of "r\<lparr>r_snapshots := n\<rparr>" "Append_Event bs" for bs])
      then show ?thesis
      proof cases
        case 3
        then show ?thesis by (rule cutting [OF False])
      qed (use full publish in simp_all)
    qed
  qed
  have during: ?part if "lines_of pf vs \<noteq> []" "append_bytes [take k (concat (lines_of pf vs))] (r_snapshots r) = Inr m"
      "r2 = r\<lparr>r_snapshots := m\<rparr>" for k m
    using part_snapshots [OF vs clean(1) _ n l _ that(2)] clean(3) that(1,3) by simp
  consider "r2 = r"
    | "crash (r\<lparr>r_snapshots := n\<rparr>) ((if already then [] else [Append_Event (lines_of pf [event_value b])]) @
        [Publish_Recon (dump_doc pf (receipt recon covered b))]) r2"
    | k m where "lines_of pf vs \<noteq> []" "append_bytes [take k (concat (lines_of pf vs))] (r_snapshots r) = Inr m"
        "r2 = r\<lparr>r_snapshots := m\<rparr>"
    using crash n unfolding rest_writes_def
    by (auto simp: bind_res_Inr_iff elim!: crash_ConsE [of r "Append_Snapshots bs" for bs])
  then show ?thesis
  proof cases
    case 3
    then show ?thesis using during by blast
  qed (use at_start at_event in simp_all)
qed

lemma receipt_validates:
  assumes "validate_recon recon b = Inr (fs, covered)" and "b \<notin> set covered"
  shows "validate_recon (receipt recon covered b) b = Inr (fs, covered @ [b])"
proof -
  obtain batches where v: "validate_recon_plan recon = Inr (batches, covered)" and m: "map_of batches b = Some fs"
    using assms(1) unfolding validate_recon_def by (auto simp: bind_res_Inr_iff split: option.splits)
  obtain raw sc where sc: "plan_batches recon = Inr raw" "scan_batches empty_scan raw = Inr sc"
      "check_count recon ''batch_count'' (int (length raw)) = Inr ()"
      "check_count recon ''files_in_scope'' (int (length (sc_files sc))) = Inr ()"
      "plan_covered recon (sc_ids sc) = Inr covered" "batches = sc_batches sc"
    using v unfolding validate_recon_plan_def by (auto simp: bind_res_Inr_iff)
  have same: "map_of (receipt recon covered b) k = map_of recon k" if "k \<noteq> ''covered''" for k
    using that by (simp add: receipt_def)
  have ids: "sc_ids sc = map fst batches" using scan_batches_ok [OF sc(2) empty_scan_ok] by (simp add: scan_ok_def sc(6))
  have "list_all (\<lambda>i. 1 \<le> i) (sc_ids sc)" using scan_batches_ok [OF sc(2) empty_scan_ok] by (simp add: scan_ok_def)
  moreover have c: "distinct covered" "set covered \<subseteq> set (sc_ids sc)" using plan_covered_ok [OF sc(5)] by simp_all
  moreover have b: "b \<in> set (sc_ids sc)" using m by (metis ids map_of_eq_None_iff option.distinct(1) set_map)
  ultimately have pos: "\<forall>i\<in>set (covered @ [b]). 1 \<le> i" by (auto simp: list_all_iff)
  have ints: "map_res batch_id (map PInt xs) = Inr xs" if "\<forall>i\<in>set xs. 1 \<le> i" for xs
    using that by (induction xs) (auto simp: batch_id_def)
  have "dict_get (receipt recon covered b) ''covered'' (PList []) = PList (map PInt (covered @ [b]))"
    by (simp add: receipt_def)
  moreover have "distinct (covered @ [b]) \<and> set (covered @ [b]) \<subseteq> set (sc_ids sc)" using c b assms(2) by simp
  ultimately have "plan_covered (receipt recon covered b) (sc_ids sc) = Inr (covered @ [b])"
    by (simp add: plan_covered_def ints [OF pos] del: map_append set_append distinct_append)
  moreover have "plan_batches (receipt recon covered b) = Inr raw"
    using sc(1) by (simp add: plan_batches_def same)
  moreover have "check_count (receipt recon covered b) ''batch_count'' (int (length raw)) = Inr ()"
      "check_count (receipt recon covered b) ''files_in_scope'' (int (length (sc_files sc))) = Inr ()"
    using sc(3,4) by (simp_all add: check_count_def same)
  ultimately have "validate_recon_plan (receipt recon covered b) = Inr (batches, covered @ [b])"
    using sc(2,6) by (simp add: validate_recon_plan_def)
  then show ?thesis using m by (simp add: validate_recon_def)
qed

lemma receipt_canon:
  assumes "documented pf repo b recon fs covered head expected"
    and "validate_recon recon b = Inr (fs, covered)" and "b \<notin> set covered"
  shows "validate_recon (canon_items (receipt recon covered b)) b = Inr (fs, covered @ [b])"
  using assms receipt_validates [OF assms(2,3)] validate_recon_canon [OF wf_receipt]
  by (simp add: documented_def del: wf_json.simps)

lemma event_after:
  assumes "1 \<le> b" and "reads_back (parse pf) (float_text pf) (event_value b)"
    and "blen (encoded (float_text pf) (event_value b)) < MAX_JSONL_LINE_BYTES"
    and "clean_node n" and "append_bytes (lines_of pf [event_value b]) n = Inr l"
    and "blen (node_bytes l) \<le> MAX_LEDGER_TAIL_BYTES"
  shows "event_exists pf l b = Inr True"
proof -
  note l = append_lines_clean [OF assms(4,5)]
  have "line_records (parse pf) (concat (lines_of pf [event_value b])) = map (sort_key fst) [event_value b]"
    using assms(2,3) by (intro line_records_written) simp_all
  then have "line_records (parse pf) (node_bytes l) =
      line_records (parse pf) (node_bytes n) @ [sort_key fst (event_value b)]"
    using assms(4) unfolding l(2) clean_node_def by (simp add: line_records_append)
  then show ?thesis
    using event_batch_value [OF assms(1)] by (simp add: event_exists_def read_clean [OF l(1) assms(6)])
qed

lemma perform_rest:
  assumes "append_bytes (lines_of pf vs) (r_snapshots s) = Inr n"
    and "append_bytes (if already then [] else lines_of pf [event_value b]) (r_ledger s) = Inr l"
    and "blen (dump_doc pf (receipt recon covered b)) \<le> MAX_RECON_BYTES"
  shows "perform_all s (rest_writes pf b recon covered vs already) =
    (Inr (), s\<lparr>r_recon := Regular (dump_doc pf (receipt recon covered b)), r_ledger := l, r_snapshots := n\<rparr>)"
  using assms by (auto simp: rest_writes_def append_bytes_def [of "[]"])

lemma snapshot_fields_file: "snapshot_fields fs v = Inr x \<Longrightarrow> fst x \<in> set fs"
  unfolding snapshot_fields_def
  by (cases "dict_get v ''file'' PNone"; cases "dict_get v ''head'' PNone"; cases "dict_get v ''blob_oid'' PNone")
    (auto split: if_splits)

lemma snapshot_records_files:
  assumes "snapshot_records pf n b fs = Inr rs"
  shows "set (map fst rs) \<subseteq> set fs"
proof
  fix f assume "f \<in> set (map fst rs)"
  then obtain x where x: "x \<in> set rs" "f = fst x" by auto
  obtain vs where vs: "snapshots_from [] b fs vs = Inr rs"
    using assms unfolding snapshot_records_def by (auto simp: bind_res_Inr_iff)
  obtain v where "snapshot_fields fs v = Inr x" using snapshots_from_sound [OF vs x(1)] by auto
  then show "f \<in> set fs" unfolding x(2) by (rule snapshot_fields_file)
qed

text \<open>A second run after the receipt finds every surface complete and writes nothing.\<close>

lemma settled_writes:
  assumes run: "first_run pf repo r b recon fs covered existing head expected"
    and doc: "documented pf repo b recon fs covered head expected"
    and small: "blen (dump_doc pf (receipt recon covered b)) \<le> MAX_RECON_BYTES"
    and s: "r_recon s = Regular (dump_doc pf (receipt recon covered b))" "event_exists pf (r_ledger s) b = Inr True"
      "snapshot_records pf (r_snapshots s) b fs = Inr (existing @ map (entry head expected) (missing fs existing))"
  shows "checkpoint_writes pf repo s b = Inr []"
proof -
  let ?now = "existing @ map (entry head expected) (missing fs existing)"
  have v: "validate_repo pf repo = Inr ()" "validate_recon recon b = Inr (fs, covered)" "b \<notin> set covered"
    "verify_or_prepare pf repo fs existing = Inr (head, expected)"
    "snapshot_records pf (r_snapshots r) b fs = Inr existing"
    using run by (simp_all add: first_run_def)
  have load: "load_json_object (parse pf) MAX_RECON_BYTES (r_recon s) = Inr (canon_items (receipt recon covered b))"
    using receipt_loads [OF doc small] by (simp add: s(1))
  have "set (map fst existing) \<subseteq> set fs"
    using snapshot_records_files [OF v(5)] .
  then have full: "set (map fst ?now) = set fs" by (auto simp: missing_def image_iff)
  have "set (missing fs existing) \<subseteq> set fs" by (auto simp: missing_def)
  then have "verify_or_prepare pf repo fs ?now = Inr (head, expected)"
    using verify_more [OF v(4)] doc unfolding documented_def by blast
  then have "recheck_covered pf repo b fs ?now True = Inr []"
    using full by (simp add: recheck_covered_def event_writes_def del: set_map map_append)
  then show ?thesis
    unfolding checkpoint_writes_def using v(1) load receipt_canon [OF doc v(2,3)] s(2,3) by (simp del: map_append)
qed

text \<open>The snapshots at a crash inside their append, and the rest of that append.\<close>

lemma crash_point:
  assumes run: "first_run pf repo r b recon fs covered existing head expected"
    and doc: "documented pf repo b recon fs covered head expected"
    and small: "list_all (\<lambda>v. blen (encoded (float_text pf) v) < MAX_JSONL_LINE_BYTES) (map (snapshot_value b head expected) fs)"
    and clean: "clean_node (r_snapshots r)"
    and n: "append_bytes (lines_of pf (map (snapshot_value b head expected) (missing fs existing))) (r_snapshots r) = Inr n"
    and fits: "blen (node_bytes n) \<le> MAX_SNAPSHOT_TAIL_BYTES"
    and nk: "append_bytes (take k (lines_of pf (map (snapshot_value b head expected) (missing fs existing)))) (r_snapshots r) = Inr nk"
  shows "snapshot_records pf nk b fs = Inr (existing @ map (entry head expected) (take k (missing fs existing)))"
    "append_bytes (lines_of pf (map (snapshot_value b head expected) (drop k (missing fs existing)))) nk = Inr n"
proof -
  let ?lines = "lines_of pf (map (snapshot_value b head expected) (missing fs existing))"
  have v: "validate_recon recon b = Inr (fs, covered)" using run by (simp add: first_run_def)
  have gs: "set (take k (missing fs existing)) \<subseteq> set fs" "distinct (take k (missing fs existing))"
      "set (take k (missing fs existing)) \<inter> set (map fst existing) = {}"
    using validated_batch(2) [OF v] by (auto simp: missing_def dest!: in_set_takeD) force
  have nk': "append_bytes (lines_of pf (map (snapshot_value b head expected) (take k (missing fs existing)))) (r_snapshots r) = Inr nk"
    using nk by (simp add: take_map)
  have "append_bytes (take k ?lines @ drop k ?lines) (r_snapshots r) = Inr n" using n by simp
  then show rest: "append_bytes (lines_of pf (map (snapshot_value b head expected) (drop k (missing fs existing)))) nk = Inr n"
    unfolding append_bytes_append nk by (simp add: drop_map)
  have "blen (node_bytes nk) \<le> blen (node_bytes n)"
    using append_lines_clean(2) [OF append_lines_clean(1) [OF clean nk'] rest] by (simp add: blen_def)
  then have "blen (node_bytes nk) \<le> MAX_SNAPSHOT_TAIL_BYTES" using fits by simp
  then show "snapshot_records pf nk b fs = Inr (existing @ map (entry head expected) (take k (missing fs existing)))"
    by (rule snapshots_resumed [OF run doc small gs clean nk'])
qed

lemma event_settled:
  assumes "event_exists pf m b = Inr already" and "1 \<le> b"
    and "reads_back (parse pf) (float_text pf) (event_value b)"
    and "\<not> already \<longrightarrow> blen (encoded (float_text pf) (event_value b)) < MAX_JSONL_LINE_BYTES"
    and "clean_node m" and "append_bytes (if already then [] else lines_of pf [event_value b]) m = Inr l"
    and "blen (node_bytes l) \<le> MAX_LEDGER_TAIL_BYTES"
  shows "event_exists pf l b = Inr True"
proof (cases already)
  case True
  then show ?thesis using assms(1,6) by (simp add: append_bytes_def)
next
  case False
  then show ?thesis using event_after [OF assms(2,3) _ assms(5) _ assms(7)] assms(4,6) by simp
qed

text \<open>
  C1: A checkpoint survives a crash: from whatever a crash of the process leaves (any of the writes done, a record
  file created but still empty, an append cut at any byte), as long as the two record files then end in whole
  lines, running the same command again ends in the very state the uninterrupted run reaches, without a duplicate
  on any surface; run from that state, it changes nothing.  The record files end in whole lines before the run too
  and fit their recovery windows; a commit id names itself, Git uses one object format, and the JSON written here
  reads back with sorted keys.  A crash that leaves an unfinished last line is a property of its own.
\<close>

theorem crash_replay:
  assumes run: "first_run pf repo r b recon fs covered existing head expected"
    and doc: "documented pf repo b recon fs covered head expected"
    and clean: "clean_node (r_snapshots r)" "clean_node (r_ledger r)"
    and fits: "blen (node_bytes (r_snapshots r1)) \<le> MAX_SNAPSHOT_TAIL_BYTES"
      "blen (node_bytes (r_ledger r1)) \<le> MAX_LEDGER_TAIL_BYTES"
    and ws: "checkpoint_writes pf repo r b = Inr ws" and done1: "perform_all r ws = (Inr (), r1)"
    and crash: "crash r ws r2" and clean2: "clean_node (r_snapshots r2)" "clean_node (r_ledger r2)"
  shows "checkpoint pf repo r2 b = (Inr (), r1)"
proof -
  let ?vs = "map (snapshot_value b head expected) (missing fs existing)"
  obtain already where ev: "event_exists pf (r_ledger r) b = Inr already"
    and w: "ws = rest_writes pf b recon covered ?vs already" and full: "already \<longrightarrow> set (map fst existing) = set fs"
    and event: "event_writes pf already b = Inr (if already then [] else [Append_Event (lines_of pf [event_value b])])"
    and small: "list_all (\<lambda>v. blen (encoded (float_text pf) v) < MAX_JSONL_LINE_BYTES) (map (snapshot_value b head expected) fs)"
      "\<not> already \<longrightarrow> blen (encoded (float_text pf) (event_value b)) < MAX_JSONL_LINE_BYTES"
      "sum_list (map blen (lines_of pf (map (snapshot_value b head expected) fs))) \<le> MAX_SNAPSHOT_TAIL_BYTES - MAX_JSONL_LINE_BYTES"
    using first_writes [OF run ws] by blast
  obtain n l where n: "append_bytes (lines_of pf ?vs) (r_snapshots r) = Inr n"
    and l: "append_bytes (if already then [] else lines_of pf [event_value b]) (r_ledger r) = Inr l"
    and d: "blen (dump_doc pf (receipt recon covered b)) \<le> MAX_RECON_BYTES"
    and r1: "r1 = r\<lparr>r_recon := Regular (dump_doc pf (receipt recon covered b)), r_ledger := l, r_snapshots := n\<rparr>"
    by (rule rest_performed [OF done1 [unfolded w]])
  have "list_all flat ?vs" by (simp add: list_all_iff)
  note states = crash_states [OF this clean clean2 n l r1 crash [unfolded w]]
  have res: "resolve_commit pf repo head = Inr head" using doc by (simp add: documented_def)
  have v: "validate_recon recon b = Inr (fs, covered)" using run by (simp add: first_run_def)
  have fit_n: "blen (node_bytes n) \<le> MAX_SNAPSHOT_TAIL_BYTES" and fit_l: "blen (node_bytes l) \<le> MAX_LEDGER_TAIL_BYTES"
    using fits by (simp_all add: r1)
  note point = crash_point [OF run doc small(1) clean(1) n fit_n]
  have all: "snapshot_records pf n b fs = Inr (existing @ map (entry head expected) (missing fs existing))"
    using point(1) [of "length ?vs" n] n by simp
  have evl: "event_exists pf l b = Inr True"
    using event_settled [OF ev _ _ _ clean(2) l fit_l] validated_batch(1) [OF v] doc small(2) by (simp add: documented_def)
  from states show ?thesis
  proof (elim disjE)
    assume "part_done pf r ?vs (if already then [] else lines_of pf [event_value b]) n l r2"
    then obtain k nk m lm where p: "append_bytes (take k (lines_of pf ?vs)) (r_snapshots r) = Inr nk" "opened nk m"
        "opened (r_ledger r) lm" "append_bytes (drop k (lines_of pf ?vs)) m = Inr n"
        "append_bytes (if already then [] else lines_of pf [event_value b]) lm = Inr l"
        "r2 = r\<lparr>r_ledger := lm, r_snapshots := m\<rparr>"
      unfolding part_done_def by blast
    have "snapshot_records pf m b fs = Inr (existing @ map (entry head expected) (take k (missing fs existing)))"
      using point(1) [OF p(1)] opened_read [OF p(2)] by (simp add: snapshot_records_def)
    moreover have "event_exists pf lm b = Inr already" using ev opened_read [OF p(3)] by (simp add: event_exists_def)
    ultimately have "checkpoint_writes pf repo r2 b =
        Inr (rest_writes pf b recon covered (map (snapshot_value b head expected) (drop k (missing fs existing))) already)"
      using full by (intro resumed_writes [OF run res small(1,3) event]) (auto simp: p(6) missing_def dest: in_set_takeD)
    moreover have "perform_all r2 (rest_writes pf b recon covered
        (map (snapshot_value b head expected) (drop k (missing fs existing))) already) =
        (Inr (), r2\<lparr>r_recon := Regular (dump_doc pf (receipt recon covered b)), r_ledger := l, r_snapshots := n\<rparr>)"
      by (rule perform_rest [OF _ _ d]) (use p(4,5) in \<open>simp_all add: p(6) drop_map\<close>)
    ultimately show ?thesis by (simp add: checkpoint_def p(6) r1)
  next
    assume event: "r2 = r\<lparr>r_ledger := l, r_snapshots := n\<rparr>"
    have "checkpoint_writes pf repo r2 b =
        Inr (rest_writes pf b recon covered (map (snapshot_value b head expected) (drop (length ?vs) (missing fs existing))) True)"
      using all evl snapshot_records_files [of pf "r_snapshots r" b fs existing] run
      by (intro resumed_writes [OF run res small(1,3)]) (auto simp: event event_writes_def missing_def first_run_def)
    then show ?thesis by (simp add: checkpoint_def event r1 perform_rest [OF _ _ d] append_bytes_def)
  next
    assume "r2 = r1"
    moreover have "checkpoint_writes pf repo r1 b = Inr []"
      using settled_writes [OF run doc d] evl all by (simp add: r1)
    ultimately show ?thesis by (simp add: checkpoint_def)
  qed
qed

subsection \<open>Atomic coverage\<close>

lemma upto_last_newline_torn: "whole_lines a \<Longrightarrow> LF \<notin> set q \<Longrightarrow> upto_last_newline (a @ q) = a"
proof -
  assume a: "whole_lines a" and q: "LF \<notin> set q"
  have "dropWhile (\<lambda>c. c \<noteq> LF) (rev q @ rev a) = dropWhile (\<lambda>c. c \<noteq> LF) (rev a)"
    using q by (intro dropWhile_append2) auto
  also have "\<dots> = rev a" using a by (cases a rule: rev_cases) (auto simp: whole_lines_def)
  finally show ?thesis by (simp add: upto_last_newline_def)
qed

lemma committed_torn: "whole_lines a \<Longrightarrow> LF \<notin> set q \<Longrightarrow> blen (a @ q) \<le> m \<Longrightarrow> committed m (a @ q) = a"
proof (cases "q = []")
  case False
  assume "whole_lines a" "LF \<notin> set q" "blen (a @ q) \<le> m"
  moreover from False this(2) have "last q \<noteq> LF" using last_in_set by metis
  ultimately show ?thesis using False upto_last_newline_torn [of a q] by (simp add: committed_def Let_def)
qed (simp add: committed_all)

lemma take_line: "take k (l @ [LF]) = l @ [LF] \<or> (\<exists>q. take k (l @ [LF]) = take q l)"
  by (cases "k \<le> length l") auto

definition ledger_batches :: "platform \<Rightarrow> node \<Rightarrow> int set" where
  "ledger_batches pf n =
     (case read_jsonl_tail (parse pf) MAX_LEDGER_TAIL_BYTES n of Inl _ \<Rightarrow> {} | Inr vs \<Rightarrow> {b. Some b \<in> set (map event_batch vs)})"

lemma coverage_eq:
  assumes "load_json_object (parse pf) MAX_RECON_BYTES (r_recon r) = Inr recon"
    and "validate_recon recon b = Inr (fs, covered)"
  shows "coverage pf r = set covered \<inter> ledger_batches pf (r_ledger r)"
  using assms unfolding coverage_def ledger_batches_def validate_recon_def
  by (auto simp: bind_res_Inr_iff split: option.splits sum.splits)

lemma ledger_after_event:
  assumes ev: "1 \<le> b" "reads_back (parse pf) (float_text pf) (event_value b)"
      "blen (encoded (float_text pf) (event_value b)) < MAX_JSONL_LINE_BYTES"
    and clean: "clean_node n" and app: "append_bytes [take k (concat (lines_of pf [event_value b]))] n = Inr l"
    and fits: "blen (node_bytes n) + blen (concat (lines_of pf [event_value b])) \<le> MAX_LEDGER_TAIL_BYTES"
  shows "ledger_batches pf l = ledger_batches pf n \<or> ledger_batches pf l = insert b (ledger_batches pf n)"
proof -
  let ?e = "encoded (float_text pf) (event_value b)"
  have n: "read_jsonl_tail (parse pf) MAX_LEDGER_TAIL_BYTES n = Inr (line_records (parse pf) (node_bytes n))"
    using fits by (intro read_clean [OF clean]) (simp add: blen_def)
  have l: "l = Regular (node_bytes n @ take k (?e @ [LF]))"
    using app clean by (cases n) (auto simp: append_bytes_def clean_node_def)
  have w: "whole_lines (node_bytes n)" using clean by (simp add: clean_node_def)
  from take_line consider "take k (?e @ [LF]) = ?e @ [LF]" | q where "take k (?e @ [LF]) = take q ?e" by blast
  then show ?thesis
  proof cases
    case 1
    then have le: "l = Regular (node_bytes n @ ?e @ [LF])" using l by (simp only:)
    have "committed MAX_LEDGER_TAIL_BYTES (node_bytes n @ ?e @ [LF]) = node_bytes n @ ?e @ [LF]"
      using fits whole_lines_append [OF w whole_lines_simps(2)] by (intro committed_all) simp_all
    moreover have "line_records (parse pf) (?e @ [LF]) = [sort_key fst (event_value b)]"
      using line_records_written [of "[event_value b]"] ev by simp
    ultimately have "read_jsonl_tail (parse pf) MAX_LEDGER_TAIL_BYTES l =
        Inr (line_records (parse pf) (node_bytes n) @ [sort_key fst (event_value b)])"
      by (simp add: le read_jsonl_tail_def line_records_append [OF w])
    then have "ledger_batches pf l = insert b (ledger_batches pf n)"
      using event_batch_value [OF ev(1)] by (auto simp: ledger_batches_def n)
    then show ?thesis by simp
  next
    case 2
    have "LF \<notin> set (take q ?e)"
      using no_break_encoded [OF flat_values(2)] by (auto simp: no_break_def dest: in_set_takeD)
    moreover have "blen (node_bytes n @ take q ?e) \<le> MAX_LEDGER_TAIL_BYTES" using fits by (simp add: blen_def)
    ultimately have "committed MAX_LEDGER_TAIL_BYTES (node_bytes n @ take q ?e) = node_bytes n"
      using committed_torn [OF w] by blast
    moreover have "l = Regular (node_bytes n @ take q ?e)" using l 2 by (simp only:)
    ultimately have "read_jsonl_tail (parse pf) MAX_LEDGER_TAIL_BYTES l = Inr (line_records (parse pf) (node_bytes n))"
      by (simp add: read_jsonl_tail_def)
    then have "ledger_batches pf l = ledger_batches pf n" using n by (simp add: ledger_batches_def)
    then show ?thesis by simp
  qed
qed

lemma ledger_within:
  assumes "1 \<le> b" "reads_back (parse pf) (float_text pf) (event_value b)"
    and "\<not> already \<longrightarrow> blen (encoded (float_text pf) (event_value b)) < MAX_JSONL_LINE_BYTES"
    and clean: "clean_node n" and l: "append_bytes (if already then [] else lines_of pf [event_value b]) n = Inr l"
    and fits: "blen (node_bytes l) \<le> MAX_LEDGER_TAIL_BYTES"
    and "\<not> already" and m: "append_bytes [take k (concat (lines_of pf [event_value b]))] n = Inr m"
  shows "ledger_batches pf m = ledger_batches pf n \<or> ledger_batches pf m = insert b (ledger_batches pf n)"
proof (rule ledger_after_event [OF assms(1,2) _ clean m])
  show "blen (encoded (float_text pf) (event_value b)) < MAX_JSONL_LINE_BYTES" using assms(3,7) by simp
  have "append_bytes (lines_of pf [event_value b]) n = Inr l" using l assms(7) by simp
  then have "node_bytes l = node_bytes n @ concat (lines_of pf [event_value b])"
    by (rule append_lines_clean(2) [OF clean])
  then show "blen (node_bytes n) + blen (concat (lines_of pf [event_value b])) \<le> MAX_LEDGER_TAIL_BYTES"
    using fits by simp
qed

lemma ledger_grown:
  assumes ev: "event_exists pf n b = Inr already"
    and rb: "1 \<le> b" "reads_back (parse pf) (float_text pf) (event_value b)"
    and small: "\<not> already \<longrightarrow> blen (encoded (float_text pf) (event_value b)) < MAX_JSONL_LINE_BYTES"
    and clean: "clean_node n" and l: "append_bytes (if already then [] else lines_of pf [event_value b]) n = Inr l"
    and fits: "blen (node_bytes l) \<le> MAX_LEDGER_TAIL_BYTES"
  shows "ledger_batches pf l = insert b (ledger_batches pf n)"
proof -
  have "event_exists pf l b = Inr True" using event_settled [OF ev rb small clean l fits] .
  then have in_l: "b \<in> ledger_batches pf l" by (auto simp: event_exists_def bind_res_Inr_iff ledger_batches_def)
  show ?thesis
  proof (cases already)
    case True
    then have "l = n" using l by (simp add: append_bytes_def)
    then show ?thesis using in_l by auto
  next
    case False
    then have whole: "append_bytes [take (length (concat (lines_of pf [event_value b]))) (concat (lines_of pf [event_value b]))] n = Inr l"
      using l by (simp add: append_bytes_def)
    moreover have "b \<notin> ledger_batches pf n"
      using ev False by (auto simp: event_exists_def bind_res_Inr_iff ledger_batches_def)
    ultimately show ?thesis using ledger_within [OF rb small clean l fits False whole] in_l by auto
  qed
qed

lemma crash_coverage:
  assumes "perform_all r (rest_writes pf b recon covered vs already) = (Inr (), r1)"
    and "crash r (rest_writes pf b recon covered vs already) r2"
  shows "r2 = r1 \<or> (r_recon r2 = r_recon r \<and> (r_ledger r2 = r_ledger r \<or>
    (\<not> already \<and> (\<exists>k. append_bytes [take k (concat (lines_of pf [event_value b]))] (r_ledger r) = Inr (r_ledger r2)))))"
proof -
  let ?line = "concat (lines_of pf [event_value b])"
  have "take (length ?line) ?line = ?line" by simp
  then have full: "\<exists>k. append_bytes [take k ?line] m = append_bytes (lines_of pf [event_value b]) m" for m
    by (intro exI [of _ "length ?line"]) (simp add: append_bytes_def)
  show ?thesis
    using assms full [of "r_ledger r"] unfolding rest_writes_def
    by (auto simp: bind_res_def append_bytes_def [of "[]"] split: sum.splits if_splits elim!: crash_ConsE crash_NilE)
qed

text \<open>
  C2: Coverage is atomic: seen through the plan and the ledger together, a successful checkpoint adds
  exactly its batch to the covered set, and a crash at any byte of any write leaves the set either as it
  was or with that batch, never with anything else.  The ledger ends in whole lines before the run and fits its
  recovery window; a commit id names itself, Git uses one object format, and the JSON written here reads back with
  sorted keys.
\<close>

theorem coverage_atomic:
  assumes run: "first_run pf repo r b recon fs covered existing head expected"
    and doc: "documented pf repo b recon fs covered head expected"
    and clean: "clean_node (r_ledger r)" and fits: "blen (node_bytes (r_ledger r1)) \<le> MAX_LEDGER_TAIL_BYTES"
    and ws: "checkpoint_writes pf repo r b = Inr ws" and done1: "perform_all r ws = (Inr (), r1)"
  shows "coverage pf r1 = insert b (coverage pf r) \<and>
    (\<forall>r2. crash r ws r2 \<longrightarrow> coverage pf r2 \<in> {coverage pf r, insert b (coverage pf r)})"
proof -
  let ?vs = "map (snapshot_value b head expected) (missing fs existing)"
  have v: "load_json_object (parse pf) MAX_RECON_BYTES (r_recon r) = Inr recon"
      "validate_recon recon b = Inr (fs, covered)" "b \<notin> set covered"
    using run by (simp_all add: first_run_def)
  obtain already where ev: "event_exists pf (r_ledger r) b = Inr already"
    and w: "ws = rest_writes pf b recon covered ?vs already"
    and small: "\<not> already \<longrightarrow> blen (encoded (float_text pf) (event_value b)) < MAX_JSONL_LINE_BYTES"
    using first_writes [OF run ws] by blast
  obtain n l where l: "append_bytes (if already then [] else lines_of pf [event_value b]) (r_ledger r) = Inr l"
    and d: "blen (dump_doc pf (receipt recon covered b)) \<le> MAX_RECON_BYTES"
    and r1: "r1 = r\<lparr>r_recon := Regular (dump_doc pf (receipt recon covered b)), r_ledger := l, r_snapshots := n\<rparr>"
    by (rule rest_performed [OF done1 [unfolded w]])
  have rb: "1 \<le> b" "reads_back (parse pf) (float_text pf) (event_value b)"
    using validated_batch(1) [OF v(2)] doc by (simp_all add: documented_def)
  have load1: "load_json_object (parse pf) MAX_RECON_BYTES (r_recon r1) = Inr (canon_items (receipt recon covered b))"
    using receipt_loads [OF doc d] by (simp add: r1)
  have old: "coverage pf r = set covered \<inter> ledger_batches pf (r_ledger r)" using coverage_eq [OF v(1,2)] .
  note partial = ledger_within [OF rb _ clean l fits [unfolded r1, simplified]]
  have grown: "ledger_batches pf (r_ledger r1) = insert b (ledger_batches pf (r_ledger r))"
    using ledger_grown [OF ev rb small clean l] fits by (simp add: r1)
  have new: "coverage pf r1 = insert b (coverage pf r)"
    using coverage_eq [OF load1 receipt_canon [OF doc v(2,3)]] by (simp add: old grown)
  have "coverage pf r2 = coverage pf r" if "r_recon r2 = r_recon r"
    and "r_ledger r2 = r_ledger r \<or> (\<not> already \<and> (\<exists>k. append_bytes [take k (concat (lines_of pf [event_value b]))] (r_ledger r) = Inr (r_ledger r2)))" for r2
  proof -
    have "ledger_batches pf (r_ledger r2) \<in> {ledger_batches pf (r_ledger r), insert b (ledger_batches pf (r_ledger r))}"
      using that(2) partial small by auto
    moreover have "coverage pf r2 = set covered \<inter> ledger_batches pf (r_ledger r2)"
      using coverage_eq [OF _ v(2), of pf r2] v(1) that(1) by simp
    ultimately show ?thesis using v(3) by (auto simp: old)
  qed
  then show ?thesis using new crash_coverage [OF done1 [unfolded w]] unfolding w by blast
qed

section \<open>The crash that is not repaired\<close>

text \<open>
  The snapshot file after a crash inside line \<open>i\<close>: the lines before it and a beginning of it, without its newline.
\<close>

definition torn_snapshots :: "platform \<Rightarrow> run \<Rightarrow> dict list \<Rightarrow> nat \<Rightarrow> nat \<Rightarrow> run" where
  "torn_snapshots pf r vs i k = r\<lparr>r_snapshots := Regular (node_bytes (r_snapshots r) @
     concat (take i (lines_of pf vs)) @ take k (encoded (float_text pf) (vs ! i)))\<rparr>"

lemma take_inside:
  "i < length ls \<Longrightarrow> ls ! i = l @ [LF] \<Longrightarrow> k \<le> length l \<Longrightarrow>
     take (length (concat (take i ls)) + k) (concat ls) = concat (take i ls) @ take k l"
proof -
  assume i: "i < length ls" "ls ! i = l @ [LF]" "k \<le> length l"
  have "concat ls = concat (take i ls @ ls ! i # drop (Suc i) ls)" using i(1) by (simp add: id_take_nth_drop [symmetric])
  then show ?thesis using i(2,3) by simp
qed

lemma torn_is_crash:
  assumes "i < length vs" "k \<le> length (encoded (float_text pf) (vs ! i))" "clean_node (r_snapshots r)"
  shows "crash r (Append_Snapshots (lines_of pf vs) # ws) (torn_snapshots pf r vs i k)"
proof -
  let ?ls = "lines_of pf vs"
  have "take (length (concat (take i ?ls)) + k) (concat ?ls) =
      concat (take i ?ls) @ take k (encoded (float_text pf) (vs ! i))"
    using take_inside [of i ?ls "encoded (float_text pf) (vs ! i)" k] assms(1,2) by simp
  then have "append_bytes [take (length (concat (take i ?ls)) + k) (concat ?ls)] (r_snapshots r) =
      Inr (Regular (node_bytes (r_snapshots r) @ concat (take i ?ls) @ take k (encoded (float_text pf) (vs ! i))))"
    using assms(3) by (cases "r_snapshots r") (simp_all add: append_bytes_def clean_node_def)
  then show ?thesis unfolding torn_snapshots_def using assms(1) by (intro within_snapshots) auto
qed

text \<open>The fragment is skipped by the next reader, and takes the line behind it with it.\<close>

lemma torn_read:
  assumes "whole_lines a" "no_break q" "blen (a @ q) \<le> m"
  shows "read_jsonl_tail p m (Regular (a @ q)) = read_jsonl_tail p m (Regular a)"
proof -
  have "blen a \<le> m" using assms(3) by (simp add: blen_def)
  then show ?thesis
    using committed_torn [OF assms(1) _ assms(3)] committed_all [OF assms(1)] assms(2)
    by (simp add: read_jsonl_tail_def no_break_def)
qed

lemma glued_records:
  assumes "whole_lines a" "no_break q" "no_break l" "record_of p (q @ l) = None"
  shows "line_records p (a @ (q @ l @ [LF]) @ b) = line_records p a @ line_records p b"
proof -
  have "byte_lines ((q @ l) @ [LF]) = [q @ l]" using assms(2,3) by (intro byte_lines_line) simp
  then have "line_records p ((q @ l) @ [LF]) = []"
    using assms(4) by (simp add: line_records_def List.map_filter_simps)
  moreover have "line_records p (((q @ l) @ [LF]) @ b) = line_records p ((q @ l) @ [LF]) @ line_records p b"
    by (rule line_records_append [OF whole_lines_simps(2)])
  ultimately show ?thesis using line_records_append [OF assms(1), of p "((q @ l) @ [LF]) @ b"] by simp
qed

text \<open>A covered batch with a missing snapshot neither verifies nor can be checkpointed again.\<close>

lemma incomplete_is_stuck:
  assumes recon: "load_json_object (parse pf) MAX_RECON_BYTES (r_recon s) = Inr recon" "validate_recon recon b = Inr (fs, covered)"
      "b \<in> set covered"
    and ev: "event_exists pf (r_ledger s) b = Inr True"
    and sn: "snapshot_records pf (r_snapshots s) b fs = Inr found" "set (map fst found) \<noteq> set fs"
    and repo: "validate_repo pf repo = Inr ()"
  shows "checkpoint pf repo s b = (Inl Checkpoint_Error, s)" "\<exists>e. verify_run pf repo s = Inl e"
proof -
  have "checkpoint_writes pf repo s b = Inl Checkpoint_Error"
    using assms by (simp add: checkpoint_writes_def recheck_covered_def del: set_map)
  then show "checkpoint pf repo s b = (Inl Checkpoint_Error, s)" by (simp add: checkpoint_def)
  obtain batches where plan: "validate_recon_plan recon = Inr (batches, covered)" and b: "map_of batches b = Some fs"
    using recon(2) unfolding validate_recon_def by (auto simp: bind_res_Inr_iff split: option.splits)
  obtain evs where evs: "read_jsonl_tail (parse pf) MAX_LEDGER_TAIL_BYTES (r_ledger s) = Inr evs" "Some b \<in> set (map event_batch evs)"
    using ev by (auto simp: event_exists_def bind_res_Inr_iff)
  obtain rs where rs: "read_jsonl_tail (parse pf) MAX_SNAPSHOT_TAIL_BYTES (r_snapshots s) = Inr rs" "snapshots_from [] b fs rs = Inr found"
    using sn(1) by (auto simp: snapshot_records_def bind_res_Inr_iff)
  have "b \<in> fst ` set batches" using map_of_SomeD [OF b] by force
  then have in_c: "b \<in> set (covered_batches covered (ledger_covered evs batches))"
    using recon(3) evs(2) by (simp add: set_covered_batches set_ledger_covered)
  have "batch_snapshots batches rs b = Inl Checkpoint_Error"
    using rs(2) sn(2) b by (simp add: batch_snapshots_def files_of_def del: set_map)
  then have "\<not> (\<exists>proofs. map_res (batch_snapshots batches rs) (covered_batches covered (ledger_covered evs batches)) = Inr proofs)"
    using in_c unfolding map_res_Inr list_all2_conv_all_nth by (metis Inl_Inr_False in_set_conv_nth)
  then show "\<exists>e. verify_run pf repo s = Inl e"
    using repo recon(1) plan evs(1) rs(1)
    by (cases "map_res (batch_snapshots batches rs) (covered_batches covered (ledger_covered evs batches))")
      (auto simp: verify_run_def verify_batches_def)
qed

text \<open>What the next run finds behind the crash, and what is found after it has appended its own lines.\<close>

lemma torn_found:
  assumes run: "first_run pf repo r b recon fs covered existing head expected"
    and doc: "documented pf repo b recon fs covered head expected"
    and small: "list_all (\<lambda>v. blen (encoded (float_text pf) v) < MAX_JSONL_LINE_BYTES) (map (snapshot_value b head expected) fs)"
    and clean: "clean_node (r_snapshots r)"
    and vs: "vs = map (snapshot_value b head expected) (missing fs existing)"
    and n: "append_bytes (lines_of pf vs) (r_snapshots r) = Inr n" "blen (node_bytes n) \<le> MAX_SNAPSHOT_TAIL_BYTES"
    and a: "a = node_bytes (r_snapshots r) @ concat (take i (lines_of pf vs))"
    and q: "no_break q" and fits: "blen (a @ q) \<le> MAX_SNAPSHOT_TAIL_BYTES"
  shows "whole_lines a"
    "snapshots_from [] b fs (line_records (parse pf) a) = Inr (existing @ map (entry head expected) (take i (missing fs existing)))"
    "snapshot_records pf (Regular (a @ q)) b fs = Inr (existing @ map (entry head expected) (take i (missing fs existing)))"
proof -
  obtain nk where nk: "append_bytes (take i (lines_of pf vs)) (r_snapshots r) = Inr nk" using append_possible [OF clean] by blast
  have "append_bytes (lines_of pf (take i vs)) (r_snapshots r) = Inr nk" using nk by (simp add: take_map)
  from append_lines_clean [OF clean this] have cnk: "clean_node nk" "node_bytes nk = a" by (simp_all add: a take_map)
  then show wa: "whole_lines a" by (simp add: clean_node_def)
  have fit: "blen a \<le> MAX_SNAPSHOT_TAIL_BYTES" using fits by (simp add: blen_def)
  have "read_jsonl_tail (parse pf) MAX_SNAPSHOT_TAIL_BYTES nk = Inr (line_records (parse pf) a)"
    using read_clean [OF cnk(1)] fit by (simp only: cnk(2))
  moreover have "read_jsonl_tail (parse pf) MAX_SNAPSHOT_TAIL_BYTES (Regular a) = Inr (line_records (parse pf) a)"
    using committed_all [OF wa fit] by (simp add: read_jsonl_tail_def)
  moreover have "snapshot_records pf nk b fs = Inr (existing @ map (entry head expected) (take i (missing fs existing)))"
    using crash_point(1) [OF run doc small clean n(1) [unfolded vs] n(2) nk [unfolded vs]] .
  ultimately show "snapshots_from [] b fs (line_records (parse pf) a) = Inr (existing @ map (entry head expected) (take i (missing fs existing)))"
    "snapshot_records pf (Regular (a @ q)) b fs = Inr (existing @ map (entry head expected) (take i (missing fs existing)))"
    using torn_read [OF wa q fits, of "parse pf"] by (simp_all add: snapshot_records_def)
qed

lemma torn_kept:
  assumes run: "first_run pf repo r b recon fs covered existing head expected"
    and doc: "documented pf repo b recon fs covered head expected"
    and small: "list_all (\<lambda>v. blen (encoded (float_text pf) v) < MAX_JSONL_LINE_BYTES) (map (snapshot_value b head expected) fs)"
    and old: "whole_lines a" "snapshots_from [] b fs (line_records (parse pf) a) =
        Inr (existing @ map (entry head expected) (take i (missing fs existing)))"
    and ls: "ls = lines_of pf (map (snapshot_value b head expected) (drop (Suc i) (missing fs existing)))"
    and glued: "no_break q" "no_break l" "record_of (parse pf) (q @ l) = None"
    and fits: "blen (a @ q @ (l @ [LF]) @ concat ls) \<le> MAX_SNAPSHOT_TAIL_BYTES"
  shows "snapshot_records pf (Regular (a @ q @ (l @ [LF]) @ concat ls)) b fs =
    Inr ((existing @ map (entry head expected) (take i (missing fs existing))) @
      map (entry head expected) (drop (Suc i) (missing fs existing)))"
proof -
  let ?gs = "missing fs existing"
  let ?rest = "drop (Suc i) ?gs"
  let ?new = "map (sort_key fst) (map (snapshot_value b head expected) ?rest)"
  have v: "validate_recon recon b = Inr (fs, covered)" "verify_or_prepare pf repo fs existing = Inr (head, expected)"
    using run by (simp_all add: first_run_def)
  have d: "distinct ?gs" using validated_batch(2) [OF v(1)] by (simp add: missing_def)
  have "whole_lines (concat ls)" unfolding ls by (rule whole_lines_written)
  then have "whole_lines (a @ q @ (l @ [LF]) @ concat ls)"
    using whole_lines_append [OF whole_lines_simps(2), of "concat ls" "a @ q @ l"] by simp
  then have all: "committed MAX_SNAPSHOT_TAIL_BYTES (a @ q @ (l @ [LF]) @ concat ls) = a @ q @ (l @ [LF]) @ concat ls"
    by (rule committed_all [OF _ fits])
  have "line_records (parse pf) (concat ls) = ?new"
    using small doc unfolding ls by (intro line_records_written) (auto simp: list_all_iff documented_def missing_def dest!: in_set_dropD)
  then have "line_records (parse pf) (a @ q @ (l @ [LF]) @ concat ls) = line_records (parse pf) a @ ?new"
    using glued_records [OF old(1) glued, of "concat ls"] by (simp only: append_assoc)
  then have "read_jsonl_tail (parse pf) MAX_SNAPSHOT_TAIL_BYTES (Regular (a @ q @ (l @ [LF]) @ concat ls)) =
      Inr (line_records (parse pf) a @ ?new)"
    using all by (simp only: read_jsonl_tail_def node.case)
  moreover have "snapshots_from (existing @ map (entry head expected) (take i ?gs)) b fs ?new =
      Inr ((existing @ map (entry head expected) (take i ?gs)) @ map (entry head expected) ?rest)"
  proof (rule snapshots_from_written [OF validated_batch(1) [OF v(1)]])
    show "set ?rest \<subseteq> set fs" by (auto simp: missing_def dest: in_set_dropD)
    show "distinct ?rest" using d by simp
    have "set (take i ?gs) \<inter> set ?rest = {}" using set_take_disj_set_drop_if_distinct [OF d, of i "Suc i"] by simp
    moreover have "set ?rest \<inter> set (map fst existing) = {}"
      using set_drop_subset [of "Suc i" ?gs] unfolding missing_def by auto
    ultimately show "set ?rest \<inter> set (map fst (existing @ map (entry head expected) (take i ?gs))) = {}" by auto
    show "is_oid head" by (rule verify_or_prepare_Inr(4) [OF v(2)])
    show "\<forall>f\<in>set fs. is_oid (oid_of expected f) \<and> length head = length (oid_of expected f)"
      using blob_oids_ok [OF verify_or_prepare_Inr(2) [OF v(2)]] doc by (fastforce simp: documented_def list_all_iff)
  qed
  ultimately show ?thesis by (simp only: snapshot_records_def bind_res_simps snapshots_from_append old(2))
qed

lemma one_missing:
  assumes "distinct fs" "i < length (missing fs existing)"
  shows "set (map fst ((existing @ map (entry head expected) (take i (missing fs existing))) @
      map (entry head expected) (drop (Suc i) (missing fs existing)))) \<noteq> set fs"
proof -
  let ?gs = "missing fs existing"
  have "distinct ?gs" using assms(1) by (simp add: missing_def)
  then have "?gs ! i \<notin> set (take i ?gs)" "?gs ! i \<notin> set (drop (Suc i) ?gs)"
    using assms(2) by (auto simp: set_conv_nth nth_eq_iff_index_eq)
  moreover have "?gs ! i \<in> set fs" "?gs ! i \<notin> set (map fst existing)" using nth_mem [OF assms(2)] by (auto simp: missing_def)
  ultimately show ?thesis by (auto simp: o_def)
qed

text \<open>
  C35: A crash inside a snapshot line is not repaired.  Let a run that would have succeeded be cut inside any
  snapshot line it writes, with at least one byte of it on disk and its newline missing, and let the fragment
  followed by a whole snapshot line not be JSON.  The next run appends behind the fragment, so its first snapshot
  is glued to it and lost; that run reports success and publishes the same receipt and ledger as the uninterrupted
  run, and from then on verification fails and no further run can repair the batch.
\<close>

theorem torn_snapshot_is_stuck:
  assumes run: "first_run pf repo r b recon fs covered existing head expected"
    and doc: "documented pf repo b recon fs covered head expected"
    and clean: "clean_node (r_snapshots r)" "clean_node (r_ledger r)"
    and ws: "checkpoint_writes pf repo r b = Inr ws" and done1: "perform_all r ws = (Inr (), r1)"
    and vs: "vs = map (snapshot_value b head expected) (missing fs existing)" and i: "i < length vs"
    and line: "l = encoded (float_text pf) (vs ! i)" and k: "k \<le> length l"
    and glued: "record_of (parse pf) (take k l @ l) = None"
    and fits: "blen (node_bytes (r_snapshots r1)) + blen l \<le> MAX_SNAPSHOT_TAIL_BYTES"
      "blen (node_bytes (r_ledger r1)) \<le> MAX_LEDGER_TAIL_BYTES"
  shows "crash r ws (torn_snapshots pf r vs i k) \<and>
    (\<exists>r3. checkpoint pf repo (torn_snapshots pf r vs i k) b = (Inr (), r3) \<and>
       r_recon r3 = r_recon r1 \<and> r_ledger r3 = r_ledger r1 \<and>
       (\<exists>e. verify_run pf repo r3 = Inl e) \<and> checkpoint pf repo r3 b = (Inl Checkpoint_Error, r3))"
proof -
  let ?gs = "missing fs existing"
  let ?ls = "lines_of pf vs"
  let ?q = "take k l"
  let ?a = "node_bytes (r_snapshots r) @ concat (take i ?ls)"
  let ?r2 = "torn_snapshots pf r vs i k"
  have len: "i < length ?gs" using i by (simp add: vs)
  obtain already where ev: "event_exists pf (r_ledger r) b = Inr already"
    and w: "ws = rest_writes pf b recon covered vs already" and full: "already \<longrightarrow> set (map fst existing) = set fs"
    and event: "event_writes pf already b = Inr (if already then [] else [Append_Event (lines_of pf [event_value b])])"
    and small: "list_all (\<lambda>v. blen (encoded (float_text pf) v) < MAX_JSONL_LINE_BYTES) (map (snapshot_value b head expected) fs)"
      "\<not> already \<longrightarrow> blen (encoded (float_text pf) (event_value b)) < MAX_JSONL_LINE_BYTES"
      "sum_list (map blen (lines_of pf (map (snapshot_value b head expected) fs))) \<le> MAX_SNAPSHOT_TAIL_BYTES - MAX_JSONL_LINE_BYTES"
    using first_writes [OF run ws] unfolding vs by blast
  obtain n lg where n: "append_bytes ?ls (r_snapshots r) = Inr n"
    and lg: "append_bytes (if already then [] else lines_of pf [event_value b]) (r_ledger r) = Inr lg"
    and d: "blen (dump_doc pf (receipt recon covered b)) \<le> MAX_RECON_BYTES"
    and r1: "r1 = r\<lparr>r_recon := Regular (dump_doc pf (receipt recon covered b)), r_ledger := lg, r_snapshots := n\<rparr>"
    by (rule rest_performed [OF done1 [unfolded w]])
  have v: "validate_repo pf repo = Inr ()" "validate_recon recon b = Inr (fs, covered)" "b \<notin> set covered"
    using run by (simp_all add: first_run_def)
  note fs = validated_batch [OF v(2)]
  have "missing fs existing = []" if "set (map fst existing) = set fs" using that by (auto simp: missing_def)
  then have new: "\<not> already" using full len by auto
  have res: "resolve_commit pf repo head = Inr head" using doc by (simp add: documented_def)
  have drop_ls: "drop i ?ls = (l @ [LF]) # drop (Suc i) ?ls" using i by (simp add: line Cons_nth_drop_Suc [symmetric])
  have rest: "drop (Suc i) ?ls = lines_of pf (map (snapshot_value b head expected) (drop (Suc i) ?gs))" by (simp add: vs drop_map)
  have nb: "no_break ?q" "no_break l"
    using no_break_encoded [of "vs ! i"] i by (auto simp: line vs no_break_def dest: in_set_takeD)
  have "node_bytes n = ?a @ concat (drop i ?ls)" using append_clean [OF clean(1) n] by (simp flip: concat_append)
  then have "blen ?a + blen (concat (drop i ?ls)) + blen l \<le> MAX_SNAPSHOT_TAIL_BYTES" "blen (node_bytes n) \<le> MAX_SNAPSHOT_TAIL_BYTES"
    using fits(1) by (simp_all add: r1 blen_def)
  moreover have "blen ?q \<le> blen l" by (simp add: blen_def)
  ultimately have fit: "blen (node_bytes n) \<le> MAX_SNAPSHOT_TAIL_BYTES" "blen (?a @ ?q) \<le> MAX_SNAPSHOT_TAIL_BYTES"
      "blen (?a @ ?q @ concat (drop i ?ls)) \<le> MAX_SNAPSHOT_TAIL_BYTES"
    using blen_simps(4) [of "concat (drop i ?ls)"] unfolding blen_simps(3) by linarith+
  have fit_l: "blen (node_bytes lg) \<le> MAX_LEDGER_TAIL_BYTES" using fits(2) by (simp add: r1)
  note found = torn_found [OF run doc small(1) clean(1) vs n fit(1) refl nb(1) fit(2)]
  have r2: "?r2 = r\<lparr>r_snapshots := Regular (?a @ ?q)\<rparr>" by (simp add: torn_snapshots_def line)
  let ?n3 = "Regular ((?a @ ?q) @ concat (drop i ?ls))"
  let ?r3 = "?r2\<lparr>r_recon := Regular (dump_doc pf (receipt recon covered b)), r_ledger := lg, r_snapshots := ?n3\<rparr>"
  have "checkpoint_writes pf repo ?r2 b =
      Inr (rest_writes pf b recon covered (map (snapshot_value b head expected) (drop i ?gs)) already)"
    using ev found(3) new by (intro resumed_writes [OF run res small(1,3) event]) (simp_all add: r2)
  moreover have "append_bytes (lines_of pf (map (snapshot_value b head expected) (drop i ?gs))) (r_snapshots ?r2) = Inr ?n3"
  proof -
    have "lines_of pf (map (snapshot_value b head expected) (drop i ?gs)) = drop i ?ls" by (simp add: vs drop_map)
    moreover have "drop i ?ls \<noteq> []" using i by simp
    ultimately show ?thesis unfolding r2 append_bytes_def by simp
  qed
  moreover have "append_bytes (if already then [] else lines_of pf [event_value b]) (r_ledger ?r2) = Inr lg" using lg by (simp add: r2)
  ultimately have rerun: "checkpoint pf repo ?r2 b = (Inr (), ?r3)"
    using perform_rest [OF _ _ d, of "map (snapshot_value b head expected) (drop i ?gs)"] by (simp only: checkpoint_def sum.case)
  have "(?a @ ?q) @ concat (drop i ?ls) = ?a @ ?q @ (l @ [LF]) @ concat (drop (Suc i) ?ls)" by (simp only: drop_ls concat.simps append_assoc)
  moreover have "r_snapshots ?r3 = ?n3" by simp
  ultimately have sn3: "snapshot_records pf (r_snapshots ?r3) b fs = Inr ((existing @ map (entry head expected) (take i ?gs)) @
      map (entry head expected) (drop (Suc i) ?gs))"
    using torn_kept [OF run doc small(1) found(1,2) rest nb glued] fit(3) by (simp only: append_assoc)
  have ev3: "event_exists pf (r_ledger ?r3) b = Inr True"
    using event_settled [OF ev _ _ _ clean(2) lg fit_l] fs(1) doc small(2) by (simp add: documented_def)
  have load: "load_json_object (parse pf) MAX_RECON_BYTES (r_recon ?r3) = Inr (canon_items (receipt recon covered b))"
    using receipt_loads [OF doc d] by simp
  have stuck: "checkpoint pf repo ?r3 b = (Inl Checkpoint_Error, ?r3)" "\<exists>e. verify_run pf repo ?r3 = Inl e"
    using incomplete_is_stuck [OF load receipt_canon [OF doc v(2,3)] _ ev3 sn3 one_missing [OF fs(2) len] v(1)] by simp_all
  have "crash r ws ?r2"
    unfolding w rest_writes_def using torn_is_crash [of i vs k pf r] i k line clean(1) by simp
  then show ?thesis using rerun stuck by (intro conjI exI [of _ ?r3]) (simp_all add: r1)
qed

section \<open>A platform\<close>

definition demo_oid :: string where "demo_oid = replicate 40 (CHR ''a'')"

definition demo_git :: "string \<Rightarrow> string list \<Rightarrow> git_run" where
  "demo_git repo args =
     (if args = [''rev-parse'', ''--show-toplevel''] then Exited 0 (repo @ [LF])
      else if hd args = ''rev-parse'' then Exited 0 (demo_oid @ [LF])
      else if hd args = ''ls-tree'' then Exited 0 (''100644 blob '' @ demo_oid @ [TAB] @ ''a'' @ [CHR 0x00])
      else Exited 0 [])"

definition demo_recon :: dict where
  "demo_recon = [(''batches'', PList [PDict [(''id'', PInt 1), (''files'', PList [PStr ''a''])]])]"

definition demo_text :: bytes where "demo_text = ''{\"batches\":[{\"id\":1,\"files\":[\"a\"]}]}''"

text \<open>The receipt as it is read back: its keys are sorted.\<close>

definition demo_receipt :: dict where
  "demo_receipt = [(''batches'', PList [PDict [(''files'', PList [PStr ''a'']), (''id'', PInt 1)]]), (''covered'', PList [PInt 1])]"

definition demo_float :: "pyfloat \<Rightarrow> string" where "demo_float x = ''0.0''"

definition demo_snapshot :: dict where "demo_snapshot = snapshot_value 1 demo_oid [(''a'', demo_oid)] ''a''"

text \<open>The four documents of the example, as text and as values.\<close>

definition demo_docs :: "(string \<times> dict) list" where
  "demo_docs = [
     (demo_text, demo_recon),
     (''{\"batches\":[{\"files\":[\"a\"],\"id\":1}],\"covered\":[1]}'', demo_receipt),
     (''{\"batch\":1,\"event\":\"batch_covered\"}'', [(''batch'', PInt 1), (''event'', PStr ''batch_covered'')]),
     (''{\"batch\":1,\"blob_oid\":\"aaaaaaaaaaaaaaaaaaaaaaaaaaaaaaaaaaaaaaaa\",\"file\":\"a\",\"head\":\"aaaaaaaaaaaaaaaaaaaaaaaaaaaaaaaaaaaaaaaa\",\"schema\":1}'',
      [(''batch'', PInt 1), (''blob_oid'', PStr demo_oid), (''file'', PStr ''a''), (''head'', PStr demo_oid), (''schema'', PInt 1)])]"

definition demo_loads :: json_loads where
  "demo_loads s = map_option PDict (map_of demo_docs s)"

definition demo_platform :: platform where
  "demo_platform = \<lparr>decode = Some, loads = demo_loads, float_text = demo_float, dump_doc = encoded demo_float,
     git = demo_git, resolve = Some, is_dir = (\<lambda>_. True)\<rparr>"

definition demo_run :: "node \<Rightarrow> run" where
  "demo_run snapshots = \<lparr>r_recon = Regular demo_text, r_ledger = Absent, r_snapshots = snapshots\<rparr>"

definition demo_line :: bytes where "demo_line = encoded demo_float demo_snapshot @ [LF]"

definition demo_writes :: "ck_write list" where
  "demo_writes = [Append_Snapshots [demo_line], Append_Event [encoded demo_float (event_value 1) @ [LF]],
     Publish_Recon (encoded demo_float demo_receipt)]"

definition demo_end :: "bytes \<Rightarrow> run" where
  "demo_end before = \<lparr>r_recon = Regular (encoded demo_float demo_receipt),
     r_ledger = Regular (encoded demo_float (event_value 1) @ [LF]), r_snapshots = Regular (before @ demo_line)\<rparr>"

lemma demo_checkpoint:
  "checkpoint_writes demo_platform ''/r'' (demo_run Absent) 1 = Inr demo_writes"
  by code_simp

lemma demo_ends: "perform_all (demo_run Absent) demo_writes = (Inr (), demo_end [])"
  by code_simp

subsection \<open>Witnesses\<close>

lemma demo_first_run:
  "first_run demo_platform ''/r'' (demo_run Absent) 1 demo_recon [''a''] [] [] demo_oid [(''a'', demo_oid)]"
  unfolding first_run_def by (intro conjI) code_simp+

lemma demo_documented: "documented demo_platform ''/r'' 1 demo_recon [''a''] [] demo_oid [(''a'', demo_oid)]"
  unfolding documented_def reads_back_def by (intro conjI) code_simp+

lemma demo_clean: "clean_node (r_snapshots (demo_run Absent))" "clean_node (r_ledger (demo_run Absent))"
  by (simp_all add: demo_run_def clean_node_def)

lemma demo_fits:
  "blen (node_bytes (r_snapshots (demo_end []))) \<le> MAX_SNAPSHOT_TAIL_BYTES"
  "blen (node_bytes (r_ledger (demo_end []))) \<le> MAX_LEDGER_TAIL_BYTES"
  by code_simp+

lemma crash_replay_witness:
  "checkpoint demo_platform ''/r'' ((demo_run Absent)\<lparr>r_snapshots := Regular demo_line\<rparr>) 1 = (Inr (), demo_end [])"
proof (rule crash_replay [OF demo_first_run demo_documented demo_clean demo_fits demo_checkpoint demo_ends])
  have "append_bytes [take (length demo_line) (concat [demo_line])] (r_snapshots (demo_run Absent)) = Inr (Regular demo_line)"
    by (simp add: append_bytes_def demo_run_def)
  then show "crash (demo_run Absent) demo_writes ((demo_run Absent)\<lparr>r_snapshots := Regular demo_line\<rparr>)"
    unfolding demo_writes_def by (rule within_snapshots [rotated]) simp
qed (simp_all add: clean_node_def demo_line_def demo_run_def)

lemma demo_crash: "crash (demo_run Absent) demo_writes (demo_run (Regular (take 10 demo_line)))"
proof -
  have "append_bytes [take 10 (concat [demo_line])] (r_snapshots (demo_run Absent)) = Inr (Regular (take 10 demo_line))"
    by (simp add: append_bytes_def demo_run_def)
  from within_snapshots [OF _ this] show ?thesis by (simp add: demo_writes_def demo_run_def)
qed

lemma coverage_atomic_witness:
  "coverage demo_platform (demo_end []) = insert 1 (coverage demo_platform (demo_run Absent)) \<and>
   coverage demo_platform (demo_run (Regular (take 10 demo_line))) \<in>
     {coverage demo_platform (demo_run Absent), insert 1 (coverage demo_platform (demo_run Absent))}"
  using coverage_atomic [OF demo_first_run demo_documented demo_clean(2) demo_fits(2) demo_checkpoint demo_ends] demo_crash
  by blast

text \<open>The same crash, followed to its end.\<close>

lemma torn_snapshot_is_stuck_witness:
  "\<exists>r3. checkpoint demo_platform ''/r'' (demo_run (Regular (take 10 demo_line))) 1 = (Inr (), r3) \<and>
     r_recon r3 = r_recon (demo_end []) \<and> checkpoint demo_platform ''/r'' r3 1 = (Inl Checkpoint_Error, r3)"
proof -
  have vs: "[demo_snapshot] = map (snapshot_value 1 demo_oid [(''a'', demo_oid)]) (missing [''a''] [])"
    by (simp add: demo_snapshot_def missing_def)
  have line: "encoded demo_float demo_snapshot = encoded (float_text demo_platform) ([demo_snapshot] ! 0)"
    by (simp add: demo_platform_def)
  have long: "10 \<le> length (encoded demo_float demo_snapshot)" by code_simp
  have glued: "record_of (parse demo_platform) (take 10 (encoded demo_float demo_snapshot) @ encoded demo_float demo_snapshot) = None"
    by code_simp
  have fits: "blen (node_bytes (r_snapshots (demo_end []))) + blen (encoded demo_float demo_snapshot) \<le> MAX_SNAPSHOT_TAIL_BYTES"
    by code_simp
  have "torn_snapshots demo_platform (demo_run Absent) [demo_snapshot] 0 10 = demo_run (Regular (take 10 demo_line))"
    using long by (simp add: torn_snapshots_def demo_run_def demo_line_def demo_platform_def)
  with torn_snapshot_is_stuck [OF demo_first_run demo_documented demo_clean demo_checkpoint demo_ends vs _ line long glued fits demo_fits(2)]
  show ?thesis by auto
qed

lemma recon_plan_partitions_witness:
  "validate_recon_plan demo_recon = Inr ([(1, [''a''])], []) \<and> list_all safe_path [''a''] \<and> sorted [''a'']"
proof -
  have "validate_recon_plan demo_recon = Inr ([(1, [''a''])], [])" by code_simp
  then show ?thesis using recon_plan_partitions [of demo_recon "[(1, [''a''])]" "[]"] by auto
qed

lemma verified_is_exact_witness:
  "\<exists>vs. verify_run demo_platform ''/r'' (demo_end []) = Inr vs \<and> list_all (in_git demo_platform ''/r'') vs \<and> vs \<noteq> []"
proof -
  have "verify_run demo_platform ''/r'' (demo_end []) =
      Inr [\<lparr>v_batch = 1, v_file = ''a'', v_head = demo_oid, v_oid = demo_oid\<rparr>]" by code_simp
  from verified_is_exact [OF this] this show ?thesis by (auto simp: list_all_iff)
qed

end
