(* ===== verification/Scoring.thy ===== *)
theory Scoring
  imports Py_Prelude Order_Free
begin

text \<open>
  \<^verbatim>\<open>bench/scorer/score.py\<close>: verdicts per case and run, their aggregates per arm with the Wilson score
  interval, the paired difference of the two arms, and the human overrides of the calibration rows.
  Rates are exact: a Python float is the real number it approximates.  The CSV writer is not modelled.
\<close>

type_synonym verdict = string

definition DETECTED :: verdict where "DETECTED = ''DETECTED''"
definition NOT_DETECTED :: verdict where "NOT_DETECTED = ''NOT_DETECTED''"
definition ERROR :: verdict where "ERROR = ''ERROR''"
definition SKIPPED :: verdict where "SKIPPED = ''SKIPPED''"
definition COMPLETED_VERDICTS :: "verdict set" where "COMPLETED_VERDICTS = {DETECTED, NOT_DETECTED}"
definition DEFAULT_WILSON_Z :: real where "DEFAULT_WILSON_Z = 1.96"
definition POST_CUTOFF_FLOOR :: nat where "POST_CUTOFF_FLOOR = 6"
definition MAJORITY_NUMERATOR :: nat where "MAJORITY_NUMERATOR = 2"
definition MAJORITY_DENOMINATOR :: nat where "MAJORITY_DENOMINATOR = 3"

record case_run =
  cr_case :: string
  cr_run :: int
  cr_arm :: string
  cr_verdict :: verdict
  cr_post_cutoff :: bool

text \<open>The judge decides; the gate's result is carried along only.\<close>

fun score_case_run :: "('gate \<times> bool) list \<Rightarrow> verdict" where
  "score_case_run [] = NOT_DETECTED"
| "score_case_run ((gate_result, matches) # ps) = (if matches then DETECTED else score_case_run ps)"

definition wilson_interval :: "nat \<Rightarrow> nat \<Rightarrow> real \<Rightarrow> real \<times> real" where
  "wilson_interval hits n z =
     (if n = 0 then (0, 0)
      else (let p = real hits / real n;
                denom = 1 + z * z / real n;
                center = (p + z * z / (2 * real n)) / denom;
                margin = (z * sqrt (p * (1 - p) / real n + z * z / (4 * real n * real n))) / denom
            in (center - margin, center + margin)))"

record arm_aggregate =
  ag_completed :: nat
  ag_hits :: nat
  ag_hit_rate :: real
  ag_errors :: nat
  ag_skipped :: nat
  ag_wilson :: "real \<times> real"

definition count_verdict :: "case_run list \<Rightarrow> verdict \<Rightarrow> nat" where
  "count_verdict vs v = length (filter (\<lambda>x. cr_verdict x = v) vs)"

definition completed :: "case_run list \<Rightarrow> case_run list" where
  "completed vs = filter (\<lambda>x. cr_verdict x \<in> COMPLETED_VERDICTS) vs"

definition aggregate_arm :: "real \<Rightarrow> case_run list \<Rightarrow> arm_aggregate" where
  "aggregate_arm z vs =
     (let hits = count_verdict (completed vs) DETECTED;
          n = length (completed vs)
      in \<lparr>ag_completed = n, ag_hits = hits, ag_hit_rate = (if n = 0 then 0 else real hits / real n),
          ag_errors = count_verdict vs ERROR, ag_skipped = count_verdict vs SKIPPED,
          ag_wilson = wilson_interval hits n z\<rparr>)"

text \<open>\<open>_group_completed_by_case\<close>: completed runs by case, cases in the order of their first run.\<close>

fun add_run :: "(string \<times> case_run list) list \<Rightarrow> case_run \<Rightarrow> (string \<times> case_run list) list" where
  "add_run [] v = [(cr_case v, [v])]"
| "add_run ((c, vs) # gs) v = (if c = cr_case v then (c, vs @ [v]) # gs else (c, vs) # add_run gs v)"

definition group_completed_by_case :: "case_run list \<Rightarrow> (string \<times> case_run list) list" where
  "group_completed_by_case vs = foldl add_run [] (completed vs)"

record arm_summary =
  su_detected_at_1 :: nat
  su_detected_at_majority :: nat
  su_post_cutoff_cases :: nat
  su_conclusive :: bool

definition detections :: "case_run list \<Rightarrow> nat" where
  "detections runs = count_verdict runs DETECTED"

definition majority :: "case_run list \<Rightarrow> bool" where
  "majority runs \<longleftrightarrow> detections runs * MAJORITY_DENOMINATOR \<ge> MAJORITY_NUMERATOR * length runs"

definition summarize_arm :: "case_run list \<Rightarrow> arm_summary" where
  "summarize_arm vs =
     (let cases = map snd (group_completed_by_case vs);
          post = length (filter (\<lambda>runs. list_ex cr_post_cutoff runs) cases)
      in \<lparr>su_detected_at_1 = length (filter (\<lambda>runs. detections runs \<ge> 1) cases),
          su_detected_at_majority = length (filter majority cases),
          su_post_cutoff_cases = post, su_conclusive = (\<not> post < POST_CUTOFF_FLOOR)\<rparr>)"

definition runs_of :: "(string \<times> case_run list) list \<Rightarrow> string \<Rightarrow> case_run list" where
  "runs_of by_case c = (case map_of by_case c of None \<Rightarrow> [] | Some runs \<Rightarrow> runs)"

definition detected_at_1_rate :: "(string \<times> case_run list) list \<Rightarrow> string list \<Rightarrow> real" where
  "detected_at_1_rate by_case ids =
     (if ids = [] then 0
      else real (length (filter (\<lambda>c. list_ex (\<lambda>v. cr_verdict v = DETECTED) (runs_of by_case c)) ids)) / real (length ids))"

record paired_delta =
  pd_paired_n :: nat
  pd_delta :: real
  pd_bugsweep_errors :: nat
  pd_baseline_errors :: nat
  pd_bugsweep_skipped :: nat
  pd_baseline_skipped :: nat

definition shared_cases :: "case_run list \<Rightarrow> case_run list \<Rightarrow> string list" where
  "shared_cases xs ys =
     sort (remdups (filter (\<lambda>c. c \<in> set (map fst (group_completed_by_case ys))) (map fst (group_completed_by_case xs))))"

definition paired_delta_of :: "case_run list \<Rightarrow> case_run list \<Rightarrow> paired_delta" where
  "paired_delta_of bugsweep baseline =
     (let shared = shared_cases bugsweep baseline
      in \<lparr>pd_paired_n = length shared,
          pd_delta = detected_at_1_rate (group_completed_by_case bugsweep) shared -
                     detected_at_1_rate (group_completed_by_case baseline) shared,
          pd_bugsweep_errors = count_verdict bugsweep ERROR, pd_baseline_errors = count_verdict baseline ERROR,
          pd_bugsweep_skipped = count_verdict bugsweep SKIPPED, pd_baseline_skipped = count_verdict baseline SKIPPED\<rparr>)"

record calibration_row =
  ca_case :: string
  ca_run :: int
  ca_arm :: string
  ca_judge_verdict :: string
  ca_judge_confidence :: int
  ca_human_verdict :: string
  ca_override_reason :: string

record resolved_verdict =
  rv_case :: string
  rv_run :: int
  rv_arm :: string
  rv_verdict :: string
  rv_overridden :: bool

definition resolve_row :: "calibration_row \<Rightarrow> resolved_verdict" where
  "resolve_row row =
     (let human = strip (ca_human_verdict row)
      in \<lparr>rv_case = ca_case row, rv_run = ca_run row, rv_arm = ca_arm row,
          rv_verdict = (if human \<noteq> [] then human else ca_judge_verdict row), rv_overridden = (human \<noteq> [])\<rparr>)"

definition apply_overrides :: "calibration_row list \<Rightarrow> resolved_verdict list" where
  "apply_overrides rows = map resolve_row rows"

section \<open>The Wilson interval\<close>

text \<open>
  The interval's ends are the roots of \<open>(n + z\<^sup>2) x\<^sup>2 - (2 h + z\<^sup>2) x + h\<^sup>2/n\<close>.
\<close>

lemma wilson_margin:
  fixes n h z :: real
  assumes "0 < n" "0 \<le> h" "h \<le> n" "0 \<le> z"
  defines "p \<equiv> h / n" and "d \<equiv> 1 + z * z / n"
  defines "c \<equiv> p + z * z / (2 * n)" and "m \<equiv> z * sqrt (p * (1 - p) / n + z * z / (4 * n * n))"
  shows "0 \<le> m" "m \<le> c" "\<bar>c - p * d\<bar> \<le> m" "c + m \<le> d" "0 < d"
proof -
  have p: "0 \<le> p" "p \<le> 1" using assms(1-3) by (simp_all add: p_def)
  have q: "0 \<le> p * (1 - p) / n" using p assms(1) by simp
  then have rad: "0 \<le> p * (1 - p) / n + z * z / (4 * n * n)" using assms(1) by simp
  show d: "0 < d" using assms(1) by (simp add: d_def add_pos_nonneg)
  show m0: "0 \<le> m" using assms(4) rad by (simp add: m_def)
  have m2: "m\<^sup>2 = z\<^sup>2 * (p * (1 - p) / n + z * z / (4 * n * n))"
    using rad by (simp add: m_def power_mult_distrib)
  have c0: "0 \<le> c" using p assms(1) by (simp add: c_def)
  have e: "z * z / n = z\<^sup>2 / n" "z * z / (2 * n) = z\<^sup>2 / n / 2" "z * z / (4 * n * n) = (z\<^sup>2 / n) / n / 4"
    by (simp_all add: power2_eq_square)
  define w where "w = z\<^sup>2 / n"
  have w: "0 \<le> w" using assms(1) by (simp add: w_def)
  have mw: "m\<^sup>2 = w * (p * (1 - p)) + w\<^sup>2 / 4"
    unfolding m2 e w_def using assms(1) by (simp add: field_simps power2_eq_square)
  have cw: "c = p + w / 2" and dw: "d = 1 + w" unfolding c_def d_def e w_def by simp_all
  have "c\<^sup>2 - m\<^sup>2 = p\<^sup>2 * (1 + w)" unfolding mw cw by (simp add: algebra_simps power2_eq_square)
  then have "m\<^sup>2 \<le> c\<^sup>2" using w by (smt (verit) mult_nonneg_nonneg zero_le_power2)
  then show "m \<le> c" using c0 by (rule power2_le_imp_le)
  have "m\<^sup>2 - (c - p * d)\<^sup>2 = w * (p * (1 - p)) + w\<^sup>2 * (p * (1 - p))"
    unfolding mw cw dw by (simp add: algebra_simps power2_eq_square)
  then have "(c - p * d)\<^sup>2 \<le> m\<^sup>2" using w p by (smt (verit) mult_nonneg_nonneg zero_le_power2)
  then show "\<bar>c - p * d\<bar> \<le> m" using m0 by (simp add: abs_le_square_iff [symmetric])
  have "(d - c)\<^sup>2 - m\<^sup>2 = (1 - p)\<^sup>2 * (1 + w)" unfolding mw cw dw by (simp add: algebra_simps power2_eq_square)
  then have "m\<^sup>2 \<le> (d - c)\<^sup>2" using w by (smt (verit) mult_nonneg_nonneg zero_le_power2)
  moreover have "0 \<le> d - c" using p w unfolding cw dw by simp
  ultimately show "c + m \<le> d" using power2_le_imp_le by fastforce
qed

lemma wilson_bounds:
  assumes "h \<le> n" "0 \<le> z" "0 < n"
  shows "0 \<le> fst (wilson_interval h n z)" "fst (wilson_interval h n z) \<le> real h / real n"
    "real h / real n \<le> snd (wilson_interval h n z)" "snd (wilson_interval h n z) \<le> 1"
proof -
  note m = wilson_margin [of "real n" "real h" z]
  let ?p = "real h / real n"
  let ?d = "1 + z * z / real n"
  let ?c = "?p + z * z / (2 * real n)"
  let ?m = "z * sqrt (?p * (1 - ?p) / real n + z * z / (4 * real n * real n))"
  have w: "wilson_interval h n z = (?c / ?d - ?m / ?d, ?c / ?d + ?m / ?d)"
    using assms(3) by (simp add: wilson_interval_def Let_def)
  have facts: "0 \<le> ?m" "?m \<le> ?c" "\<bar>?c - ?p * ?d\<bar> \<le> ?m" "?c + ?m \<le> ?d" "0 < ?d"
    using m assms by simp_all
  show "0 \<le> fst (wilson_interval h n z)" using facts(2,5) by (simp add: w divide_right_mono)
  show "fst (wilson_interval h n z) \<le> ?p"
    unfolding w fst_conv diff_divide_distrib [symmetric] using facts(3,5) by (simp add: divide_le_eq)
  show "?p \<le> snd (wilson_interval h n z)"
    unfolding w snd_conv add_divide_distrib [symmetric] using facts(3,5) by (simp add: le_divide_eq)
  show "snd (wilson_interval h n z) \<le> 1"
    unfolding w snd_conv add_divide_distrib [symmetric] using facts(4,5) by (simp add: divide_le_eq)
qed

text \<open>
  The reported interval is sound: in every arm the completed runs and the errors and skips are
  counted apart, the hits are at most the completed runs, and the Wilson interval lies within 0 and 1
  and contains the hit rate.
\<close>

theorem arm_interval_sound:
  assumes "0 \<le> z" and "a = aggregate_arm z vs"
  shows "ag_hits a \<le> ag_completed a \<and> ag_completed a + ag_errors a + ag_skipped a \<le> length vs \<and>
    0 \<le> fst (ag_wilson a) \<and> fst (ag_wilson a) \<le> ag_hit_rate a \<and> ag_hit_rate a \<le> snd (ag_wilson a) \<and>
    snd (ag_wilson a) \<le> 1"
proof -
  have parts: "length (completed vs) + count_verdict vs ERROR + count_verdict vs SKIPPED \<le> length vs"
    by (induction vs)
      (auto simp: completed_def count_verdict_def COMPLETED_VERDICTS_def DETECTED_def NOT_DETECTED_def ERROR_def SKIPPED_def)
  have hits: "count_verdict (completed vs) DETECTED \<le> length (completed vs)" by (simp add: count_verdict_def)
  show ?thesis
  proof (cases "completed vs")
    case Nil
    then show ?thesis using parts by (simp add: assms(2) aggregate_arm_def wilson_interval_def count_verdict_def)
  next
    case (Cons v ws)
    then have pos: "0 < length (completed vs)" by simp
    from wilson_bounds [OF hits assms(1) pos] show ?thesis
      using parts hits pos by (simp add: assms(2) aggregate_arm_def Let_def)
  qed
qed

section \<open>Cases\<close>

lemma map_of_add_run:
  "map_of (add_run gs v) c =
     (if c = cr_case v then Some ((case map_of gs c of None \<Rightarrow> [] | Some vs \<Rightarrow> vs) @ [v]) else map_of gs c)"
  by (induction gs v rule: add_run.induct) auto

lemma keys_add_run: "set (map fst (add_run gs v)) = insert (cr_case v) (set (map fst gs))"
  by (induction gs v rule: add_run.induct) auto

lemma distinct_add_run: "distinct (map fst gs) \<Longrightarrow> distinct (map fst (add_run gs v))"
proof (induction gs v rule: add_run.induct)
  case (2 c vs gs v)
  then show ?case using keys_add_run [of gs v] by auto
qed simp

lemma foldl_add_run:
  "distinct (map fst gs) \<Longrightarrow>
     distinct (map fst (foldl add_run gs vs)) \<and>
     set (map fst (foldl add_run gs vs)) = set (map fst gs) \<union> cr_case ` set vs \<and>
     runs_of (foldl add_run gs vs) c = runs_of gs c @ filter (\<lambda>v. cr_case v = c) vs"
proof (induction vs arbitrary: gs)
  case (Cons v vs)
  from Cons.IH [OF distinct_add_run [OF Cons.prems], of v] keys_add_run [of gs v] show ?case
    by (auto simp: runs_of_def map_of_add_run)
qed simp

lemma grouped:
  "distinct (map fst (group_completed_by_case vs))"
  "set (map fst (group_completed_by_case vs)) = cr_case ` set (completed vs)"
  "runs_of (group_completed_by_case vs) c = filter (\<lambda>v. cr_case v = c) (completed vs)"
  using foldl_add_run [of "[]" "completed vs" c] by (auto simp: group_completed_by_case_def runs_of_def)

text \<open>The cases an arm completed, and those it detected at least once.\<close>

definition completed_cases :: "case_run list \<Rightarrow> string set" where
  "completed_cases vs = {c. \<exists>v\<in>set vs. cr_case v = c \<and> cr_verdict v \<in> {DETECTED, NOT_DETECTED}}"

definition detected_cases :: "case_run list \<Rightarrow> string set" where
  "detected_cases vs = {c. \<exists>v\<in>set vs. cr_case v = c \<and> cr_verdict v = DETECTED}"

lemma shared: "set (shared_cases xs ys) = completed_cases xs \<inter> completed_cases ys" "distinct (shared_cases xs ys)"
proof -
  have "cr_case ` set (completed vs) = completed_cases vs" for vs
    by (auto simp: completed_cases_def completed_def COMPLETED_VERDICTS_def image_iff)
  then show "set (shared_cases xs ys) = completed_cases xs \<inter> completed_cases ys"
    using grouped(2) [of xs] grouped(2) [of ys] by (auto simp: shared_cases_def simp del: set_map)
qed (simp add: shared_cases_def)

lemma detected_rate:
  assumes "distinct ids"
  shows "detected_at_1_rate (group_completed_by_case vs) ids = real (card (set ids \<inter> detected_cases vs)) / real (length ids)"
proof -
  have "list_ex (\<lambda>v. cr_verdict v = DETECTED) (runs_of (group_completed_by_case vs) c) \<longleftrightarrow> c \<in> detected_cases vs" for c
    unfolding grouped(3) by (auto simp: list_ex_iff detected_cases_def completed_def COMPLETED_VERDICTS_def)
  then have "filter (\<lambda>c. list_ex (\<lambda>v. cr_verdict v = DETECTED) (runs_of (group_completed_by_case vs) c)) ids =
      filter (\<lambda>c. c \<in> detected_cases vs) ids" by simp
  moreover have "length (filter (\<lambda>c. c \<in> detected_cases vs) ids) = card (set ids \<inter> detected_cases vs)"
    using assms distinct_card [of "filter (\<lambda>c. c \<in> detected_cases vs) ids"] by (simp add: Int_def conj_commute)
  ultimately show ?thesis by (simp add: detected_at_1_rate_def)
qed

text \<open>
  The paired difference is taken over the cases both arms completed and depends on nothing else:
  it is the difference of the two numbers of such cases with a detection over their number, so errors,
  skips, repeats and the order of the runs do not move it, it lies between -1 and 1, and exchanging the
  arms negates it.
\<close>

theorem paired_delta_exact:
  "pd_paired_n (paired_delta_of xs ys) = card (completed_cases xs \<inter> completed_cases ys) \<and>
   pd_delta (paired_delta_of xs ys) =
     (real (card (completed_cases xs \<inter> completed_cases ys \<inter> detected_cases xs)) -
      real (card (completed_cases xs \<inter> completed_cases ys \<inter> detected_cases ys))) /
     real (card (completed_cases xs \<inter> completed_cases ys)) \<and>
   \<bar>pd_delta (paired_delta_of xs ys)\<bar> \<le> 1 \<and>
   pd_delta (paired_delta_of ys xs) = - pd_delta (paired_delta_of xs ys)"
proof -
  let ?s = "completed_cases xs \<inter> completed_cases ys"
  have n: "length (shared_cases as bs) = card (completed_cases as \<inter> completed_cases bs)" for as bs
    using distinct_card [OF shared(2) [of as bs]] by (simp add: shared(1))
  have delta: "pd_delta (paired_delta_of as bs) =
      (real (card (completed_cases as \<inter> completed_cases bs \<inter> detected_cases as)) -
       real (card (completed_cases as \<inter> completed_cases bs \<inter> detected_cases bs))) /
      real (card (completed_cases as \<inter> completed_cases bs))" for as bs
    by (simp add: paired_delta_of_def Let_def detected_rate [OF shared(2)] shared(1) n diff_divide_distrib)
  have fin: "finite ?s" using shared(1) [of xs ys] by (metis List.finite_set)
  have "card (?s \<inter> D) \<le> card ?s" for D using fin by (intro card_mono) auto
  then have "\<bar>real (card (?s \<inter> detected_cases xs)) - real (card (?s \<inter> detected_cases ys))\<bar> \<le> real (card ?s)"
    by (smt (verit) of_nat_0_le_iff of_nat_le_iff)
  then have "\<bar>pd_delta (paired_delta_of xs ys)\<bar> \<le> 1" unfolding delta by (simp add: divide_le_eq)
  moreover have "pd_delta (paired_delta_of ys xs) = - pd_delta (paired_delta_of xs ys)"
    unfolding delta by (simp add: Int_commute minus_divide_left)
  moreover have "pd_paired_n (paired_delta_of xs ys) = card ?s" by (simp add: paired_delta_of_def Let_def n)
  ultimately show ?thesis using delta [of xs ys] by blast
qed

lemma arm_interval_sound_witness:
  "ag_hit_rate (aggregate_arm 2 [\<lparr>cr_case = ''a'', cr_run = 1, cr_arm = ''b'', cr_verdict = DETECTED, cr_post_cutoff = True\<rparr>]) = 1 \<and>
   fst (ag_wilson (aggregate_arm 2 [\<lparr>cr_case = ''a'', cr_run = 1, cr_arm = ''b'', cr_verdict = DETECTED, cr_post_cutoff = True\<rparr>])) \<le> 1"
proof -
  let ?v = "\<lparr>cr_case = ''a'', cr_run = 1, cr_arm = ''b'', cr_verdict = DETECTED, cr_post_cutoff = True\<rparr>"
  have "ag_hit_rate (aggregate_arm 2 [?v]) = 1"
    by (simp add: aggregate_arm_def completed_def COMPLETED_VERDICTS_def count_verdict_def)
  then show ?thesis using arm_interval_sound [of 2 "aggregate_arm 2 [?v]" "[?v]"] by simp
qed

end
