(* ===== verification/Check_Results.thy ===== *)
theory Check_Results
  imports Py_Json Py_Text
begin

text \<open>
  \<^verbatim>\<open>scripts/_check_results.py\<close>: reading structured test reports and comparing a run of a check with
  its baseline by the identities of the tests.  \<open>ElementTree.parse\<close> is a parameter (\<open>None\<close>: the file
  is missing or is not XML) that returns the element tree; the digest of the report is a parameter
  too.
\<close>

subsection \<open>Element trees\<close>

datatype element = Element (tag_of: string) (attrs_of: "(string \<times> string) list") (text_of_element: "string option")
  (children_of: "element list")

text \<open>\<open>root.iter(tag)\<close>: the element and its descendants in document order, by the exact tag.\<close>

fun iter_tag :: "string \<Rightarrow> element \<Rightarrow> element list" where
  "iter_tag t (Element tag attrs txt cs) =
     (if tag = t then [Element tag attrs txt cs] else []) @ concat (map (iter_tag t) cs)"

text \<open>\<open>child.tag.rsplit("}", 1)[-1]\<close>: the tag without its namespace.\<close>

definition local_tag :: "element \<Rightarrow> string" where
  "local_tag e = rev (takeWhile (\<lambda>c. c \<noteq> CHR ''}'') (rev (tag_of e)))"

definition attr :: "element \<Rightarrow> string \<Rightarrow> string option" where
  "attr e k = map_of (attrs_of e) k"

subsection \<open>Reports\<close>

definition FAILURES :: "string list" where
  "FAILURES = [''failure'', ''fail'', ''failed'']"

definition ERRORS :: "string list" where
  "ERRORS = [''error'', ''errors'', ''setup_error'', ''import_error'', ''timeout'']"

definition proof_error :: "string list \<Rightarrow> dict" where
  "proof_error reasons =
     [(''status'', PStr ''proof_error''), (''tests'', PDict []), (''reasons'', PList (map PStr reasons))]"

text \<open>The identity of a test case; \<open>None\<close> without a name.\<close>

definition native_id :: "element \<Rightarrow> string option" where
  "native_id e = (case attr e ''name'' of
       None \<Rightarrow> None
     | Some name \<Rightarrow>
         if name = [] then None
         else Some (case attr e ''classname'' of
                      None \<Rightarrow> name
                    | Some c \<Rightarrow> if c = [] then name else c @ ''::'' @ name))"

definition detail :: "pyval \<Rightarrow> pyval \<Rightarrow> pyval" where
  "detail typ msg = PDict [(''failure_type'', typ), (''message'', msg)]"

definition failure_type :: "element \<Rightarrow> string" where
  "failure_type failure =
     (let raw = (case attr failure ''type'' of None \<Rightarrow> [] | Some t \<Rightarrow> t)
      in if contains (lower raw) ''assert'' \<or> raw = [] then ''assertion'' else raw)"

definition failure_message :: "element \<Rightarrow> pyval" where
  "failure_message failure =
     (let txt = (case text_of_element failure of None \<Rightarrow> [] | Some t \<Rightarrow> t);
          msg = (case attr failure ''message'' of None \<Rightarrow> [] | Some m \<Rightarrow> m);
          s = strip (if txt \<noteq> [] then txt else msg)
      in if s = [] then PNone else PStr s)"

text \<open>The outcome of one case and its details.\<close>

definition case_outcome :: "element \<Rightarrow> string \<times> pyval" where
  "case_outcome e =
     (let tags = map local_tag (children_of e) in
      if list_ex (\<lambda>t. t \<in> set ERRORS) tags then (''error'', detail (PStr ''error'') PNone)
      else case find (\<lambda>c. local_tag c = ''failure'') (children_of e) of
             Some f \<Rightarrow> (''failure'', detail (PStr (failure_type f)) (failure_message f))
           | None \<Rightarrow> if ''skipped'' \<in> set tags then (''skipped'', detail PNone PNone)
                     else (''pass'', detail PNone PNone))"

text \<open>The loop over the cases; \<open>Inl\<close> is an early return of a proof error.\<close>

fun read_cases :: "(string \<times> string \<times> pyval) list \<Rightarrow> element list \<Rightarrow> string + (string \<times> string \<times> pyval) list" where
  "read_cases seen [] = Inr seen"
| "read_cases seen (e # es) = (case native_id e of
       None \<Rightarrow> Inl ''missing_native_id''
     | Some i \<Rightarrow> if i \<in> set (map fst seen) then Inl ''duplicate_native_id''
                 else read_cases (seen @ [(i, case_outcome e)]) es)"

definition report_value :: "string \<Rightarrow> (string \<times> string \<times> pyval) list \<Rightarrow> string list \<Rightarrow> string \<Rightarrow> dict" where
  "report_value status cases reasons sha =
     [(''status'', PStr status),
      (''tests'', PDict (map (\<lambda>(i, s, d). (i, PStr s)) cases)),
      (''details'', PDict (map (\<lambda>(i, s, d). (i, d)) cases)),
      (''reasons'', PList (map PStr reasons)), (''sha256'', PStr sha)]"

definition parse_junit :: "element option \<Rightarrow> string \<Rightarrow> dict" where
  "parse_junit tree sha = (case tree of
       None \<Rightarrow> proof_error [''malformed_junit'']
     | Some r \<Rightarrow> (case read_cases [] (iter_tag ''testcase'' r) of
           Inl reason \<Rightarrow> proof_error [reason]
         | Inr cases \<Rightarrow>
             if cases = [] then proof_error [''no_tests'']
             else if list_ex (\<lambda>(i, s, d). s = ''error'') cases
               then report_value ''proof_error'' cases [''error''] sha
             else report_value ''ok'' cases [] sha))"

fun read_native :: "(string \<times> string) list \<Rightarrow> pyval list \<Rightarrow> string + (string \<times> string) list" where
  "read_native seen [] = Inr seen"
| "read_native seen (PDict d # items) = (case (map_of d ''native_id'', map_of d ''status'') of
       (Some (PStr i), Some (PStr s)) \<Rightarrow>
         if i = [] then Inl ''missing_native_id''
         else if i \<in> set (map fst seen) then Inl ''duplicate_native_id''
         else read_native (seen @ [(i, s)]) items
     | _ \<Rightarrow> Inl ''missing_native_id'')"
| "read_native seen (_ # items) = Inl ''malformed_native_results''"

definition parse_native_results :: "dict \<Rightarrow> dict" where
  "parse_native_results v = (case map_of v ''tests'' of
       Some (PList items) \<Rightarrow>
         if items = [] then proof_error [''no_tests'']
         else (case read_native [] items of
             Inl reason \<Rightarrow> proof_error [reason]
           | Inr tests \<Rightarrow>
               let had_error = list_ex (\<lambda>(i, s). s \<in> set ERRORS) tests in
               [(''status'', PStr (if had_error then ''proof_error'' else ''ok'')),
                (''tests'', PDict (map (\<lambda>(i, s). (i, PStr s)) tests)),
                (''reasons'', PList (if had_error then [PStr ''error''] else []))])
     | _ \<Rightarrow> proof_error [''no_tests''])"

text \<open>
  A report on disk, as the element tree (\<open>None\<close>: no tree), the digest and the text of one file.  A
  text that is not UTF-8 raises: the handler catches only \<open>OSError\<close> and \<open>JSONDecodeError\<close>.
\<close>

definition load_structured_result ::
    "json_loads \<Rightarrow> element option \<Rightarrow> string \<Rightarrow> text_file \<Rightarrow> string \<Rightarrow> value_error + dict" where
  "load_structured_result loads tree sha f kind =
     (if kind = ''junit'' then Inr (parse_junit tree sha)
      else case f of
             Undecodable_Text \<Rightarrow> Inl ValueError
           | _ \<Rightarrow> (case read_doc loads f of
                    Some (PDict d) \<Rightarrow> Inr (parse_native_results d)
                  | _ \<Rightarrow> Inr (proof_error [''malformed_native_results''])))"

subsection \<open>Comparison\<close>

definition bad :: "pyval \<Rightarrow> value_error + bool" where
  "bad v = in_set (FAILURES @ ERRORS) v"

text \<open>A test that fails now and did not fail in the baseline.\<close>

definition newly_failing :: "dict \<Rightarrow> string \<times> pyval \<Rightarrow> value_error + bool" where
  "newly_failing old kv =
     bind_res (bad (snd kv)) (\<lambda>b. if b then bind_res (bad (getv old (fst kv))) (\<lambda>b'. Inr (\<not> b')) else Inr False)"

definition filter_res :: "('a \<Rightarrow> 'e + bool) \<Rightarrow> 'a list \<Rightarrow> 'e + 'a list" where
  "filter_res p xs = bind_res (map_res (\<lambda>x. bind_res (p x) (\<lambda>b. Inr (x, b))) xs)
     (\<lambda>ys. Inr (map fst (filter snd ys)))"

definition no_longer_passing :: "dict \<Rightarrow> string \<times> pyval \<Rightarrow> bool" where
  "no_longer_passing new kv \<longleftrightarrow> snd kv = PStr ''pass'' \<and> getv new (fst kv) \<noteq> PStr ''pass''"

definition test_regressions :: "dict \<Rightarrow> dict \<Rightarrow> value_error + string list" where
  "test_regressions old new =
     bind_res (filter_res (newly_failing old) new)
       (\<lambda>failing. Inr (sort (remdups (map fst failing @ map fst (filter (no_longer_passing new) old)))))"

definition status_regressions :: "string \<Rightarrow> pyval \<Rightarrow> pyval \<Rightarrow> value_error + string list" where
  "status_regressions check old new =
     bind_res (in_set [''pass'', ''ok''] old) (\<lambda>good.
       if good then bind_res (in_set [''fail'', ''failure'', ''error''] new)
                      (\<lambda>b. Inr (if b then [''check:'' @ check] else []))
       else Inr [])"

definition comparison_error :: "string \<Rightarrow> dict" where
  "comparison_error reason =
     [(''status'', PStr ''proof_error''), (''regressions'', PList []), (''reasons'', PList [PStr reason])]"

definition comparison_value :: "string list \<Rightarrow> dict" where
  "comparison_value rs =
     [(''status'', PStr (if rs = [] then ''ok'' else ''regression'')), (''regressions'', PList (map PStr rs))]"

definition regressions_of :: "string \<Rightarrow> dict \<Rightarrow> dict \<Rightarrow> value_error + string list" where
  "regressions_of check baseline current = (case (getv baseline ''tests'', getv current ''tests'') of
       (PDict old, PDict new) \<Rightarrow> test_regressions old new
     | _ \<Rightarrow> status_regressions check (getv baseline ''status'') (getv current ''status''))"

definition check_name :: "dict \<Rightarrow> dict \<Rightarrow> pyval" where
  "check_name baseline current = dict_get current ''check'' (getv baseline ''check'')"

definition compare_check_results :: "dict \<Rightarrow> dict \<Rightarrow> value_error + dict" where
  "compare_check_results baseline current = (case check_name baseline current of
       PStr check \<Rightarrow>
         if check = [] then Inr (comparison_error ''missing_check'')
         else if getv baseline ''status'' = PStr ''proof_error'' \<or> getv current ''status'' = PStr ''proof_error''
           then Inr (comparison_error ''structured_result_error'')
         else bind_res (regressions_of check baseline current) (\<lambda>rs. Inr (comparison_value rs))
     | _ \<Rightarrow> Inr (comparison_error ''missing_check''))"

subsection \<open>What a comparison says\<close>

definition failing :: "dict \<Rightarrow> string \<Rightarrow> bool" where
  "failing d t \<longleftrightarrow> (\<exists>s. map_of d t = Some (PStr s) \<and> s \<in> set (FAILURES @ ERRORS))"

definition passing :: "dict \<Rightarrow> string \<Rightarrow> bool" where
  "passing d t \<longleftrightarrow> map_of d t = Some (PStr ''pass'')"

definition regressed :: "dict \<Rightarrow> dict \<Rightarrow> string \<Rightarrow> bool" where
  "regressed old new t \<longleftrightarrow> failing new t \<and> \<not> failing old t \<or> passing old t \<and> \<not> passing new t"

lemma bad_getv: "bad (getv d t) = Inr b \<Longrightarrow> b \<longleftrightarrow> failing d t"
  unfolding bad_def getv_def dict_get_def failing_def
  by (drule in_set_Inr) (auto split: option.splits)

lemma passing_getv: "getv d t = PStr ''pass'' \<longleftrightarrow> passing d t"
  by (auto simp: getv_def dict_get_def passing_def split: option.splits)

lemma newly_failing_Inr:
  assumes "newly_failing old (t, v) = Inr b"
  shows "b \<longleftrightarrow> (\<exists>s. v = PStr s \<and> s \<in> set (FAILURES @ ERRORS)) \<and> \<not> failing old t"
proof -
  obtain f where f: "bad v = Inr f"
    and b: "if f then bind_res (bad (getv old t)) (\<lambda>b'. Inr (\<not> b')) = Inr b else \<not> b"
    using assms by (auto simp: newly_failing_def bind_res_Inr_iff split: if_splits)
  have "f \<longleftrightarrow> (\<exists>s. v = PStr s \<and> s \<in> set (FAILURES @ ERRORS))"
    using f unfolding bad_def by (rule in_set_Inr)
  with b show ?thesis by (auto simp: bind_res_Inr_iff dest!: bad_getv split: if_splits)
qed

lemma filter_res_set:
  assumes "filter_res p xs = Inr ys"
  shows "set ys = {x \<in> set xs. p x = Inr True}" and "x \<in> set xs \<Longrightarrow> \<exists>b. p x = Inr b"
proof -
  obtain zs where zs: "map_res (\<lambda>x. bind_res (p x) (\<lambda>b. Inr (x, b))) xs = Inr zs"
    and ys: "ys = map fst (filter snd zs)"
    using assms by (auto simp: filter_res_def bind_res_Inr_iff)
  show "set ys = {x \<in> set xs. p x = Inr True}"
    using map_res_set [OF zs] by (force simp: ys bind_res_Inr_iff)
  show "\<exists>b. p x = Inr b" if "x \<in> set xs"
    using zs that unfolding map_res_Inr
    by (auto simp: list_all2_conv_all_nth bind_res_Inr_iff in_set_conv_nth)
qed

lemma map_of_distinct: "distinct (map fst d) \<Longrightarrow> (k, v) \<in> set d \<longleftrightarrow> map_of d k = Some v"
  by auto

lemma test_regressions_set:
  assumes "test_regressions old new = Inr rs" and "distinct (map fst old)" and "distinct (map fst new)"
  shows "set rs = {t. regressed old new t}" and "sorted rs" and "distinct rs"
proof -
  obtain fs where fs: "filter_res (newly_failing old) new = Inr fs"
    and rs: "rs = sort (remdups (map fst fs @ map fst (filter (no_longer_passing new) old)))"
    using assms(1) by (auto simp: test_regressions_def bind_res_Inr_iff)
  have "fst ` set fs = {t. failing new t \<and> \<not> failing old t}"
  proof -
    have "(t, v) \<in> set fs \<longleftrightarrow> map_of new t = Some v \<and> newly_failing old (t, v) = Inr True" for t v
      unfolding filter_res_set(1) [OF fs] using map_of_distinct [OF assms(3)] by auto
    moreover have "newly_failing old (t, v) = Inr True \<longleftrightarrow>
        (\<exists>s. v = PStr s \<and> s \<in> set (FAILURES @ ERRORS)) \<and> \<not> failing old t" if "map_of new t = Some v" for t v
      using filter_res_set(2) [OF fs, of "(t, v)"] newly_failing_Inr [of old t v] that
      by (auto simp: map_of_SomeD)
    ultimately have iff: "(t, v) \<in> set fs \<longleftrightarrow> map_of new t = Some v \<and>
        (\<exists>s. v = PStr s \<and> s \<in> set (FAILURES @ ERRORS)) \<and> \<not> failing old t" for t v by blast
    show ?thesis
    proof (intro set_eqI iffI)
      fix t assume "t \<in> fst ` set fs"
      then obtain v where "(t, v) \<in> set fs" by auto
      then show "t \<in> {t. failing new t \<and> \<not> failing old t}" by (auto simp: iff failing_def)
    next
      fix t assume "t \<in> {t. failing new t \<and> \<not> failing old t}"
      then obtain s where "(t, PStr s) \<in> set fs" by (auto simp: iff failing_def)
      then show "t \<in> fst ` set fs" by force
    qed
  qed
  moreover have "fst ` set (filter (no_longer_passing new) old) = {t. passing old t \<and> \<not> passing new t}"
    using map_of_distinct [OF assms(2)]
    by (force simp: no_longer_passing_def passing_getv passing_def [of old])
  ultimately show "set rs = {t. regressed old new t}"
    by (auto simp: rs regressed_def)
  show "sorted rs" "distinct rs" by (simp_all add: rs)
qed


text \<open>The regressions of a comparison of two reports with tests.\<close>

lemma compare_tests_Inr:
  assumes "compare_check_results b c = Inr r" and "getv r ''status'' \<noteq> PStr ''proof_error''"
    and "getv b ''tests'' = PDict old" and "getv c ''tests'' = PDict new"
  shows "\<exists>rs. test_regressions old new = Inr rs \<and> r = comparison_value rs"
proof -
  obtain ch where ch: "check_name b c = PStr ch"
    using assms(1,2) by (auto simp: compare_check_results_def comparison_error_def getv_def split: pyval.splits)
  show ?thesis
    using assms ch
    by (auto simp: compare_check_results_def comparison_error_def getv_def bind_res_Inr_iff regressions_of_def
      split: if_splits)
qed

lemma comparison_value_simps [simp]:
  "getv (comparison_value rs) ''regressions'' = PList (map PStr rs)"
  "getv (comparison_value rs) ''status'' = PStr ''ok'' \<longleftrightarrow> rs = []"
  "getv (comparison_value rs) ''status'' \<noteq> PStr ''proof_error''"
  by (simp_all add: comparison_value_def getv_def)

definition tests_of :: "dict \<Rightarrow> dict" where
  "tests_of d = (case getv d ''tests'' of PDict t \<Rightarrow> t | _ \<Rightarrow> [])"

definition has_tests :: "dict \<Rightarrow> bool" where
  "has_tests d \<longleftrightarrow> getv d ''tests'' = PDict (tests_of d) \<and> distinct (map fst (tests_of d))"

lemma compare_regressions:
  assumes "compare_check_results b c = Inr r" and "getv r ''status'' \<noteq> PStr ''proof_error''"
    and "has_tests b" and "has_tests c"
  obtains rs where "r = comparison_value rs" and "set rs = {t. regressed (tests_of b) (tests_of c) t}"
    and "sorted rs" and "distinct rs"
proof -
  from compare_tests_Inr [OF assms(1,2)] assms(3,4) obtain rs where
    "test_regressions (tests_of b) (tests_of c) = Inr rs" "r = comparison_value rs"
    unfolding has_tests_def by blast
  with that test_regressions_set [of "tests_of b" "tests_of c" rs] assms(3,4) show thesis
    by (simp add: has_tests_def)
qed

text \<open>
  A comparison that is not a proof error reports, sorted and without repetition, exactly the tests
  that fail now without having failed before and the tests that passed before and no longer do, and it
  is ok exactly when there are none.  Regressions obey the triangle law against every third report: a
  regression over a chain of runs is a regression of one of its links, and a run has none against
  itself.
\<close>

theorem comparison_is_a_preorder:
  assumes "compare_check_results b c = Inr r" and "getv r ''status'' \<noteq> PStr ''proof_error''"
    and "has_tests b" and "has_tests c"
  shows "(\<exists>rs. r = comparison_value rs \<and> set rs = {t. regressed (tests_of b) (tests_of c) t} \<and>
      sorted rs \<and> distinct rs) \<and>
    (getv r ''status'' = PStr ''ok'' \<longleftrightarrow> {t. regressed (tests_of b) (tests_of c) t} = {}) \<and>
    {t. regressed (tests_of b) (tests_of b) t} = {} \<and>
    {t. regressed (tests_of b) (tests_of c) t} \<subseteq>
      {t. regressed (tests_of b) mid t} \<union> {t. regressed mid (tests_of c) t}"
proof (intro conjI)
  obtain rs where rs: "r = comparison_value rs" "set rs = {t. regressed (tests_of b) (tests_of c) t}"
    "sorted rs" "distinct rs"
    using compare_regressions [OF assms] .
  then show "\<exists>rs. r = comparison_value rs \<and> set rs = {t. regressed (tests_of b) (tests_of c) t} \<and>
      sorted rs \<and> distinct rs" by blast
  show "getv r ''status'' = PStr ''ok'' \<longleftrightarrow> {t. regressed (tests_of b) (tests_of c) t} = {}"
    unfolding rs(2) [symmetric] by (simp add: rs(1))
qed (auto simp: regressed_def)

subsection \<open>What a report says\<close>

text \<open>The loop reads every case, with distinct identities, in order.\<close>

lemma read_cases_Inr:
  "read_cases seen es = Inr cs \<Longrightarrow>
     \<exists>ids. list_all2 (\<lambda>e i. native_id e = Some i) es ids \<and>
       cs = seen @ zip ids (map case_outcome es) \<and> (distinct (map fst seen) \<longrightarrow> distinct (map fst cs))"
proof (induction seen es rule: read_cases.induct)
  case (2 seen e es)
  obtain i where i: "native_id e = Some i" "i \<notin> set (map fst seen)"
      "read_cases (seen @ [(i, case_outcome e)]) es = Inr cs"
    using 2 (2) by (auto split: option.splits if_splits)
  from 2 (1) [OF i] obtain ids where
    "list_all2 (\<lambda>e i. native_id e = Some i) es ids"
    "cs = (seen @ [(i, case_outcome e)]) @ zip ids (map case_outcome es)"
    "distinct (map fst (seen @ [(i, case_outcome e)])) \<longrightarrow> distinct (map fst cs)" by blast
  with i show ?case by (intro exI [of _ "i # ids"]) auto
qed auto

definition cases_of :: "element option \<Rightarrow> element list" where
  "cases_of tree = (case tree of None \<Rightarrow> [] | Some r \<Rightarrow> iter_tag ''testcase'' r)"

definition outcome_of :: "element \<Rightarrow> string" where
  "outcome_of e = fst (case_outcome e)"

lemma getv_report [simp]:
  "getv (report_value st cs rs sha) ''status'' = PStr st"
  "getv (report_value st cs rs sha) ''tests'' = PDict (map (\<lambda>(i, s, d). (i, PStr s)) cs)"
  "getv (proof_error rs) ''status'' = PStr ''proof_error''"
  by (simp_all add: report_value_def proof_error_def getv_def)

lemma map_of_cases:
  assumes "list_all2 (\<lambda>e i. native_id e = Some i) es ids" and "distinct ids"
  shows "map_of (map (\<lambda>(i, s, d). (i, PStr s)) (zip ids (map case_outcome es))) t = Some v \<longleftrightarrow>
    (\<exists>e\<in>set es. native_id e = Some t \<and> v = PStr (outcome_of e))"
  using assms
proof (induction es ids rule: list_all2_induct)
  case (Cons e es i ids)
  have "\<not> (\<exists>e\<in>set es. native_id e = Some i)"
    using Cons.hyps(2) Cons.prems by (auto simp: list_all2_conv_all_nth in_set_conv_nth)
  with Cons show ?case by (auto simp: outcome_of_def split: prod.split)
qed simp

text \<open>
  A JUnit report is accepted only when it has at least one test case, every case has an identity
  of its own, and no case has an error; then its tests are exactly those cases with their outcomes.
\<close>

lemma junit_accepted:
  assumes "getv (parse_junit tree sha) ''status'' = PStr ''ok''"
  shows "cases_of tree \<noteq> []" and "has_tests (parse_junit tree sha)"
    and "distinct (map native_id (cases_of tree))" and "None \<notin> native_id ` set (cases_of tree)"
    and "''error'' \<notin> outcome_of ` set (cases_of tree)"
    and "map_of (tests_of (parse_junit tree sha)) t = Some v \<longleftrightarrow>
      (\<exists>e\<in>set (cases_of tree). native_id e = Some t \<and> v = PStr (outcome_of e))"
proof -
  obtain cs where cs: "read_cases [] (cases_of tree) = Inr cs" "cs \<noteq> []"
      "\<not> list_ex (\<lambda>(i, s, d). s = ''error'') cs" "parse_junit tree sha = report_value ''ok'' cs [] sha"
    using assms by (auto simp: parse_junit_def cases_of_def split: option.splits sum.splits if_splits)
  obtain ids where ids: "list_all2 (\<lambda>e i. native_id e = Some i) (cases_of tree) ids"
      "cs = zip ids (map case_outcome (cases_of tree))" "distinct (map fst cs)"
    using read_cases_Inr [OF cs(1)] by auto
  have len: "length ids = length (cases_of tree)" using ids(1) by (simp add: list_all2_lengthD)
  then have fst: "map fst cs = ids" by (simp add: ids(2))
  have some: "map native_id (cases_of tree) = map Some ids"
    using ids(1) by (auto simp: list_all2_conv_all_nth intro!: nth_equalityI)
  show "cases_of tree \<noteq> []" using cs(2) ids(2) by auto
  show "distinct (map native_id (cases_of tree))"
    using ids(3) by (simp add: some fst distinct_map)
  show "None \<notin> native_id ` set (cases_of tree)"
    using some by (metis image_iff list.set_map option.distinct(1))
  have tests: "tests_of (parse_junit tree sha) = map (\<lambda>(i, s, d). (i, PStr s)) cs"
    by (simp add: tests_of_def cs(4))
  show "has_tests (parse_junit tree sha)"
    using ids(3) unfolding has_tests_def tests by (simp add: cs(4) comp_def case_prod_unfold)
  show "map_of (tests_of (parse_junit tree sha)) t = Some v \<longleftrightarrow>
      (\<exists>e\<in>set (cases_of tree). native_id e = Some t \<and> v = PStr (outcome_of e))"
    unfolding tests ids(2) using ids(3) fst by (intro map_of_cases [OF ids(1)]) simp
  show "''error'' \<notin> outcome_of ` set (cases_of tree)"
  proof
    assume "''error'' \<in> outcome_of ` set (cases_of tree)"
    then obtain k where k: "k < length (cases_of tree)" "fst (case_outcome (cases_of tree ! k)) = ''error''"
      by (auto simp: outcome_of_def in_set_conv_nth)
    then have "(ids ! k, case_outcome (cases_of tree ! k)) \<in> set cs"
      using len by (auto simp: ids(2) set_zip)
    with cs(3) k(2) show False by (force simp: list_ex_iff)
  qed
qed


text \<open>The record of a check run: the name of the check and the parsed report.\<close>

definition named :: "string \<Rightarrow> dict \<Rightarrow> dict" where
  "named check d = (''check'', PStr check) # d"

lemma named_simps [simp]:
  "tests_of (named ch d) = tests_of d" "has_tests (named ch d) \<longleftrightarrow> has_tests d"
  "getv (named ch d) ''status'' = getv d ''status''"
  by (simp_all add: named_def tests_of_def has_tests_def getv_def dict_get_def)

lemma outcome_cases: "outcome_of e \<in> {''error'', ''failure'', ''skipped'', ''pass''}"
  by (auto simp: outcome_of_def case_outcome_def Let_def split: option.splits)

lemma compare_ok_inputs:
  assumes "compare_check_results (named ch b) (named ch c) = Inr r" and "getv r ''status'' = PStr ''ok''"
  shows "ch \<noteq> [] \<and> getv b ''status'' \<noteq> PStr ''proof_error'' \<and> getv c ''status'' \<noteq> PStr ''proof_error''"
proof -
  have name: "check_name (named ch b) (named ch c) = PStr ch" by (simp add: check_name_def named_def)
  have err: "getv (comparison_error e) ''status'' \<noteq> PStr ''ok''" for e
    by (simp add: comparison_error_def getv_def)
  show ?thesis
  proof (rule ccontr)
    assume "\<not> ?thesis"
    then have "r = comparison_error ''missing_check'' \<or> r = comparison_error ''structured_result_error''"
      using assms(1) unfolding compare_check_results_def name pyval.case
      by (auto split: if_splits)
    with err assms(2) show False by blast
  qed
qed

lemma junit_status: "getv (parse_junit tree sha) ''status'' \<in> {PStr ''ok'', PStr ''proof_error''}"
  by (auto simp: parse_junit_def split: option.splits sum.splits)

text \<open>
  C31: The gate over two JUnit reports of one check: when comparing the later with the earlier is ok,
  every test case that passed in the earlier report occurs once in the later one and passes, every
  failing case of the later report failed already in the earlier one, and neither report has a case
  with an error, without a name, or twice.
\<close>

theorem junit_gate_sound:
  assumes "compare_check_results (named check (parse_junit before sha)) (named check (parse_junit after sha')) = Inr r"
    and "getv r ''status'' = PStr ''ok''"
  shows "(\<forall>e\<in>set (cases_of before). outcome_of e = ''pass'' \<longrightarrow>
      (\<exists>!e'. e' \<in> set (cases_of after) \<and> native_id e' = native_id e) \<and>
      (\<exists>e'\<in>set (cases_of after). native_id e' = native_id e \<and> outcome_of e' = ''pass'')) \<and>
    (\<forall>e'\<in>set (cases_of after). outcome_of e' = ''failure'' \<longrightarrow>
      (\<exists>e\<in>set (cases_of before). native_id e = native_id e' \<and> outcome_of e = ''failure'')) \<and>
    (\<forall>e\<in>set (cases_of before) \<union> set (cases_of after). native_id e \<noteq> None \<and> outcome_of e \<noteq> ''error'') \<and>
    distinct (map native_id (cases_of before)) \<and> distinct (map native_id (cases_of after))"
proof -
  let ?b = "parse_junit before sha" and ?c = "parse_junit after sha'"
  have ok: "getv ?b ''status'' = PStr ''ok''" "getv ?c ''status'' = PStr ''ok''"
    using compare_ok_inputs [OF assms] junit_status [of before sha] junit_status [of after sha'] by auto
  note B = junit_accepted [OF ok(1)] and C = junit_accepted [OF ok(2)]
  have nerr: "getv r ''status'' \<noteq> PStr ''proof_error''" using assms(2) by simp
  obtain rs where rs: "r = comparison_value rs" "set rs = {t. regressed (tests_of ?b) (tests_of ?c) t}"
    using B(2) C(2) by (rule compare_regressions [OF assms(1) nerr, unfolded named_simps])
  have none: "\<not> regressed (tests_of ?b) (tests_of ?c) t" for t
  proof -
    have "rs = []" using assms(2) unfolding rs(1) by simp
    with rs(2) show ?thesis by (metis empty_iff list.set(1) mem_Collect_eq)
  qed
  have pass: "\<exists>e'\<in>set (cases_of after). native_id e' = native_id e \<and> outcome_of e' = ''pass''"
    if "e \<in> set (cases_of before)" "outcome_of e = ''pass''" for e
  proof -
    from B(4) that(1) obtain t where t: "native_id e = Some t" by (cases "native_id e") (auto simp: image_iff)
    then have "passing (tests_of ?b) t" using that by (auto simp: passing_def B(6))
    with none [of t] have "passing (tests_of ?c) t" by (auto simp: regressed_def)
    with t show ?thesis by (auto simp: passing_def C(6))
  qed
  have fails: "\<exists>e\<in>set (cases_of before). native_id e = native_id e' \<and> outcome_of e = ''failure''"
    if "e' \<in> set (cases_of after)" "outcome_of e' = ''failure''" for e'
  proof -
    from C(4) that(1) obtain t where t: "native_id e' = Some t" by (cases "native_id e'") (auto simp: image_iff)
    then have "failing (tests_of ?c) t" using that by (auto simp: failing_def C(6) FAILURES_def)
    with none [of t] have "failing (tests_of ?b) t" by (auto simp: regressed_def)
    then obtain e where e: "e \<in> set (cases_of before)" "native_id e = Some t"
        "outcome_of e \<in> set (FAILURES @ ERRORS)" by (auto simp: failing_def B(6))
    with B(5) have "outcome_of e = ''failure''"
      using outcome_cases [of e] by (auto simp: FAILURES_def ERRORS_def image_iff)
    with e t show ?thesis by auto
  qed
  have once: "e1 = e2" if "e1 \<in> set (cases_of after)" "e2 \<in> set (cases_of after)" "native_id e1 = native_id e2" for e1 e2
    using C(3) that by (auto simp: distinct_map dest: inj_onD)
  show ?thesis
  proof (intro conjI ballI impI)
    fix e assume "e \<in> set (cases_of before)" "outcome_of e = ''pass''"
    from pass [OF this] show "\<exists>!e'. e' \<in> set (cases_of after) \<and> native_id e' = native_id e"
      using once by metis
  next
    fix e assume e: "e \<in> set (cases_of before) \<union> set (cases_of after)"
    then show "native_id e \<noteq> None" using B(4) C(4) by (metis Un_iff image_eqI)
  qed (use pass fails B(3,5) C(3,5) in \<open>auto simp: image_iff\<close>)
qed


subsection \<open>Examples\<close>

definition demo_case :: "string \<Rightarrow> element list \<Rightarrow> element" where
  "demo_case name cs = Element ''testcase'' [(''classname'', ''tests.T''), (''name'', name)] None cs"

definition demo_failure :: element where
  "demo_failure = Element ''{urn:x}failure'' [(''message'', ''1 is not 2'')] None []"

definition demo_before :: "element option" where
  "demo_before = Some (Element ''testsuites'' [] None [Element ''testsuite'' [] None
     [demo_case ''a'' [], demo_case ''b'' [demo_failure]]])"

definition demo_after :: "element option" where
  "demo_after = Some (Element ''testsuite'' [] None [demo_case ''b'' [], demo_case ''a'' [], demo_case ''c'' []])"

lemma demo_compare:
  "compare_check_results (named ''unit'' (parse_junit demo_before ''s'')) (named ''unit'' (parse_junit demo_after ''t''))
     = Inr (comparison_value [])"
  by code_simp

lemma demo_has_tests: "has_tests (named ''unit'' (parse_junit demo_before ''s''))"
  "has_tests (named ''unit'' (parse_junit demo_after ''t''))"
  by code_simp+

lemma demo_regression:
  "compare_check_results (named ''unit'' (parse_junit demo_after ''t'')) (named ''unit'' (parse_junit demo_before ''s''))
     = Inr (comparison_value [''tests.T::b'', ''tests.T::c''])"
  by code_simp

lemma junit_gate_sound_witness: "native_id (demo_case ''a'' []) = Some ''tests.T::a'' \<and>
    (\<exists>e'\<in>set (cases_of demo_after). native_id e' = Some ''tests.T::a'' \<and> outcome_of e' = ''pass'')"
proof -
  have "outcome_of (demo_case ''a'' []) = ''pass''" "native_id (demo_case ''a'' []) = Some ''tests.T::a''"
    "demo_case ''a'' [] \<in> set (cases_of demo_before)"
    by code_simp+
  moreover have "getv (comparison_value []) ''status'' = PStr ''ok''" by simp
  ultimately show ?thesis using conjunct1 [OF junit_gate_sound [OF demo_compare]] by metis
qed

lemma comparison_is_a_preorder_witness:
  "{t. regressed (tests_of (named ''unit'' (parse_junit demo_after ''t'')))
       (tests_of (named ''unit'' (parse_junit demo_before ''s''))) t} = {''tests.T::b'', ''tests.T::c''}"
proof -
  have "getv (comparison_value [''tests.T::b'', ''tests.T::c'']) ''status'' \<noteq> PStr ''proof_error''" by simp
  from conjunct1 [OF comparison_is_a_preorder [OF demo_regression this demo_has_tests(2) demo_has_tests(1)]]
  obtain rs where "comparison_value [''tests.T::b'', ''tests.T::c''] = comparison_value rs"
    "set rs = {t. regressed (tests_of (named ''unit'' (parse_junit demo_after ''t'')))
       (tests_of (named ''unit'' (parse_junit demo_before ''s''))) t}"
    by metis
  moreover from this(1) have "rs = [''tests.T::b'', ''tests.T::c'']"
    by (cases rs) (auto simp: comparison_value_def split: if_splits)
  ultimately show ?thesis by simp
qed

end
