(* ===== verification/Fix_Proof.thy ===== *)
theory Fix_Proof
  imports Check_Results
begin

text \<open>
  The validators of \<^verbatim>\<open>scripts/_proof.py\<close>: the receipt of a fix proof (red before, green after, on
  exactly the intended source change), its reverification on a final tree, the receipt of a suite run,
  and the artifacts a receipt declares.

  The digest of a text, the text of a float and \<open>validate_execution_receipt\<close> of
  \<^verbatim>\<open>scripts/_execution.py\<close> (\<open>None\<close>: it raised) are the fields of the parameter \<open>host\<close>.
\<close>

record host =
  h_sha :: "string \<Rightarrow> string"
  h_frepr :: "pyfloat \<Rightarrow> string"
  h_provider :: "dict \<Rightarrow> (string \<times> string) list \<Rightarrow> string list option"

subsection \<open>Digests and source maps\<close>

text \<open>The digest of the canonical text; \<open>allow_nan=False\<close> raises on a float that is not finite.\<close>

definition canonical :: "host \<Rightarrow> pyval \<Rightarrow> string" where
  "canonical h v = h_sha h (json_dumps False (h_frepr h) v)"

definition canonical_sha256 :: "host \<Rightarrow> pyval \<Rightarrow> value_error + string" where
  "canonical_sha256 h v = (if nonfinite v then Inl ValueError else Inr (canonical h v))"

definition is_hex :: "string \<Rightarrow> bool" where
  "is_hex s \<longleftrightarrow> list_all (\<lambda>c. c \<in> set ''0123456789abcdef'') s"

definition valid_hash :: "pyval \<Rightarrow> bool" where
  "valid_hash v = (case v of PStr s \<Rightarrow> length s = 64 \<and> is_hex s | _ \<Rightarrow> False)"

fun str_of :: "pyval \<Rightarrow> string" where
  "str_of (PStr s) = s"
| "str_of _ = []"

definition source_map :: "pyval \<Rightarrow> (string \<times> string) list option" where
  "source_map v = (case v of
       PDict d \<Rightarrow>
         if d \<noteq> [] \<and> list_all (\<lambda>(p, x). p \<noteq> [] \<and> valid_hash x) d
         then Some (map (\<lambda>(p, x). (p, str_of x)) d) else None
     | _ \<Rightarrow> None)"

definition src_val :: "(string \<times> string) list \<Rightarrow> pyval" where
  "src_val m = PDict (map (\<lambda>(p, x). (p, PStr x)) m)"

definition src_get :: "(string \<times> string) list \<Rightarrow> string \<Rightarrow> pyval" where
  "src_get m p = (case map_of m p of None \<Rightarrow> PNone | Some x \<Rightarrow> PStr x)"

definition nonempty_string :: "pyval \<Rightarrow> bool" where
  "nonempty_string v = (case v of PStr s \<Rightarrow> s \<noteq> [] | _ \<Rightarrow> False)"

record proof_result =
  pr_complete :: bool
  pr_status :: string
  pr_reasons :: "string list"
  pr_sha :: "string option"

definition result_of :: "host \<Rightarrow> pyval \<Rightarrow> string list \<Rightarrow> value_error + proof_result" where
  "result_of h receipt reasons =
     bind_res (case receipt of PDict d \<Rightarrow> bind_res (canonical_sha256 h receipt) (\<lambda>s. Inr (Some s)) | _ \<Rightarrow> Inr None)
       (\<lambda>sha. Inr \<lparr>pr_complete = (reasons = []),
         pr_status = (if reasons = [] then ''verified'' else ''proof_error''),
         pr_reasons = reasons, pr_sha = sha\<rparr>)"

subsection \<open>Executions\<close>

definition backend_ok :: "dict \<Rightarrow> dict \<Rightarrow> dict \<Rightarrow> bool" where
  "backend_ok d b c \<longleftrightarrow>
     getv b ''name'' = PStr ''docker'' \<and> valid_hash (getv b ''engine_sha256'') \<and>
     valid_hash (getv b ''image_digest'') \<and> is_str (getv d ''backend_readback_path'') \<and>
     valid_hash (getv d ''backend_readback_sha256'') \<and> getv d ''backend_readback_verified'' = PBool True \<and>
     getv c ''isolation'' = PStr ''verified'' \<and> getv c ''network'' = PStr ''verified_denied'' \<and>
     getv c ''deadline'' = PStr ''process_group_term_kill_reap'' \<and>
     getv c ''output_import'' = PStr ''trusted_side'' \<and> getv c ''evidence_tier'' = PStr ''verified_backend''"

definition identity_ok :: "host \<Rightarrow> dict \<Rightarrow> dict \<Rightarrow> (string \<times> string) list \<Rightarrow> bool" where
  "identity_ok h d i files \<longleftrightarrow>
     getv i ''kind'' = PStr ''content-manifest-sha256'' \<and>
     py_eq (getv i ''source_file_sha256'') (src_val files) \<and>
     getv i ''sha256'' = PStr (canonical h (src_val files)) \<and>
     getv d ''source_manifest_sha256'' = PStr (canonical h (src_val files))"

definition trusted_execution :: "host \<Rightarrow> pyval \<Rightarrow> (string \<times> string) list \<Rightarrow> bool" where
  "trusted_execution h v files = (case v of
       PDict d \<Rightarrow> getv d ''termination'' = PStr ''exited'' \<and>
         (case (getv d ''backend'', getv d ''capabilities'', getv d ''source_identity'') of
            (PDict b, PDict c, PDict i) \<Rightarrow> backend_ok d b c \<and> identity_ok h d i files
          | _ \<Rightarrow> False)
     | _ \<Rightarrow> False)"

definition execution_reason :: "pyval \<Rightarrow> string" where
  "execution_reason v = (case v of
       PDict d \<Rightarrow> (case getv d ''capabilities'' of
           PDict c \<Rightarrow>
             if getv c ''isolation'' = PStr ''configured_unverified'' \<or>
                getv c ''network'' = PStr ''configured_denied_unverified''
             then ''execution_isolation_unverified'' else ''execution_receipt_invalid''
         | _ \<Rightarrow> ''execution_receipt_invalid'')
     | _ \<Rightarrow> ''execution_receipt_invalid'')"

definition provider_reasons :: "host \<Rightarrow> pyval \<Rightarrow> (string \<times> string) list \<Rightarrow> string list" where
  "provider_reasons h v files = (case v of
       PDict d \<Rightarrow> (case h_provider h d files of
           None \<Rightarrow> [''execution_validator_unavailable'']
         | Some rs \<Rightarrow> map (\<lambda>r. ''execution_'' @ r) rs)
     | _ \<Rightarrow> [''execution_receipt_invalid''])"

text \<open>What every user of an execution asks: trusted on these sources, and accepted by the provider.\<close>

definition execution_reasons :: "host \<Rightarrow> pyval \<Rightarrow> (string \<times> string) list option \<Rightarrow> string list" where
  "execution_reasons h v files = (case files of
       None \<Rightarrow> [execution_reason v]
     | Some m \<Rightarrow> if trusted_execution h v m then provider_reasons h v m else [execution_reason v])"

definition accepted_execution :: "host \<Rightarrow> pyval \<Rightarrow> (string \<times> string) list \<Rightarrow> bool" where
  "accepted_execution h v m \<longleftrightarrow> trusted_execution h v m \<and> (\<exists>d. v = PDict d \<and> h_provider h d m = Some [])"

lemma execution_reasons_Nil:
  "execution_reasons h v files = [] \<longleftrightarrow> (\<exists>m. files = Some m \<and> accepted_execution h v m)"
  by (auto simp: execution_reasons_def provider_reasons_def accepted_execution_def
    split: option.splits pyval.splits)

definition DIGEST_KEYS :: "string list" where
  "DIGEST_KEYS = [''command_sha256'', ''config_sha256'', ''environment_sha256'']"

subsection \<open>Fix proofs\<close>

definition header_reasons :: "host \<Rightarrow> dict \<Rightarrow> pyval \<Rightarrow> pyval \<Rightarrow> pyval \<Rightarrow> value_error + string list" where
  "header_reasons h r run bug current =
     bind_res (case current of
         PDict d \<Rightarrow> bind_res (canonical_sha256 h current)
                     (\<lambda>s. Inr (getv r ''source_manifest_sha256'' \<noteq> PStr s))
       | _ \<Rightarrow> Inr True)
       (\<lambda>mismatch. Inr (
          flag (\<not> py_eq (getv r ''schema_version'') (PInt 1)) ''unsupported_schema'' @
          flag (\<not> py_eq (getv r ''run_id'') run) ''run_id_mismatch'' @
          flag (\<not> py_eq (getv r ''bug_id'') bug) ''bug_id_mismatch'' @
          flag (getv r ''status'' \<noteq> PStr ''verified'') ''receipt_not_verified'' @
          flag (getv r ''execution_policy_mode'' \<noteq> PStr ''required-untrusted'') ''untrusted_execution_required'' @
          flag mismatch ''source_manifest_mismatch'' @
          concat (map (\<lambda>k. flag (\<not> valid_hash (getv r k)) (''invalid_'' @ k))
            (DIGEST_KEYS @ [''original_request_sha256'', ''post_revision_sha256'']))))"

definition test_reasons :: "host \<Rightarrow> dict \<Rightarrow> dict \<Rightarrow> string list" where
  "test_reasons h r test =
     flag (\<not> nonempty_string (getv test ''native_id'') \<or> \<not> valid_hash (getv test ''sha256'')) ''invalid_test_identity'' @
     flag (getv test ''expected_failure_type'' \<noteq> PStr ''assertion'' \<or>
           \<not> nonempty_string (getv test ''expected_failure_message'')) ''invalid_expected_assertion'' @
     flag (case source_map (getv r ''review_source_file_sha256'') of
             None \<Rightarrow> True
           | Some m \<Rightarrow> getv r ''review_source_manifest_sha256'' \<noteq> PStr (canonical h (src_val m)))
       ''invalid_review_source_identity''"

text \<open>\<open>expected not in message\<close>; a left operand that is not a string raises.\<close>

definition message_reason :: "pyval \<Rightarrow> pyval \<Rightarrow> value_error + string list" where
  "message_reason expected message = (case message of
       PStr m \<Rightarrow> (case expected of
           PStr e \<Rightarrow> Inr (flag (\<not> contains m e) ''before_failure_message'')
         | _ \<Rightarrow> Inl TypeError)
     | _ \<Rightarrow> Inr [''before_failure_message''])"

definition before_reasons :: "pyval \<Rightarrow> dict \<Rightarrow> dict \<Rightarrow> value_error + string list" where
  "before_reasons expected rec outcome =
     bind_res (message_reason expected (getv outcome ''message'')) (\<lambda>msg. Inr (
       flag (getv outcome ''failure_type'' \<noteq> PStr ''assertion'') ''before_failure_type'' @ msg @
       flag (as_int (getv rec ''exit_code'') \<in> {None, Some 0}) ''before_exit_code''))"

definition after_reasons :: "dict \<Rightarrow> string list" where
  "after_reasons rec = flag (as_int (getv rec ''exit_code'') \<noteq> Some 0) ''after_exit_code''"

definition binding_reasons :: "dict \<Rightarrow> dict \<Rightarrow> string \<Rightarrow> dict \<Rightarrow> string list" where
  "binding_reasons r test phase rec = (case getv rec ''execution'' of
       PDict e \<Rightarrow>
         concat (map (\<lambda>k. flag (\<not> py_eq (getv e k) (getv r k)) (phase @ ''_'' @ k @ ''_mismatch'')) DIGEST_KEYS) @
         flag (case (source_map (getv rec ''source_file_sha256''), getv test ''path'') of
                 (Some m, PStr p) \<Rightarrow> \<not> py_eq (src_get m p) (getv test ''sha256'')
               | _ \<Rightarrow> True) (phase @ ''_test_sha256_mismatch'')
     | _ \<Rightarrow> [])"

definition evidence_reasons :: "host \<Rightarrow> dict \<Rightarrow> dict \<Rightarrow> string \<Rightarrow> dict \<Rightarrow> string list" where
  "evidence_reasons h r test phase rec =
     concat (map (\<lambda>k. flag (\<not> valid_hash (getv rec k)) (''invalid_'' @ phase @ ''_'' @ k))
       [''structured_report_sha256'', ''log_sha256'']) @
     map (\<lambda>x. phase @ ''_'' @ x)
       (execution_reasons h (getv rec ''execution'') (source_map (getv rec ''source_file_sha256''))) @
     binding_reasons r test phase rec"

definition phase_reasons ::
    "host \<Rightarrow> dict \<Rightarrow> dict \<Rightarrow> string \<Rightarrow> string \<Rightarrow> dict \<Rightarrow> value_error + string list" where
  "phase_reasons h r test phase expected_status rec = (case getv rec ''test_outcome'' of
       PDict outcome \<Rightarrow>
         if \<not> py_eq (getv outcome ''native_id'') (getv test ''native_id'') then Inr [phase @ ''_native_id'']
         else bind_res (if phase = ''before''
                        then before_reasons (getv test ''expected_failure_message'') rec outcome
                        else Inr (after_reasons rec))
           (\<lambda>own. Inr (flag (getv outcome ''status'' \<noteq> PStr expected_status) (phase @ ''_outcome'') @ own @
                     evidence_reasons h r test phase rec))
     | _ \<Rightarrow> Inr [phase @ ''_native_id''])"

text \<open>The files whose digests differ between two source maps.\<close>

definition changed_files :: "(string \<times> string) list \<Rightarrow> (string \<times> string) list \<Rightarrow> string list" where
  "changed_files b a = sort (filter (\<lambda>p. map_of b p \<noteq> map_of a p) (remdups (map fst b @ map fst a)))"

definition intended_reasons ::
    "pyval \<Rightarrow> (string \<times> string) list option \<Rightarrow> (string \<times> string) list option \<Rightarrow> string list" where
  "intended_reasons intended before after = (case intended of
       PList xs \<Rightarrow>
         if xs = [] \<or> \<not> list_all nonempty_string xs then [''invalid_intended_source_files'']
         else if \<not> distinct (map str_of xs) then [''duplicate_intended_source_files'']
         else (case (before, after) of
             (Some b, Some a) \<Rightarrow> flag (changed_files b a \<noteq> sort (map str_of xs)) ''unintended_source_change''
           | _ \<Rightarrow> [''missing_source_digests''])
     | _ \<Rightarrow> [''invalid_intended_source_files''])"

definition review_reasons ::
    "dict \<Rightarrow> (string \<times> string) list option \<Rightarrow> (string \<times> string) list option \<Rightarrow> string list" where
  "review_reasons test before review = (case (before, review) of
       (Some b, Some rv) \<Rightarrow>
         flag (list_ex (\<lambda>(p, x). getv test ''path'' \<noteq> PStr p \<and> map_of b p \<noteq> Some x) rv) ''review_source_mismatch''
     | _ \<Rightarrow> [])"

definition suite_binding_reasons :: "dict \<Rightarrow> string list" where
  "suite_binding_reasons r =
     flag (\<not> nonempty_string (getv r ''suite_receipt_path'') \<or> \<not> valid_hash (getv r ''suite_receipt_sha256''))
       ''missing_suite_receipt_binding''"

definition current_reasons :: "(string \<times> string) list option \<Rightarrow> (string \<times> string) list option \<Rightarrow> string list" where
  "current_reasons after current = (case (after, current) of
       (Some a, Some c) \<Rightarrow> flag (\<not> py_eq (src_val a) (src_val c)) ''current_source_mismatch''
     | _ \<Rightarrow> [''current_source_mismatch''])"

definition change_reasons :: "dict \<Rightarrow> dict \<Rightarrow> dict \<Rightarrow> dict \<Rightarrow> pyval \<Rightarrow> string list" where
  "change_reasons r test before after current =
     (let b = source_map (getv before ''source_file_sha256'');
          a = source_map (getv after ''source_file_sha256'')
      in intended_reasons (getv r ''intended_source_files'') b a @ current_reasons a (source_map current) @
         review_reasons test b (source_map (getv r ''review_source_file_sha256'')) @ suite_binding_reasons r)"

definition validate_fix_proof :: "host \<Rightarrow> pyval \<Rightarrow> pyval \<Rightarrow> pyval \<Rightarrow> pyval \<Rightarrow> value_error + proof_result" where
  "validate_fix_proof h receipt run bug current = (case receipt of
       PDict r \<Rightarrow> bind_res (header_reasons h r run bug current) (\<lambda>hd. case getv r ''test'' of
           PDict test \<Rightarrow> (case (getv r ''before'', getv r ''after'') of
               (PDict before, PDict after) \<Rightarrow>
                 bind_res (phase_reasons h r test ''before'' ''failure'' before) (\<lambda>bs.
                   bind_res (phase_reasons h r test ''after'' ''pass'' after) (\<lambda>as.
                     result_of h receipt (fromkeys (hd @ test_reasons h r test @ bs @ as @
                       change_reasons r test before after current))))
             | _ \<Rightarrow> result_of h receipt (hd @ test_reasons h r test @ [''missing_before_after'']))
         | _ \<Rightarrow> result_of h receipt (hd @ [''missing_test'']))
     | _ \<Rightarrow> result_of h receipt [''malformed_receipt''])"

subsection \<open>Reverification\<close>

definition original_sources :: "dict \<Rightarrow> (string \<times> string) list option" where
  "original_sources original = (case getv original ''after'' of
       PDict a \<Rightarrow> source_map (getv a ''source_file_sha256'')
     | _ \<Rightarrow> None)"

definition opt_src_val :: "(string \<times> string) list option \<Rightarrow> pyval" where
  "opt_src_val m = (case m of None \<Rightarrow> PNone | Some x \<Rightarrow> src_val x)"

definition is_commit :: "pyval \<Rightarrow> bool" where
  "is_commit v = (case v of PStr s \<Rightarrow> length s \<in> {40, 64} \<and> is_hex s | _ \<Rightarrow> False)"

definition reverified_header :: "host \<Rightarrow> dict \<Rightarrow> dict \<Rightarrow> string \<Rightarrow> pyval \<Rightarrow> string \<Rightarrow> string list" where
  "reverified_header h r original original_sha run bug =
     flag (\<not> py_eq (getv r ''schema_version'') (PInt 1) \<or> getv r ''event'' \<noteq> PStr ''fix_reverified'')
       ''invalid_reverification_schema'' @
     flag (\<not> py_eq (getv r ''run_id'') run \<or> getv r ''bug_id'' \<noteq> PStr bug) ''reverification_identity_mismatch'' @
     flag (getv r ''status'' \<noteq> PStr ''verified'') ''reverification_not_verified'' @
     flag (getv r ''original_proof_path'' \<noteq> PStr (''proofs/'' @ bug @ ''.json'')) ''original_proof_path_mismatch'' @
     flag (getv r ''original_proof_sha256'' \<noteq> PStr original_sha) ''original_proof_sha256_mismatch'' @
     flag (\<not> py_eq (getv r ''original_source_manifest_sha256'') (getv original ''source_manifest_sha256''))
       ''original_source_manifest_mismatch'' @
     flag (\<not> is_commit (getv r ''original_fix_commit'')) ''invalid_original_fix_commit''"

definition final_source_reasons :: "host \<Rightarrow> dict \<Rightarrow> (string \<times> string) list option \<Rightarrow> string list" where
  "final_source_reasons h r current = (case current of
       None \<Rightarrow> [''final_source_mismatch'']
     | Some m \<Rightarrow>
         if \<not> py_eq (getv r ''final_source_file_sha256'') (src_val m) then [''final_source_mismatch'']
         else flag (getv r ''final_source_manifest_sha256'' \<noteq> PStr (canonical h (src_val m)))
                ''final_source_manifest_mismatch'')"

definition green_reasons :: "dict \<Rightarrow> dict \<Rightarrow> string list" where
  "green_reasons r after =
     flag (case (getv after ''test_outcome'', getv r ''test'') of
             (PDict outcome, PDict test) \<Rightarrow>
               \<not> py_eq (getv outcome ''native_id'') (getv test ''native_id'') \<or> getv outcome ''status'' \<noteq> PStr ''pass''
           | _ \<Rightarrow> True) ''reverification_test_not_green'' @
     flag (\<not> py_eq (getv after ''exit_code'') (PInt 0)) ''reverification_exit_code''"

definition same_digest :: "dict \<Rightarrow> dict \<Rightarrow> pyval \<Rightarrow> string \<Rightarrow> bool" where
  "same_digest r original execution k \<longleftrightarrow> valid_hash (getv r k) \<and>
     (case execution of PDict e \<Rightarrow> py_eq (getv r k) (getv e k) | _ \<Rightarrow> False) \<and> py_eq (getv r k) (getv original k)"

definition reverified_after ::
    "host \<Rightarrow> dict \<Rightarrow> dict \<Rightarrow> (string \<times> string) list option \<Rightarrow> string list" where
  "reverified_after h r original current = (case getv r ''after'' of
       PDict after \<Rightarrow>
         execution_reasons h (getv after ''execution'') current @
         flag (\<not> py_eq (getv after ''source_file_sha256'') (opt_src_val current))
           ''reverification_execution_source_mismatch'' @
         green_reasons r after @
         concat (map (\<lambda>k. flag (\<not> same_digest r original (getv after ''execution'') k)
           (''reverification_'' @ k @ ''_mismatch'')) DIGEST_KEYS)
     | _ \<Rightarrow> [''missing_reverification_execution''])"

definition validate_fix_reverification ::
    "host \<Rightarrow> pyval \<Rightarrow> pyval \<Rightarrow> pyval \<Rightarrow> string \<Rightarrow> pyval \<Rightarrow> value_error + proof_result" where
  "validate_fix_reverification h receipt original_proof run bug current = (case (receipt, original_proof) of
       (PDict r, PDict original) \<Rightarrow>
         bind_res (validate_fix_proof h original_proof run (PStr bug) (opt_src_val (original_sources original)))
           (\<lambda>original_result. bind_res (canonical_sha256 h original_proof) (\<lambda>sha.
             result_of h receipt (fromkeys (
               flag (\<not> pr_complete original_result) ''original_proof_invalid'' @
               reverified_header h r original sha run bug @
               final_source_reasons h r (source_map current) @
               flag (\<not> py_eq (getv r ''test'') (getv original ''test'')) ''reverification_test_mismatch'' @
               reverified_after h r original (source_map current) @ suite_binding_reasons r))))
     | _ \<Rightarrow> result_of h receipt [''malformed_reverification''])"

subsection \<open>Suite receipts\<close>

definition check_reasons :: "host \<Rightarrow> (string \<times> string) list option \<Rightarrow> pyval \<Rightarrow> string list" where
  "check_reasons h files check = (case check of
       PDict c \<Rightarrow> (let e = getv c ''execution'' in
         flag (getv c ''status'' \<noteq> PStr ''pass'') ''suite_check_not_pass'' @
         flag (case e of PDict d \<Rightarrow> \<not> py_eq (getv d ''exit_code'') (PInt 0) | _ \<Rightarrow> True) ''suite_execution_not_zero'' @
         execution_reasons h e files @
         concat (map (\<lambda>k. if \<not> valid_hash (getv c k) then [''invalid_'' @ k]
           else flag (case e of PDict d \<Rightarrow> \<not> py_eq (getv c k) (getv d k) | _ \<Rightarrow> True) (''check_'' @ k @ ''_mismatch''))
           DIGEST_KEYS))
     | _ \<Rightarrow> [''malformed_check''])"

definition suite_source_reasons :: "host \<Rightarrow> dict \<Rightarrow> (string \<times> string) list option \<Rightarrow> string list" where
  "suite_source_reasons h r expected = (case expected of
       None \<Rightarrow> [''current_source_mismatch'']
     | Some m \<Rightarrow>
         if \<not> py_eq (getv r ''source_file_sha256'') (src_val m) then [''current_source_mismatch'']
         else flag (getv r ''source_manifest_sha256'' \<noteq> PStr (canonical h (src_val m))) ''source_manifest_mismatch'')"

definition suite_reasons :: "host \<Rightarrow> dict \<Rightarrow> pyval \<Rightarrow> pyval \<Rightarrow> string \<Rightarrow> string list" where
  "suite_reasons h r run expected phase =
     flag (phase \<notin> {''baseline'', ''verify''} \<or> \<not> py_eq (getv r ''schema_version'') (PInt 1) \<or>
           getv r ''phase'' \<noteq> PStr phase) ''invalid_suite_schema'' @
     flag (\<not> py_eq (getv r ''run_id'') run) ''run_id_mismatch'' @
     suite_source_reasons h r (source_map expected) @
     (case getv r ''checks'' of
        PList cs \<Rightarrow> if cs = [] then [''no_checks'']
          else concat (map (check_reasons h (source_map (getv r ''source_file_sha256''))) cs)
      | _ \<Rightarrow> [''no_checks'']) @
     flag (getv r ''proof_error'' \<noteq> PBool False) ''suite_proof_error'' @
     flag (getv r ''execution_policy_mode'' \<noteq> PStr ''required-untrusted'') ''untrusted_execution_required'' @
     flag (getv r ''regressions'' \<noteq> PList []) ''suite_regression''"

definition validate_suite_receipt :: "host \<Rightarrow> pyval \<Rightarrow> pyval \<Rightarrow> pyval \<Rightarrow> string \<Rightarrow> value_error + proof_result" where
  "validate_suite_receipt h receipt run expected phase = (case receipt of
       PDict r \<Rightarrow> result_of h receipt (fromkeys (suite_reasons h r run expected phase))
     | _ \<Rightarrow> result_of h receipt [''malformed_suite_receipt''])"

subsection \<open>The names of the checks\<close>

definition validate_check_names :: "dict list \<Rightarrow> string list" where
  "validate_check_names records =
     (let names = map (\<lambda>r. getv r ''check'') records in
      if \<not> list_all nonempty_string names then [''invalid_check_name'']
      else map (\<lambda>n. ''duplicate_check:'' @ n)
        (sort (remdups (filter (\<lambda>n. 1 < count_list (map str_of names) n) (map str_of names)))))"

lemma distinct_count_list: "distinct xs \<longleftrightarrow> (\<forall>x\<in>set xs. \<not> 1 < count_list xs x)"
proof (induction xs)
  case (Cons a xs)
  have "count_list xs a = 0 \<longleftrightarrow> a \<notin> set xs" by (simp add: count_list_0_iff)
  with Cons show ?case by (auto simp: not_less)
qed simp

lemma validate_check_names_Nil:
  assumes "validate_check_names rs = []"
  shows "distinct (map (\<lambda>r. getv r ''check'') rs)"
proof -
  define names where "names = map str_of (map (\<lambda>r. getv r ''check'') rs)"
  have "sort (remdups (filter (\<lambda>n. 1 < count_list names n) names)) = []"
    using assms unfolding validate_check_names_def Let_def names_def [symmetric] by (simp split: if_split_asm)
  then have "set (filter (\<lambda>n. 1 < count_list names n) names) = {}"
    by (metis set_remdups set_sort set_empty)
  then have "\<forall>n\<in>set names. \<not> 1 < count_list names n" by (simp only: set_filter) blast
  then have "distinct names" by (simp only: distinct_count_list)
  then show ?thesis unfolding names_def by (rule iffD1 [OF distinct_map, THEN conjunct1])
qed

subsection \<open>What an accepted receipt shows\<close>

lemma result_of_complete:
  "result_of h v rs = Inr res \<Longrightarrow> pr_complete res \<longleftrightarrow> rs = []"
  by (auto simp: result_of_def bind_res_Inr_iff)

lemma result_of_reasons: "result_of h v rs = Inr res \<Longrightarrow> pr_complete res \<longleftrightarrow> pr_reasons res = []"
  by (auto simp: result_of_def bind_res_Inr_iff)

lemma result_reasons:
  "validate_fix_proof h receipt run bug current = Inr res \<Longrightarrow> pr_complete res \<longleftrightarrow> pr_reasons res = []"
proof (cases receipt)
  case (PDict r)
  assume *: "validate_fix_proof h receipt run bug current = Inr res"
  show ?thesis
  proof (cases "getv r ''test''")
    case test: (PDict test)
    show ?thesis
      using * by (cases "getv r ''before''"; cases "getv r ''after''")
        (auto simp: validate_fix_proof_def PDict test bind_res_Inr_iff dest: result_of_reasons)
  qed (use * in \<open>auto simp: validate_fix_proof_def PDict bind_res_Inr_iff dest: result_of_reasons\<close>)
qed (auto simp: validate_fix_proof_def dest: result_of_reasons)

lemma concat_map_Nil [simp]: "concat (map f xs) = [] \<longleftrightarrow> (\<forall>x\<in>set xs. f x = [])"
  by (induction xs) auto

lemma valid_hash_PStr: "valid_hash v \<Longrightarrow> v = PStr (str_of v)"
  by (cases v) (simp_all add: valid_hash_def)

lemma source_map_Some:
  assumes "source_map v = Some m"
  shows "v = src_val m"
proof -
  obtain d where d: "v = PDict d" "list_all (\<lambda>(p, x). p \<noteq> [] \<and> valid_hash x) d"
      "m = map (\<lambda>(p, x). (p, str_of x)) d"
    using assms by (auto simp: source_map_def split: pyval.splits if_splits)
  have "d = map (\<lambda>(p, x). (p, PStr x)) m"
    unfolding d(3) using d(2)
    by (induction d) (auto dest: valid_hash_PStr)
  with d(1) show ?thesis by (simp add: src_val_def)
qed

text \<open>A failing test with the expected assertion, and a passing one.\<close>

definition red_phase :: "dict \<Rightarrow> dict \<Rightarrow> bool" where
  "red_phase test rec \<longleftrightarrow> (\<exists>outcome msg e. getv rec ''test_outcome'' = PDict outcome \<and>
     getv outcome ''native_id'' = getv test ''native_id'' \<and> getv outcome ''status'' = PStr ''failure'' \<and>
     getv outcome ''failure_type'' = PStr ''assertion'' \<and> getv outcome ''message'' = PStr msg \<and>
     getv test ''expected_failure_message'' = PStr e \<and> e \<noteq> [] \<and> contains msg e \<and>
     as_int (getv rec ''exit_code'') \<notin> {None, Some 0})"

definition green_phase :: "dict \<Rightarrow> dict \<Rightarrow> bool" where
  "green_phase test rec \<longleftrightarrow> (\<exists>outcome. getv rec ''test_outcome'' = PDict outcome \<and>
     getv outcome ''native_id'' = getv test ''native_id'' \<and> getv outcome ''status'' = PStr ''pass'' \<and>
     as_int (getv rec ''exit_code'') = Some 0)"

text \<open>The execution of a phase: accepted on the phase's sources, with the test file and the digests of the receipt.\<close>

definition bound_phase :: "host \<Rightarrow> dict \<Rightarrow> dict \<Rightarrow> dict \<Rightarrow> (string \<times> string) list \<Rightarrow> bool" where
  "bound_phase h r test rec m \<longleftrightarrow>
     source_map (getv rec ''source_file_sha256'') = Some m \<and> accepted_execution h (getv rec ''execution'') m \<and>
     (\<exists>e. getv rec ''execution'' = PDict e \<and> (\<forall>k\<in>set DIGEST_KEYS. getv e k = getv r k)) \<and>
     (\<exists>p x. getv test ''path'' = PStr p \<and> getv test ''sha256'' = PStr x \<and> map_of m p = Some x)"

definition sound_test :: "dict \<Rightarrow> bool" where
  "sound_test test \<longleftrightarrow> nonempty_string (getv test ''native_id'') \<and> valid_hash (getv test ''sha256'') \<and>
     nonempty_string (getv test ''expected_failure_message'')"

lemma test_reasons_Nil: "test_reasons h r test = [] \<Longrightarrow> sound_test test"
  by (simp add: test_reasons_def sound_test_def)

lemma nonempty_string_PStr: "nonempty_string v \<Longrightarrow> \<exists>x. v = PStr x \<and> x \<noteq> []"
  by (auto simp: nonempty_string_def split: pyval.splits)

lemma header_reasons_Nil:
  assumes "header_reasons h r run bug current = Inr []"
  shows "py_eq (getv r ''run_id'') run" and "py_eq (getv r ''bug_id'') bug"
    and "getv r ''status'' = PStr ''verified''" and "\<forall>k\<in>set DIGEST_KEYS. valid_hash (getv r k)"
proof -
  obtain mismatch where "flag (\<not> py_eq (getv r ''run_id'') run) ''run_id_mismatch'' = []"
    "flag (\<not> py_eq (getv r ''bug_id'') bug) ''bug_id_mismatch'' = []"
    "flag (getv r ''status'' \<noteq> PStr ''verified'') ''receipt_not_verified'' = []"
    "concat (map (\<lambda>k. flag (\<not> valid_hash (getv r k)) (''invalid_'' @ k))
            (DIGEST_KEYS @ [''original_request_sha256'', ''post_revision_sha256''])) = []"
    using assms unfolding header_reasons_def by (simp only: bind_res_Inr_iff sum.inject append_is_Nil_conv) blast
  then show "py_eq (getv r ''run_id'') run" and "py_eq (getv r ''bug_id'') bug"
    and "getv r ''status'' = PStr ''verified''" and "\<forall>k\<in>set DIGEST_KEYS. valid_hash (getv r k)"
    by auto
qed

lemma evidence_reasons_Nil:
  assumes "evidence_reasons h r test phase rec = []" and "sound_test test"
    and "\<forall>k\<in>set DIGEST_KEYS. valid_hash (getv r k)"
  shows "\<exists>m. bound_phase h r test rec m"
proof -
  obtain m where m: "source_map (getv rec ''source_file_sha256'') = Some m"
      "accepted_execution h (getv rec ''execution'') m"
    using assms(1) by (auto simp: evidence_reasons_def execution_reasons_Nil)
  then obtain e where e: "getv rec ''execution'' = PDict e" by (auto simp: accepted_execution_def)
  have bind: "\<forall>k\<in>set DIGEST_KEYS. py_eq (getv e k) (getv r k)"
    and path: "(case getv test ''path'' of PStr p \<Rightarrow> py_eq (src_get m p) (getv test ''sha256'') | _ \<Rightarrow> False)"
    using assms(1) by (auto simp: evidence_reasons_def binding_reasons_def e m(1) split: pyval.splits)
  obtain x where x: "getv test ''sha256'' = PStr x"
    using assms(2) valid_hash_PStr [of "getv test ''sha256''"] by (auto simp: sound_test_def)
  from path x obtain p where p: "getv test ''path'' = PStr p" "map_of m p = Some x"
    by (auto simp: src_get_def split: pyval.splits option.splits)
  have "getv e k = getv r k" if "k \<in> set DIGEST_KEYS" for k
  proof -
    have "py_eq (getv e k) (PStr (str_of (getv r k)))"
      using bind assms(3) that valid_hash_PStr by metis
    then have "getv e k = PStr (str_of (getv r k))" by simp
    with valid_hash_PStr assms(3) that show ?thesis by metis
  qed
  with m e p x show ?thesis by (auto simp: bound_phase_def)
qed

lemma phase_reasons_Nil:
  assumes "phase_reasons h r test phase st rec = Inr []" and "sound_test test"
    and "\<forall>k\<in>set DIGEST_KEYS. valid_hash (getv r k)"
  obtains outcome m where "getv rec ''test_outcome'' = PDict outcome"
    and "getv outcome ''native_id'' = getv test ''native_id''" and "getv outcome ''status'' = PStr st"
    and "(if phase = ''before'' then before_reasons (getv test ''expected_failure_message'') rec outcome
          else Inr (after_reasons rec)) = Inr []"
    and "bound_phase h r test rec m"
proof -
  obtain outcome where o: "getv rec ''test_outcome'' = PDict outcome"
    using assms(1) by (cases "getv rec ''test_outcome''") (simp_all add: phase_reasons_def)
  obtain n where n: "getv test ''native_id'' = PStr n"
    using assms(2) nonempty_string_PStr by (auto simp: sound_test_def)
  have id: "getv outcome ''native_id'' = getv test ''native_id''"
    using assms(1) by (auto simp: phase_reasons_def o n split: if_splits)
  from assms(1) obtain own where own: "(if phase = ''before'' then before_reasons (getv test ''expected_failure_message'') rec outcome
      else Inr (after_reasons rec)) = Inr own"
      "flag (getv outcome ''status'' \<noteq> PStr st) (phase @ ''_outcome'') @ own @ evidence_reasons h r test phase rec = []"
    unfolding phase_reasons_def o pyval.case id n by (auto simp: bind_res_Inr_iff split: if_split_asm)
  then have "evidence_reasons h r test phase rec = []" by simp
  from evidence_reasons_Nil [OF this assms(2,3)] obtain m where "bound_phase h r test rec m" by blast
  with that [OF o id] own show thesis by auto
qed


lemma bound_phase_sources: "bound_phase h r test rec m \<Longrightarrow> source_map (getv rec ''source_file_sha256'') = Some m"
  by (simp add: bound_phase_def)

lemma change_reasons_Nil:
  assumes "change_reasons r test before after current = []"
    and "source_map (getv before ''source_file_sha256'') = Some b"
    and "source_map (getv after ''source_file_sha256'') = Some a"
  shows "\<exists>xs. getv r ''intended_source_files'' = PList (map PStr xs) \<and> xs \<noteq> [] \<and> distinct xs \<and>
      set xs = {p. map_of b p \<noteq> map_of a p}"
    and "\<exists>c. source_map current = Some c \<and> py_eq (src_val a) (src_val c)"
proof -
  have "intended_reasons (getv r ''intended_source_files'') (Some b) (Some a) = []"
    and cur: "current_reasons (Some a) (source_map current) = []"
    using assms by (auto simp: change_reasons_def Let_def)
  then obtain vs where vs: "getv r ''intended_source_files'' = PList vs" "vs \<noteq> []" "list_all nonempty_string vs"
      "distinct (map str_of vs)" "changed_files b a = sort (map str_of vs)"
    by (auto simp: intended_reasons_def split: pyval.splits if_splits)
  have "vs = map PStr (map str_of vs)"
    using vs(3) by (induction vs) (auto dest: nonempty_string_PStr)
  moreover have "set (map str_of vs) = {p. map_of b p \<noteq> map_of a p}"
  proof -
    have "set (map str_of vs) = set (changed_files b a)" by (simp add: vs(5))
    also have "\<dots> = {p. map_of b p \<noteq> map_of a p}"
      by (auto simp: changed_files_def) (metis domIff dom_map_of_conv_image_fst)+
    finally show ?thesis .
  qed
  ultimately show "\<exists>xs. getv r ''intended_source_files'' = PList (map PStr xs) \<and> xs \<noteq> [] \<and> distinct xs \<and>
      set xs = {p. map_of b p \<noteq> map_of a p}"
    using vs(1,2,4) by (intro exI [of _ "map str_of vs"]) simp
  show "\<exists>c. source_map current = Some c \<and> py_eq (src_val a) (src_val c)"
    using cur by (auto simp: current_reasons_def split: option.splits)
qed

lemma validate_fix_proof_complete:
  assumes "validate_fix_proof h receipt run bug current = Inr res" and "pr_complete res"
  obtains r test before after where "receipt = PDict r" and "getv r ''test'' = PDict test"
    and "getv r ''before'' = PDict before" and "getv r ''after'' = PDict after"
    and "header_reasons h r run bug current = Inr []" and "test_reasons h r test = []"
    and "phase_reasons h r test ''before'' ''failure'' before = Inr []"
    and "phase_reasons h r test ''after'' ''pass'' after = Inr []"
    and "change_reasons r test before after current = []"
proof -
  obtain r where r: "receipt = PDict r"
    using assms result_of_complete by (cases receipt) (auto simp: validate_fix_proof_def)
  obtain hd where hd: "header_reasons h r run bug current = Inr hd"
    using assms(1) by (auto simp: validate_fix_proof_def r bind_res_Inr_iff)
  note eq = assms(1) [unfolded validate_fix_proof_def r pyval.case hd bind_res_simps]
  obtain test where test: "getv r ''test'' = PDict test"
    using eq assms(2) by (cases "getv r ''test''") (auto dest: result_of_complete)
  obtain before where before: "getv r ''before'' = PDict before"
    using eq assms(2) by (cases "getv r ''before''") (auto simp: test dest: result_of_complete)
  obtain after where after: "getv r ''after'' = PDict after"
    using eq assms(2) by (cases "getv r ''after''") (auto simp: test before dest: result_of_complete)
  obtain bs as where "phase_reasons h r test ''before'' ''failure'' before = Inr bs"
      "phase_reasons h r test ''after'' ''pass'' after = Inr as"
      "result_of h receipt (fromkeys (hd @ test_reasons h r test @ bs @ as @
         change_reasons r test before after current)) = Inr res"
    using eq by (auto simp: test before after r bind_res_Inr_iff)
  with result_of_complete [OF this(3)] assms(2) hd r test before after that show thesis by simp
qed

text \<open>
  A complete fix proof is a red-to-green proof.  One test, in one file with the recorded digest,
  failed with the expected assertion before and passed after; both runs were accepted by the execution
  provider as trusted runs on exactly the recorded sources, with the same command, configuration and
  environment; the files that differ between the two source trees are exactly the intended ones,
  the test file is not among them, and the sources after are the current ones.
\<close>

lemma fix_proof_sound:
  assumes "validate_fix_proof h receipt run bug current = Inr res" and "pr_complete res"
  shows "\<exists>r test before after b a xs c. receipt = PDict r \<and> getv r ''test'' = PDict test \<and>
    getv r ''before'' = PDict before \<and> getv r ''after'' = PDict after \<and>
    py_eq (getv r ''run_id'') run \<and> py_eq (getv r ''bug_id'') bug \<and>
    sound_test test \<and> red_phase test before \<and> green_phase test after \<and>
    bound_phase h r test before b \<and> bound_phase h r test after a \<and>
    getv r ''intended_source_files'' = PList (map PStr xs) \<and> xs \<noteq> [] \<and> distinct xs \<and>
    set xs = {p. map_of b p \<noteq> map_of a p} \<and> getv test ''path'' \<notin> PStr ` set xs \<and>
    current = src_val c \<and> py_eq (src_val a) current"
proof -
  obtain r test before after where p: "receipt = PDict r" "getv r ''test'' = PDict test"
      "getv r ''before'' = PDict before" "getv r ''after'' = PDict after"
      "header_reasons h r run bug current = Inr []" "test_reasons h r test = []"
      "phase_reasons h r test ''before'' ''failure'' before = Inr []"
      "phase_reasons h r test ''after'' ''pass'' after = Inr []"
      "change_reasons r test before after current = []"
    using validate_fix_proof_complete [OF assms] .
  note hdr = header_reasons_Nil [OF p(5)] and test = test_reasons_Nil [OF p(6)]
  obtain ob b where b: "getv before ''test_outcome'' = PDict ob" "getv ob ''native_id'' = getv test ''native_id''"
      "getv ob ''status'' = PStr ''failure''"
      "before_reasons (getv test ''expected_failure_message'') before ob = Inr []" "bound_phase h r test before b"
    using phase_reasons_Nil [OF p(7) test hdr(4)] by auto
  obtain oa a where a: "getv after ''test_outcome'' = PDict oa" "getv oa ''native_id'' = getv test ''native_id''"
      "getv oa ''status'' = PStr ''pass''" "after_reasons after = []" "bound_phase h r test after a"
    using phase_reasons_Nil [OF p(8) test hdr(4)] by auto
  obtain e where e: "getv test ''expected_failure_message'' = PStr e" "e \<noteq> []"
    using test nonempty_string_PStr by (auto simp: sound_test_def)
  have red: "red_phase test before"
    using b e by (auto simp: red_phase_def before_reasons_def message_reason_def bind_res_Inr_iff split: pyval.splits)
  have green: "green_phase test after" using a by (auto simp: green_phase_def after_reasons_def)
  note ch = change_reasons_Nil [OF p(9) bound_phase_sources [OF b(5)] bound_phase_sources [OF a(5)]]
  obtain xs where xs: "getv r ''intended_source_files'' = PList (map PStr xs)" "xs \<noteq> []" "distinct xs"
      "set xs = {p. map_of b p \<noteq> map_of a p}"
    using ch(1) by blast
  obtain c where c: "source_map current = Some c" "py_eq (src_val a) (src_val c)" using ch(2) by blast
  have "getv test ''path'' \<notin> PStr ` set xs"
    using b(5) a(5) by (auto simp: bound_phase_def xs(4))
  with p hdr test red green a b xs c source_map_Some [OF c(1)] show ?thesis by blast
qed


text \<open>The suite receipt: every check passed in an accepted execution on the expected sources.\<close>

definition passed_check :: "host \<Rightarrow> (string \<times> string) list \<Rightarrow> pyval \<Rightarrow> bool" where
  "passed_check h m check \<longleftrightarrow> (\<exists>c e. check = PDict c \<and> getv c ''status'' = PStr ''pass'' \<and>
     getv c ''execution'' = PDict e \<and> py_eq (getv e ''exit_code'') (PInt 0) \<and>
     accepted_execution h (PDict e) m \<and> (\<forall>k\<in>set DIGEST_KEYS. valid_hash (getv c k) \<and> getv e k = getv c k))"

lemma py_eq_hash: "valid_hash v \<Longrightarrow> py_eq v w \<Longrightarrow> w = v"
  using valid_hash_PStr [of v] by (metis py_eq_simps(1))

lemma check_reasons_Nil:
  assumes "check_reasons h files check = []"
  shows "\<exists>m. files = Some m \<and> passed_check h m check"
proof -
  obtain c where c: "check = PDict c" using assms by (cases check) (simp_all add: check_reasons_def)
  have nil: "getv c ''status'' = PStr ''pass''" "execution_reasons h (getv c ''execution'') files = []"
    "\<forall>k\<in>set DIGEST_KEYS. valid_hash (getv c k)"
    using assms by (auto simp: check_reasons_def c Let_def split: if_splits)
  then obtain m where m: "files = Some m" "accepted_execution h (getv c ''execution'') m"
    by (auto simp: execution_reasons_Nil)
  then obtain e where e: "getv c ''execution'' = PDict e" by (auto simp: accepted_execution_def)
  have "py_eq (getv e ''exit_code'') (PInt 0)" "\<forall>k\<in>set DIGEST_KEYS. py_eq (getv c k) (getv e k)"
    using assms nil(3) by (auto simp: check_reasons_def c e Let_def split: if_splits)
  with c nil m e py_eq_hash show ?thesis by (auto simp: passed_check_def)
qed

lemma suite_receipt_complete:
  assumes "validate_suite_receipt h receipt run expected phase = Inr res" and "pr_complete res"
  shows "\<exists>r m cs. receipt = PDict r \<and> source_map (getv r ''source_file_sha256'') = Some m \<and>
    py_eq (src_val m) expected \<and> py_eq (getv r ''run_id'') run \<and> getv r ''phase'' = PStr phase \<and>
    getv r ''checks'' = PList cs \<and> cs \<noteq> [] \<and> (\<forall>c\<in>set cs. passed_check h m c) \<and>
    getv r ''proof_error'' = PBool False \<and> getv r ''regressions'' = PList []"
proof -
  obtain r where r: "receipt = PDict r"
    using assms result_of_complete by (cases receipt) (auto simp: validate_suite_receipt_def)
  have nil: "suite_reasons h r run expected phase = []"
    using assms result_of_complete [of h receipt _ res] by (auto simp: validate_suite_receipt_def r)
  obtain cs where cs: "getv r ''checks'' = PList cs" "cs \<noteq> []"
      "\<forall>c\<in>set cs. check_reasons h (source_map (getv r ''source_file_sha256'')) c = []"
    using nil by (cases "getv r ''checks''") (auto simp: suite_reasons_def split: if_splits)
  then obtain m where m: "source_map (getv r ''source_file_sha256'') = Some m"
    using check_reasons_Nil by (metis list.set_intros(1) neq_Nil_conv)
  have "suite_source_reasons h r (source_map expected) = []" using nil by (simp add: suite_reasons_def)
  then obtain x where x: "source_map expected = Some x" "py_eq (getv r ''source_file_sha256'') (src_val x)"
    by (cases "source_map expected") (auto simp: suite_source_reasons_def split: if_splits)
  have "py_eq (src_val m) expected"
    using x(2) source_map_Some [OF m] source_map_Some [OF x(1)] by simp
  moreover have "\<forall>c\<in>set cs. passed_check h m c" using cs(3) check_reasons_Nil m by fastforce
  moreover have "py_eq (getv r ''run_id'') run" "getv r ''phase'' = PStr phase"
    "getv r ''proof_error'' = PBool False" "getv r ''regressions'' = PList []"
    using nil by (auto simp: suite_reasons_def)
  ultimately show ?thesis using r m cs(1,2) by blast
qed

lemma reverified_after_Nil:
  assumes "reverified_after h r original (Some c) = []"
  obtains after e where "getv r ''after'' = PDict after" and "getv after ''execution'' = PDict e"
    and "accepted_execution h (PDict e) c" and "py_eq (getv after ''source_file_sha256'') (src_val c)"
    and "green_reasons r after = []"
    and "\<forall>k\<in>set DIGEST_KEYS. valid_hash (getv r k) \<and> getv e k = getv r k \<and> getv original k = getv r k"
proof -
  obtain after where a: "getv r ''after'' = PDict after"
    using assms by (cases "getv r ''after''") (simp_all add: reverified_after_def)
  have acc: "accepted_execution h (getv after ''execution'') c"
    using assms by (auto simp: reverified_after_def a execution_reasons_Nil)
  then obtain e where e: "getv after ''execution'' = PDict e" by (auto simp: accepted_execution_def)
  have dig: "same_digest r original (PDict e) k" if "k \<in> set DIGEST_KEYS" for k
    using assms that by (auto simp: reverified_after_def a e)
  have "valid_hash (getv r k) \<and> getv e k = getv r k \<and> getv original k = getv r k" if "k \<in> set DIGEST_KEYS" for k
    using dig [OF that] py_eq_hash [of "getv r k"] by (simp add: same_digest_def)
  with assms a e acc that show thesis by (auto simp: reverified_after_def opt_src_val_def)
qed

text \<open>
  A complete reverification binds the final tree to the original proof: that proof is complete on
  its own and has the recorded digest, and the same test passes, with the digests of the same command,
  configuration and environment, in an accepted execution on exactly the current sources.
\<close>

theorem reverification_sound:
  assumes "validate_fix_reverification h receipt original_proof run bug current = Inr res" and "pr_complete res"
  shows "\<exists>r original res0 after e c test. receipt = PDict r \<and> original_proof = PDict original \<and>
    validate_fix_proof h original_proof run (PStr bug) (opt_src_val (original_sources original)) = Inr res0 \<and>
    pr_complete res0 \<and> getv r ''original_proof_sha256'' = PStr (canonical h original_proof) \<and>
    getv r ''original_proof_path'' = PStr (''proofs/'' @ bug @ ''.json'') \<and>
    source_map current = Some c \<and> getv r ''after'' = PDict after \<and> getv after ''execution'' = PDict e \<and>
    accepted_execution h (PDict e) c \<and> py_eq (getv after ''source_file_sha256'') current \<and>
    getv r ''test'' = PDict test \<and> py_eq (PDict test) (getv original ''test'') \<and>
    (\<exists>outcome. getv after ''test_outcome'' = PDict outcome \<and> getv outcome ''status'' = PStr ''pass'' \<and>
       py_eq (getv outcome ''native_id'') (getv test ''native_id'')) \<and>
    (\<forall>k\<in>set DIGEST_KEYS. getv e k = getv original k)"
proof -
  obtain r where r: "receipt = PDict r"
    using assms result_of_complete by (cases receipt) (auto simp: validate_fix_reverification_def)
  obtain original where o: "original_proof = PDict original"
    using assms result_of_complete by (cases original_proof) (auto simp: validate_fix_reverification_def r)
  obtain res0 sha where v: "validate_fix_proof h original_proof run (PStr bug) (opt_src_val (original_sources original)) = Inr res0"
      and sha: "canonical_sha256 h original_proof = Inr sha"
      and result: "result_of h receipt (fromkeys (
          flag (\<not> pr_complete res0) ''original_proof_invalid'' @ reverified_header h r original sha run bug @
          final_source_reasons h r (source_map current) @
          flag (\<not> py_eq (getv r ''test'') (getv original ''test'')) ''reverification_test_mismatch'' @
          reverified_after h r original (source_map current) @ suite_binding_reasons r)) = Inr res"
    using assms(1) by (auto simp: validate_fix_reverification_def r o bind_res_Inr_iff)
  have nil: "pr_complete res0" "reverified_header h r original sha run bug = []"
        "final_source_reasons h r (source_map current) = []" "py_eq (getv r ''test'') (getv original ''test'')"
        "reverified_after h r original (source_map current) = []"
    using result_of_complete [OF result] assms(2) by simp_all
  obtain c where c: "source_map current = Some c"
    using nil(3) by (cases "source_map current") (simp_all add: final_source_reasons_def)
  obtain after e where a: "getv r ''after'' = PDict after" "getv after ''execution'' = PDict e"
      "accepted_execution h (PDict e) c" "py_eq (getv after ''source_file_sha256'') (src_val c)"
      "green_reasons r after = []"
      "\<forall>k\<in>set DIGEST_KEYS. valid_hash (getv r k) \<and> getv e k = getv r k \<and> getv original k = getv r k"
    using nil(5) unfolding c by (rule reverified_after_Nil)
  obtain outcome test where g: "getv after ''test_outcome'' = PDict outcome" "getv r ''test'' = PDict test"
      "py_eq (getv outcome ''native_id'') (getv test ''native_id'')" "getv outcome ''status'' = PStr ''pass''"
    using a(5) by (auto simp: green_reasons_def split: pyval.splits)
  have "sha = canonical h original_proof" using sha by (simp add: canonical_sha256_def split: if_splits)
  moreover have "getv r ''original_proof_sha256'' = PStr sha"
      "getv r ''original_proof_path'' = PStr (''proofs/'' @ bug @ ''.json'')"
    using nil(2) by (simp_all add: reverified_header_def)
  moreover have "py_eq (getv after ''source_file_sha256'') current" using a(4) source_map_Some [OF c] by simp
  moreover have "\<forall>k\<in>set DIGEST_KEYS. getv e k = getv original k" using a(6) by simp
  moreover have "py_eq (PDict test) (getv original ''test'')" using nil(4) g(2) by simp
  ultimately show ?thesis using r o v nil(1) c a(1,2,3) g by blast
qed

end
