(* ===== verification/Fix_Repro.thy ===== *)
theory Fix_Repro
  imports Fix_Proof
begin

text \<open>
  The executable side of \<^verbatim>\<open>scripts/_proof.py\<close>: the artifacts a receipt declares, and \<open>_run_repro\<close>, which
  runs a test through the execution provider and writes the proof of a fix.

  The store is the run directory: its files by relative path and the bytes of the ledger.  What lies
  outside is a record \<open>world\<close>: the request file, the target tree before and after the execution,
  \<open>run_command\<close> of \<^verbatim>\<open>scripts/_execution.py\<close>, the artifacts of the run (paths resolved inside the run
  directory), \<open>json.loads\<close>, the XML parser and the fresh identifier.  Directory creation, \<open>fsync\<close> and
  permissions are not modelled, nor are write failures other than the ledger's.
\<close>

subsection \<open>Artifacts\<close>

text \<open>\<open>artifact raw\<close> is the content of the regular file \<open>raw\<close> names inside the run directory.\<close>

type_synonym artifacts = "string \<Rightarrow> string option"

definition file_digest_reasons :: "host \<Rightarrow> artifacts \<Rightarrow> dict \<Rightarrow> string \<Rightarrow> string \<Rightarrow> string list" where
  "file_digest_reasons h art rec phase kind = (case getv rec (kind @ ''_path'') of
       PStr raw \<Rightarrow>
         if raw = [] then [''missing_'' @ phase @ ''_'' @ kind @ ''_path'']
         else (case art raw of
             None \<Rightarrow> [''missing_'' @ phase @ ''_'' @ kind]
           | Some bytes \<Rightarrow> flag (getv rec (kind @ ''_sha256'') \<noteq> PStr (h_sha h bytes)) (''tampered_'' @ phase @ ''_'' @ kind))
     | _ \<Rightarrow> [''missing_'' @ phase @ ''_'' @ kind @ ''_path''])"

text \<open>A conjunction of Python tests: the first false one ends it, an exception escapes.\<close>

fun all_tests :: "(value_error + bool) list \<Rightarrow> value_error + bool" where
  "all_tests [] = Inr True"
| "all_tests (t # ts) = bind_res t (\<lambda>b. if b then all_tests ts else Inr False)"

definition get_is :: "pyval \<Rightarrow> string \<Rightarrow> (pyval \<Rightarrow> bool) \<Rightarrow> value_error + bool" where
  "get_is v k p = bind_res (get_attr v k) (\<lambda>x. Inr (p x))"

definition mount_destinations :: "pyval \<Rightarrow> value_error + bool" where
  "mount_destinations mounts = (case mounts of
       PList ms \<Rightarrow> bind_res (map_res (\<lambda>m. case m of
           PDict d \<Rightarrow> if hashable (getv d ''Destination'') then Inr [getv d ''Destination''] else Inl TypeError
         | _ \<Rightarrow> Inr []) ms)
         (\<lambda>ds. Inr (set (concat ds) = {PStr ''/workspace'', PStr ''/bugsweep-output''}))
     | _ \<Rightarrow> Inr False)"

definition inspect_valid :: "pyval \<Rightarrow> dict \<Rightarrow> value_error + bool" where
  "inspect_valid data execution =
     bind_res (subscript data ''analysis'') (\<lambda>analysis.
     bind_res (subscript analysis ''Config'') (\<lambda>config.
     bind_res (subscript analysis ''HostConfig'') (\<lambda>hostc.
     bind_res (subscript analysis ''NetworkSettings'') (\<lambda>network.
     bind_res (subscript analysis ''Mounts'') (\<lambda>mounts.
     bind_res (subscript (PDict execution) ''command'') (\<lambda>command. case command of
         PList (c # cs) \<Rightarrow> all_tests [
           get_is config ''Entrypoint'' (\<lambda>v. py_eq v (PList [c])), get_is config ''Cmd'' (\<lambda>v. py_eq v (PList cs)),
           get_is hostc ''Privileged'' (\<lambda>v. v = PBool False), get_is hostc ''ReadonlyRootfs'' (\<lambda>v. v = PBool True),
           get_is hostc ''NetworkMode'' (\<lambda>v. v = PStr ''none''),
           get_is network ''Networks'' (\<lambda>v. v = PDict [] \<or> v = PNone), mount_destinations mounts]
       | _ \<Rightarrow> Inr False))))))"

text \<open>\<open>KeyError\<close>, \<open>TypeError\<close> and \<open>ValueError\<close> are caught; \<open>AttributeError\<close> is not.\<close>

definition readback_content_reasons :: "pyval option \<Rightarrow> dict \<Rightarrow> string \<Rightarrow> value_error + string list" where
  "readback_content_reasons doc execution phase =
     (case (case doc of None \<Rightarrow> Inl ValueError | Some data \<Rightarrow> inspect_valid data execution) of
        Inl AttributeError \<Rightarrow> Inl AttributeError
      | Inl _ \<Rightarrow> Inr [''invalid_'' @ phase @ ''_backend_readback'']
      | Inr ok \<Rightarrow> Inr (flag (\<not> ok) (''invalid_'' @ phase @ ''_backend_readback'')))"

definition readback_reasons ::
    "host \<Rightarrow> json_loads \<Rightarrow> artifacts \<Rightarrow> dict \<Rightarrow> string \<Rightarrow> value_error + string list" where
  "readback_reasons h loads art execution phase =
     (case (case getv execution ''backend_readback_path'' of PStr raw \<Rightarrow> art raw | _ \<Rightarrow> None) of
        None \<Rightarrow> Inr [''missing_'' @ phase @ ''_backend_readback'']
      | Some bytes \<Rightarrow>
          if getv execution ''backend_readback_sha256'' \<noteq> PStr (h_sha h bytes)
          then Inr [''tampered_'' @ phase @ ''_backend_readback'']
          else readback_content_reasons (loads bytes) execution phase)"

definition phase_artifact_reasons ::
    "host \<Rightarrow> json_loads \<Rightarrow> artifacts \<Rightarrow> dict \<Rightarrow> string \<Rightarrow> value_error + string list" where
  "phase_artifact_reasons h loads art receipt phase = (case getv receipt phase of
       PDict rec \<Rightarrow>
         bind_res (case getv rec ''execution'' of
             PDict e \<Rightarrow> readback_reasons h loads art e phase
           | _ \<Rightarrow> Inr [])
           (\<lambda>rb. Inr (file_digest_reasons h art rec phase ''structured_report'' @
              file_digest_reasons h art rec phase ''log'' @ rb))
     | _ \<Rightarrow> Inr [])"

definition suite_artifact_reasons :: "host \<Rightarrow> artifacts \<Rightarrow> dict \<Rightarrow> string list" where
  "suite_artifact_reasons h art receipt = (case getv receipt ''suite_receipt_path'' of
       PStr raw \<Rightarrow>
         if raw = [] then [''missing_suite_receipt_path'']
         else (case art raw of
             None \<Rightarrow> [''missing_suite_receipt'']
           | Some bytes \<Rightarrow> flag (getv receipt ''suite_receipt_sha256'' \<noteq> PStr (h_sha h bytes)) ''tampered_suite_receipt'')
     | _ \<Rightarrow> [''missing_suite_receipt_path''])"

definition validate_artifact_digests ::
    "host \<Rightarrow> json_loads \<Rightarrow> artifacts \<Rightarrow> dict \<Rightarrow> value_error + string list" where
  "validate_artifact_digests h loads art receipt =
     bind_res (phase_artifact_reasons h loads art receipt ''before'') (\<lambda>b.
     bind_res (phase_artifact_reasons h loads art receipt ''after'') (\<lambda>a.
       Inr (b @ a @ suite_artifact_reasons h art receipt)))"

subsection \<open>Sources and policies\<close>

text \<open>\<open>_digest_sources\<close>: \<open>tree p\<close> is the regular file \<open>p\<close> inside the target root.\<close>

definition digest_sources :: "host \<Rightarrow> (string \<Rightarrow> string option) \<Rightarrow> dict \<Rightarrow> (string \<times> string) list option" where
  "digest_sources h tree expected =
     (if list_all (\<lambda>(p, v). p \<noteq> [] \<and> tree p \<noteq> None) expected
      then Some (map (\<lambda>(p, v). (p, h_sha h (the (tree p)))) expected) else None)"

text \<open>\<open>_policy_for_source\<close>: every failure is a \<open>ValueError\<close>.\<close>

definition policy_for_source :: "host \<Rightarrow> dict \<Rightarrow> (string \<times> string) list \<Rightarrow> bool" where
  "policy_for_source h policy files = (case getv policy ''source_identity'' of
       PDict i \<Rightarrow> py_eq (getv i ''source_file_sha256'') (src_val files) \<and>
                  getv i ''sha256'' = PStr (canonical h (src_val files))
     | _ \<Rightarrow> False)"

definition stable_policy :: "pyval \<Rightarrow> pyval" where
  "stable_policy policy = (case policy of
       PDict d \<Rightarrow> PDict (filter (\<lambda>(k, v). k \<noteq> ''source_identity'') d)
     | _ \<Rightarrow> PNone)"

definition stable_check_plan :: "dict \<Rightarrow> pyval" where
  "stable_check_plan request =
     PDict (AList.update ''execution_policy'' (stable_policy (getv request ''execution_policy''))
       (filter (\<lambda>(k, v). k \<noteq> ''source_file_sha256'') request))"

definition FROZEN_KEYS :: "string list" where
  "FROZEN_KEYS = [''run_id'', ''target_root'', ''command'', ''test'', ''intended_source_files'', ''deadline_epoch'',
     ''junit_path'', ''review_source_file_sha256'', ''review_source_manifest_sha256'']"

definition validate_post_request :: "host \<Rightarrow> dict \<Rightarrow> dict \<Rightarrow> string \<Rightarrow> string list" where
  "validate_post_request h original post bug =
     concat (map (\<lambda>k. flag (\<not> py_eq (getv post k) (getv original k)) (''post_'' @ k @ ''_mismatch'')) FROZEN_KEYS) @
     flag (getv original ''bug_id'' \<noteq> PStr bug \<or> getv post ''bug_id'' \<noteq> PStr bug) ''post_bug_id_mismatch'' @
     flag (\<not> py_eq (stable_policy (getv post ''before_execution_policy''))
                   (stable_policy (getv original ''before_execution_policy''))) ''post_before_policy_mismatch'' @
     flag (\<not> py_eq (stable_policy (getv post ''after_execution_policy''))
                   (stable_policy (getv original ''before_execution_policy''))) ''post_stable_policy_mismatch'' @
     (case (source_map (getv post ''source_file_sha256''), getv post ''after_execution_policy'') of
        (Some m, PDict p) \<Rightarrow> flag (\<not> policy_for_source h p m) ''post_after_source_mismatch''
      | _ \<Rightarrow> [''post_missing_after_source'']) @
     flag (case getv post ''suite_receipt'' of
             PDict s \<Rightarrow> set (map fst s) \<noteq> {''immutable_path'', ''immutable_sha256''}
           | _ \<Rightarrow> True) ''post_missing_suite_pointer''"

text \<open>\<open>_receipt_output\<close>: the first output of the kind with a string path, else the field \<open>kind_path\<close>.\<close>

fun first_output :: "string \<Rightarrow> pyval list \<Rightarrow> string option" where
  "first_output kind [] = None"
| "first_output kind (PDict d # outs) =
     (case (getv d ''kind'', getv d ''path'') of
        (PStr k, PStr p) \<Rightarrow> if k = kind then Some p else first_output kind outs
      | _ \<Rightarrow> first_output kind outs)"
| "first_output kind (_ # outs) = first_output kind outs"

definition receipt_output :: "dict \<Rightarrow> string \<Rightarrow> value_error + string option" where
  "receipt_output receipt kind =
     bind_res (py_iter (dict_get receipt ''outputs'' (PList []))) (\<lambda>outs. Inr (case first_output kind outs of
         Some p \<Rightarrow> Some p
       | None \<Rightarrow> (case getv receipt (kind @ ''_path'') of PStr p \<Rightarrow> Some p | _ \<Rightarrow> None)))"

subsection \<open>A call of the repro gate\<close>

text \<open>
  The run directory: the proofs, plans and results the gate reads and writes, by path, and \<^verbatim>\<open>ledger.jsonl\<close>,
  which is only appended to.  The reports and logs an execution leaves under \<^verbatim>\<open>fix-proof-artifacts\<close> are not in
  the store: they come from the world, with the execution.
\<close>

record store =
  files :: "string \<Rightarrow> text_file"
  ledger :: string

record world =
  w_loads :: json_loads
  w_srepr :: "pyval \<Rightarrow> string"
  w_request :: "text_file option"
  w_tree :: "string \<Rightarrow> string \<Rightarrow> string option"
  w_tree_after :: "string \<Rightarrow> string \<Rightarrow> string option"
  w_execute :: "pyval list \<Rightarrow> string \<Rightarrow> pyval \<Rightarrow> dict \<Rightarrow> string \<Rightarrow> string + pyval"
  w_relative :: "string \<Rightarrow> string option"
  w_content :: "string \<Rightarrow> string"
  w_xml :: "string \<Rightarrow> element option"
  w_artifacts :: artifacts
  w_fresh :: string
  w_run_name :: string
  w_ledger_ok :: bool

text \<open>An early \<open>return fail(reasons)\<close>, or an exception nobody catches.\<close>

datatype stop = Fail "string list" | Raised value_error

definition escaping :: "value_error + 'a \<Rightarrow> stop + 'a" where
  "escaping m = (case m of Inl e \<Rightarrow> Inl (Raised e) | Inr x \<Rightarrow> Inr x)"

lemma escaping_simps [simp]: "escaping m = Inr x \<longleftrightarrow> m = Inr x" "escaping (Inr x) = Inr x"
  by (cases m; simp add: escaping_def)+

definition failing_if :: "bool \<Rightarrow> string \<Rightarrow> stop + unit" where
  "failing_if b reason = guard (\<not> b) (Fail [reason])"

definition proof_path :: "string \<Rightarrow> string" where
  "proof_path bug = ''proofs/'' @ bug @ ''.json''"

definition prestate_path :: "string \<Rightarrow> string" where
  "prestate_path bug = ''proofs/'' @ bug @ ''.prestate.json''"

text \<open>\<open>json.loads(path.read_text())\<close>: a missing or malformed file fails with the reason, a text that is not UTF-8 escapes.\<close>

definition read_json :: "json_loads \<Rightarrow> text_file \<Rightarrow> string \<Rightarrow> stop + pyval" where
  "read_json loads f reason = (case f of
       Undecodable_Text \<Rightarrow> Inl (Raised ValueError)
     | _ \<Rightarrow> (case read_doc loads f of None \<Rightarrow> Inl (Fail [reason]) | Some v \<Rightarrow> Inr v))"

text \<open>The prestate (\<open>None\<close> in phase \<open>pre\<close>), the original request and the request of this call.\<close>

definition load_requests :: "world \<Rightarrow> store \<Rightarrow> string \<Rightarrow> string \<Rightarrow> stop + pyval \<times> pyval \<times> pyval" where
  "load_requests w s phase bug =
     (if phase = ''pre'' then (case w_request w of
          None \<Rightarrow> Inl (Fail [''legacy_raw_command''])
        | Some f \<Rightarrow> bind_res (read_json (w_loads w) f ''missing_request'') (\<lambda>r. Inr (PNone, r, r)))
      else bind_res (read_json (w_loads w) (files s (prestate_path bug)) ''missing_request'') (\<lambda>state.
        bind_res (case subscript state ''request'' of
            Inl KeyError \<Rightarrow> Inl (Fail [''missing_request'']) | Inl e \<Rightarrow> Inl (Raised e) | Inr v \<Rightarrow> Inr v) (\<lambda>original.
        case w_request w of
          None \<Rightarrow> Inl (Fail [''missing_post_request''])
        | Some f \<Rightarrow> bind_res (read_json (w_loads w) f ''missing_request'') (\<lambda>r. Inr (state, original, r)))))"

record job =
  j_request :: dict
  j_root :: string
  j_command :: "pyval list"
  j_policy :: dict
  j_deadline :: pyval
  j_test :: dict
  j_source :: dict
  j_junit :: string

definition is_number :: "pyval \<Rightarrow> bool" where
  "is_number v = (case v of PInt i \<Rightarrow> True | PBool b \<Rightarrow> True | PFloat f \<Rightarrow> True | _ \<Rightarrow> False)"

definition job_of :: "string \<Rightarrow> dict \<Rightarrow> stop + job" where
  "job_of phase r =
     (case (getv r ''target_root'', getv r ''command'',
            getv r (if phase = ''pre'' then ''before_execution_policy'' else ''after_execution_policy''),
            getv r ''test'', getv r ''source_file_sha256'', getv r ''junit_path'') of
        (PStr rt, PList cmd, PDict pol, PDict test, PDict src, PStr junit) \<Rightarrow>
          if is_number (getv r ''deadline_epoch'')
          then Inr \<lparr>j_request = r, j_root = rt, j_command = cmd, j_policy = pol,
                    j_deadline = getv r ''deadline_epoch'', j_test = test, j_source = src, j_junit = junit\<rparr>
          else Inl (Fail [''malformed_request''])
      | _ \<Rightarrow> Inl (Fail [''malformed_request'']))"

definition check_request :: "host \<Rightarrow> store \<Rightarrow> string \<Rightarrow> string \<Rightarrow> pyval \<Rightarrow> pyval \<Rightarrow> stop + job" where
  "check_request h s phase bug original request = (case request of
       PDict r \<Rightarrow>
         bind_res (failing_if (getv r ''bug_id'' \<noteq> PStr bug) ''request_bug_id_mismatch'') (\<lambda>_.
         bind_res (if phase = ''pre'' then Inr []
                   else (case original of
                       PDict o' \<Rightarrow> Inr (validate_post_request h o' r bug)
                     | _ \<Rightarrow> Inl (Raised AttributeError))) (\<lambda>errs.
         bind_res (guard (errs = []) (Fail errs)) (\<lambda>_.
         bind_res (failing_if (phase = ''post'' \<and> files s (proof_path bug) \<noteq> Missing) ''post_already_recorded'') (\<lambda>_.
           job_of phase r))))
     | _ \<Rightarrow> Inl (Fail [''malformed_request'']))"

text \<open>\<open>float(deadline)\<close>\<close>

definition to_float :: "pyval \<Rightarrow> value_error + pyval" where
  "to_float v = (case v of
       PInt i \<Rightarrow> if \<bar>i\<bar> < 2 ^ 1024 - 2 ^ 970 then Inr (PFloat (Fin (of_int i))) else Inl OverflowError
     | PBool b \<Rightarrow> Inr (PFloat (Fin (if b then 1 else 0)))
     | _ \<Rightarrow> Inr v)"

definition test_unchanged :: "host \<Rightarrow> world \<Rightarrow> job \<Rightarrow> bool" where
  "test_unchanged h w j = (case w_tree w (j_root j) (py_str (w_srepr w) (dict_get (j_test j) ''path'' (PStr []))) of
       None \<Rightarrow> False
     | Some bytes \<Rightarrow> getv (j_test j) ''sha256'' = PStr (h_sha h bytes))"

definition job_sources :: "host \<Rightarrow> world \<Rightarrow> string \<Rightarrow> job \<Rightarrow> stop + (string \<times> string) list" where
  "job_sources h w phase j = (case digest_sources h (w_tree w (j_root j)) (j_source j) of
       None \<Rightarrow> Inl (Fail [''source_or_test_changed''])
     | Some m \<Rightarrow>
         bind_res (failing_if (\<not> test_unchanged h w j) ''source_or_test_changed'') (\<lambda>_.
         bind_res (failing_if (phase = ''pre'' \<and> \<not> py_eq (src_val m) (PDict (j_source j))) ''source_changed_before_repro'')
           (\<lambda>_. Inr m)))"

definition run_job :: "host \<Rightarrow> world \<Rightarrow> job \<Rightarrow> (string \<times> string) list \<Rightarrow> stop + dict" where
  "run_job h w j m =
     bind_res (escaping (to_float (j_deadline j))) (\<lambda>deadline.
     bind_res (failing_if (\<not> policy_for_source h (j_policy j) m) ''execution_error:ValueError'') (\<lambda>_.
     case w_execute w (j_command j) (j_root j) deadline (j_policy j) (j_junit j) of
       Inl exc \<Rightarrow> Inl (Fail [''execution_error:'' @ exc])
     | Inr v \<Rightarrow>
         bind_res (guard (trusted_execution h v m) (Fail [execution_reason v])) (\<lambda>_.
         bind_res (failing_if (case digest_sources h (w_tree_after w (j_root j)) (map (\<lambda>(p, x). (p, PStr x)) m) of
                     None \<Rightarrow> True | Some m' \<Rightarrow> m' \<noteq> m) ''source_changed_during_execution'') (\<lambda>_.
           Inr (case v of PDict e \<Rightarrow> e | _ \<Rightarrow> [])))))"

text \<open>\<open>parsed["tests"][native_id]\<close> and its details, with defaults; an unhashable identity raises.\<close>

definition outcome_of_test :: "dict \<Rightarrow> pyval \<Rightarrow> value_error + dict" where
  "outcome_of_test parsed native =
     (if \<not> hashable native then Inl TypeError
      else let lookup = (\<lambda>v. case (v, native) of (PDict d, PStr n) \<Rightarrow> getv d n | _ \<Rightarrow> PNone);
               field = (\<lambda>k. case lookup (getv parsed ''details'') of PDict d \<Rightarrow> getv d k | _ \<Rightarrow> PNone)
           in Inr [(''native_id'', native), (''status'', lookup (getv parsed ''tests'')),
                   (''failure_type'', field ''failure_type''), (''message'', field ''message'')])"

definition relative_output :: "world \<Rightarrow> dict \<Rightarrow> string \<Rightarrow> stop + string" where
  "relative_output w e kind =
     bind_res (escaping (receipt_output e kind)) (\<lambda>raw.
       case (case raw of None \<Rightarrow> None | Some p \<Rightarrow> w_relative w p) of
         None \<Rightarrow> Inl (Fail [''missing_execution_artifact''])
       | Some r \<Rightarrow> Inr r)"

definition phase_record ::
    "host \<Rightarrow> world \<Rightarrow> job \<Rightarrow> (string \<times> string) list \<Rightarrow> dict \<Rightarrow> stop + dict \<times> dict \<times> dict" where
  "phase_record h w j m e =
     bind_res (relative_output w e ''junit'') (\<lambda>report.
     bind_res (relative_output w e ''stdout'') (\<lambda>log.
     let bytes = w_content w report; parsed = parse_junit (w_xml w bytes) (h_sha h bytes) in
     bind_res (escaping (outcome_of_test parsed (getv (j_test j) ''native_id''))) (\<lambda>outcome.
       Inr (parsed, outcome,
         [(''source_file_sha256'', src_val m), (''exit_code'', getv e ''exit_code''), (''test_outcome'', PDict outcome),
          (''structured_report_path'', PStr report), (''structured_report_sha256'', PStr (h_sha h bytes)),
          (''log_path'', PStr log), (''log_sha256'', PStr (h_sha h (w_content w log))), (''execution'', PDict e)]))))"

subsection \<open>The end of each phase\<close>

text \<open>
  What a phase writes before it ends (files as values, and text appended to the ledger), and how it
  ends: a failure, an exception, or the printed verdict with the exit status.
\<close>

record ending =
  e_writes :: "(string \<times> pyval) list"
  e_ledger :: string
  e_result :: "stop + string \<times> nat"

definition stopped :: "stop \<Rightarrow> ending" where
  "stopped x = \<lparr>e_writes = [], e_ledger = [], e_result = Inl x\<rparr>"

definition ended :: "(string \<times> pyval) list \<Rightarrow> string \<Rightarrow> string \<times> nat \<Rightarrow> ending" where
  "ended ws l r = \<lparr>e_writes = ws, e_ledger = l, e_result = Inr r\<rparr>"

definition or_stop :: "stop + 'a \<Rightarrow> ('a \<Rightarrow> ending) \<Rightarrow> ending" where
  "or_stop m f = (case m of Inl x \<Rightarrow> stopped x | Inr y \<Rightarrow> f y)"

definition PROOF_ERROR :: "string \<times> nat" where
  "PROOF_ERROR = (''REPRO=proof_error'', 1)"

definition red_confirmed :: "job \<Rightarrow> dict \<Rightarrow> dict \<Rightarrow> stop + string \<times> nat" where
  "red_confirmed j parsed outcome =
     (if getv parsed ''status'' \<noteq> PStr ''ok'' \<or> getv outcome ''status'' \<noteq> PStr ''failure'' \<or>
         getv outcome ''failure_type'' \<noteq> PStr ''assertion''
      then Inl (Fail [''before_not_expected_assertion''])
      else case getv (j_test j) ''expected_failure_message'' of
             PStr e \<Rightarrow> bind_res (failing_if (\<not> contains (str_of (getv outcome ''message'')) e) ''before_not_expected_assertion'')
                        (\<lambda>_. Inr (''REPRO=red_confirmed'', 0))
           | _ \<Rightarrow> Inl (Raised TypeError))"

definition end_pre :: "host \<Rightarrow> string \<Rightarrow> job \<Rightarrow> dict \<Rightarrow> dict \<Rightarrow> dict \<Rightarrow> ending" where
  "end_pre h bug j parsed outcome record_dict =
     or_stop (escaping (canonical_sha256 h (PDict (j_request j)))) (\<lambda>sha.
       \<lparr>e_writes = [(prestate_path bug, PDict
          [(''request'', PDict (j_request j)), (''original_request_sha256'', PStr sha), (''before'', PDict record_dict),
           (''schema_version'', PInt 1), (''run_id'', getv (j_request j) ''run_id''), (''bug_id'', PStr bug),
           (''status'', PStr ''pending'')])],
        e_ledger = [], e_result = red_confirmed j parsed outcome\<rparr>)"

definition suite_of :: "host \<Rightarrow> world \<Rightarrow> dict \<Rightarrow> (string \<times> string) list \<Rightarrow> stop + string \<times> string" where
  "suite_of h w r m =
     (let miss = Inl (Fail [''missing_suite_receipt_binding'']) in
      case getv r ''suite_receipt'' of
        PDict ptr \<Rightarrow> (case (getv ptr ''immutable_path'', getv ptr ''immutable_sha256'') of
            (PStr p, PStr sha) \<Rightarrow> (case w_artifacts w p of
                None \<Rightarrow> miss
              | Some bytes \<Rightarrow>
                  if h_sha h bytes \<noteq> sha then miss
                  else (case w_loads w bytes of
                      None \<Rightarrow> miss
                    | Some v \<Rightarrow> (case validate_suite_receipt h v (getv r ''run_id'') (src_val m) ''verify'' of
                          Inl e \<Rightarrow> miss
                        | Inr res \<Rightarrow> if pr_complete res then Inr (p, sha) else miss)))
          | _ \<Rightarrow> miss)
      | _ \<Rightarrow> miss)"

definition post_receipt ::
    "host \<Rightarrow> string \<Rightarrow> job \<Rightarrow> pyval \<Rightarrow> dict \<Rightarrow> (string \<times> string) list \<Rightarrow> string \<times> string \<Rightarrow> dict \<Rightarrow> string \<Rightarrow> dict" where
  "post_receipt h bug j state before_execution m suite record_dict sha =
     (let r = j_request j in
      [(''schema_version'', PInt 1), (''run_id'', getv r ''run_id''), (''bug_id'', PStr bug)] @
      map (\<lambda>k. (k, getv before_execution k)) DIGEST_KEYS @
      [(''test'', PDict (j_test j)), (''intended_source_files'', getv r ''intended_source_files''),
       (''execution_policy_mode'', getv (j_policy j) ''mode''),
       (''source_manifest_sha256'', PStr (canonical h (src_val m))),
       (''review_source_file_sha256'', getv r ''review_source_file_sha256''),
       (''review_source_manifest_sha256'', getv r ''review_source_manifest_sha256''),
       (''suite_receipt_path'', PStr (fst suite)), (''suite_receipt_sha256'', PStr (snd suite)),
       (''original_request_sha256'', getv (case state of PDict d \<Rightarrow> d | _ \<Rightarrow> []) ''original_request_sha256''),
       (''post_revision_sha256'', PStr sha), (''before'', getv (case state of PDict d \<Rightarrow> d | _ \<Rightarrow> []) ''before''),
       (''after'', PDict record_dict), (''status'', PStr ''verified'')])"

text \<open>A receipt is written as verified only when nothing is wrong with it.\<close>

definition judged :: "dict \<Rightarrow> string list \<Rightarrow> dict" where
  "judged receipt reasons =
     (if reasons = [] then receipt else AList.update ''status'' (PStr ''proof_error'') receipt)"

definition end_post ::
    "host \<Rightarrow> world \<Rightarrow> string \<Rightarrow> pyval \<Rightarrow> job \<Rightarrow> (string \<times> string) list \<Rightarrow> dict \<Rightarrow> ending" where
  "end_post h w bug state j m record_dict =
     or_stop (suite_of h w (j_request j) m) (\<lambda>suite.
     or_stop (escaping (bind_res (subscript state ''before'') (\<lambda>b. bind_res (subscript b ''execution'') (\<lambda>e.
                case e of PDict d \<Rightarrow> Inr d | _ \<Rightarrow> Inl AttributeError)))) (\<lambda>before_execution.
     or_stop (escaping (canonical_sha256 h (PDict (j_request j)))) (\<lambda>sha.
     let receipt = post_receipt h bug j state before_execution m suite record_dict sha in
     or_stop (escaping (validate_fix_proof h (PDict receipt) (getv (j_request j) ''run_id'') (PStr bug) (src_val m))) (\<lambda>res.
     or_stop (escaping (validate_artifact_digests h (w_loads w) (w_artifacts w) receipt)) (\<lambda>arts.
       let reasons = pr_reasons res @ arts in
       ended [(proof_path bug, PDict (judged receipt reasons))] []
         (if reasons = [] then (''REPRO=confirmed'', 0) else PROOF_ERROR))))))"

definition reverified_receipt ::
    "host \<Rightarrow> string \<Rightarrow> job \<Rightarrow> dict \<Rightarrow> dict \<Rightarrow> (string \<times> string) list \<Rightarrow> string \<times> string \<Rightarrow> dict \<Rightarrow> string \<Rightarrow> dict" where
  "reverified_receipt h bug j original execution m suite record_dict sha =
     (let r = j_request j in
      [(''schema_version'', PInt 1), (''event'', PStr ''fix_reverified''), (''run_id'', getv r ''run_id''),
       (''bug_id'', PStr bug), (''original_proof_path'', PStr (proof_path bug)), (''original_proof_sha256'', PStr sha),
       (''original_fix_commit'', getv r ''original_fix_commit''),
       (''original_source_manifest_sha256'', getv original ''source_manifest_sha256''),
       (''final_source_file_sha256'', src_val m), (''final_source_manifest_sha256'', PStr (canonical h (src_val m)))] @
      map (\<lambda>k. (k, getv execution k)) DIGEST_KEYS @
      [(''test'', PDict (j_test j)), (''suite_receipt_path'', PStr (fst suite)), (''suite_receipt_sha256'', PStr (snd suite)),
       (''after'', PDict record_dict), (''status'', PStr ''verified'')])"

definition reverified_path :: "world \<Rightarrow> string \<Rightarrow> string" where
  "reverified_path w bug = ''proofs/'' @ bug @ ''.reverified-'' @ w_fresh w @ ''.json''"

definition dumped :: "host \<Rightarrow> pyval \<Rightarrow> string" where
  "dumped h v = json_dumps_spaced (h_frepr h) v"

text \<open>\<open>_append_fix_reverified_event\<close>: the line, or \<open>None\<close> when the append fails or the event is not JSON.\<close>

definition reverified_event :: "host \<Rightarrow> world \<Rightarrow> string \<Rightarrow> dict \<Rightarrow> string option" where
  "reverified_event h w bug receipt =
     (let event = PDict [(''schema_version'', PInt 1), (''event'', PStr ''fix_reverified''),
        (''run_id'', getv receipt ''run_id''), (''bug_id'', getv receipt ''bug_id''),
        (''path'', PStr (reverified_path w bug)), (''sha256'', PStr (h_sha h (dumped h (PDict receipt)))),
        (''original_fix_commit'', getv receipt ''original_fix_commit'')]
      in if nonfinite event \<or> \<not> w_ledger_ok w then None
         else Some (json_dumps False (h_frepr h) event @ [CHR 0x0A]))"

definition reverify_of ::
    "host \<Rightarrow> world \<Rightarrow> string \<Rightarrow> job \<Rightarrow> (string \<times> string) list \<Rightarrow> dict \<Rightarrow> dict \<Rightarrow> string \<times> string \<Rightarrow> dict \<Rightarrow> ending" where
  "reverify_of h w bug j m e record_dict suite original =
     or_stop (guard (original_sources original \<noteq> None) (Fail [''missing_original_source''])) (\<lambda>_.
     or_stop (escaping (canonical_sha256 h (PDict original))) (\<lambda>sha.
     let receipt = reverified_receipt h bug j original e m suite record_dict sha in
     or_stop (escaping (validate_fix_reverification h (PDict receipt) (PDict original)
                (getv (j_request j) ''run_id'') bug (src_val m))) (\<lambda>res.
     or_stop (escaping (validate_artifact_digests h (w_loads w) (w_artifacts w) original)) (\<lambda>arts0.
     or_stop (escaping (validate_artifact_digests h (w_loads w) (w_artifacts w) receipt)) (\<lambda>arts.
       let reasons = pr_reasons res @ arts0 @ arts;
           ws = [(reverified_path w bug, PDict (judged receipt reasons))]
       in if reasons \<noteq> [] then ended ws [] PROOF_ERROR
          else case reverified_event h w bug receipt of
                 None \<Rightarrow> ended ws [] PROOF_ERROR
               | Some line \<Rightarrow> ended ws line (''REPRO=reverified'', 0))))))"

definition end_reverify ::
    "host \<Rightarrow> world \<Rightarrow> store \<Rightarrow> string \<Rightarrow> job \<Rightarrow> (string \<times> string) list \<Rightarrow> dict \<Rightarrow> dict \<Rightarrow> ending" where
  "end_reverify h w s bug j m e record_dict =
     or_stop (suite_of h w (j_request j) m) (\<lambda>suite.
     or_stop (read_json (w_loads w) (files s (proof_path bug)) ''missing_original_proof'') (\<lambda>original_proof.
     case original_proof of
       PDict original \<Rightarrow> reverify_of h w bug j m e record_dict suite original
     | _ \<Rightarrow> stopped (Fail [''missing_original_source''])))"

subsection \<open>The call\<close>

definition proof_error_value :: "world \<Rightarrow> string \<Rightarrow> string list \<Rightarrow> pyval" where
  "proof_error_value w bug reasons =
     PDict [(''schema_version'', PInt 1), (''run_id'', PStr (w_run_name w)), (''bug_id'', PStr bug),
       (''status'', PStr ''proof_error''), (''reasons'', PList (map PStr reasons))]"

definition repro_ending :: "host \<Rightarrow> world \<Rightarrow> store \<Rightarrow> string \<Rightarrow> string \<Rightarrow> ending" where
  "repro_ending h w s phase bug =
     or_stop (load_requests w s phase bug) (\<lambda>(state, original, request).
     or_stop (check_request h s phase bug original request) (\<lambda>j.
     or_stop (job_sources h w phase j) (\<lambda>m.
     or_stop (run_job h w j m) (\<lambda>e.
     or_stop (phase_record h w j m e) (\<lambda>(parsed, outcome, record_dict).
       if phase = ''pre'' then end_pre h bug j parsed outcome record_dict
       else if phase = ''reverify'' then end_reverify h w s bug j m e record_dict
       else end_post h w bug state j m record_dict)))))"

definition written :: "host \<Rightarrow> store \<Rightarrow> (string \<times> pyval) list \<Rightarrow> string \<Rightarrow> store" where
  "written h s ws l =
     s\<lparr>files := foldl (\<lambda>f (p, v). f(p := Text (dumped h v))) (files s) ws, ledger := ledger s @ l\<rparr>"

definition proof_error_file :: "host \<Rightarrow> world \<Rightarrow> store \<Rightarrow> string \<Rightarrow> string list \<Rightarrow> store" where
  "proof_error_file h w s bug reasons = written h s [(proof_path bug, proof_error_value w bug reasons)] []"

definition PHASES :: "string list" where
  "PHASES = [''pre'', ''post'', ''reverify'']"

definition slash_free :: "string \<Rightarrow> string" where
  "slash_free bug = map (\<lambda>c. if c = CHR ''/'' then CHR ''_'' else c) bug"

definition run_repro ::
    "host \<Rightarrow> world \<Rightarrow> store \<Rightarrow> string \<Rightarrow> string \<Rightarrow> (value_error + string \<times> nat) \<times> store" where
  "run_repro h w s phase bug =
     (if phase \<notin> set PHASES \<or> CHR ''/'' \<in> set bug \<or> contains bug ''..''
      then (Inr PROOF_ERROR, proof_error_file h w s (slash_free bug) [''invalid_bug_id''])
      else let e = repro_ending h w s phase bug; s' = written h s (e_writes e) (e_ledger e) in
        (case e_result e of
           Inr r \<Rightarrow> (Inr r, s')
         | Inl (Raised x) \<Rightarrow> (Inl x, s')
         | Inl (Fail reasons) \<Rightarrow>
             if phase \<in> {''post'', ''reverify''} \<and> files s' (proof_path bug) \<noteq> Missing then (Inr PROOF_ERROR, s')
             else (Inr PROOF_ERROR, proof_error_file h w s' bug reasons)))"

subsection \<open>What a call leaves behind\<close>

definition writes_only :: "string set \<Rightarrow> ending \<Rightarrow> bool" where
  "writes_only A e \<longleftrightarrow> set (map fst (e_writes e)) \<subseteq> A"

lemma writes_only_or_stop: "(\<And>y. m = Inr y \<Longrightarrow> writes_only A (f y)) \<Longrightarrow> writes_only A (or_stop m f)"
  by (cases m) (simp_all add: or_stop_def stopped_def writes_only_def)

lemma or_stop_result:
  "e_result (or_stop m f) = Inr r \<longleftrightarrow> (\<exists>y. m = Inr y \<and> e_result (f y) = Inr r)"
  by (cases m) (auto simp: or_stop_def stopped_def)

lemma ending_simps [simp]:
  "e_writes (ended ws l r) = ws" "e_ledger (ended ws l r) = l" "e_result (ended ws l r) = Inr r"
  "e_writes (stopped x) = []" "e_ledger (stopped x) = []" "e_result (stopped x) = Inl x"
  by (simp_all add: ended_def stopped_def)

lemma reverify_of_writes: "writes_only {reverified_path w bug} (reverify_of h w bug j m e rd suite original)"
  unfolding reverify_of_def Let_def
  by (intro writes_only_or_stop) (simp add: writes_only_def split: option.split)

lemma end_reverify_writes: "writes_only {reverified_path w bug} (end_reverify h w s bug j m e rd)"
proof -
  have "writes_only A (stopped x)" for A x by (simp add: writes_only_def)
  then show ?thesis
    unfolding end_reverify_def by (intro writes_only_or_stop) (simp add: reverify_of_writes split: pyval.split)
qed

lemma reverified_path_ne: "reverified_path w bug \<noteq> proof_path bug"
  by (simp add: reverified_path_def proof_path_def)

lemma check_request_fresh: "check_request h s ''post'' bug o' r = Inr j \<Longrightarrow> files s (proof_path bug) = Missing"
  by (cases r) (auto simp: check_request_def bind_res_Inr_iff failing_if_def split: if_splits)

lemma foldl_upd_other:
  "p \<notin> set (map fst ws) \<Longrightarrow> foldl (\<lambda>f (p, v). f(p := g v)) f0 ws p = f0 p"
  by (induction ws arbitrary: f0) auto

lemma written_other: "p \<notin> set (map fst ws) \<Longrightarrow> files (written h s ws l) p = files s p"
  by (simp add: written_def foldl_upd_other)

lemma repro_ending_writes:
  assumes "phase \<in> {''post'', ''reverify''}" and "files s (proof_path bug) \<noteq> Missing"
  shows "writes_only {reverified_path w bug} (repro_ending h w s phase bug)"
  using assms check_request_fresh [of h s bug]
  unfolding repro_ending_def
  by (intro writes_only_or_stop) (auto split: prod.splits intro!: writes_only_or_stop end_reverify_writes)

text \<open>With a final proof in place, \<open>post\<close> stops at its checks and writes nothing.\<close>

definition writes_nothing :: "ending \<Rightarrow> bool" where
  "writes_nothing e \<longleftrightarrow> e_writes e = [] \<and> e_ledger e = []"

lemma writes_nothing_or_stop: "(\<And>y. m = Inr y \<Longrightarrow> writes_nothing (f y)) \<Longrightarrow> writes_nothing (or_stop m f)"
  by (cases m) (simp_all add: or_stop_def writes_nothing_def)

lemma post_writes_nothing: "files s (proof_path bug) \<noteq> Missing \<Longrightarrow> writes_nothing (repro_ending h w s ''post'' bug)"
  using check_request_fresh [of h s bug] unfolding repro_ending_def
  by (intro writes_nothing_or_stop) (auto split: prod.splits intro!: writes_nothing_or_stop)

text \<open>
  C28: A final proof is immutable for the phases \<open>post\<close> and \<open>reverify\<close>, called with a bug identifier the gate
  accepts (no slash and no two dots in a row): whatever the request, the sources, the execution and the artifacts
  are, \<open>post\<close> leaves the files and the ledger of the run as they were, and \<open>reverify\<close> changes no file except that
  it may add its own new receipt, and only appends to \<^verbatim>\<open>ledger.jsonl\<close>.  (What the execution itself leaves under
  \<^verbatim>\<open>fix-proof-artifacts\<close> is outside the store; other identifiers, and \<open>pre\<close>, are a property of their own.)
\<close>

theorem final_proof_immutable:
  assumes "phase \<in> {''post'', ''reverify''}" and "CHR ''/'' \<notin> set bug" and "\<not> contains bug ''..''"
    and "files s (proof_path bug) \<noteq> Missing"
  shows "(\<forall>p. p \<noteq> reverified_path w bug \<longrightarrow> files (snd (run_repro h w s phase bug)) p = files s p) \<and>
    (\<exists>line. ledger (snd (run_repro h w s phase bug)) = ledger s @ line) \<and>
    (phase = ''post'' \<longrightarrow> snd (run_repro h w s phase bug) = s)"
proof -
  let ?e = "repro_ending h w s phase bug"
  let ?s = "written h s (e_writes ?e) (e_ledger ?e)"
  have sub: "set (map fst (e_writes ?e)) \<subseteq> {reverified_path w bug}"
    using repro_ending_writes [OF assms(1,4), of w h] by (simp add: writes_only_def)
  then have kept: "files ?s p = files s p" if "p \<noteq> reverified_path w bug" for p
    using that by (intro written_other) auto
  then have "files ?s (proof_path bug) \<noteq> Missing" using assms(4) reverified_path_ne [of w bug] by metis
  moreover have "phase \<in> set PHASES" using assms(1) by (auto simp: PHASES_def)
  ultimately have stop: "snd (run_repro h w s phase bug) = ?s"
    using assms(1,2,3) by (auto simp: run_repro_def Let_def split: sum.splits stop.splits)
  have "?s = s" if "phase = ''post''"
    using post_writes_nothing [OF assms(4), of h w] by (simp add: that writes_nothing_def written_def)
  moreover have "ledger ?s = ledger s @ e_ledger ?e" by (simp add: written_def)
  ultimately show ?thesis unfolding stop using kept by blast
qed

text \<open>
  C33: The guard covers only \<open>post\<close> and \<open>reverify\<close>.  A later call of \<open>pre\<close> without a request replaces
  the final proof of the bug by an error record, and a call with an identifier that contains a slash,
  in any phase, replaces the proof of the bug whose identifier has an underscore there.
\<close>

theorem pre_replaces_final_proof:
  assumes "CHR ''/'' \<notin> set bug" and "\<not> contains bug ''..''" and "w_request w = None"
  shows "files (snd (run_repro h w s ''pre'' bug)) (proof_path bug) =
      Text (dumped h (proof_error_value w bug [''legacy_raw_command''])) \<and>
    (\<forall>phase. files (snd (run_repro h w s phase (''a/'' @ bug))) (proof_path (''a_'' @ bug)) =
      Text (dumped h (proof_error_value w (''a_'' @ bug) [''invalid_bug_id''])))"
proof
  have "repro_ending h w s ''pre'' bug = stopped (Fail [''legacy_raw_command''])"
    by (simp add: repro_ending_def load_requests_def or_stop_def assms(3))
  then show "files (snd (run_repro h w s ''pre'' bug)) (proof_path bug) =
      Text (dumped h (proof_error_value w bug [''legacy_raw_command'']))"
    using assms(1,2) by (simp add: run_repro_def PHASES_def proof_error_file_def written_def)
  have "slash_free (''a/'' @ bug) = ''a_'' @ bug"
    using assms(1) by (induction bug) (auto simp: slash_free_def)
  then show "\<forall>phase. files (snd (run_repro h w s phase (''a/'' @ bug))) (proof_path (''a_'' @ bug)) =
      Text (dumped h (proof_error_value w (''a_'' @ bug) [''invalid_bug_id'']))"
    by (simp add: run_repro_def proof_error_file_def written_def)
qed

subsection \<open>What a confirmation means\<close>

lemma suite_of_Inr:
  assumes "suite_of h w r m = Inr suite"
  shows "\<exists>bytes v res. w_artifacts w (fst suite) = Some bytes \<and> snd suite = h_sha h bytes \<and> w_loads w bytes = Some v \<and>
    validate_suite_receipt h v (getv r ''run_id'') (src_val m) ''verify'' = Inr res \<and> pr_complete res"
proof -
  obtain ptr where ptr: "getv r ''suite_receipt'' = PDict ptr"
    using assms by (cases "getv r ''suite_receipt''") (simp_all add: suite_of_def Let_def)
  obtain p where p: "getv ptr ''immutable_path'' = PStr p"
    using assms by (cases "getv ptr ''immutable_path''") (simp_all add: suite_of_def Let_def ptr)
  obtain sha where sha: "getv ptr ''immutable_sha256'' = PStr sha"
    using assms by (cases "getv ptr ''immutable_sha256''") (simp_all add: suite_of_def Let_def ptr p)
  show ?thesis
    using assms by (auto simp: suite_of_def Let_def ptr p sha split: option.splits if_splits sum.splits)
qed

lemma end_post_confirmed:
  assumes "e_result (end_post h w bug state j m rd) = Inr (''REPRO=confirmed'', 0)"
  obtains suite receipt res where "suite_of h w (j_request j) m = Inr suite"
    and "validate_fix_proof h (PDict receipt) (getv (j_request j) ''run_id'') (PStr bug) (src_val m) = Inr res"
    and "pr_reasons res = []" and "validate_artifact_digests h (w_loads w) (w_artifacts w) receipt = Inr []"
    and "getv receipt ''after'' = PDict rd" and "getv receipt ''status'' = PStr ''verified''"
    and "getv receipt ''test'' = PDict (j_test j)" and "getv receipt ''suite_receipt_path'' = PStr (fst suite)"
    and "getv receipt ''suite_receipt_sha256'' = PStr (snd suite)"
    and "e_writes (end_post h w bug state j m rd) = [(proof_path bug, PDict receipt)]"
proof -
  obtain suite where suite: "suite_of h w (j_request j) m = Inr suite"
    using assms by (auto simp: end_post_def or_stop_result)
  obtain be sha where be: "escaping (bind_res (subscript state ''before'') (\<lambda>b. bind_res (subscript b ''execution'') (\<lambda>e.
      case e of PDict d \<Rightarrow> Inr d | _ \<Rightarrow> Inl AttributeError))) = (Inr be :: stop + dict)"
    and sha: "canonical_sha256 h (PDict (j_request j)) = Inr sha"
    using assms by (auto simp: end_post_def or_stop_result)
  define receipt where "receipt = post_receipt h bug j state be m suite rd sha"
  obtain res arts where res: "validate_fix_proof h (PDict receipt) (getv (j_request j) ''run_id'') (PStr bug) (src_val m) = Inr res"
    and arts: "validate_artifact_digests h (w_loads w) (w_artifacts w) receipt = Inr arts"
    using assms by (auto simp: end_post_def or_stop_result Let_def suite be sha receipt_def)
  have eq: "end_post h w bug state j m rd = ended [(proof_path bug, PDict (judged receipt (pr_reasons res @ arts)))] []
      (if pr_reasons res @ arts = [] then (''REPRO=confirmed'', 0) else PROOF_ERROR)"
    unfolding end_post_def suite be sha Let_def receipt_def [symmetric] res arts
    by (simp add: or_stop_def sha res arts flip: receipt_def)
  have none: "pr_reasons res = []" "arts = []"
    using assms by (auto simp: eq PROOF_ERROR_def split: if_splits)
  have fields: "getv receipt ''after'' = PDict rd" "getv receipt ''status'' = PStr ''verified''"
    "getv receipt ''test'' = PDict (j_test j)" "getv receipt ''suite_receipt_path'' = PStr (fst suite)"
    "getv receipt ''suite_receipt_sha256'' = PStr (snd suite)"
    by (simp_all add: receipt_def post_receipt_def Let_def getv_def dict_get_def DIGEST_KEYS_def)
  have "e_writes (end_post h w bug state j m rd) = [(proof_path bug, PDict receipt)]"
    by (simp add: eq none judged_def)
  then show thesis using that [OF suite res none(1) _ fields] arts none(2) by simp
qed


lemma post_ending:
  assumes "fst (run_repro h w s ''post'' bug) = Inr (''REPRO=confirmed'', 0)"
  obtains state original r j m e parsed outcome rd where
    "check_request h s ''post'' bug original (PDict r) = Inr j" and "job_sources h w ''post'' j = Inr m"
    and "run_job h w j m = Inr e" and "phase_record h w j m e = Inr (parsed, outcome, rd)"
    and "repro_ending h w s ''post'' bug = end_post h w bug state j m rd"
    and "e_result (end_post h w bug state j m rd) = Inr (''REPRO=confirmed'', 0)"
    and "snd (run_repro h w s ''post'' bug) = written h s (e_writes (end_post h w bug state j m rd)) (e_ledger (end_post h w bug state j m rd))"
proof -
  have neq: "PROOF_ERROR \<noteq> (''REPRO=confirmed'', 0)" by (simp add: PROOF_ERROR_def)
  have res: "e_result (repro_ending h w s ''post'' bug) = Inr (''REPRO=confirmed'', 0)"
    and snd: "snd (run_repro h w s ''post'' bug) =
      written h s (e_writes (repro_ending h w s ''post'' bug)) (e_ledger (repro_ending h w s ''post'' bug))"
    using assms neq by (auto simp: run_repro_def Let_def split: if_splits sum.splits stop.splits)
  obtain state original request j m e parsed outcome rd where
    l: "load_requests w s ''post'' bug = Inr (state, original, request)"
    and p: "check_request h s ''post'' bug original request = Inr j" "job_sources h w ''post'' j = Inr m"
      "run_job h w j m = Inr e" "phase_record h w j m e = Inr (parsed, outcome, rd)"
    using res by (auto simp: repro_ending_def or_stop_result)
  have eq: "repro_ending h w s ''post'' bug = end_post h w bug state j m rd"
    by (simp add: repro_ending_def or_stop_def l p)
  obtain r where r: "request = PDict r" using p(1) by (cases request) (simp_all add: check_request_def)
  show thesis using that [OF p(1) [unfolded r] p(2,3,4) eq] res snd unfolding eq by blast
qed

lemma job_sources_Inr: "job_sources h w phase j = Inr m \<Longrightarrow> digest_sources h (w_tree w (j_root j)) (j_source j) = Some m"
  by (simp add: job_sources_def bind_res_Inr_iff split: option.splits)

text \<open>What the receipt of a confirmed fix shows, over the source map \<open>m\<close> of the present tree.\<close>

definition confirmed_fix :: "host \<Rightarrow> dict \<Rightarrow> string \<Rightarrow> (string \<times> string) list \<Rightarrow> bool" where
  "confirmed_fix h receipt bug m \<longleftrightarrow> (\<exists>test before after b a xs.
     getv receipt ''bug_id'' = PStr bug \<and> getv receipt ''test'' = PDict test \<and>
     getv receipt ''before'' = PDict before \<and> getv receipt ''after'' = PDict after \<and>
     sound_test test \<and> red_phase test before \<and> green_phase test after \<and>
     bound_phase h receipt test before b \<and> bound_phase h receipt test after a \<and>
     getv receipt ''intended_source_files'' = PList (map PStr xs) \<and> xs \<noteq> [] \<and> distinct xs \<and>
     set xs = {p. map_of b p \<noteq> map_of a p} \<and> getv test ''path'' \<notin> PStr ` set xs \<and> py_eq (src_val a) (src_val m))"

text \<open>
  C8: When the gate prints \<open>REPRO=confirmed\<close>, there was no final proof before, and the one it wrote is
  verified: over the digests \<open>m\<close> of the present target tree the test failed with the expected assertion
  before, passes after, both in accepted executions on exactly the recorded sources, exactly the intended
  files changed and not the test; every artifact the receipt declares has the recorded digest; and the
  suite receipt it names, with its recorded digest, shows every check passing on that same tree, without
  a regression.
\<close>

theorem confirmed_means_fixed:
  assumes "fst (run_repro h w s ''post'' bug) = Inr (''REPRO=confirmed'', 0)"
  shows "\<exists>(j :: job) m receipt path bytes v r cs. files s (proof_path bug) = Missing \<and>
    files (snd (run_repro h w s ''post'' bug)) (proof_path bug) = Text (dumped h (PDict receipt)) \<and>
    getv receipt ''status'' = PStr ''verified'' \<and>
    digest_sources h (w_tree w (j_root j)) (j_source j) = Some m \<and> confirmed_fix h receipt bug m \<and>
    validate_artifact_digests h (w_loads w) (w_artifacts w) receipt = Inr [] \<and>
    getv receipt ''suite_receipt_path'' = PStr path \<and> w_artifacts w path = Some bytes \<and>
    getv receipt ''suite_receipt_sha256'' = PStr (h_sha h bytes) \<and> w_loads w bytes = Some v \<and> v = PDict r \<and>
    getv r ''checks'' = PList cs \<and> cs \<noteq> [] \<and> getv r ''regressions'' = PList [] \<and>
    (\<exists>m'. py_eq (src_val m') (src_val m) \<and> (\<forall>c\<in>set cs. passed_check h m' c))"
proof -
  obtain state original r0 j m e parsed outcome rd where p:
    "check_request h s ''post'' bug original (PDict r0) = Inr j" "job_sources h w ''post'' j = Inr m"
    "run_job h w j m = Inr e" "phase_record h w j m e = Inr (parsed, outcome, rd)"
    "repro_ending h w s ''post'' bug = end_post h w bug state j m rd"
    "e_result (end_post h w bug state j m rd) = Inr (''REPRO=confirmed'', 0)"
    "snd (run_repro h w s ''post'' bug) = written h s (e_writes (end_post h w bug state j m rd)) (e_ledger (end_post h w bug state j m rd))"
    using post_ending [OF assms] .
  obtain suite receipt res where q: "suite_of h w (j_request j) m = Inr suite"
    "validate_fix_proof h (PDict receipt) (getv (j_request j) ''run_id'') (PStr bug) (src_val m) = Inr res"
    "pr_reasons res = []" "validate_artifact_digests h (w_loads w) (w_artifacts w) receipt = Inr []"
    "getv receipt ''after'' = PDict rd" "getv receipt ''status'' = PStr ''verified''"
    "getv receipt ''test'' = PDict (j_test j)" "getv receipt ''suite_receipt_path'' = PStr (fst suite)"
    "getv receipt ''suite_receipt_sha256'' = PStr (snd suite)"
    "e_writes (end_post h w bug state j m rd) = [(proof_path bug, PDict receipt)]"
    using end_post_confirmed [OF p(6)] .
  have complete: "pr_complete res" using result_reasons [OF q(2)] q(3) by simp
  have conf: "confirmed_fix h receipt bug m"
    using fix_proof_sound [OF q(2) complete] unfolding confirmed_fix_def
    by (elim exE conjE) (intro exI conjI, assumption?, simp_all only: pyval.inject, simp_all)
  obtain bytes v sres where su: "w_artifacts w (fst suite) = Some bytes" "snd suite = h_sha h bytes"
      "w_loads w bytes = Some v"
      "validate_suite_receipt h v (getv (j_request j) ''run_id'') (src_val m) ''verify'' = Inr sres" "pr_complete sres"
    using suite_of_Inr [OF q(1)] by blast
  obtain r m' cs where rc: "v = PDict r" "py_eq (src_val m') (src_val m)" "getv r ''checks'' = PList cs" "cs \<noteq> []"
      "\<forall>c\<in>set cs. passed_check h m' c" "getv r ''regressions'' = PList []"
    using suite_receipt_complete [OF su(4,5)] by blast
  have written: "files (snd (run_repro h w s ''post'' bug)) (proof_path bug) = Text (dumped h (PDict receipt))"
    unfolding p(7) q(10) by (simp add: written_def)
  show ?thesis
    by (rule exI [of _ j], rule exI [of _ m], rule exI [of _ receipt], rule exI [of _ "fst suite"],
      rule exI [of _ bytes], rule exI [of _ v], rule exI [of _ r], rule exI [of _ cs],
      use check_request_fresh [OF p(1)] written q(4,6,8,9) job_sources_Inr [OF p(2)] conf su(1,2,3) rc in auto)
qed


subsection \<open>A confirmed fix\<close>

definition demo_digest :: string where "demo_digest = replicate 64 (CHR ''a'')"
definition demo_old :: string where "demo_old = replicate 64 (CHR ''b'')"

definition demo_host :: host where
  "demo_host = \<lparr>h_sha = (\<lambda>_. demo_digest), h_frepr = (\<lambda>_. ''0.0''), h_provider = (\<lambda>_ _. Some [])\<rparr>"

definition demo_before :: "(string \<times> string) list" where
  "demo_before = [(''app.py'', demo_old), (''t.py'', demo_digest)]"

definition demo_after :: "(string \<times> string) list" where
  "demo_after = [(''app.py'', demo_digest), (''t.py'', demo_digest)]"

definition demo_execution :: "(string \<times> string) list \<Rightarrow> int \<Rightarrow> dict" where
  "demo_execution m code = [(''termination'', PStr ''exited''), (''exit_code'', PInt code),
     (''backend'', PDict [(''name'', PStr ''docker''), (''engine_sha256'', PStr demo_digest), (''image_digest'', PStr demo_digest)]),
     (''backend_readback_path'', PStr ''rb''), (''backend_readback_sha256'', PStr demo_digest),
     (''backend_readback_verified'', PBool True),
     (''capabilities'', PDict [(''isolation'', PStr ''verified''), (''network'', PStr ''verified_denied''),
       (''deadline'', PStr ''process_group_term_kill_reap''), (''output_import'', PStr ''trusted_side''),
       (''evidence_tier'', PStr ''verified_backend'')]),
     (''source_identity'', PDict [(''kind'', PStr ''content-manifest-sha256''), (''source_file_sha256'', src_val m),
       (''sha256'', PStr demo_digest)]),
     (''source_manifest_sha256'', PStr demo_digest), (''command_sha256'', PStr demo_digest),
     (''config_sha256'', PStr demo_digest), (''environment_sha256'', PStr demo_digest), (''command'', PList [PStr ''run'']),
     (''outputs'', PList [PDict [(''kind'', PStr ''junit''), (''path'', PStr ''j'')],
       PDict [(''kind'', PStr ''stdout''), (''path'', PStr ''o'')]])]"

definition demo_test :: dict where
  "demo_test = [(''native_id'', PStr ''t''), (''path'', PStr ''t.py''), (''sha256'', PStr demo_digest),
     (''expected_failure_type'', PStr ''assertion''), (''expected_failure_message'', PStr ''1 != 2'')]"

definition demo_policy :: pyval where
  "demo_policy = PDict [(''mode'', PStr ''required-untrusted''),
     (''source_identity'', PDict [(''source_file_sha256'', src_val demo_after), (''sha256'', PStr demo_digest)])]"

definition demo_request :: dict where
  "demo_request = [(''bug_id'', PStr ''B''), (''run_id'', PStr ''R''), (''target_root'', PStr ''/t''),
     (''command'', PList [PStr ''run'']), (''before_execution_policy'', demo_policy),
     (''after_execution_policy'', demo_policy), (''test'', PDict demo_test), (''deadline_epoch'', PInt 5),
     (''junit_path'', PStr ''j.xml''), (''source_file_sha256'', src_val demo_after),
     (''intended_source_files'', PList [PStr ''app.py'']),
     (''review_source_file_sha256'', PDict [(''app.py'', PStr demo_old)]),
     (''review_source_manifest_sha256'', PStr demo_digest),
     (''suite_receipt'', PDict [(''immutable_path'', PStr ''s''), (''immutable_sha256'', PStr demo_digest)])]"

definition demo_before_record :: dict where
  "demo_before_record = [(''source_file_sha256'', src_val demo_before), (''exit_code'', PInt 1),
     (''test_outcome'', PDict [(''native_id'', PStr ''t''), (''status'', PStr ''failure''),
       (''failure_type'', PStr ''assertion''), (''message'', PStr ''x: 1 != 2'')]),
     (''structured_report_path'', PStr ''j0''), (''structured_report_sha256'', PStr demo_digest),
     (''log_path'', PStr ''o0''), (''log_sha256'', PStr demo_digest), (''execution'', PDict (demo_execution demo_before 1))]"

definition demo_state :: pyval where
  "demo_state = PDict [(''request'', PDict demo_request), (''original_request_sha256'', PStr demo_digest),
     (''before'', PDict demo_before_record)]"

definition demo_suite :: dict where
  "demo_suite = [(''schema_version'', PInt 1), (''phase'', PStr ''verify''), (''run_id'', PStr ''R''),
     (''source_file_sha256'', src_val demo_after), (''source_manifest_sha256'', PStr demo_digest),
     (''checks'', PList [PDict [(''check'', PStr ''unit''), (''status'', PStr ''pass''),
       (''execution'', PDict (demo_execution demo_after 0)), (''command_sha256'', PStr demo_digest),
       (''config_sha256'', PStr demo_digest), (''environment_sha256'', PStr demo_digest)]]),
     (''proof_error'', PBool False), (''execution_policy_mode'', PStr ''required-untrusted''), (''regressions'', PList [])]"

definition demo_readback :: pyval where
  "demo_readback = PDict [(''analysis'', PDict
     [(''Config'', PDict [(''Entrypoint'', PList [PStr ''run'']), (''Cmd'', PList [])]),
      (''HostConfig'', PDict [(''Privileged'', PBool False), (''ReadonlyRootfs'', PBool True), (''NetworkMode'', PStr ''none'')]),
      (''NetworkSettings'', PDict [(''Networks'', PNone)]),
      (''Mounts'', PList [PDict [(''Destination'', PStr ''/workspace'')], PDict [(''Destination'', PStr ''/bugsweep-output'')]])])]"

definition demo_loads :: json_loads where
  "demo_loads s = (if s = ''s'' then Some (PDict demo_suite) else if s = ''rb'' then Some demo_readback
     else if s = ''P'' then Some demo_state else if s = ''Q'' then Some (PDict demo_request) else None)"

definition demo_world :: world where
  "demo_world = \<lparr>w_loads = demo_loads, w_srepr = (\<lambda>_. []), w_request = Some (Text ''Q''),
     w_tree = (\<lambda>_ p. Some p), w_tree_after = (\<lambda>_ p. Some p),
     w_execute = (\<lambda>_ _ _ _ _. Inr (PDict (demo_execution demo_after 0))), w_relative = Some, w_content = id,
     w_xml = (\<lambda>_. Some (Element ''testcase'' [(''name'', ''t'')] None [])), w_artifacts = Some,
     w_fresh = ''0'', w_run_name = ''R'', w_ledger_ok = True\<rparr>"

definition demo_store :: store where
  "demo_store = \<lparr>files = (\<lambda>p. if p = prestate_path ''B'' then Text ''P'' else Missing), ledger = []\<rparr>"

lemma demo_hash [simp]: "valid_hash (PStr demo_digest)" "valid_hash (PStr demo_old)" "demo_old \<noteq> demo_digest"
  "demo_digest \<noteq> demo_old"
  by code_simp+

lemma demo_host_simps [simp]: "canonical demo_host v = demo_digest" "h_sha demo_host s = demo_digest"
  "h_provider demo_host d m = Some []"
  by (simp_all add: demo_host_def canonical_def)

lemma demo_load: "load_requests demo_world demo_store ''post'' ''B'' = Inr (demo_state, PDict demo_request, PDict demo_request)"
  by code_simp


definition demo_job :: job where
  "demo_job = \<lparr>j_request = demo_request, j_root = ''/t'', j_command = [PStr ''run''],
     j_policy = (case demo_policy of PDict d \<Rightarrow> d | _ \<Rightarrow> []), j_deadline = PInt 5, j_test = demo_test,
     j_source = (case src_val demo_after of PDict d \<Rightarrow> d | _ \<Rightarrow> []), j_junit = ''j.xml''\<rparr>"

lemma demo_job_of: "job_of ''post'' demo_request = Inr demo_job"
  by code_simp

lemma demo_sources: "job_sources demo_host demo_world ''post'' demo_job = Inr demo_after"
  by code_simp

lemma demo_check: "check_request demo_host demo_store ''post'' ''B'' (PDict demo_request) (PDict demo_request) =
    Inr demo_job"
  by code_simp

lemma demo_run: "run_job demo_host demo_world demo_job demo_after = Inr (demo_execution demo_after 0)"
  by code_simp


lemma demo_result:
  "\<not> nonfinite v \<Longrightarrow> \<exists>res. result_of demo_host v [] = Inr res \<and> pr_complete res \<and> pr_reasons res = []"
  by (cases v) (simp_all add: result_of_def canonical_sha256_def)

lemma demo_suite_of: "suite_of demo_host demo_world demo_request demo_after = Inr (''s'', demo_digest)"
proof -
  have "suite_reasons demo_host demo_suite (PStr ''R'') (src_val demo_after) ''verify'' = []"
    by code_simp
  moreover have "\<not> nonfinite (PDict demo_suite)" by code_simp
  ultimately obtain res where "validate_suite_receipt demo_host (PDict demo_suite) (PStr ''R'') (src_val demo_after) ''verify'' = Inr res"
      "pr_complete res"
    using demo_result by (fastforce simp: validate_suite_receipt_def fromkeys_def)
  then show ?thesis
    by (simp add: suite_of_def demo_request_def getv_def dict_get_def demo_world_def demo_loads_def)
qed

definition demo_record :: dict where
  "demo_record = [(''source_file_sha256'', src_val demo_after), (''exit_code'', PInt 0),
     (''test_outcome'', PDict [(''native_id'', PStr ''t''), (''status'', PStr ''pass''),
       (''failure_type'', PNone), (''message'', PNone)]),
     (''structured_report_path'', PStr ''j''), (''structured_report_sha256'', PStr demo_digest),
     (''log_path'', PStr ''o''), (''log_sha256'', PStr demo_digest), (''execution'', PDict (demo_execution demo_after 0))]"

lemma demo_phase: "\<exists>parsed outcome. phase_record demo_host demo_world demo_job demo_after (demo_execution demo_after 0) =
    Inr (parsed, outcome, demo_record)"
proof -
  have "case phase_record demo_host demo_world demo_job demo_after (demo_execution demo_after 0) of
      Inr (p, outcome, rd) \<Rightarrow> rd = demo_record | Inl _ \<Rightarrow> False"
    by code_simp
  then show ?thesis by (auto split: sum.splits)
qed

definition demo_receipt :: dict where
  "demo_receipt = post_receipt demo_host ''B'' demo_job demo_state (demo_execution demo_before 1) demo_after
     (''s'', demo_digest) demo_record demo_digest"

lemma demo_receipt_reasons:
  "header_reasons demo_host demo_receipt (PStr ''R'') (PStr ''B'') (src_val demo_after) = Inr []"
  "test_reasons demo_host demo_receipt demo_test = []"
  "phase_reasons demo_host demo_receipt demo_test ''before'' ''failure'' demo_before_record = Inr []"
  "phase_reasons demo_host demo_receipt demo_test ''after'' ''pass'' demo_record = Inr []"
  "change_reasons demo_receipt demo_test demo_before_record demo_record (src_val demo_after) = []"
  by code_simp+

lemma demo_receipt_valid:
  "\<exists>res. validate_fix_proof demo_host (PDict demo_receipt) (PStr ''R'') (PStr ''B'') (src_val demo_after) = Inr res \<and>
    pr_reasons res = []"
proof -
  have fields: "getv demo_receipt ''test'' = PDict demo_test" "getv demo_receipt ''before'' = PDict demo_before_record"
    "getv demo_receipt ''after'' = PDict demo_record"
    by (simp_all add: demo_receipt_def post_receipt_def demo_job_def demo_state_def DIGEST_KEYS_def getv_def dict_get_def)
  have "\<not> nonfinite (PDict demo_receipt)" by code_simp
  then show ?thesis
    using demo_result [of "PDict demo_receipt"]
    by (auto simp: validate_fix_proof_def demo_receipt_reasons fields fromkeys_def)
qed

lemma demo_artifacts: "validate_artifact_digests demo_host demo_loads Some demo_receipt = Inr []"
  by code_simp

lemma demo_confirmed: "fst (run_repro demo_host demo_world demo_store ''post'' ''B'') = Inr (''REPRO=confirmed'', 0)"
proof -
  obtain parsed outcome where ph:
    "phase_record demo_host demo_world demo_job demo_after (demo_execution demo_after 0) = Inr (parsed, outcome, demo_record)"
    using demo_phase by blast
  have state: "bind_res (subscript demo_state ''before'') (\<lambda>b. bind_res (subscript b ''execution'') (\<lambda>e.
      case e of PDict d \<Rightarrow> Inr d | _ \<Rightarrow> Inl AttributeError)) = Inr (demo_execution demo_before 1)"
    by code_simp
  have "\<not> nonfinite (PDict demo_request)" by code_simp
  then have sha: "canonical_sha256 demo_host (PDict demo_request) = Inr demo_digest"
    by (simp add: canonical_sha256_def)
  have job: "j_request demo_job = demo_request" "getv demo_request ''run_id'' = PStr ''R''"
    by (simp_all add: demo_job_def demo_request_def getv_def dict_get_def)
  have w: "w_loads demo_world = demo_loads" "w_artifacts demo_world = Some" by (simp_all add: demo_world_def)
  have "e_result (end_post demo_host demo_world ''B'' demo_state demo_job demo_after demo_record) = Inr (''REPRO=confirmed'', 0)"
    using demo_receipt_valid demo_artifacts
    by (auto simp: end_post_def or_stop_def job demo_suite_of state sha w Let_def simp flip: demo_receipt_def)
  then have "e_result (repro_ending demo_host demo_world demo_store ''post'' ''B'') = Inr (''REPRO=confirmed'', 0)"
    by (simp add: repro_ending_def or_stop_def demo_load demo_check demo_sources demo_run ph)
  moreover have "\<not> contains ''B'' ''..''" by code_simp
  ultimately show ?thesis by (simp add: run_repro_def PHASES_def Let_def)
qed

lemma confirmed_means_fixed_witness:
  "\<exists>receipt m. files (snd (run_repro demo_host demo_world demo_store ''post'' ''B'')) (proof_path ''B'') =
      Text (dumped demo_host (PDict receipt)) \<and> confirmed_fix demo_host receipt ''B'' m"
  using confirmed_means_fixed [OF demo_confirmed] by blast

definition demo_final :: store where
  "demo_final = \<lparr>files = (\<lambda>p. if p = proof_path ''B'' then Text ''verified'' else Missing), ledger = []\<rparr>"

lemma demo_final_simps [simp]: "files demo_final (proof_path ''B'') = Text ''verified''"
  "\<not> contains ''B'' ''..''"
  by (simp add: demo_final_def) code_simp

lemma final_proof_immutable_witness:
  "files (snd (run_repro demo_host demo_world demo_final ''reverify'' ''B'')) (proof_path ''B'') = Text ''verified'' \<and>
   snd (run_repro demo_host demo_world demo_final ''post'' ''B'') = demo_final"
proof -
  have "proof_path ''B'' \<noteq> reverified_path demo_world ''B''" using reverified_path_ne by metis
  with final_proof_immutable [of "''post''" "''B''" demo_final demo_world demo_host]
    final_proof_immutable [of "''reverify''" "''B''" demo_final demo_world demo_host]
  show ?thesis by simp
qed

lemma pre_replaces_final_proof_witness:
  "files (snd (run_repro demo_host (demo_world\<lparr>w_request := None\<rparr>) demo_final ''pre'' ''B'')) (proof_path ''B'') =
     Text (dumped demo_host (proof_error_value demo_world ''B'' [''legacy_raw_command'']))"
  using pre_replaces_final_proof [of "''B''" "demo_world\<lparr>w_request := None\<rparr>" demo_host demo_final]
  by (simp add: proof_error_value_def)


definition demo_reverified :: dict where
  "demo_reverified = AList.update ''original_fix_commit'' (PStr (replicate 40 (CHR ''c'')))
     (reverified_receipt demo_host ''B'' demo_job demo_receipt (demo_execution demo_after 0) demo_after
       (''s'', demo_digest) demo_record demo_digest)"

lemma demo_reverified_reasons:
  "reverified_header demo_host demo_reverified demo_receipt demo_digest (PStr ''R'') ''B'' = []"
  "final_source_reasons demo_host demo_reverified (source_map (src_val demo_after)) = []"
  "py_eq (getv demo_reverified ''test'') (getv demo_receipt ''test'')"
  "reverified_after demo_host demo_reverified demo_receipt (source_map (src_val demo_after)) = []"
  "suite_binding_reasons demo_reverified = []"
  by code_simp+

lemma demo_reverified_valid:
  "\<exists>res. validate_fix_reverification demo_host (PDict demo_reverified) (PDict demo_receipt) (PStr ''R'') ''B''
     (src_val demo_after) = Inr res \<and> pr_complete res"
proof -
  have "opt_src_val (original_sources demo_receipt) = src_val demo_after" by code_simp
  then obtain res0 where res0: "validate_fix_proof demo_host (PDict demo_receipt) (PStr ''R'') (PStr ''B'')
      (opt_src_val (original_sources demo_receipt)) = Inr res0" "pr_complete res0"
    using demo_receipt_valid result_reasons by metis
  have "\<not> nonfinite (PDict demo_receipt)" by code_simp
  then have sha: "canonical_sha256 demo_host (PDict demo_receipt) = Inr demo_digest"
    by (simp add: canonical_sha256_def)
  have "\<not> nonfinite (PDict demo_reverified)" by code_simp
  from demo_result [OF this] obtain res where "result_of demo_host (PDict demo_reverified) [] = Inr res" "pr_complete res"
    by blast
  then show ?thesis
    by (simp add: validate_fix_reverification_def res0 sha demo_reverified_reasons fromkeys_def flag_def)
qed

lemma reverification_sound_witness:
  "\<exists>e c. accepted_execution demo_host (PDict e) c \<and> source_map (src_val demo_after) = Some c \<and>
     (\<forall>k\<in>set DIGEST_KEYS. getv e k = getv demo_receipt k)"
proof -
  obtain res where res: "validate_fix_reverification demo_host (PDict demo_reverified) (PDict demo_receipt) (PStr ''R'') ''B''
      (src_val demo_after) = Inr res" "pr_complete res"
    using demo_reverified_valid by blast
  from reverification_sound [OF res] show ?thesis by blast
qed

end
