(* ===== verification/Suite_Run.thy ===== *)
theory Suite_Run
  imports Fix_Repro
begin

text \<open>
  \<open>_check_record\<close>, \<open>_run_checks\<close> and \<open>_main\<close> of \<^verbatim>\<open>scripts/_proof.py\<close>: running the frozen checks of a plan
  through the execution provider, writing the baseline or the verification receipt, and comparing the two.

  The outside is a record: \<open>json.loads\<close>, the target tree at every moment it is read (at the start, and
  before, after and once more after the execution of each check), \<open>run_command\<close> (by the index of the check), the
  report files by path, and the fresh identifier.
\<close>

record suite_world =
  sw_loads :: json_loads
  sw_srepr :: "pyval \<Rightarrow> string"
  sw_tree :: "string \<Rightarrow> string \<Rightarrow> string option"
  sw_tree_before :: "nat \<Rightarrow> string \<Rightarrow> string \<Rightarrow> string option"
  sw_tree_after :: "nat \<Rightarrow> string \<Rightarrow> string \<Rightarrow> string option"
  sw_tree_last :: "nat \<Rightarrow> string \<Rightarrow> string \<Rightarrow> string option"
  sw_execute :: "nat \<Rightarrow> pyval list \<Rightarrow> string \<Rightarrow> pyval \<Rightarrow> dict \<Rightarrow> pyval \<Rightarrow> string + dict"
  sw_report :: "string \<Rightarrow> element option \<times> string"
  sw_fresh :: string

subsection \<open>One check\<close>

definition error_record :: "string \<Rightarrow> string \<Rightarrow> dict" where
  "error_record name reason =
     [(''check'', PStr name), (''status'', PStr ''proof_error''), (''reason'', PStr reason)]"

definition set_error :: "string \<Rightarrow> dict \<Rightarrow> dict" where
  "set_error reason r =
     AList.update ''reason'' (PStr reason) (AList.update ''status'' (PStr ''proof_error'') r)"

definition base_record :: "string \<Rightarrow> dict \<Rightarrow> dict" where
  "base_record name e =
     [(''check'', PStr name),
      (''status'', PStr (if getv e ''termination'' \<noteq> PStr ''exited'' then ''proof_error''
         else if py_eq (getv e ''exit_code'') (PInt 0) then ''pass'' else ''fail''))] @
     map (\<lambda>k. (k, getv e k)) DIGEST_KEYS @ [(''execution'', PDict e)]"

text \<open>The sources are read again after the execution, and once more to compare.\<close>

definition trusted_record :: "host \<Rightarrow> suite_world \<Rightarrow> nat \<Rightarrow> string \<Rightarrow> dict \<Rightarrow> dict \<Rightarrow> dict \<Rightarrow> dict" where
  "trusted_record h w i target source e r = (case digest_sources h (sw_tree_after w i target) source of
       None \<Rightarrow> set_error (execution_reason (PDict e)) r
     | Some m \<Rightarrow>
         if \<not> trusted_execution h (PDict e) m then set_error (execution_reason (PDict e)) r
         else if digest_sources h (sw_tree_last w i target) (map (\<lambda>(p, x). (p, PStr x)) m) \<noteq> Some m
           then set_error ''source_changed_during_execution'' r
         else r)"

definition parsed_report :: "suite_world \<Rightarrow> dict \<Rightarrow> value_error + dict" where
  "parsed_report w e = bind_res (receipt_output e ''junit'') (\<lambda>p. Inr (case p of
       Some path \<Rightarrow> if path \<noteq> [] then (case sw_report w path of (tree, sha) \<Rightarrow> parse_junit tree sha)
                   else [(''status'', PStr ''proof_error''), (''reasons'', PList [PStr ''missing_junit''])]
     | None \<Rightarrow> [(''status'', PStr ''proof_error''), (''reasons'', PList [PStr ''missing_junit''])]))"

definition any_bad_test :: "dict \<Rightarrow> bool" where
  "any_bad_test parsed = list_ex (\<lambda>(i, v). v = PStr ''failure'' \<or> v = PStr ''error'') (tests_of parsed)"

definition with_report :: "dict \<Rightarrow> dict \<Rightarrow> dict" where
  "with_report parsed r =
     (let r' = r @ [(''tests'', dict_get parsed ''tests'' (PDict [])), (''test_details'', dict_get parsed ''details'' (PDict [])),
                    (''structured_status'', getv parsed ''status'')]
      in if getv parsed ''status'' = PStr ''proof_error'' \<or> getv r ''status'' = PStr ''pass'' \<and> any_bad_test parsed
         then set_error ''structured_result_error'' r' else r')"

definition executed_record ::
    "host \<Rightarrow> suite_world \<Rightarrow> nat \<Rightarrow> string \<Rightarrow> dict \<Rightarrow> dict \<Rightarrow> string \<Rightarrow> dict \<Rightarrow> value_error + dict" where
  "executed_record h w i target source entry name e =
     (let r = trusted_record h w i target source e (base_record name e) in
      if is_str (getv entry ''junit_path'') then bind_res (parsed_report w e) (\<lambda>parsed. Inr (with_report parsed r))
      else Inr r)"

definition run_check ::
    "host \<Rightarrow> suite_world \<Rightarrow> dict \<Rightarrow> dict \<Rightarrow> nat \<Rightarrow> string \<Rightarrow> pyval list \<Rightarrow> string \<Rightarrow> dict \<Rightarrow> dict \<Rightarrow> value_error + dict" where
  "run_check h w request entry i name command target policy source =
     (case digest_sources h (sw_tree_before w i target) source of
        None \<Rightarrow> Inr (error_record name ''missing_source_digests'')
      | Some m \<Rightarrow> bind_res (to_float (getv request ''deadline_epoch'')) (\<lambda>deadline.
          if \<not> policy_for_source h policy m then Inr (error_record name ''execution_error:ValueError'')
          else (case sw_execute w i command target deadline policy (getv entry ''junit_path'') of
              Inl exc \<Rightarrow> Inr (error_record name (''execution_error:'' @ exc))
            | Inr e \<Rightarrow> executed_record h w i target source entry name e)))"

definition check_record :: "host \<Rightarrow> suite_world \<Rightarrow> dict \<Rightarrow> dict \<Rightarrow> dict \<Rightarrow> nat \<Rightarrow> value_error + dict" where
  "check_record h w request source entry i = (case (getv entry ''name'', getv entry ''command'') of
       (PStr name, PList command) \<Rightarrow>
         if name = [] then Inr (error_record (nat_str i) ''malformed_check_plan'')
         else (case (getv request ''target_root'', getv request ''execution_policy'') of
             (PStr target, PDict policy) \<Rightarrow>
               if is_number (getv request ''deadline_epoch'')
               then run_check h w request entry i name command target policy source
               else Inr (error_record name ''missing_execution_policy'')
           | _ \<Rightarrow> Inr (error_record name ''missing_execution_policy''))
     | (nm, _) \<Rightarrow> Inr (error_record (if truthy nm then py_str (sw_srepr w) nm else nat_str i) ''malformed_check_plan''))"

fun all_records :: "host \<Rightarrow> suite_world \<Rightarrow> dict \<Rightarrow> dict \<Rightarrow> nat \<Rightarrow> pyval list \<Rightarrow> value_error + dict list" where
  "all_records h w request source i [] = Inr []"
| "all_records h w request source i (entry # es) =
     bind_res (case entry of PDict d \<Rightarrow> check_record h w request source d i
               | _ \<Rightarrow> Inr (error_record (nat_str i) ''malformed_check_plan'')) (\<lambda>r.
     bind_res (all_records h w request source (Suc i) es) (\<lambda>rs. Inr (r # rs)))"

subsection \<open>The comparison with the baseline\<close>

definition is_error :: "dict \<Rightarrow> bool" where
  "is_error r \<longleftrightarrow> getv r ''status'' = PStr ''proof_error''"

definition listed :: "pyval \<Rightarrow> string list" where
  "listed v = (case v of PList xs \<Rightarrow> map str_of xs | _ \<Rightarrow> [])"

text \<open>The loop: regressions and whether some check could not be compared.\<close>

fun compare_records :: "dict list \<Rightarrow> dict list \<Rightarrow> value_error + string list \<times> bool" where
  "compare_records before [] = Inr ([], False)"
| "compare_records before (r # rs) =
     (case find (\<lambda>o'. getv o' ''check'' = getv r ''check'') before of
        None \<Rightarrow> bind_res (compare_records before rs) (\<lambda>(regs, err). Inr (regs, True))
      | Some old \<Rightarrow> bind_res (compare_check_results old r) (\<lambda>c.
          bind_res (compare_records before rs) (\<lambda>(regs, err).
            Inr (listed (getv c ''regressions'') @ regs, is_error c \<or> is_error r \<or> err))))"

subsection \<open>The receipt and its files\<close>

record suite_head =
  sh_phase :: string
  sh_run :: pyval
  sh_plan :: string
  sh_current :: "(string \<times> string) list"
  sh_records :: "dict list"
  sh_mode :: pyval

definition suite_receipt :: "host \<Rightarrow> suite_head \<Rightarrow> string list \<Rightarrow> bool \<Rightarrow> string list \<Rightarrow> dict" where
  "suite_receipt h sh regressions err errors =
     [(''schema_version'', PInt 1), (''run_id'', sh_run sh), (''phase'', PStr (sh_phase sh)),
      (''plan_sha256'', PStr (sh_plan sh)), (''source_file_sha256'', src_val (sh_current sh)),
      (''source_manifest_sha256'', PStr (canonical h (src_val (sh_current sh)))),
      (''checks'', PList (map PDict (sh_records sh))), (''regressions'', PList (map PStr regressions)),
      (''proof_error'', PBool err), (''proof_errors'', PList (map PStr errors)), (''execution_policy_mode'', sh_mode sh)]"

definition immutable_path :: "suite_world \<Rightarrow> string \<Rightarrow> string" where
  "immutable_path w phase = ''check-results/'' @ phase @ ''-'' @ sw_fresh w @ ''.json''"

definition destination :: "string \<Rightarrow> string" where
  "destination phase = (if phase = ''baseline'' then ''baseline.json'' else ''check-results-verify.json'')"

text \<open>\<open>persist\<close>: the receipt, and the same receipt with the path and the digest of the first file.\<close>

definition persist :: "host \<Rightarrow> suite_world \<Rightarrow> string \<Rightarrow> dict \<Rightarrow> (string \<times> pyval) list" where
  "persist h w phase receipt =
     [(immutable_path w phase, PDict receipt),
      (destination phase, PDict (receipt @ [(''immutable_path'', PStr (immutable_path w phase)),
         (''immutable_sha256'', PStr (h_sha h (dumped h (PDict receipt))))]))]"

definition SUITE_ERROR :: "string \<times> nat" where
  "SUITE_ERROR = (''PROOF_ERROR'', 1)"

definition end_baseline :: "host \<Rightarrow> suite_world \<Rightarrow> suite_head \<Rightarrow> ending" where
  "end_baseline h w sh =
     (let errs = validate_check_names (sh_records sh);
          err = (errs \<noteq> [] \<or> list_ex is_error (sh_records sh))
      in ended (persist h w (sh_phase sh) (suite_receipt h sh [] err errs)) []
           (if err then SUITE_ERROR
            else (''BASELINE_OVERALL='' @ nat_str (length (filter (\<lambda>r. getv r ''status'' \<noteq> PStr ''pass'') (sh_records sh))), 0)))"

definition mappings :: "pyval list \<Rightarrow> dict list" where
  "mappings xs = List.map_filter (\<lambda>x. case x of PDict d \<Rightarrow> Some d | _ \<Rightarrow> None) xs"

definition names_of :: "dict list \<Rightarrow> pyval set" where
  "names_of rs = set (map (\<lambda>r. getv r ''check'') rs)"

definition end_compared :: "host \<Rightarrow> suite_world \<Rightarrow> suite_head \<Rightarrow> dict list \<Rightarrow> ending" where
  "end_compared h w sh before =
     (let errs = validate_check_names (sh_records sh) @ validate_check_names before in
      if errs \<noteq> [] then ended (persist h w (sh_phase sh) (suite_receipt h sh [] True errs)) [] SUITE_ERROR
      else or_stop (escaping (compare_records before (sh_records sh))) (\<lambda>(regs, err0).
        let err = (err0 \<or> names_of before \<noteq> names_of (sh_records sh)) in
        ended (persist h w (sh_phase sh) (suite_receipt h sh (sort (remdups regs)) err [])) []
          (if err then SUITE_ERROR else if regs \<noteq> [] then (''REGRESSION'', 1) else (''OK'', 0))))"

definition end_verify :: "host \<Rightarrow> suite_world \<Rightarrow> suite_head \<Rightarrow> text_file \<Rightarrow> ending" where
  "end_verify h w sh baseline = (case baseline of
       Undecodable_Text \<Rightarrow> stopped (Raised ValueError)
     | _ \<Rightarrow> (case read_doc (sw_loads w) baseline of
         None \<Rightarrow> ended [] [] SUITE_ERROR
       | Some v \<Rightarrow> or_stop (escaping (get_attr v ''plan_sha256'')) (\<lambda>plan.
           if plan \<noteq> PStr (sh_plan sh)
           then ended (persist h w (sh_phase sh) (suite_receipt h sh [] True [''stable_check_plan_mismatch''])) [] SUITE_ERROR
           else or_stop (escaping (py_iter (case v of PDict b \<Rightarrow> dict_get b ''checks'' (PList []) | _ \<Rightarrow> PNone))) (\<lambda>cs.
             end_compared h w sh (mappings cs)))))"

definition with_writes :: "(string \<times> pyval) list \<Rightarrow> ending \<Rightarrow> ending" where
  "with_writes ws e = e\<lparr>e_writes := ws @ e_writes e\<rparr>"

definition suite_ending :: "host \<Rightarrow> suite_world \<Rightarrow> store \<Rightarrow> string \<Rightarrow> dict \<Rightarrow> dict \<Rightarrow> pyval list \<Rightarrow> (string \<times> string) list \<Rightarrow> ending" where
  "suite_ending h w s phase request source entries current =
     or_stop (escaping (all_records h w request source 0 entries)) (\<lambda>records.
     or_stop (escaping (canonical_sha256 h (stable_check_plan request))) (\<lambda>plan.
     let sh = \<lparr>sh_phase = phase, sh_run = getv request ''run_id'', sh_plan = plan, sh_current = current,
       sh_records = records, sh_mode = (case getv request ''execution_policy'' of PDict p \<Rightarrow> getv p ''mode'' | _ \<Rightarrow> PNone)\<rparr> in
     if phase = ''baseline'' then end_baseline h w sh
     else with_writes [(''source-digests.json'', src_val current)] (end_verify h w sh (files s ''baseline.json''))))"

definition checks_ending :: "host \<Rightarrow> suite_world \<Rightarrow> store \<Rightarrow> string \<Rightarrow> ending" where
  "checks_ending h w s phase = (case files s ''check-plan.json'' of
       Undecodable_Text \<Rightarrow> stopped (Raised ValueError)
     | f \<Rightarrow> (case read_doc (sw_loads w) f of
         Some (PDict request) \<Rightarrow>
           (case (getv request ''checks'', getv request ''target_root'', getv request ''source_file_sha256'') of
              (PList (e # es), PStr target, PDict source) \<Rightarrow>
                (case digest_sources h (sw_tree w target) source of
                   None \<Rightarrow> ended [] [] SUITE_ERROR
                 | Some current \<Rightarrow> suite_ending h w s phase request source (e # es) current)
            | _ \<Rightarrow> ended [] [] SUITE_ERROR)
       | _ \<Rightarrow> ended [] [] SUITE_ERROR))"

definition run_checks :: "host \<Rightarrow> suite_world \<Rightarrow> store \<Rightarrow> string \<Rightarrow> (value_error + string \<times> nat) \<times> store" where
  "run_checks h w s phase =
     (let e = checks_ending h w s phase; s' = written h s (e_writes e) (e_ledger e) in
      (case e_result e of Inr r \<Rightarrow> Inr r | Inl (Raised x) \<Rightarrow> Inl x | Inl (Fail rs) \<Rightarrow> Inr SUITE_ERROR, s'))"

subsection \<open>The command line\<close>

text \<open>
  \<open>_main\<close> on a final proof receipt: the validator's reasons with those of the declared artifacts.  A
  missing or malformed file is \<open>None\<close>, a text that is not UTF-8 escapes.
\<close>

definition main_validate ::
    "host \<Rightarrow> json_loads \<Rightarrow> artifacts \<Rightarrow> text_file \<Rightarrow> string \<Rightarrow> string \<Rightarrow> text_file \<Rightarrow> value_error + bool \<times> string list" where
  "main_validate h loads art receipt_file run bug current_file =
     (if receipt_file = Undecodable_Text then Inl ValueError
      else case read_doc loads receipt_file of
        None \<Rightarrow> Inr (False, [''read_error''])
      | Some receipt \<Rightarrow>
          if current_file = Undecodable_Text then Inl ValueError
          else (case read_doc loads current_file of
              None \<Rightarrow> Inr (False, [''read_error''])
            | Some current \<Rightarrow>
                bind_res (validate_fix_proof h receipt (PStr run) (PStr bug) current) (\<lambda>res.
                bind_res (case receipt of PDict d \<Rightarrow> validate_artifact_digests h loads art d | _ \<Rightarrow> Inr []) (\<lambda>arts.
                  Inr (pr_complete res \<and> arts = [],
                       if arts = [] then pr_reasons res else fromkeys (pr_reasons res @ arts))))))"

subsection \<open>What a comparison that succeeds means\<close>

lemma compare_records_Inr:
  assumes "compare_records before rs = Inr ([], False)" and "r \<in> set rs"
  shows "\<exists>old\<in>set before. getv old ''check'' = getv r ''check'' \<and> \<not> is_error r \<and>
    (\<exists>c. compare_check_results old r = Inr c \<and> \<not> is_error c \<and> listed (getv c ''regressions'') = [])"
  using assms
proof (induction before rs rule: compare_records.induct)
  case (2 before q rs)
  obtain old where old: "find (\<lambda>o'. getv o' ''check'' = getv q ''check'') before = Some old"
    using 2 (3) by (auto simp: bind_res_Inr_iff split: option.splits prod.splits)
  then have mem: "old \<in> set before" "getv old ''check'' = getv q ''check''"
    by (auto simp: find_Some_iff)
  obtain c where c: "compare_check_results old q = Inr c" "compare_records before rs = Inr ([], False)"
      "listed (getv c ''regressions'') = []" "\<not> is_error c" "\<not> is_error q"
    using 2 (3) by (auto simp: old bind_res_Inr_iff split: prod.splits)
  show ?case
  proof (cases "r = q")
    case True
    with mem c show ?thesis by blast
  next
    case False
    with 2 (4) have "r \<in> set rs" by simp
    with 2 (2) [OF old c(2)] show ?thesis by blast
  qed
qed simp


lemma with_writes_simps [simp]: "e_result (with_writes ws e) = e_result e" "e_writes (with_writes ws e) = ws @ e_writes e"
  by (simp_all add: with_writes_def)

lemma or_stop_Inr [simp]: "or_stop (Inr x) f = f x"
  by (simp add: or_stop_def)

text \<open>What the plan and the files gave a verification that ends in \<open>OK\<close>.\<close>

lemma end_compared_OK:
  assumes "e_result (end_compared h w sh before) = Inr (''OK'', 0)"
  shows "validate_check_names (sh_records sh) = []" and "validate_check_names before = []"
    and "compare_records before (sh_records sh) = Inr ([], False)" and "names_of before = names_of (sh_records sh)"
    and "e_writes (end_compared h w sh before) = persist h w (sh_phase sh) (suite_receipt h sh [] False [])"
proof -
  have names: "validate_check_names (sh_records sh) = []" "validate_check_names before = []"
    using assms by (auto simp: end_compared_def Let_def SUITE_ERROR_def split: if_splits)
  obtain regs err0 where c: "compare_records before (sh_records sh) = Inr (regs, err0)"
    using assms names by (auto simp: end_compared_def Let_def or_stop_result)
  have "regs = [] \<and> \<not> err0 \<and> names_of before = names_of (sh_records sh)"
    using assms names c by (auto simp: end_compared_def Let_def SUITE_ERROR_def split: if_splits)
  with names c show "validate_check_names (sh_records sh) = []" "validate_check_names before = []"
    "compare_records before (sh_records sh) = Inr ([], False)" "names_of before = names_of (sh_records sh)"
    "e_writes (end_compared h w sh before) = persist h w (sh_phase sh) (suite_receipt h sh [] False [])"
    by (simp_all add: end_compared_def Let_def)
qed

lemma end_verify_OK:
  assumes "e_result (end_verify h w sh f) = Inr (''OK'', 0)"
  obtains b cs where "read_doc (sw_loads w) f = Some (PDict b)" and "getv b ''plan_sha256'' = PStr (sh_plan sh)"
    and "py_iter (dict_get b ''checks'' (PList [])) = Inr cs"
    and "end_verify h w sh f = end_compared h w sh (mappings cs)"
proof -
  obtain v where v: "read_doc (sw_loads w) f = Some v" "f \<noteq> Undecodable_Text"
    using assms by (cases f) (auto simp: end_verify_def SUITE_ERROR_def split: option.splits)
  have step: "end_verify h w sh f = or_stop (escaping (get_attr v ''plan_sha256'')) (\<lambda>plan.
      if plan \<noteq> PStr (sh_plan sh)
      then ended (persist h w (sh_phase sh) (suite_receipt h sh [] True [''stable_check_plan_mismatch''])) [] SUITE_ERROR
      else or_stop (escaping (py_iter (case v of PDict b \<Rightarrow> dict_get b ''checks'' (PList []) | _ \<Rightarrow> PNone))) (\<lambda>cs.
        end_compared h w sh (mappings cs)))"
    using v by (cases f) (simp_all add: end_verify_def)
  obtain b where b: "v = PDict b"
    using assms unfolding step by (cases v) (auto simp: or_stop_result get_attr_def)
  have plan: "getv b ''plan_sha256'' = PStr (sh_plan sh)"
    using assms unfolding step by (auto simp: or_stop_result get_attr_def b SUITE_ERROR_def split: if_splits)
  obtain cs where cs: "py_iter (dict_get b ''checks'' (PList [])) = Inr cs"
    using assms unfolding step by (auto simp: or_stop_result get_attr_def b plan)
  show thesis
    using that [OF v(1) [unfolded b] plan cs] unfolding step by (simp add: get_attr_def b plan cs)
qed

definition clean_check :: "dict \<Rightarrow> dict \<Rightarrow> bool" where
  "clean_check old r \<longleftrightarrow> getv old ''check'' = getv r ''check'' \<and> \<not> is_error old \<and> \<not> is_error r \<and>
     (has_tests old \<and> has_tests r \<longrightarrow> (\<forall>t. \<not> regressed (tests_of old) (tests_of r) t))"

lemma compared_clean:
  assumes "compare_check_results old r = Inr c" and "\<not> is_error c" and "listed (getv c ''regressions'') = []"
    and "getv old ''check'' = getv r ''check''" and "\<not> is_error r"
  shows "clean_check old r"
proof -
  have "\<not> is_error old"
    using assms(1,2) by (auto simp: compare_check_results_def is_error_def comparison_error_def getv_def
      split: pyval.splits if_splits)
  moreover have "\<not> regressed (tests_of old) (tests_of r) t" if "has_tests old" "has_tests r" for t
  proof -
    obtain rs where "c = comparison_value rs" "set rs = {t. regressed (tests_of old) (tests_of r) t}"
      using compare_regressions [OF assms(1) assms(2) [unfolded is_error_def] \<open>has_tests old\<close> \<open>has_tests r\<close>] by metis
    with assms(3) have "{t. regressed (tests_of old) (tests_of r) t} = {}" by (simp add: listed_def)
    then show ?thesis by blast
  qed
  ultimately show ?thesis using assms(4,5) by (simp add: clean_check_def)
qed


lemma checks_ending_OK:
  assumes "e_result (checks_ending h w s ''verify'') = Inr (''OK'', 0)"
  obtains request entries target source current where
    "read_doc (sw_loads w) (files s ''check-plan.json'') = Some (PDict request)"
    and "getv request ''checks'' = PList entries" and "getv request ''target_root'' = PStr target"
    and "getv request ''source_file_sha256'' = PDict source"
    and "digest_sources h (sw_tree w target) source = Some current"
    and "checks_ending h w s ''verify'' = suite_ending h w s ''verify'' request source entries current"
proof -
  have neq: "SUITE_ERROR \<noteq> (''OK'', 0)" by (simp add: SUITE_ERROR_def)
  have readable: "files s ''check-plan.json'' \<noteq> Undecodable_Text"
    using assms by (auto simp: checks_ending_def)
  obtain request where r: "read_doc (sw_loads w) (files s ''check-plan.json'') = Some (PDict request)"
    using assms readable neq
    by (cases "files s ''check-plan.json''"; cases "read_doc (sw_loads w) (files s ''check-plan.json'')")
      (auto simp: checks_ending_def split: pyval.splits)
  have eq: "checks_ending h w s ''verify'' =
      (case (getv request ''checks'', getv request ''target_root'', getv request ''source_file_sha256'') of
         (PList (e # es), PStr target, PDict source) \<Rightarrow>
           (case digest_sources h (sw_tree w target) source of
              None \<Rightarrow> ended [] [] SUITE_ERROR
            | Some current \<Rightarrow> suite_ending h w s ''verify'' request source (e # es) current)
       | _ \<Rightarrow> ended [] [] SUITE_ERROR)"
    using readable r by (cases "files s ''check-plan.json''") (simp_all add: checks_ending_def)
  obtain e es where c: "getv request ''checks'' = PList (e # es)"
    using assms neq unfolding eq by (cases "getv request ''checks''") (auto split: list.splits)
  obtain target where t: "getv request ''target_root'' = PStr target"
    using assms neq unfolding eq by (cases "getv request ''target_root''") (auto simp: c)
  obtain source where s: "getv request ''source_file_sha256'' = PDict source"
    using assms neq unfolding eq by (cases "getv request ''source_file_sha256''") (auto simp: c t)
  obtain current where d: "digest_sources h (sw_tree w target) source = Some current"
    using assms neq unfolding eq by (cases "digest_sources h (sw_tree w target) source") (auto simp: c t s)
  show thesis using that [OF r c t s d] by (simp add: eq c t s d)
qed

lemma all_records_length: "all_records h w request source i es = Inr rs \<Longrightarrow> length rs = length es"
  by (induction es arbitrary: i rs) (auto simp: bind_res_Inr_iff)

text \<open>
  C9: When the suite gate prints \<open>OK\<close>, the plan is the one \<^verbatim>\<open>baseline.json\<close> was taken with, every check of
  the plan ran and is named once, the records listed in \<^verbatim>\<open>baseline.json\<close> have distinct names and exactly the
  same checks, every record matches one of them with neither an error nor, where both have test reports, a lost
  passing test or a new failing one; the receipt written for the tree that was digested says so: no regression and
  no proof error.
\<close>

theorem suite_ok_no_regression:
  assumes "fst (run_checks h w s ''verify'') = Inr (''OK'', 0)"
  shows "\<exists>request entries target source current records cs plan sh b.
    read_doc (sw_loads w) (files s ''check-plan.json'') = Some (PDict request) \<and>
    getv request ''checks'' = PList entries \<and> length records = length entries \<and>
    getv request ''target_root'' = PStr target \<and> digest_sources h (sw_tree w target) source = Some current \<and>
    all_records h w request source 0 entries = Inr records \<and>
    read_doc (sw_loads w) (files s ''baseline.json'') = Some (PDict b) \<and> getv b ''plan_sha256'' = PStr plan \<and>
    canonical_sha256 h (stable_check_plan request) = Inr plan \<and>
    distinct (map (\<lambda>r. getv r ''check'') records) \<and>
    py_iter (dict_get b ''checks'' (PList [])) = Inr cs \<and> distinct (map (\<lambda>r. getv r ''check'') (mappings cs)) \<and>
    names_of (mappings cs) = names_of records \<and>
    (\<forall>r\<in>set records. \<exists>old\<in>set (mappings cs). clean_check old r) \<and>
    sh_records sh = records \<and> sh_current sh = current \<and>
    (\<exists>pointer. files (snd (run_checks h w s ''verify'')) ''check-results-verify.json'' =
      Text (dumped h (PDict (suite_receipt h sh [] False [] @ pointer))))"
proof -
  have neq: "SUITE_ERROR \<noteq> (''OK'', 0)" by (simp add: SUITE_ERROR_def)
  have res: "e_result (checks_ending h w s ''verify'') = Inr (''OK'', 0)"
    using assms neq by (auto simp: run_checks_def Let_def split: sum.splits stop.splits)
  obtain request entries target source current where p:
    "read_doc (sw_loads w) (files s ''check-plan.json'') = Some (PDict request)"
    "getv request ''checks'' = PList entries" "getv request ''target_root'' = PStr target"
    "getv request ''source_file_sha256'' = PDict source"
    "digest_sources h (sw_tree w target) source = Some current"
    "checks_ending h w s ''verify'' = suite_ending h w s ''verify'' request source entries current"
    using res by (rule checks_ending_OK)
  obtain records plan where rp: "all_records h w request source 0 entries = Inr records"
      "canonical_sha256 h (stable_check_plan request) = Inr plan"
    using res by (auto simp: p(6) suite_ending_def or_stop_result)
  define sh where "sh = \<lparr>sh_phase = ''verify'', sh_run = getv request ''run_id'', sh_plan = plan, sh_current = current,
    sh_records = records, sh_mode = (case getv request ''execution_policy'' of PDict p \<Rightarrow> getv p ''mode'' | _ \<Rightarrow> PNone)\<rparr>"
  have eq: "checks_ending h w s ''verify'' =
      with_writes [(''source-digests.json'', src_val current)] (end_verify h w sh (files s ''baseline.json''))"
    by (simp add: p(6) suite_ending_def rp sh_def)
  have "e_result (end_verify h w sh (files s ''baseline.json'')) = Inr (''OK'', 0)" using res by (simp add: eq)
  then obtain b cs where b: "read_doc (sw_loads w) (files s ''baseline.json'') = Some (PDict b)"
      "getv b ''plan_sha256'' = PStr (sh_plan sh)"
      "end_verify h w sh (files s ''baseline.json'') = end_compared h w sh (mappings cs)"
      and cs: "py_iter (dict_get b ''checks'' (PList [])) = Inr cs"
    by (rule end_verify_OK)
  have cmp: "e_result (end_compared h w sh (mappings cs)) = Inr (''OK'', 0)" using res by (simp add: eq b(3))
  note ok = end_compared_OK [OF cmp]
  have fields: "sh_records sh = records" "sh_plan sh = plan" "sh_current sh = current" "sh_phase sh = ''verify''"
    by (simp_all add: sh_def)
  have clean: "\<exists>old\<in>set (mappings cs). clean_check old r" if "r \<in> set records" for r
    using compare_records_Inr [OF ok(3)] that compared_clean by (metis fields(1))
  have written: "\<exists>pointer. files (snd (run_checks h w s ''verify'')) ''check-results-verify.json'' =
      Text (dumped h (PDict (suite_receipt h sh [] False [] @ pointer)))"
    by (auto simp: run_checks_def Let_def eq b(3) ok(5) written_def persist_def destination_def fields)
  have "distinct (map (\<lambda>r. getv r ''check'') records)" "distinct (map (\<lambda>r. getv r ''check'') (mappings cs))"
    using ok(1,2) by (simp_all add: validate_check_names_Nil fields)
  with p rp b cs fields ok(4) clean written all_records_length [OF rp(1)] show ?thesis by metis
qed


subsection \<open>A suite that passes\<close>

definition suite_plan :: dict where
  "suite_plan = [(''run_id'', PStr ''R''), (''checks'', PList [PDict [(''name'', PStr ''unit''), (''command'', PList [PStr ''run''])]]),
     (''target_root'', PStr ''/t''), (''source_file_sha256'', src_val demo_after), (''execution_policy'', demo_policy),
     (''deadline_epoch'', PInt 5)]"

definition suite_baseline :: dict where
  "suite_baseline = [(''plan_sha256'', PStr demo_digest),
     (''checks'', PList [PDict [(''check'', PStr ''unit''), (''status'', PStr ''pass'')]])]"

definition suite_demo :: suite_world where
  "suite_demo = \<lparr>sw_loads = (\<lambda>s. if s = ''p'' then Some (PDict suite_plan) else Some (PDict suite_baseline)),
     sw_srepr = (\<lambda>_. []), sw_tree = (\<lambda>_ p. Some p), sw_tree_before = (\<lambda>_ _ p. Some p),
     sw_tree_after = (\<lambda>_ _ p. Some p), sw_tree_last = (\<lambda>_ _ p. Some p),
     sw_execute = (\<lambda>_ _ _ _ _ _. Inr (demo_execution demo_after 0)), sw_report = (\<lambda>_. (None, [])), sw_fresh = ''0''\<rparr>"

definition suite_store :: store where
  "suite_store = \<lparr>files = (\<lambda>p. if p = ''check-plan.json'' then Text ''p'' else if p = ''baseline.json'' then Text ''b'' else Missing),
     ledger = []\<rparr>"

definition suite_record :: dict where
  "suite_record = base_record ''unit'' (demo_execution demo_after 0)"

lemma suite_demo_records:
  "all_records demo_host suite_demo suite_plan (case src_val demo_after of PDict d \<Rightarrow> d | _ \<Rightarrow> []) 0
     [PDict [(''name'', PStr ''unit''), (''command'', PList [PStr ''run''])]] = Inr [suite_record]"
  by code_simp

lemma suite_demo_compare:
  "compare_records [[(''check'', PStr ''unit''), (''status'', PStr ''pass'')]] [suite_record] = Inr ([], False)"
  "validate_check_names [suite_record] = []" "validate_check_names [[(''check'', PStr ''unit''), (''status'', PStr ''pass'')]] = []"
  by code_simp+

lemma suite_demo_OK: "fst (run_checks demo_host suite_demo suite_store ''verify'') = Inr (''OK'', 0)"
proof -
  have "\<not> nonfinite (stable_check_plan suite_plan)" by code_simp
  then have plan: "canonical_sha256 demo_host (stable_check_plan suite_plan) = Inr demo_digest"
    by (simp add: canonical_sha256_def)
  have docs: "read_doc (sw_loads suite_demo) (files suite_store ''baseline.json'') = Some (PDict suite_baseline)"
    "files suite_store ''check-plan.json'' = Text ''p''" "read_doc (sw_loads suite_demo) (Text ''p'') = Some (PDict suite_plan)"
    "files suite_store ''baseline.json'' = Text ''b''"
    by (simp_all add: suite_store_def suite_demo_def read_doc_def)
  have fields: "getv suite_plan ''checks'' = PList [PDict [(''name'', PStr ''unit''), (''command'', PList [PStr ''run''])]]"
    "getv suite_plan ''target_root'' = PStr ''/t''" "getv suite_plan ''source_file_sha256'' = src_val demo_after"
    "getv suite_baseline ''plan_sha256'' = PStr demo_digest"
    "dict_get suite_baseline ''checks'' (PList []) = PList [PDict [(''check'', PStr ''unit''), (''status'', PStr ''pass'')]]"
    by (simp_all add: suite_plan_def suite_baseline_def getv_def dict_get_def)
  have digest: "digest_sources demo_host (sw_tree suite_demo ''/t'') (case src_val demo_after of PDict d \<Rightarrow> d | _ \<Rightarrow> []) = Some demo_after"
    by code_simp
  have names: "names_of [[(''check'', PStr ''unit''), (''status'', PStr ''pass'')]] = names_of [suite_record]"
    by (simp add: names_of_def suite_record_def base_record_def getv_def dict_get_def)
  have maps: "mappings [PDict [(''check'', PStr ''unit''), (''status'', PStr ''pass'')]] = [[(''check'', PStr ''unit''), (''status'', PStr ''pass'')]]"
    by (simp add: mappings_def List.map_filter_simps)
  have cmp: "e_result (end_compared demo_host suite_demo sh (mappings [PDict [(''check'', PStr ''unit''), (''status'', PStr ''pass'')]])) =
      Inr (''OK'', 0)" if "sh_records sh = [suite_record]" for sh :: suite_head
    using that by (simp add: end_compared_def Let_def suite_demo_compare maps names del: compare_records.simps)
  have "e_result (suite_ending demo_host suite_demo suite_store ''verify'' suite_plan
      (case src_val demo_after of PDict d \<Rightarrow> d | _ \<Rightarrow> []) [PDict [(''name'', PStr ''unit''), (''command'', PList [PStr ''run''])]] demo_after) = Inr (''OK'', 0)"
    by (simp add: suite_ending_def suite_demo_records plan end_verify_def docs(4) docs(1) [unfolded docs(4)] fields get_attr_def cmp
      del: all_records.simps)
  then have "e_result (checks_ending demo_host suite_demo suite_store ''verify'') = Inr (''OK'', 0)"
    using digest by (simp add: checks_ending_def docs fields src_val_def)
  then show ?thesis by (simp add: run_checks_def Let_def)
qed

lemma suite_ok_no_regression_witness:
  "\<exists>sh pointer. files (snd (run_checks demo_host suite_demo suite_store ''verify'')) ''check-results-verify.json'' =
     Text (dumped demo_host (PDict (suite_receipt demo_host sh [] False [] @ pointer)))"
  using suite_ok_no_regression [OF suite_demo_OK] by blast

end
