(* ===== verification/Host_Messages.thy ===== *)
theory Host_Messages
  imports Py_Text Py_Json
begin

text \<open>
  \<^verbatim>\<open>scripts/_review_evidence.py\<close>, reading a host's native output: the event lines of one execution become
  one message with its session (\<open>parse_host_message\<close>), and the message of a reviewer becomes a verdict
  (\<open>_verdict\<close>, \<open>parse_host_output\<close>).  \<open>_loads\<close>, the strict JSON reader, is the parameter \<open>loads\<close>
  (\<open>None\<close> is its \<open>ValueError\<close>: malformed text, a repeated key, \<open>NaN\<close> or \<open>Infinity\<close>).
\<close>

subsection \<open>Events\<close>

definition LIMIT :: nat where
  "LIMIT = 4194304"

definition parsed_line :: "json_loads \<Rightarrow> string \<Rightarrow> value_error + dict" where
  "parsed_line loads line =
     (case loads line of None \<Rightarrow> Inl ValueError | Some (PDict d) \<Rightarrow> Inr d | Some _ \<Rightarrow> Inl ValueError)"

definition host_events :: "json_loads \<Rightarrow> string \<Rightarrow> value_error + dict list" where
  "host_events loads raw =
     bind_res (guard (utf8_length raw \<le> LIMIT) ValueError) (\<lambda>_.
     bind_res (map_res (parsed_line loads) (filter (\<lambda>l. strip l \<noteq> []) (splitlines raw))) (\<lambda>events.
     bind_res (guard (events \<noteq> []) ValueError) (\<lambda>_. Inr events)))"

definition of_type :: "string \<Rightarrow> dict \<Rightarrow> bool" where
  "of_type t x \<longleftrightarrow> getv x ''type'' = PStr t"

text \<open>\<open>any(x.get("type") in S for x in events)\<close>: the first hit ends the search, so an unhashable type
  after it is never looked at.\<close>

fun any_type :: "string list \<Rightarrow> dict list \<Rightarrow> value_error + bool" where
  "any_type S [] = Inr False"
| "any_type S (x # xs) = bind_res (in_set S (getv x ''type'')) (\<lambda>b. if b then Inr True else any_type S xs)"

text \<open>What a host's events hold: sessions, terminal events, a failure, messages.\<close>

record reading =
  r_sessions :: "pyval list"
  r_finished :: "dict list"
  r_failed :: bool
  r_messages :: "pyval list"

definition agent_message :: "dict \<Rightarrow> pyval option" where
  "agent_message x =
     (if of_type ''item.completed'' x
      then (case getv x ''item'' of
              PDict d \<Rightarrow> if of_type ''agent_message'' d then Some (getv d ''text'') else None
            | _ \<Rightarrow> None)
      else None)"

definition read_codex :: "dict list \<Rightarrow> value_error + reading" where
  "read_codex events =
     bind_res (any_type [''turn.failed'', ''error''] events) (\<lambda>failed.
       Inr \<lparr>r_sessions = map (\<lambda>x. getv x ''thread_id'') (filter (of_type ''thread.started'') events),
            r_finished = filter (of_type ''turn.completed'') events,
            r_failed = failed,
            r_messages = List.map_filter agent_message events\<rparr>)"

definition read_claude :: "dict list \<Rightarrow> reading" where
  "read_claude events =
     (let sessions = map (\<lambda>x. getv x ''session_id'')
            (filter (\<lambda>x. of_type ''system'' x \<and> getv x ''subtype'' = PStr ''init'') events);
          finished = filter (of_type ''result'') events
      in \<lparr>r_sessions = sessions,
          r_finished = finished,
          r_failed = list_ex (\<lambda>x. getv x ''is_error'' = PBool True) finished
            \<or> list_ex (\<lambda>x. getv x ''subtype'' \<noteq> PStr ''success'') finished
            \<or> list_ex (\<lambda>x. \<not> list_ex (py_eq (getv x ''session_id'')) sessions) finished,
          r_messages = map (\<lambda>x. getv x ''result'') finished\<rparr>)"

definition read_host :: "string \<Rightarrow> dict list \<Rightarrow> value_error + reading" where
  "read_host host events =
     (if host = ''codex'' then read_codex events
      else if host = ''claude'' then Inr (read_claude events)
      else Inl ValueError)"

record host_message =
  m_text :: string
  m_session :: string

definition whole_message :: "reading \<Rightarrow> value_error + host_message" where
  "whole_message r =
     (case (r_sessions r, r_finished r, r_messages r) of
        ([PStr s], [_], m # ms) \<Rightarrow>
          (if r_failed r \<or> s = [] then Inl ValueError
           else (case last (m # ms) of
                   PStr t \<Rightarrow> Inr \<lparr>m_text = t, m_session = s\<rparr>
                 | _ \<Rightarrow> Inl ValueError))
      | _ \<Rightarrow> Inl ValueError)"

definition parse_host_message :: "json_loads \<Rightarrow> string \<Rightarrow> string \<Rightarrow> value_error + host_message" where
  "parse_host_message loads host raw =
     bind_res (host_events loads raw) (\<lambda>events. bind_res (read_host host events) whole_message)"

subsection \<open>Verdicts\<close>

definition VERDICTS :: "string list" where
  "VERDICTS = [''CONFIRMED'', ''NOT_CONFIRMED'', ''UPHELD'', ''REJECTED'', ''DISPUTED'']"

definition prose :: "nat \<Rightarrow> pyval \<Rightarrow> bool" where
  "prose n v = (case v of PStr s \<Rightarrow> strip s \<noteq> [] \<and> length s \<le> n | _ \<Rightarrow> False)"

definition prose_list :: "pyval \<Rightarrow> bool" where
  "prose_list v =
     (case v of PList xs \<Rightarrow> 1 \<le> length xs \<and> length xs \<le> 100 \<and> list_all (prose 8192) xs | _ \<Rightarrow> False)"

text \<open>\<open>type(c) in (float, int)\<close>, finite, and between 0 and 100; a \<open>bool\<close> has another type.\<close>

definition confidence_ok :: "pyval \<Rightarrow> bool" where
  "confidence_ok v =
     (case v of
        PNone \<Rightarrow> True
      | PInt i \<Rightarrow> 0 \<le> i \<and> i \<le> 100
      | PFloat (Fin q) \<Rightarrow> 0 \<le> q \<and> q \<le> 100
      | _ \<Rightarrow> False)"

definition VERDICT_KEYS :: "string list" where
  "VERDICT_KEYS = [''verdict'', ''trigger'', ''trace'', ''evidence'', ''confidence'']"

definition present :: "dict \<Rightarrow> string list \<Rightarrow> dict" where
  "present d ks = List.map_filter (\<lambda>k. map_option (Pair k) (map_of d k)) ks"

definition verdict_of :: "pyval \<Rightarrow> value_error + dict" where
  "verdict_of v =
     (case v of
        PDict d \<Rightarrow>
          bind_res (in_set VERDICTS (getv d ''verdict'')) (\<lambda>named.
          bind_res (guard named ValueError) (\<lambda>_.
          bind_res (guard (prose 8192 (getv d ''trigger'')) ValueError) (\<lambda>_.
          bind_res (guard (list_all (\<lambda>f. prose_list (getv d f)) [''trace'', ''evidence'']) ValueError) (\<lambda>_.
          bind_res (guard (confidence_ok (getv d ''confidence'')) ValueError) (\<lambda>_.
            Inr (present d VERDICT_KEYS))))))
      | _ \<Rightarrow> Inl ValueError)"

definition parse_host_output :: "json_loads \<Rightarrow> string \<Rightarrow> string \<Rightarrow> value_error + dict" where
  "parse_host_output loads host raw =
     bind_res (parse_host_message loads host raw) (\<lambda>m.
     bind_res (case loads (m_text m) of None \<Rightarrow> Inl ValueError | Some v \<Rightarrow> verdict_of v) (\<lambda>verdict.
       Inr (verdict @ [(''session_id'', PStr (m_session m)), (''confidence_calibrated'', PBool False)])))"

subsection \<open>What a reading guarantees\<close>

lemma whole_message_Inr:
  "whole_message r = Inr m \<longleftrightarrow>
     (\<exists>x. r_sessions r = [PStr (m_session m)] \<and> m_session m \<noteq> [] \<and> r_finished r = [x] \<and> \<not> r_failed r \<and>
          r_messages r \<noteq> [] \<and> last (r_messages r) = PStr (m_text m))"
  by (cases m) (auto simp: whole_message_def split: list.split pyval.split if_splits)

lemma any_type_False: "any_type S events = Inr False \<Longrightarrow> x \<in> set events \<Longrightarrow> t \<in> set S \<Longrightarrow> \<not> of_type t x"
  by (induction S events rule: any_type.induct)
    (auto simp: bind_res_Inr_iff of_type_def in_set_def split: if_splits)

lemma in_set_error: "in_set S v = Inl e \<Longrightarrow> e = TypeError"
  by (auto simp: in_set_def split: if_splits)

lemma any_type_error: "any_type S events = Inl e \<Longrightarrow> e = TypeError"
  by (induction S events rule: any_type.induct)
    (auto simp: bind_res_Inl_iff in_set_error split: if_splits)

lemma map_res_error: "map_res f xs = Inl e \<Longrightarrow> (\<And>x e. f x = Inl e \<Longrightarrow> P e) \<Longrightarrow> P e"
  by (induction xs) (auto simp: bind_res_Inl_iff)

lemma host_events_error: "host_events loads raw = Inl e \<Longrightarrow> e = ValueError"
  unfolding host_events_def
  by (auto simp: bind_res_Inl_iff parsed_line_def elim!: map_res_error split: option.splits pyval.splits if_splits)

lemma whole_message_error: "whole_message r = Inl e \<Longrightarrow> e = ValueError"
  by (auto simp: whole_message_def split: list.splits pyval.splits if_splits)

text \<open>The only exception besides \<open>ValueError\<close> comes from a \<open>type\<close> that cannot be hashed.\<close>

lemma parse_host_message_error:
  assumes "parse_host_message loads host raw = Inl e" "e \<noteq> ValueError"
  shows "e = TypeError \<and> host = ''codex''"
  using assms unfolding parse_host_message_def read_host_def read_codex_def
  by (auto simp: bind_res_Inl_iff split: if_splits
        dest: host_events_error whole_message_error any_type_error)

definition one_terminal_event :: "string \<Rightarrow> dict list \<Rightarrow> bool" where
  "one_terminal_event host events \<longleftrightarrow>
     (if host = ''codex''
      then length (filter (of_type ''turn.completed'') events) = 1
        \<and> (\<forall>x\<in>set events. \<not> of_type ''turn.failed'' x \<and> \<not> of_type ''error'' x)
      else (\<exists>x. filter (of_type ''result'') events = [x] \<and> getv x ''subtype'' = PStr ''success''
        \<and> getv x ''is_error'' \<noteq> PBool True))"

definition one_session_event :: "string \<Rightarrow> dict list \<Rightarrow> string \<Rightarrow> bool" where
  "one_session_event host events s \<longleftrightarrow>
     (if host = ''codex''
      then map (\<lambda>x. getv x ''thread_id'') (filter (of_type ''thread.started'') events) = [PStr s]
      else map (\<lambda>x. getv x ''session_id'') (filter (\<lambda>x. of_type ''system'' x \<and> getv x ''subtype'' = PStr ''init'') events)
             = [PStr s]
        \<and> (\<forall>x\<in>set events. of_type ''result'' x \<longrightarrow> getv x ''session_id'' = PStr s))"

lemma parse_host_message_sound:
  assumes "parse_host_message loads host raw = Inr m"
  shows "\<exists>events. host_events loads raw = Inr events \<and> host \<in> {''codex'', ''claude''} \<and> m_session m \<noteq> [] \<and>
           one_terminal_event host events \<and> one_session_event host events (m_session m)"
proof -
  obtain events r where ev: "host_events loads raw = Inr events" "read_host host events = Inr r"
    and w: "whole_message r = Inr m"
    using assms by (auto simp: parse_host_message_def bind_res_Inr_iff)
  show ?thesis
  proof (cases "host = ''codex''")
    case True
    with ev(2) have "any_type [''turn.failed'', ''error''] events = Inr (r_failed r)"
      and r: "r_sessions r = map (\<lambda>x. getv x ''thread_id'') (filter (of_type ''thread.started'') events)"
        "r_finished r = filter (of_type ''turn.completed'') events"
      by (auto simp: read_host_def read_codex_def bind_res_Inr_iff)
    with w have "any_type [''turn.failed'', ''error''] events = Inr False"
      by (auto simp: whole_message_Inr)
    then have "\<not> of_type ''turn.failed'' x \<and> \<not> of_type ''error'' x" if "x \<in> set events" for x
      using that any_type_False by fastforce
    with True ev(1) w r show ?thesis
      by (auto simp: whole_message_Inr one_terminal_event_def one_session_event_def)
  next
    case False
    with ev(2) have h: "host = ''claude''" and r: "r = read_claude events"
      by (auto simp: read_host_def split: if_splits)
    obtain x where x: "filter (of_type ''result'') events = [x]" and "\<not> r_failed r"
      and s: "r_sessions r = [PStr (m_session m)]" "m_session m \<noteq> []"
      using w r by (auto simp: whole_message_Inr read_claude_def Let_def)
    have only: "y = x" if "y \<in> set events" "of_type ''result'' y" for y
    proof -
      have "y \<in> set (filter (of_type ''result'') events)" using that by simp
      with x show ?thesis by simp
    qed
    have "getv x ''subtype'' = PStr ''success'' \<and> getv x ''is_error'' \<noteq> PBool True
        \<and> getv x ''session_id'' = PStr (m_session m)"
      using \<open>\<not> r_failed r\<close> s x by (auto simp: r read_claude_def Let_def)
    with False h ev(1) x s only show ?thesis
      by (auto simp: r read_claude_def Let_def one_terminal_event_def one_session_event_def)
  qed
qed

definition review_verdict :: "dict \<Rightarrow> bool" where
  "review_verdict d \<longleftrightarrow>
     (\<exists>v\<in>set VERDICTS. getv d ''verdict'' = PStr v) \<and> prose 8192 (getv d ''trigger'') \<and>
     prose_list (getv d ''trace'') \<and> prose_list (getv d ''evidence'') \<and> confidence_ok (getv d ''confidence'')"

lemma map_of_present: "distinct ks \<Longrightarrow> map_of (present d ks) k = (if k \<in> set ks then map_of d k else None)"
  by (induction ks) (auto simp: present_def List.map_filter_simps split: option.split)

lemma present_keys: "fst ` set (present d ks) \<subseteq> set ks"
  by (auto simp: present_def set_map_filter)

lemma verdict_keys_distinct: "distinct VERDICT_KEYS"
  by (simp add: VERDICT_KEYS_def)

lemma verdict_of_sound:
  assumes "verdict_of v = Inr d"
  shows "review_verdict d \<and> fst ` set d \<subseteq> set VERDICT_KEYS"
proof -
  obtain e where e: "v = PDict e" using assms by (cases v) (auto simp: verdict_of_def)
  have d: "d = present e VERDICT_KEYS" and ok: "review_verdict e"
    using assms e by (auto simp: verdict_of_def bind_res_Inr_iff review_verdict_def in_set_def
      split: if_splits pyval.splits)
  have "getv d k = getv e k" if "k \<in> set VERDICT_KEYS" for k
    using that by (simp add: d getv_def dict_get_def map_of_present verdict_keys_distinct)
  then have "review_verdict d" using ok by (simp add: review_verdict_def VERDICT_KEYS_def)
  with d present_keys show ?thesis by simp
qed

end
