(* ===== verification/Stages.thy ===== *)
theory Stages
  imports Host_Messages
begin

text \<open>
  \<^verbatim>\<open>bench/_stages.py\<close>, the frozen stage protocol of the benchmark: the ablation blocks a protocol may
  declare, the handoff and the prompt of every stage, and the checks on what a stage answers.  Stages
  talk through \<open>assessments\<close>, a dictionary from stage names to the candidates each returned.
\<close>

subsection \<open>Blocks\<close>

definition STAGES :: "string list" where
  "STAGES = [''hunter'', ''skeptic'', ''referee'', ''synthesis'']"

definition CONTEXT_MAX_BYTES :: nat where
  "CONTEXT_MAX_BYTES = 65536"

record stage_block =
  b_id :: string
  b_stages :: "string list"

definition stage_name :: "pyval \<Rightarrow> string option" where
  "stage_name v = (case v of PStr s \<Rightarrow> if s \<in> set STAGES then Some s else None | _ \<Rightarrow> None)"

text \<open>\<open>sorted(set(stages), key=STAGES.index)\<close>\<close>

definition in_stage_order :: "string list \<Rightarrow> string list" where
  "in_stage_order stages = filter (\<lambda>s. s \<in> set stages) STAGES"

definition ordered_stages :: "string list \<Rightarrow> bool" where
  "ordered_stages stages \<longleftrightarrow> stages = in_stage_order stages"

definition block_of :: "string \<Rightarrow> pyval list \<Rightarrow> value_error + stage_block" where
  "block_of i xs =
     (case those (map stage_name xs) of
        Some ss \<Rightarrow>
          if i \<noteq> [] \<and> ss \<noteq> [] \<and> ordered_stages ss \<and> hd ss = ''hunter''
          then Inr \<lparr>b_id = i, b_stages = ss\<rparr> else Inl ValueError
      | None \<Rightarrow> Inl ValueError)"

definition read_block :: "pyval \<Rightarrow> value_error + stage_block" where
  "read_block block =
     (case block of
        PDict d \<Rightarrow>
          (if set (map fst d) \<noteq> {''id'', ''stages''} then Inl ValueError
           else (case getv d ''id'' of
                   PStr i \<Rightarrow> (case getv d ''stages'' of PList xs \<Rightarrow> block_of i xs | _ \<Rightarrow> Inl ValueError)
                 | _ \<Rightarrow> Inl ValueError))
      | _ \<Rightarrow> Inl ValueError)"

fun read_blocks :: "string list \<Rightarrow> string list list \<Rightarrow> pyval list \<Rightarrow> value_error + stage_block list" where
  "read_blocks ids lineages [] = Inr []"
| "read_blocks ids lineages (v # vs) =
     bind_res (read_block v) (\<lambda>b.
     bind_res (guard (b_id b \<notin> set ids \<and> b_stages b \<notin> set lineages) ValueError) (\<lambda>_.
     bind_res (read_blocks (b_id b # ids) (b_stages b # lineages) vs) (\<lambda>bs. Inr (b # bs))))"

definition normalize_stage_blocks :: "pyval \<Rightarrow> value_error + stage_block list" where
  "normalize_stage_blocks v =
     (case v of
        PList (x # xs) \<Rightarrow>
          bind_res (read_blocks [] [] (x # xs)) (\<lambda>bs.
          bind_res (guard (list_ex (\<lambda>b. b_id b = ''full_pipeline'' \<and> b_stages b = STAGES) bs) ValueError) (\<lambda>_.
          bind_res (guard (list_all (\<lambda>b. b_stages b = [''hunter''] \<or> last (b_stages b) = ''synthesis'') bs)
                     ValueError) (\<lambda>_. Inr bs)))
      | _ \<Rightarrow> Inl ValueError)"

subsection \<open>Handoffs and prompts\<close>

type_synonym assessments = "(string \<times> dict list) list"

definition assessed :: "assessments \<Rightarrow> string \<Rightarrow> dict list" where
  "assessed a s = (case map_of a s of None \<Rightarrow> [] | Some cs \<Rightarrow> cs)"

definition CLAIM_KEYS :: "string list" where
  "CLAIM_KEYS = [''bug_id'', ''file'', ''location'', ''line'', ''rationale'', ''trigger'']"

definition hunter_claim :: "dict \<Rightarrow> value_error + pyval" where
  "hunter_claim c = bind_res (map_res (\<lambda>k. bind_res (subscript (PDict c) k) (\<lambda>x. Inr (k, x))) CLAIM_KEYS) (\<lambda>d. Inr (PDict d))"

definition hunter_claims :: "dict list \<Rightarrow> value_error + pyval" where
  "hunter_claims cs = bind_res (map_res hunter_claim cs) (\<lambda>xs. Inr (PList xs))"

definition assessment :: "assessments \<Rightarrow> string \<Rightarrow> pyval" where
  "assessment a s = PDict [(''candidates'', PList (map PDict (assessed a s)))]"

definition stage_input :: "string \<Rightarrow> assessments \<Rightarrow> value_error + pyval" where
  "stage_input stage a =
     (if stage \<in> set [''hunter'', ''skeptic'', ''referee'']
      then bind_res (hunter_claims (assessed a ''hunter'')) (\<lambda>h. Inr (PDict [(''hunter_candidate_claims'', h)]))
      else if stage = ''synthesis''
      then bind_res (hunter_claims (assessed a ''hunter'')) (\<lambda>h.
        Inr (PDict [(''hunter_candidate_claims'', h), (''skeptic_assessment'', assessment a ''skeptic''),
                    (''referee_assessment'', assessment a ''referee'')]))
      else Inl ValueError)"

definition LF :: string where
  "LF = [CHR 0x0A]"

definition candidate_contract :: string where
  "candidate_contract = ''Return exactly one JSON object {\"candidates\": [...]} and nothing else. Each candidate needs string bug_id, file, location, rationale, trigger; integer line >= 1; severity critical/high/medium/low; status confirmed/rejected. Do not invent stage votes, labels, sessions, counts, or evidence.''"

definition stage_intro :: "string \<Rightarrow> string" where
  "stage_intro stage =
     (if stage = ''hunter'' then ''STAGE: Hunter. Find source-supported candidate bugs in the mounted archive. ''
      else if stage = ''skeptic'' then ''STAGE: Skeptic. Independently test every Hunter claim against source. Return every supplied bug_id and location exactly once with confirmed or rejected status; do not report a vote or confidence. ''
      else if stage = ''referee'' then ''STAGE: Referee. Independently adjudicate every Hunter claim against source. Skeptic verdicts and confidence are deliberately withheld. Return every supplied bug_id and location exactly once with confirmed or rejected status. ''
      else ''STAGE: Synthesis. Reconcile the preserved Hunter claims and independent Skeptic and Referee assessments. Return every supplied Hunter bug_id and location exactly once with confirmed or rejected status. An omitted role has no assessment and is not a rejection. This native response is the final determination; do not report votes. '')"

definition stage_prompt :: "(pyfloat \<Rightarrow> string) \<Rightarrow> string \<Rightarrow> assessments \<Rightarrow> value_error + string" where
  "stage_prompt frepr stage a =
     (if stage \<notin> set STAGES then Inl ValueError
      else if stage = ''hunter'' then Inr (stage_intro stage @ candidate_contract)
      else bind_res (stage_input stage a) (\<lambda>input.
        Inr (stage_intro stage @ candidate_contract @ LF
          @ (if stage = ''synthesis'' then ''Stage handoff:'' else ''Hunter claims:'') @ LF
          @ json_dumps True frepr input)))"

definition context_prompt :: "pyval \<Rightarrow> value_error + string" where
  "context_prompt manifest =
     (case manifest of
        PStr s \<Rightarrow>
          if length s = 64
          then Inr (''STAGE: Context builder. Read only the mounted source archive and build a compact source-navigation context for later investigation. Do not identify bugs, candidates, findings, gold labels, oracle results, verdicts, confidence, or review outcomes. Return exactly one JSON object {\"context\":\"...\"} and nothing else. The context must be source-derived prose only, <= 64 KiB, and must not contain candidate or verdict metadata. The immutable source manifest SHA-256 is ''
            @ s @ ''; do not copy any data from outside the archive.'')
          else Inl ValueError
      | _ \<Rightarrow> Inl ValueError)"

subsection \<open>Answers\<close>

text \<open>A dictionary from bug ids to the three values of a claim, the later entry of an id replacing the
  earlier; ids are keys up to Python's equality (\<open>pnorm\<close>).\<close>

definition claim_entry :: "dict \<Rightarrow> value_error + pyval \<times> pyval list" where
  "claim_entry c =
     bind_res (subscript (PDict c) ''bug_id'') (\<lambda>i.
     bind_res (map_res (subscript (PDict c)) [''file'', ''location'', ''line'']) (\<lambda>vs.
     bind_res (guard (hashable i) TypeError) (\<lambda>_. Inr (pnorm i, vs))))"

definition claims :: "dict list \<Rightarrow> value_error + (pyval \<times> pyval list) list" where
  "claims cs = bind_res (map_res claim_entry cs) (\<lambda>es. Inr (fold (\<lambda>(k, v). AList.update k v) es []))"

definition same_claims :: "(pyval \<times> pyval list) list \<Rightarrow> (pyval \<times> pyval list) list \<Rightarrow> bool" where
  "same_claims a b \<longleftrightarrow>
     set (map fst a) = set (map fst b) \<and>
     list_all (\<lambda>(k, v). case map_of b k of None \<Rightarrow> False | Some w \<Rightarrow> list_all2 py_eq v w) a"

definition validate_stage_candidates :: "string \<Rightarrow> dict list \<Rightarrow> assessments \<Rightarrow> value_error + unit" where
  "validate_stage_candidates stage candidates a =
     (if stage = ''hunter'' then Inr ()
      else bind_res (claims (assessed a ''hunter'')) (\<lambda>expected.
           bind_res (claims candidates) (\<lambda>actual. guard (same_claims actual expected) ValueError)))"

definition CANDIDATE_STRINGS :: "string list" where
  "CANDIDATE_STRINGS = [''bug_id'', ''file'', ''location'', ''rationale'', ''trigger'']"

definition candidate_string :: "pyval \<Rightarrow> bool" where
  "candidate_string v = (case v of PStr s \<Rightarrow> strip s \<noteq> [] \<and> utf8_length s \<le> 8192 | _ \<Rightarrow> False)"

definition SEVERITIES :: "string list" where
  "SEVERITIES = [''critical'', ''high'', ''medium'', ''low'']"

definition STATUSES :: "string list" where
  "STATUSES = [''confirmed'', ''rejected'']"

text \<open>The last checks of a candidate: a canonical relative path without parent steps and backslashes, and
  the location \<open>file:line\<close>.\<close>

definition safe_path :: "string \<Rightarrow> bool" where
  "safe_path s \<longleftrightarrow>
     \<not> starts_with s ''/'' \<and> ''..'' \<notin> set (path_parts s) \<and> CHR 0x5C \<notin> set s \<and> posix_relative s = s"

definition located :: "dict \<Rightarrow> bool" where
  "located d =
     (case (getv d ''file'', getv d ''line'') of
        (PStr f, PInt n) \<Rightarrow> 1 \<le> n \<and> safe_path f \<and> getv d ''location'' = PStr (f @ '':'' @ int_str n)
      | _ \<Rightarrow> False)"

definition candidate_id :: "dict \<Rightarrow> string" where
  "candidate_id d = (case getv d ''bug_id'' of PStr i \<Rightarrow> i | _ \<Rightarrow> [])"

definition read_candidate :: "string list \<Rightarrow> pyval \<Rightarrow> value_error + dict" where
  "read_candidate seen item =
     (case item of
        PDict d \<Rightarrow>
          bind_res (guard (list_all (\<lambda>k. candidate_string (getv d k)) CANDIDATE_STRINGS) ValueError) (\<lambda>_.
          bind_res (guard (candidate_id d \<notin> set seen) ValueError) (\<lambda>_.
          bind_res (in_set SEVERITIES (getv d ''severity'')) (\<lambda>b.
          bind_res (guard b ValueError) (\<lambda>_.
          bind_res (in_set STATUSES (getv d ''status'')) (\<lambda>b.
          bind_res (guard b ValueError) (\<lambda>_.
          bind_res (guard (located d) ValueError) (\<lambda>_. Inr d)))))))
      | _ \<Rightarrow> Inl ValueError)"

fun read_candidates :: "string list \<Rightarrow> pyval list \<Rightarrow> value_error + dict list" where
  "read_candidates seen [] = Inr []"
| "read_candidates seen (v # vs) =
     bind_res (read_candidate seen v) (\<lambda>d.
     bind_res (read_candidates (candidate_id d # seen) vs) (\<lambda>ds. Inr (d # ds)))"

definition candidate_items :: "pyval \<Rightarrow> value_error + pyval list" where
  "candidate_items v =
     (case v of
        PDict d \<Rightarrow>
          (if set (map fst d) \<noteq> {''candidates''} then Inl ValueError
           else (case getv d ''candidates'' of
                   PList xs \<Rightarrow> if length xs \<le> 1000 then Inr xs else Inl ValueError
                 | _ \<Rightarrow> Inl ValueError))
      | _ \<Rightarrow> Inl ValueError)"

definition parse_candidates :: "json_loads \<Rightarrow> string \<Rightarrow> value_error + dict list" where
  "parse_candidates loads text =
     (case loads text of
        None \<Rightarrow> Inl ValueError
      | Some v \<Rightarrow> bind_res (candidate_items v) (read_candidates []))"

definition parse_context :: "json_loads \<Rightarrow> string \<Rightarrow> value_error + string" where
  "parse_context loads text =
     (case loads text of
        Some (PDict d) \<Rightarrow>
          (if set (map fst d) \<noteq> {''context''} then Inl ValueError
           else (case getv d ''context'' of
                   PStr c \<Rightarrow> if strip c \<noteq> [] \<and> utf8_length c \<le> CONTEXT_MAX_BYTES then Inr c else Inl ValueError
                 | _ \<Rightarrow> Inl ValueError))
      | _ \<Rightarrow> Inl ValueError)"

subsection \<open>Declared blocks\<close>

lemma stage_name_Some: "stage_name v = Some s \<longleftrightarrow> v = PStr s \<and> s \<in> set STAGES"
  by (cases v) (auto simp: stage_name_def)

lemma those_Some: "those xs = Some ys \<longleftrightarrow> xs = map Some ys"
  by (induction xs arbitrary: ys) (auto split: option.splits)

definition LINEAGES :: "string list list" where
  "LINEAGES = [[''hunter''], [''hunter'', ''synthesis''], [''hunter'', ''skeptic'', ''synthesis''],
     [''hunter'', ''referee'', ''synthesis''], STAGES]"

lemma in_stage_order_cases:
  assumes "ordered_stages ss" "ss \<noteq> []" "hd ss = ''hunter''" "ss = [''hunter''] \<or> last ss = ''synthesis''"
  shows "ss \<in> set LINEAGES"
proof -
  have eq: "ss = (if ''hunter'' \<in> set ss then [''hunter''] else []) @ (if ''skeptic'' \<in> set ss then [''skeptic''] else [])
      @ (if ''referee'' \<in> set ss then [''referee''] else []) @ (if ''synthesis'' \<in> set ss then [''synthesis''] else [])"
    using assms(1) [unfolded ordered_stages_def] by (simp add: in_stage_order_def STAGES_def split: if_splits)
  have "''hunter'' \<in> set ss" using assms(2,3) by (cases ss) auto
  moreover have "''synthesis'' \<in> set ss" if "ss \<noteq> [''hunter'']"
    using that assms(2,4) last_in_set by metis
  ultimately show ?thesis
    using eq by (auto simp: LINEAGES_def STAGES_def split: if_splits)
qed

lemma list_all2_ex: "list_all2 P xs ys \<Longrightarrow> y \<in> set ys \<Longrightarrow> \<exists>x\<in>set xs. P x y"
  by (induction rule: list_all2_induct) auto

lemma read_block_Inr:
  assumes "read_block v = Inr b"
  shows "b_id b \<noteq> [] \<and> b_stages b \<noteq> [] \<and> ordered_stages (b_stages b) \<and> hd (b_stages b) = ''hunter''"
proof -
  obtain i xs where "block_of i xs = Inr b"
    using assms by (auto simp: read_block_def split: pyval.splits if_splits)
  then show ?thesis by (auto simp: block_of_def split: option.splits if_splits)
qed

lemma read_blocks_Inr:
  "read_blocks ids lineages vs = Inr bs \<Longrightarrow>
     distinct (map b_id bs) \<and> distinct (map b_stages bs) \<and>
     set (map b_id bs) \<inter> set ids = {} \<and> set (map b_stages bs) \<inter> set lineages = {} \<and>
     list_all2 (\<lambda>v b. read_block v = Inr b) vs bs"
proof (induction vs arbitrary: ids lineages bs)
  case (Cons v vs)
  obtain b cs where b: "read_block v = Inr b" "b_id b \<notin> set ids" "b_stages b \<notin> set lineages"
    and cs: "read_blocks (b_id b # ids) (b_stages b # lineages) vs = Inr cs" and bs: "bs = b # cs"
    using Cons.prems by (auto simp: bind_res_Inr_iff split: if_splits)
  from Cons.IH [OF cs] b show ?case by (auto simp: bs)
qed simp

lemma normalized_blocks:
  assumes "normalize_stage_blocks v = Inr bs"
  shows "distinct (map b_id bs) \<and> distinct (map b_stages bs) \<and> set (map b_stages bs) \<subseteq> set LINEAGES \<and>
         (\<exists>b\<in>set bs. b_id b = ''full_pipeline'' \<and> b_stages b = STAGES)"
proof -
  obtain vs where r: "read_blocks [] [] vs = Inr bs"
    and full: "list_ex (\<lambda>b. b_id b = ''full_pipeline'' \<and> b_stages b = STAGES) bs"
    and ends: "list_all (\<lambda>b. b_stages b = [''hunter''] \<or> last (b_stages b) = ''synthesis'') bs"
    using assms by (auto simp: normalize_stage_blocks_def bind_res_Inr_iff
        simp del: read_blocks.simps split: pyval.splits list.splits if_splits)
  note rb = read_blocks_Inr [OF r]
  then have all2: "list_all2 (\<lambda>v b. read_block v = Inr b) vs bs" by blast
  have "b_stages b \<in> set LINEAGES" if b_in: "b \<in> set bs" for b
  proof (rule in_stage_order_cases)
    obtain v where "read_block v = Inr b"
      using list_all2_ex [OF all2 b_in] by blast
    note b = read_block_Inr [OF this]
    show "ordered_stages (b_stages b)" "b_stages b \<noteq> []" "hd (b_stages b) = ''hunter''"
      using b by blast+
    show "b_stages b = [''hunter''] \<or> last (b_stages b) = ''synthesis''"
      using ends b_in by (auto simp: list_all_iff)
  qed
  with rb full show ?thesis by (auto simp: list_ex_iff)
qed

text \<open>
  A protocol declares at most the five lineages that start with the Hunter, keep the stage order and end in
  Synthesis (or are the Hunter alone), each once, under different ids, with the full pipeline as the control.
\<close>

theorem stage_blocks_independent:
  assumes "normalize_stage_blocks v = Inr bs"
  shows "distinct (map b_id bs) \<and> distinct (map b_stages bs) \<and> set (map b_stages bs) \<subseteq> set LINEAGES \<and>
         (\<exists>b\<in>set bs. b_id b = ''full_pipeline'' \<and> b_stages b = STAGES) \<and> length bs \<le> 5"
proof -
  note n = normalized_blocks [OF assms]
  then have "card (set (map b_stages bs)) \<le> card (set LINEAGES)" by (intro card_mono) auto
  also have "card (set LINEAGES) = 5" by (simp add: LINEAGES_def STAGES_def)
  finally have "length bs \<le> 5" using n distinct_card [of "map b_stages bs"] by simp
  with n show ?thesis by blast
qed

definition demo_blocks :: pyval where
  "demo_blocks = PList
     [PDict [(''id'', PStr ''solo''), (''stages'', PList [PStr ''hunter''])],
      PDict [(''id'', PStr ''full_pipeline''),
             (''stages'', PList [PStr ''hunter'', PStr ''skeptic'', PStr ''referee'', PStr ''synthesis''])]]"

theorem stage_blocks_independent_witness:
  "length (projr (normalize_stage_blocks demo_blocks)) = 2 \<and> 2 \<le> (5 :: nat)"
proof -
  have n: "normalize_stage_blocks demo_blocks =
      Inr [\<lparr>b_id = ''solo'', b_stages = [''hunter'']\<rparr>, \<lparr>b_id = ''full_pipeline'', b_stages = STAGES\<rparr>]"
    by code_simp
  from stage_blocks_independent [OF n] show ?thesis by (simp add: n)
qed

subsection \<open>What a stage may see\<close>

definition same_claim :: "dict \<Rightarrow> dict \<Rightarrow> bool" where
  "same_claim c d \<longleftrightarrow> (\<forall>k\<in>set CLAIM_KEYS. map_of c k = map_of d k)"

lemma map_res_cong: "(\<And>x. x \<in> set xs \<Longrightarrow> f x = g x) \<Longrightarrow> map_res f xs = map_res g xs"
  by (induction xs) auto

lemma hunter_claim_cong: "same_claim c d \<Longrightarrow> hunter_claim c = hunter_claim d"
  unfolding hunter_claim_def same_claim_def by (simp add: subscript_def cong: map_res_cong)

lemma hunter_claims_cong: "list_all2 same_claim cs ds \<Longrightarrow> hunter_claims cs = hunter_claims ds"
proof -
  assume "list_all2 same_claim cs ds"
  then have "map_res hunter_claim cs = map_res hunter_claim ds"
    by (induction rule: list_all2_induct) (auto dest: hunter_claim_cong)
  then show ?thesis by (simp add: hunter_claims_def)
qed

lemma blind_prompt:
  assumes "stage \<in> {''hunter'', ''skeptic'', ''referee''}"
    and "list_all2 same_claim (assessed a ''hunter'') (assessed b ''hunter'')"
  shows "stage_prompt frepr stage a = stage_prompt frepr stage b"
  using assms(1) hunter_claims_cong [OF assms(2)] by (auto simp: stage_prompt_def stage_input_def STAGES_def)

subsection \<open>Well-formed candidates\<close>

definition wf_candidate :: "dict \<Rightarrow> bool" where
  "wf_candidate d \<longleftrightarrow>
     (\<forall>k\<in>set CANDIDATE_STRINGS. candidate_string (getv d k)) \<and> located d \<and>
     getv d ''severity'' \<in> PStr ` set SEVERITIES \<and> getv d ''status'' \<in> PStr ` set STATUSES"

lemma read_candidate_Inr:
  "read_candidate seen v = Inr d \<Longrightarrow> wf_candidate d \<and> candidate_id d \<notin> set seen \<and> v = PDict d"
  by (auto simp: read_candidate_def bind_res_Inr_iff wf_candidate_def list_all_iff
      split: pyval.splits if_splits dest!: in_set_True)

lemma read_candidates_Inr:
  "read_candidates seen vs = Inr ds \<Longrightarrow>
     (\<forall>d\<in>set ds. wf_candidate d \<and> candidate_id d \<notin> set seen) \<and> distinct (map candidate_id ds) \<and> vs = map PDict ds"
proof (induction seen vs arbitrary: ds rule: read_candidates.induct)
  case (2 seen v vs)
  obtain d es where d: "read_candidate seen v = Inr d" and es: "read_candidates (candidate_id d # seen) vs = Inr es"
    and ds: "ds = d # es"
    using "2.prems" by (auto simp: bind_res_Inr_iff)
  from "2.IH" [OF es] read_candidate_Inr [OF d] show ?case by (auto simp: ds)
qed simp

lemma parse_candidates_Inr:
  assumes "parse_candidates loads s = Inr ds"
  shows "list_all wf_candidate ds \<and> distinct (map candidate_id ds) \<and> length ds \<le> 1000 \<and>
         (\<exists>d. loads s = Some (PDict d) \<and> set (map fst d) = {''candidates''} \<and>
              getv d ''candidates'' = PList (map PDict ds))"
proof -
  obtain v xs where v: "loads s = Some v" "candidate_items v = Inr xs" "read_candidates [] xs = Inr ds"
    using assms by (auto simp: parse_candidates_def bind_res_Inr_iff split: option.splits)
  then obtain d where "v = PDict d" "set (map fst d) = {''candidates''}"
      "getv d ''candidates'' = PList xs" "length xs \<le> 1000"
    by (auto simp: candidate_items_def split: pyval.splits if_splits)
  with v read_candidates_Inr [OF v(3)] show ?thesis by (auto simp: list_all_iff)
qed

text \<open>A well-formed candidate as the tuple \<open>(file, location, line)\<close> under its id.\<close>

definition claim_of :: "dict \<Rightarrow> string \<times> pyval list" where
  "claim_of d = (candidate_id d, [getv d ''file'', getv d ''location'', getv d ''line''])"

lemma getv_Some: "getv d k \<noteq> PNone \<Longrightarrow> map_of d k = Some (getv d k)"
  by (auto simp: getv_def dict_get_def split: option.splits)

lemma wf_candidate_keys:
  assumes "wf_candidate d" "k \<in> set (CLAIM_KEYS @ [''severity'', ''status''])"
  shows "map_of d k = Some (getv d k)"
proof (rule getv_Some)
  have "k \<in> set CANDIDATE_STRINGS \<or> k = ''line'' \<or> k = ''severity'' \<or> k = ''status''"
    using assms(2) by (auto simp: CLAIM_KEYS_def CANDIDATE_STRINGS_def)
  moreover have "v \<noteq> PNone" if "candidate_string v" for v
    using that by (auto simp: candidate_string_def)
  moreover have "getv d ''line'' \<noteq> PNone"
    using assms(1) by (auto simp: wf_candidate_def located_def split: pyval.splits)
  moreover have "getv d ''severity'' \<noteq> PNone" "getv d ''status'' \<noteq> PNone"
    using assms(1) by (auto simp: wf_candidate_def)
  moreover have "candidate_string (getv d k)" if "k \<in> set CANDIDATE_STRINGS"
    using assms(1) that by (simp add: wf_candidate_def)
  ultimately show "getv d k \<noteq> PNone" by metis
qed

lemma wf_candidate_id: "wf_candidate d \<Longrightarrow> getv d ''bug_id'' = PStr (candidate_id d)"
  by (auto simp: wf_candidate_def CANDIDATE_STRINGS_def candidate_string_def candidate_id_def split: pyval.splits)

lemma wf_located:
  assumes "wf_candidate d"
  obtains f n where "getv d ''file'' = PStr f" "getv d ''line'' = PInt n" "1 \<le> n" "safe_path f"
    "getv d ''location'' = PStr (f @ '':'' @ int_str n)"
  using assms by (auto simp: wf_candidate_def located_def split: pyval.splits)

lemma claim_entry_wf: "wf_candidate d \<Longrightarrow> claim_entry d = Inr (PStr (candidate_id d), snd (claim_of d))"
  using wf_candidate_keys [of d "''bug_id''"] wf_candidate_keys [of d "''file''"] wf_candidate_keys [of d "''location''"]
    wf_candidate_keys [of d "''line''"]
  by (simp add: claim_entry_def subscript_def CLAIM_KEYS_def claim_of_def wf_candidate_id)

lemma hunter_claims_wf:
  "list_all wf_candidate ds \<Longrightarrow> hunter_claims ds = Inr (PList (map (\<lambda>d. PDict (map (\<lambda>k. (k, getv d k)) CLAIM_KEYS)) ds))"
proof -
  have one: "hunter_claim d = Inr (PDict (map (\<lambda>k. (k, getv d k)) CLAIM_KEYS))" if "wf_candidate d" for d
  proof -
    have "map_of d k = Some (getv d k)" if "k \<in> set CLAIM_KEYS" for k
      using wf_candidate_keys [OF \<open>wf_candidate d\<close>, of k] that by simp
    then show ?thesis by (simp add: hunter_claim_def subscript_def CLAIM_KEYS_def)
  qed
  assume "list_all wf_candidate ds"
  then have "map_res hunter_claim ds = Inr (map (\<lambda>d. PDict (map (\<lambda>k. (k, getv d k)) CLAIM_KEYS)) ds)"
    by (induction ds) (simp_all add: one)
  then show ?thesis by (simp add: hunter_claims_def)
qed

lemma fold_update_distinct:
  "distinct (map fst es) \<Longrightarrow> fst ` set al \<inter> fst ` set es = {} \<Longrightarrow>
     fold (\<lambda>(k, v). AList.update k v) es al = al @ es"
proof (induction es arbitrary: al)
  case (Cons e es)
  obtain k v where e: "e = (k, v)" by (cases e)
  have "AList.update k v al = al @ [(k, v)]"
    using Cons.prems(2) by (induction al) (auto simp: e)
  then show ?case
    using Cons.prems by (simp add: e, subst Cons.IH) auto
qed simp

lemma claims_wf:
  assumes "list_all wf_candidate ds" "distinct (map candidate_id ds)"
  shows "claims ds = Inr (map (\<lambda>d. (PStr (candidate_id d), snd (claim_of d))) ds)"
proof -
  let ?es = "map (\<lambda>d. (PStr (candidate_id d), snd (claim_of d))) ds"
  have "map_res claim_entry ds = Inr ?es"
    using assms(1) by (induction ds) (simp_all add: claim_entry_wf)
  moreover have "distinct (map fst ?es)"
    using assms(2) by (simp add: distinct_map inj_on_def o_def)
  ultimately show ?thesis by (simp add: claims_def fold_update_distinct)
qed

lemma claim_values_eq:
  assumes "wf_candidate c" "wf_candidate d"
  shows "list_all2 py_eq (snd (claim_of c)) (snd (claim_of d)) \<longleftrightarrow> snd (claim_of c) = snd (claim_of d)"
  using assms by (elim wf_located) (auto simp: claim_of_def)

lemma validate_stage_candidates_iff:
  assumes wf: "list_all wf_candidate cs" "distinct (map candidate_id cs)"
    and hunter: "list_all wf_candidate (assessed a ''hunter'')" "distinct (map candidate_id (assessed a ''hunter''))"
    and "stage \<noteq> ''hunter''"
  shows "validate_stage_candidates stage cs a =
           guard (set (map claim_of cs) = set (map claim_of (assessed a ''hunter''))) ValueError"
proof -
  let ?hs = "assessed a ''hunter''" and ?e = "\<lambda>d. (PStr (candidate_id d), snd (claim_of d))"
  have lookup: "map_of (map ?e ds) (PStr (candidate_id d)) = Some (snd (claim_of d))"
    if "d \<in> set ds" "distinct (map candidate_id ds)" for d ds
    using that by (intro map_of_is_SomeI) (auto simp: distinct_map inj_on_def o_def)
  have some: "\<exists>h\<in>set ?hs. candidate_id h = i" if "map_of (map ?e ?hs) (PStr i) = Some w" for i w
    using map_of_SomeD [OF that] by auto
  have "same_claims (map ?e cs) (map ?e ?hs) \<longleftrightarrow> set (map claim_of cs) = set (map claim_of ?hs)"
  proof
    assume same: "same_claims (map ?e cs) (map ?e ?hs)"
    have ids: "candidate_id ` set cs = candidate_id ` set ?hs"
    proof -
      have "PStr ` candidate_id ` set cs = PStr ` candidate_id ` set ?hs"
        using same by (simp add: same_claims_def image_image)
      then show ?thesis by (simp add: inj_image_eq_iff inj_def)
    qed
    have agree: "claim_of c = claim_of h" if "c \<in> set cs" "h \<in> set ?hs" "candidate_id c = candidate_id h" for c h
    proof -
      have "list_all2 py_eq (snd (claim_of c)) (snd (claim_of h))"
        using same that lookup [OF that(2) hunter(2)] by (auto simp: same_claims_def list_all_iff)
      with claim_values_eq [of c h] wf(1) hunter(1) that show ?thesis
        by (auto simp: list_all_iff claim_of_def)
    qed
    show "set (map claim_of cs) = set (map claim_of ?hs)"
    proof (intro subset_antisym subsetI)
      fix x assume "x \<in> set (map claim_of cs)"
      then obtain c where c: "c \<in> set cs" "x = claim_of c" by auto
      with ids obtain h where "h \<in> set ?hs" "candidate_id c = candidate_id h" 
        using image_iff [of "candidate_id c" candidate_id "set ?hs"] by auto
      with c agree show "x \<in> set (map claim_of ?hs)" by auto
    next
      fix x assume "x \<in> set (map claim_of ?hs)"
      then obtain h where h: "h \<in> set ?hs" "x = claim_of h" by auto
      with ids obtain c where c: "c \<in> set cs" "candidate_id c = candidate_id h"
        using image_iff [of "candidate_id h" candidate_id "set cs"] by auto
      then show "x \<in> set (map claim_of cs)" using agree [OF c(1) h(1) c(2)] h(2) by (simp add: image_iff) metis
    qed
  next
    assume eq: "set (map claim_of cs) = set (map claim_of ?hs)"
    have "fst ` set (map claim_of cs) = fst ` set (map claim_of ?hs)" using eq by simp
    then have "candidate_id ` set cs = candidate_id ` set ?hs" by (simp add: image_image claim_of_def)
    then have "PStr ` candidate_id ` set cs = PStr ` candidate_id ` set ?hs" by (rule arg_cong)
    then have keys: "set (map fst (map ?e cs)) = set (map fst (map ?e ?hs))"
      by (simp add: image_image)
    have "\<exists>w. map_of (map ?e ?hs) (PStr (candidate_id c)) = Some w \<and> list_all2 py_eq (snd (claim_of c)) w"
      if c: "c \<in> set cs" for c
    proof -
      have "claim_of c \<in> set (map claim_of ?hs)" unfolding eq [symmetric] using c by simp
      then obtain h where h: "h \<in> set ?hs" "claim_of h = claim_of c" by auto
      then have "candidate_id h = candidate_id c" by (simp add: claim_of_def)
      with lookup [OF h(1) hunter(2)] h claim_values_eq [of c c] wf(1) c show ?thesis
        by (auto simp: list_all_iff)
    qed
    note found = this
    show "same_claims (map ?e cs) (map ?e ?hs)"
      unfolding same_claims_def list_all_iff
    proof (intro conjI ballI keys)
      fix x assume "x \<in> set (map ?e cs)"
      then obtain c where c: "c \<in> set cs" "x = ?e c" by auto
      from found [OF c(1)] obtain w where "map_of (map ?e ?hs) (PStr (candidate_id c)) = Some w"
        "list_all2 py_eq (snd (claim_of c)) w" by blast
      with c(2) show "case x of (k, v) \<Rightarrow> (case map_of (map ?e ?hs) k of None \<Rightarrow> False | Some w \<Rightarrow> list_all2 py_eq v w)"
        by simp
    qed
  qed
  with assms(5) show ?thesis by (simp add: validate_stage_candidates_def claims_wf wf hunter)
qed

end
