(* ===== verification/Stage_Run.thy ===== *)
theory Stage_Run
  imports Stages
begin

text \<open>
  \<open>_run_pipeline_stages\<close> of \<^verbatim>\<open>bench/harness.py\<close> and the functions it uses: one fresh native invocation for every
  stage of the slot's block, each validated before its candidates reach the next stage.  Its state is the
  record \<open>pipeline\<close>: the stage receipts, the assessments, the sessions seen and the prompts sent.  The host is the
  parameter \<open>host_answer\<close>, a function of all the prompts sent so far, so that it may remember them.
  The paths and digests of the files a stage leaves are not in the receipts here.
\<close>

subsection \<open>Prompts\<close>

definition MAX_MANIFEST_DESCRIPTION_BYTES :: nat where
  "MAX_MANIFEST_DESCRIPTION_BYTES = 8192"

definition sha256_hex :: "pyval \<Rightarrow> bool" where
  "sha256_hex v =
     (case v of PStr s \<Rightarrow> length s = 64 \<and> list_all (\<lambda>c. c \<in> set ''0123456789abcdef'') s | _ \<Rightarrow> False)"

definition redacted_case :: "dict \<Rightarrow> value_error + pyval" where
  "redacted_case c =
     (case dict_get c ''task_description'' (PStr []) of
        PStr t \<Rightarrow>
          if utf8_length t \<le> MAX_MANIFEST_DESCRIPTION_BYTES
          then Inr (PDict [(''id'', getv c ''id''), (''language'', getv c ''language''),
                           (''size_ceiling'', getv c ''size_ceiling''), (''task_description'', PStr t)])
          else Inl ValueError
      | _ \<Rightarrow> Inl ValueError)"

definition ARM_INSTRUCTIONS :: "(string \<times> string) list" where
  "ARM_INSTRUCTIONS =
     [(''current_skill'', ''Use the supplied current Bugsweep skill snapshot.''),
      (''previous_release'', ''Use only the supplied previous-release Bugsweep skill snapshot.''),
      (''no_skill_baseline'', ''Do not load any Bugsweep skill; perform the baseline review directly.'')]"

definition base_prompt :: "(pyfloat \<Rightarrow> string) \<Rightarrow> dict \<Rightarrow> string \<Rightarrow> string option \<Rightarrow> value_error + string" where
  "base_prompt frepr c arm ctx =
     bind_res (redacted_case c) (\<lambda>manifest.
       case map_of ARM_INSTRUCTIONS arm of
         None \<Rightarrow> Inl KeyError
       | Some instruction \<Rightarrow>
           Inr (''BENCHMARK REDUCED DETECT-ONLY PROMPT METHODOLOGY: this does not execute or measure the full Bugsweep workflow, lifecycle, tracker, or subagent phase protocols. Inspect only the mounted archive source. Do not run commands, Git, ''
             @ ''trackers, tests, lifecycle scripts, network tools, or write files. Do not read parent directories, ''
             @ ''benchmark metadata, gold data, advisory history, or future runs. Apply the supplied immutable skill ''
             @ ''excerpt only as source-review methodology; every operational workflow instruction is out of scope. ''
             @ ''A later frozen role prompt supplies the candidate contract and requires strict JSON-only output. ''
             @ instruction @ LF @ ''Redacted task manifest:'' @ LF @ json_dumps False frepr manifest
             @ (case ctx of
                  None \<Rightarrow> []
                | Some x \<Rightarrow> LF @ LF @ ''UNTRUSTED SOURCE-ONLY CONTEXT ARTIFACT (requested navigation aid; it is not verified ''
                    @ ''label-free and is never oracle evidence):'' @ LF @ x)))"

definition adapter_argv :: "string \<Rightarrow> string \<Rightarrow> string \<Rightarrow> string \<Rightarrow> value_error + string list" where
  "adapter_argv host model prompt arm =
     (if host \<in> set [''claude'', ''codex'']
      then Inr [''/usr/local/bin/bench-host-adapter'', host, model, arm, prompt] else Inl ValueError)"

definition metadata_valid :: "dict \<Rightarrow> bool" where
  "metadata_valid d \<longleftrightarrow>
     sha256_hex (getv d ''effective_prompt_sha256'')
     \<and> (getv d ''loaded_skill_sha256'' = PNone \<or> sha256_hex (getv d ''loaded_skill_sha256''))
     \<and> (case getv d ''candidate_events'' of PNone \<Rightarrow> True | PList xs \<Rightarrow> list_all is_dict xs | _ \<Rightarrow> False)
     \<and> (map_of d ''candidate_events_sha256'' \<noteq> None \<longrightarrow> sha256_hex (getv d ''candidate_events_sha256''))"

definition adapter_metadata :: "json_loads \<Rightarrow> text_file \<Rightarrow> dict" where
  "adapter_metadata loads f =
     (case read_doc loads f of Some (PDict d) \<Rightarrow> if metadata_valid d then d else [] | _ \<Rightarrow> [])"

definition stage_block_of :: "pyval \<Rightarrow> pyval \<Rightarrow> value_error + stage_block" where
  "stage_block_of blocks identifier =
     bind_res (normalize_stage_blocks blocks) (\<lambda>bs.
       case find (\<lambda>b. identifier = PStr (b_id b)) bs of None \<Rightarrow> Inl ValueError | Some b \<Rightarrow> Inr b)"

subsection \<open>One stage\<close>

text \<open>What is fixed for a slot, and what comes back from one invocation: the execution receipt or the class of the
  exception, the response and metadata files, and the source manifest observed afterwards.\<close>

record slot =
  s_host :: string
  s_model :: string
  s_arm :: string
  s_case :: dict
  s_source :: string
  s_skill :: pyval
  s_context :: "string option"

record answer =
  a_execution :: "string + dict"
  a_response :: text_file
  a_metadata :: text_file
  a_source :: string

record tools =
  t_loads :: json_loads
  t_strict :: json_loads
  t_frepr :: "pyfloat \<Rightarrow> string"
  t_srepr :: "pyval \<Rightarrow> string"
  t_sha :: "string \<Rightarrow> string"

definition digest :: "tools \<Rightarrow> pyval \<Rightarrow> string" where
  "digest t v = t_sha t (json_dumps False (t_frepr t) v)"

datatype reason =
    Execution_Error string
  | Native_Stage_Unverified
  | Host_Reason string
  | Prior_Stage_Unverified

record stage_receipt =
  sr_stage :: string
  sr_model :: string
  sr_source :: string
  sr_source_valid :: bool
  sr_input_sha256 :: string
  sr_template_sha256 :: string
  sr_prompt_sha256 :: "pyval option"
  sr_execution_sha256 :: "string option"
  sr_session :: "string option"
  sr_completed :: bool
  sr_reason :: "reason option"

record pipeline =
  p_receipts :: "stage_receipt list"
  p_assessments :: assessments
  p_sessions :: "string list"
  p_requests :: "(string \<times> string) list"

type_synonym host_answer = "(string \<times> string) list \<Rightarrow> answer"

text \<open>\<open>reason = str(execution.get("reason") or "native_stage_not_completed")[:160]\<close>\<close>

definition host_reason :: "tools \<Rightarrow> dict \<Rightarrow> reason" where
  "host_reason t e =
     (let r = getv e ''reason''
      in Host_Reason (take 160 (if truthy r then py_str (t_srepr t) r else ''native_stage_not_completed'')))"

definition exited_ok :: "dict \<Rightarrow> bool" where
  "exited_ok e \<longleftrightarrow> getv e ''termination'' = PStr ''exited'' \<and> py_eq (getv e ''exit_code'') (PInt 0)"

text \<open>What the coordinator learns from one invocation.\<close>

record learnt =
  l_session :: "string option"
  l_candidates :: "dict list option"
  l_reason :: "reason option"

definition unverified :: "string option \<Rightarrow> dict list option \<Rightarrow> learnt" where
  "unverified s cs = \<lparr>l_session = s, l_candidates = cs, l_reason = Some Native_Stage_Unverified\<rparr>"

text \<open>\<open>except (OSError, UnicodeDecodeError, ValueError)\<close>: every other exception leaves the pipeline.\<close>

definition except_value :: "value_error + 'a \<Rightarrow> learnt \<Rightarrow> ('a \<Rightarrow> value_error + learnt) \<Rightarrow> value_error + learnt" where
  "except_value m failed k =
     (case m of Inl e \<Rightarrow> if e = ValueError then Inr failed else Inl e | Inr x \<Rightarrow> k x)"

definition read_native :: "tools \<Rightarrow> string \<Rightarrow> string \<Rightarrow> pipeline \<Rightarrow> string \<Rightarrow> value_error + learnt" where
  "read_native t host stage p raw =
     except_value (parse_host_message (t_strict t) host raw) (unverified None None) (\<lambda>m.
     let session = Some (m_session m)
     in except_value (parse_candidates (t_strict t) (m_text m)) (unverified session None) (\<lambda>cs.
        except_value (validate_stage_candidates stage cs (p_assessments p)) (unverified session (Some cs)) (\<lambda>_.
        if m_session m \<in> set (p_sessions p) then Inr (unverified session (Some cs))
        else Inr \<lparr>l_session = session, l_candidates = Some cs, l_reason = None\<rparr>)))"

definition learn :: "tools \<Rightarrow> string \<Rightarrow> string \<Rightarrow> pipeline \<Rightarrow> answer \<Rightarrow> value_error + learnt" where
  "learn t host stage p a =
     (case a_execution a of
        Inl name \<Rightarrow> Inr \<lparr>l_session = None, l_candidates = None, l_reason = Some (Execution_Error name)\<rparr>
      | Inr e \<Rightarrow>
          if exited_ok e \<and> a_response a \<noteq> Missing
          then (case a_response a of Text raw \<Rightarrow> read_native t host stage p raw | _ \<Rightarrow> Inr (unverified None None))
          else Inr \<lparr>l_session = None, l_candidates = None, l_reason = Some (host_reason t e)\<rparr>)"

definition prompt_valid :: "slot \<Rightarrow> dict \<Rightarrow> bool" where
  "prompt_valid sl m \<longleftrightarrow> sha256_hex (getv m ''effective_prompt_sha256'') \<and> py_eq (getv m ''loaded_skill_sha256'') (s_skill sl)"

definition prior_unverified :: "pipeline \<Rightarrow> bool" where
  "prior_unverified p \<longleftrightarrow> list_ex (\<lambda>r. \<not> sr_completed r) (p_receipts p)"

definition final_reason :: "pipeline \<Rightarrow> learnt \<Rightarrow> reason option" where
  "final_reason p l =
     (if prior_unverified p \<and> l_reason l = None then Some Prior_Stage_Unverified else l_reason l)"

definition stage_completed :: "slot \<Rightarrow> pipeline \<Rightarrow> answer \<Rightarrow> dict \<Rightarrow> learnt \<Rightarrow> bool" where
  "stage_completed sl p a m l \<longleftrightarrow>
     l_candidates l \<noteq> None \<and> final_reason p l = None \<and> a_source a = s_source sl \<and> prompt_valid sl m \<and>
     \<not> prior_unverified p"

definition receipt_of ::
  "tools \<Rightarrow> slot \<Rightarrow> string \<Rightarrow> pyval \<Rightarrow> string \<Rightarrow> pipeline \<Rightarrow> answer \<Rightarrow> dict \<Rightarrow> learnt \<Rightarrow> stage_receipt" where
  "receipt_of t sl stage input template p a m l =
     \<lparr>sr_stage = stage, sr_model = s_model sl, sr_source = a_source a, sr_source_valid = (a_source a = s_source sl),
      sr_input_sha256 = digest t input,
      sr_template_sha256 = digest t (PStr template),
      sr_prompt_sha256 = (if prompt_valid sl m then Some (getv m ''effective_prompt_sha256'') else None),
      sr_execution_sha256 = (case a_execution a of Inl _ \<Rightarrow> None | Inr e \<Rightarrow> Some (digest t (PDict e))),
      sr_session = l_session l, sr_completed = stage_completed sl p a m l, sr_reason = final_reason p l\<rparr>"

definition record_stage :: "string \<Rightarrow> pipeline \<Rightarrow> string \<Rightarrow> learnt \<Rightarrow> stage_receipt \<Rightarrow> pipeline" where
  "record_stage stage p prompt l r =
     p\<lparr>p_receipts := p_receipts p @ [r],
       p_requests := p_requests p @ [(stage, prompt)],
       p_assessments := (case l_candidates l of None \<Rightarrow> p_assessments p
                         | Some cs \<Rightarrow> AList.update stage cs (p_assessments p)),
       p_sessions := (case (sr_completed r, l_session l) of (True, Some s) \<Rightarrow> s # p_sessions p | _ \<Rightarrow> p_sessions p)\<rparr>"

definition stage_request :: "tools \<Rightarrow> slot \<Rightarrow> string \<Rightarrow> assessments \<Rightarrow> value_error + string" where
  "stage_request t sl stage a =
     bind_res (base_prompt (t_frepr t) (s_case sl) (s_arm sl) (s_context sl)) (\<lambda>base.
     bind_res (stage_prompt (t_frepr t) stage a) (\<lambda>asked. Inr (base @ LF @ LF @ asked)))"

text \<open>\<open>run_command(adapter_argv(...))\<close>: without an argument vector nothing is started, which is caught like a
  failing execution.\<close>

definition invoke :: "slot \<Rightarrow> host_answer \<Rightarrow> (string \<times> string) list \<Rightarrow> string \<Rightarrow> answer" where
  "invoke sl host requests prompt =
     (case adapter_argv (s_host sl) (s_model sl) prompt (s_arm sl) of
        Inl _ \<Rightarrow> \<lparr>a_execution = Inl ''HarnessError'', a_response = Missing, a_metadata = Missing,
                  a_source = a_source (host requests)\<rparr>
      | Inr _ \<Rightarrow> host requests)"

definition run_stage :: "tools \<Rightarrow> slot \<Rightarrow> host_answer \<Rightarrow> string \<Rightarrow> pipeline \<Rightarrow> value_error + pipeline" where
  "run_stage t sl host stage p =
     bind_res (stage_input stage (p_assessments p)) (\<lambda>input.
     bind_res (stage_request t sl stage (p_assessments p)) (\<lambda>prompt.
     bind_res (stage_prompt (t_frepr t) stage []) (\<lambda>template.
     let a = invoke sl host (p_requests p @ [(stage, prompt)]) prompt; m = adapter_metadata (t_loads t) (a_metadata a)
     in bind_res (learn t (s_host sl) stage p a) (\<lambda>l.
          Inr (record_stage stage p prompt l (receipt_of t sl stage input template p a m l))))))"

fun run_stages :: "tools \<Rightarrow> slot \<Rightarrow> host_answer \<Rightarrow> string list \<Rightarrow> pipeline \<Rightarrow> value_error + pipeline" where
  "run_stages t sl host [] p = Inr p"
| "run_stages t sl host (s # ss) p = bind_res (run_stage t sl host s p) (run_stages t sl host ss)"

definition start :: "string list \<Rightarrow> pipeline" where
  "start sessions = \<lparr>p_receipts = [], p_assessments = [], p_sessions = sessions, p_requests = []\<rparr>"

text \<open>\<open>context_session\<close>: the session that built the context of the slot, when one did.\<close>

definition run_pipeline_stages ::
  "tools \<Rightarrow> slot \<Rightarrow> host_answer \<Rightarrow> pyval \<Rightarrow> pyval \<Rightarrow> string option \<Rightarrow> value_error + pipeline" where
  "run_pipeline_stages t sl host blocks identifier context_session =
     bind_res (stage_block_of blocks identifier) (\<lambda>b.
       run_stages t sl host (b_stages b) (start (case context_session of None \<Rightarrow> [] | Some s \<Rightarrow> [s])))"

subsection \<open>A verified answer\<close>

lemma except_value_Inr:
  "except_value m failed k = Inr l \<longleftrightarrow> m = Inl ValueError \<and> l = failed \<or> (\<exists>x. m = Inr x \<and> k x = Inr l)"
  by (cases m) (auto simp: except_value_def)

lemma read_native_Inr:
  assumes "read_native t host stage p raw = Inr l"
  shows "(l_reason l \<noteq> None \<or>
           (\<exists>m cs. parse_host_message (t_strict t) host raw = Inr m \<and> parse_candidates (t_strict t) (m_text m) = Inr cs \<and>
              validate_stage_candidates stage cs (p_assessments p) = Inr () \<and> m_session m \<notin> set (p_sessions p) \<and>
              l_session l = Some (m_session m) \<and> l_candidates l = Some cs)) \<and>
         (\<forall>cs. l_candidates l = Some cs \<longrightarrow> (\<exists>s. parse_candidates (t_strict t) s = Inr cs))"
  using assms by (auto simp: read_native_def except_value_Inr unverified_def Let_def split: if_splits)

lemma learn_verified:
  assumes "learn t host stage p a = Inr l" "l_reason l = None"
  obtains s cs where "validate_stage_candidates stage cs (p_assessments p) = Inr ()" "s \<notin> set (p_sessions p)"
    "l_session l = Some s" "l_candidates l = Some cs"
proof -
  obtain raw where "read_native t host stage p raw = Inr l"
    using assms by (auto simp: learn_def unverified_def split: sum.splits if_splits text_file.splits)
  with read_native_Inr [OF this] assms(2) that show thesis by blast
qed

lemma learn_candidates:
  assumes "learn t host stage p a = Inr l" "l_candidates l = Some cs"
  shows "list_all wf_candidate cs \<and> distinct (map candidate_id cs)"
proof -
  obtain raw where "read_native t host stage p raw = Inr l"
    using assms by (auto simp: learn_def unverified_def split: sum.splits if_splits text_file.splits)
  with read_native_Inr [OF this] assms(2) obtain s where "parse_candidates (t_strict t) s = Inr cs" by blast
  from parse_candidates_Inr [OF this] show ?thesis by blast
qed

subsection \<open>The invariant of a pipeline\<close>

definition wf_assessments :: "assessments \<Rightarrow> bool" where
  "wf_assessments a \<longleftrightarrow> (\<forall>s. list_all wf_candidate (assessed a s) \<and> distinct (map candidate_id (assessed a s)))"

definition completed_prefix :: "stage_receipt list \<Rightarrow> bool" where
  "completed_prefix rs \<longleftrightarrow> (\<forall>j<length rs. sr_completed (rs ! j) \<longrightarrow> (\<forall>i<j. sr_completed (rs ! i)))"

definition completed_sessions :: "stage_receipt list \<Rightarrow> string list" where
  "completed_sessions rs = List.map_filter (\<lambda>r. if sr_completed r then sr_session r else None) rs"

definition audited :: "slot \<Rightarrow> assessments \<Rightarrow> stage_receipt \<Rightarrow> bool" where
  "audited sl a r \<longleftrightarrow>
     sr_source r = s_source sl \<and> sr_session r \<noteq> None \<and> (\<exists>d. sr_prompt_sha256 r = Some d \<and> sha256_hex d) \<and>
     mset (map claim_of (assessed a (sr_stage r))) = mset (map claim_of (assessed a ''hunter''))"

definition pipeline_ok :: "tools \<Rightarrow> slot \<Rightarrow> string list \<Rightarrow> string list \<Rightarrow> pipeline \<Rightarrow> bool" where
  "pipeline_ok t sl init stages p \<longleftrightarrow>
     map sr_stage (p_receipts p) = stages \<and> wf_assessments (p_assessments p) \<and> completed_prefix (p_receipts p) \<and>
     p_sessions p = rev (completed_sessions (p_receipts p)) @ init \<and> distinct (p_sessions p) \<and>
     (\<forall>r\<in>set (p_receipts p). sr_completed r \<longrightarrow> audited sl (p_assessments p) r) \<and>
     map fst (p_requests p) = stages \<and>
     (\<forall>(s, q)\<in>set (p_requests p). s \<in> {''hunter'', ''skeptic'', ''referee''} \<longrightarrow>
        stage_request t sl s (p_assessments p) = Inr q)"

lemma completed_prefix_snoc:
  "completed_prefix (rs @ [r]) \<longleftrightarrow> completed_prefix rs \<and> (sr_completed r \<longrightarrow> list_all sr_completed rs)"
  by (auto simp: completed_prefix_def nth_append less_Suc_eq list_all_length)

lemma completed_sessions_snoc:
  "completed_sessions (rs @ [r]) =
     completed_sessions rs @ (case (sr_completed r, sr_session r) of (True, Some s) \<Rightarrow> [s] | _ \<Rightarrow> [])"
  by (auto simp: completed_sessions_def List.map_filter_def split: option.split)

lemma assessed_update [simp]: "assessed (AList.update s cs a) s' = (if s' = s then cs else assessed a s')"
  by (simp add: assessed_def)

lemma same_claim_refl [simp]: "list_all2 same_claim cs cs"
  by (simp add: list_all2_same same_claim_def)

lemma stage_request_blind:
  assumes "stage \<in> {''hunter'', ''skeptic'', ''referee''}"
    and "stage = ''hunter'' \<or> list_all2 same_claim (assessed a ''hunter'') (assessed b ''hunter'')"
  shows "stage_request t sl stage a = stage_request t sl stage b"
proof -
  have "stage_prompt (t_frepr t) stage a = stage_prompt (t_frepr t) stage b"
  proof (cases "stage = ''hunter''")
    case True
    then show ?thesis by (simp add: stage_prompt_def STAGES_def)
  next
    case False
    with assms show ?thesis by (intro blind_prompt) auto
  qed
  then show ?thesis by (simp add: stage_request_def)
qed

lemma mset_claims:
  assumes "set (map claim_of cs) = set (map claim_of hs)" "distinct (map candidate_id cs)" "distinct (map candidate_id hs)"
  shows "mset (map claim_of cs) = mset (map claim_of hs)"
proof -
  have d: "distinct (map claim_of ds)" if "distinct (map candidate_id ds)" for ds
  proof -
    have "map fst (map claim_of ds) = map candidate_id ds" by (simp add: claim_of_def)
    with that show ?thesis using distinct_map by metis
  qed
  from assms show ?thesis by (simp only: set_eq_iff_mset_eq_distinct d)
qed

lemma run_stage_Inr:
  assumes "run_stage t sl host stage p = Inr q"
  obtains input prompt template a m l r where
    "stage_request t sl stage (p_assessments p) = Inr prompt"
    "learn t (s_host sl) stage p a = Inr l" "r = receipt_of t sl stage input template p a m l"
    "q = record_stage stage p prompt l r"
  using assms by (auto simp: run_stage_def bind_res_Inr_iff Let_def)

lemma receipt_of_completed:
  assumes "learn t (s_host sl) stage p a = Inr l" "r = receipt_of t sl stage input template p a m l" "sr_completed r"
  obtains s cs where "validate_stage_candidates stage cs (p_assessments p) = Inr ()" "s \<notin> set (p_sessions p)"
    "l_session l = Some s" "l_candidates l = Some cs" "sr_session r = Some s" "sr_source r = s_source sl"
    "\<exists>d. sr_prompt_sha256 r = Some d \<and> sha256_hex d" "list_all sr_completed (p_receipts p)"
proof -
  have c: "l_reason l = None" "\<not> prior_unverified p" "a_source a = s_source sl" "prompt_valid sl m"
    using assms by (auto simp: receipt_of_def stage_completed_def final_reason_def split: if_splits)
  have "list_all sr_completed (p_receipts p)"
    using c(2) by (auto simp: prior_unverified_def list_ex_iff list_all_iff)
  moreover have "sr_source r = s_source sl" "sr_session r = l_session l" "\<exists>d. sr_prompt_sha256 r = Some d \<and> sha256_hex d"
    using c(3,4) by (simp_all add: assms(2) receipt_of_def prompt_valid_def)
  ultimately show thesis using learn_verified [OF assms(1) c(1)] that by metis
qed

lemma run_stage_ok:
  assumes ok: "pipeline_ok t sl init past p" and run: "run_stage t sl host stage p = Inr q"
    and order: "stage \<notin> set past" "past = [] \<or> hd past = ''hunter''"
  shows "pipeline_ok t sl init (past @ [stage]) q"
proof -
  obtain input prompt template a m l r where
    req: "stage_request t sl stage (p_assessments p) = Inr prompt" and learn: "learn t (s_host sl) stage p a = Inr l"
    and r: "r = receipt_of t sl stage input template p a m l" and q: "q = record_stage stage p prompt l r"
    using run by (rule run_stage_Inr)
  have later: "stage \<noteq> ''hunter''" if "past \<noteq> []"
    using order that by (cases past) auto
  have q_simps: "p_receipts q = p_receipts p @ [r]" "p_requests q = p_requests p @ [(stage, prompt)]"
    by (simp_all add: q record_stage_def)
  have hunter: "assessed (p_assessments q) ''hunter'' = assessed (p_assessments p) ''hunter''" if "past \<noteq> []"
    using later [OF that] by (auto simp: q record_stage_def split: option.split)
  have other: "assessed (p_assessments q) s = assessed (p_assessments p) s" if "s \<noteq> stage" for s
    using that by (auto simp: q record_stage_def split: option.split)
  have wf: "wf_assessments (p_assessments p)" and stages: "map sr_stage (p_receipts p) = past"
    and sess: "p_sessions p = rev (completed_sessions (p_receipts p)) @ init" "distinct (p_sessions p)"
    and audit: "\<And>r'. r' \<in> set (p_receipts p) \<Longrightarrow> sr_completed r' \<Longrightarrow> audited sl (p_assessments p) r'"
    and reqs: "map fst (p_requests p) = past"
      "\<And>s x. (s, x) \<in> set (p_requests p) \<Longrightarrow> s \<in> {''hunter'', ''skeptic'', ''referee''} \<Longrightarrow>
         stage_request t sl s (p_assessments p) = Inr x"
    using ok by (auto simp: pipeline_ok_def)
  have "wf_assessments (p_assessments q)"
    using wf learn_candidates [OF learn] by (auto simp: wf_assessments_def q record_stage_def split: option.split)
  moreover have "completed_prefix (p_receipts q)"
  proof (cases "sr_completed r")
    case True
    then have "list_all sr_completed (p_receipts p)" using receipt_of_completed [OF learn r True] by blast
    with ok show ?thesis by (simp add: q_simps completed_prefix_snoc pipeline_ok_def)
  next
    case False
    with ok show ?thesis by (simp add: q_simps completed_prefix_snoc pipeline_ok_def)
  qed
  moreover have "p_sessions q = rev (completed_sessions (p_receipts q)) @ init \<and> distinct (p_sessions q)"
  proof (cases "sr_completed r")
    case True
    obtain s where "s \<notin> set (p_sessions p)" "l_session l = Some s" "sr_session r = Some s"
      using receipt_of_completed [OF learn r True] by blast
    with True sess show ?thesis by (simp add: q_simps completed_sessions_snoc) (simp add: q record_stage_def)
  next
    case False
    with sess show ?thesis by (simp add: q_simps completed_sessions_snoc) (simp add: q record_stage_def)
  qed
  moreover have "audited sl (p_assessments q) r'" if "r' \<in> set (p_receipts q)" "sr_completed r'" for r'
  proof (cases "r' \<in> set (p_receipts p)")
    case True
    with stages have ne: "past \<noteq> []" and "sr_stage r' \<noteq> stage" using order(1) by auto
    with audit [OF True that(2)] show ?thesis by (simp add: audited_def other hunter [OF ne])
  next
    case False
    with that have r': "r' = r" "sr_completed r" by (auto simp: q_simps)
    obtain s cs where v: "validate_stage_candidates stage cs (p_assessments p) = Inr ()"
      and c: "l_candidates l = Some cs" and rest: "sr_session r = Some s" "sr_source r = s_source sl"
        "\<exists>d. sr_prompt_sha256 r = Some d \<and> sha256_hex d"
      using receipt_of_completed [OF learn r r'(2)] by blast
    have st: "sr_stage r = stage" by (simp add: r receipt_of_def)
    have "mset (map claim_of (assessed (p_assessments q) stage)) = mset (map claim_of (assessed (p_assessments q) ''hunter''))"
    proof (cases "stage = ''hunter''")
      case False
      let ?hs = "assessed (p_assessments p) ''hunter''"
      have h: "list_all wf_candidate ?hs" "distinct (map candidate_id ?hs)" using wf by (auto simp: wf_assessments_def)
      note w = learn_candidates [OF learn c]
      have "set (map claim_of cs) = set (map claim_of ?hs)"
        using v by (simp add: validate_stage_candidates_iff [OF conjunct1 [OF w] conjunct2 [OF w] h False])
      then have "mset (map claim_of cs) = mset (map claim_of ?hs)" using w h by (intro mset_claims) auto
      with False c show ?thesis by (simp add: q record_stage_def)
    qed simp
    with rest st show ?thesis by (simp add: r' audited_def)
  qed
  moreover have "stage_request t sl s (p_assessments q) = Inr x"
    if "(s, x) \<in> set (p_requests q)" "s \<in> {''hunter'', ''skeptic'', ''referee''}" for s x
  proof -
    have "stage_request t sl s (p_assessments p) = Inr x"
      using that req reqs(2) by (auto simp: q_simps)
    moreover have "s = ''hunter'' \<or> assessed (p_assessments p) ''hunter'' = assessed (p_assessments q) ''hunter''"
    proof (cases "past = []")
      case True
      with reqs(1) that(1) have "s = stage" by (auto simp: q_simps)
      then show ?thesis using other [of "''hunter''"] by (cases "stage = ''hunter''") auto
    qed (simp add: hunter)
    ultimately show ?thesis
      using stage_request_blind [OF that(2), of "p_assessments p" "p_assessments q" t sl] by auto
  qed
  ultimately show ?thesis
    using stages reqs(1) by (auto simp: pipeline_ok_def q_simps) (auto simp: r receipt_of_def)
qed

lemma run_stages_ok:
  assumes "pipeline_ok t sl init past p" "run_stages t sl host ss p = Inr q" "distinct (past @ ss)"
    "hd (past @ ss) = ''hunter''"
  shows "pipeline_ok t sl init (past @ ss) q"
  using assms
proof (induction ss arbitrary: past p)
  case (Cons s ss)
  obtain p1 where p1: "run_stage t sl host s p = Inr p1" and rest: "run_stages t sl host ss p1 = Inr q"
    using Cons.prems(2) by (auto simp: bind_res_Inr_iff)
  have "pipeline_ok t sl init (past @ [s]) p1"
    using Cons.prems p1 by (intro run_stage_ok [OF Cons.prems(1) p1]) (auto simp: hd_append)
  from Cons.IH [OF this rest] Cons.prems(3,4) show ?case by simp
qed simp

lemma stage_block_of_lineage: "stage_block_of blocks i = Inr b \<Longrightarrow> b_stages b \<in> set LINEAGES"
proof -
  assume "stage_block_of blocks i = Inr b"
  then obtain bs where bs: "normalize_stage_blocks blocks = Inr bs" and f: "find (\<lambda>b. i = PStr (b_id b)) bs = Some b"
    unfolding stage_block_of_def by (auto simp: bind_res_Inr_iff split: option.splits)
  have "b \<in> set bs" using f by (induction bs) (auto split: if_splits)
  with normalized_blocks [OF bs] show ?thesis by auto
qed

lemma lineage_order: "ss \<in> set LINEAGES \<Longrightarrow> distinct ss \<and> hd ss = ''hunter''"
  by (auto simp: LINEAGES_def STAGES_def)

definition context_sessions :: "string option \<Rightarrow> string list" where
  "context_sessions c = (case c of None \<Rightarrow> [] | Some s \<Rightarrow> [s])"

lemma run_pipeline_ok:
  assumes "run_pipeline_stages t sl host blocks i c = Inr p"
  shows "\<exists>ss\<in>set LINEAGES. pipeline_ok t sl (context_sessions c) ss p"
proof -
  obtain b where b: "stage_block_of blocks i = Inr b"
    and run: "run_stages t sl host (b_stages b) (start (context_sessions c)) = Inr p"
    using assms by (auto simp: run_pipeline_stages_def bind_res_Inr_iff context_sessions_def)
  have "pipeline_ok t sl (context_sessions c) [] (start (context_sessions c))"
    by (simp add: pipeline_ok_def start_def wf_assessments_def assessed_def completed_prefix_def
        completed_sessions_def List.map_filter_simps context_sessions_def split: option.split)
  from run_stages_ok [OF this run] lineage_order [OF stage_block_of_lineage [OF b]]
  have "pipeline_ok t sl (context_sessions c) (b_stages b) p" by simp
  with stage_block_of_lineage [OF b] show ?thesis by blast
qed

subsection \<open>What the pipeline guarantees\<close>

text \<open>
  C13: A stage counts as completed only if every earlier stage of the block completed, the source was unchanged,
  the prompt's digest was reported, the native session was new (distinct from the session of every other stage and
  of the context builder), and its candidates are exactly the Hunter's claims: the same ids, files, locations and
  lines, each once.
\<close>

theorem completed_stages_audited:
  assumes "run_pipeline_stages t sl host blocks i c = Inr p"
  shows "map sr_stage (p_receipts p) \<in> set LINEAGES \<and> completed_prefix (p_receipts p) \<and>
         distinct (completed_sessions (p_receipts p) @ context_sessions c) \<and>
         (\<forall>r\<in>set (p_receipts p). sr_completed r \<longrightarrow> audited sl (p_assessments p) r)"
proof -
  obtain ss where "ss \<in> set LINEAGES" and ok: "pipeline_ok t sl (context_sessions c) ss p"
    using run_pipeline_ok [OF assms] by blast
  then show ?thesis by (auto simp: pipeline_ok_def)
qed

text \<open>
  C14: The Skeptic and the Referee are blind: their prompts depend on nothing but the six claim fields of the
  Hunter's candidates.  Whatever else the host answered (severities, statuses, the Skeptic's verdicts), two runs
  with the same claims send the same prompt.
\<close>

theorem later_stages_blind:
  assumes "run_pipeline_stages t sl host blocks i c = Inr p" "run_pipeline_stages t sl host' blocks' i' c' = Inr p'"
    and "list_all2 same_claim (assessed (p_assessments p) ''hunter'') (assessed (p_assessments p') ''hunter'')"
    and "stage \<in> {''hunter'', ''skeptic'', ''referee''}" "(stage, q) \<in> set (p_requests p)" "(stage, q') \<in> set (p_requests p')"
  shows "q = q'"
proof -
  obtain ss ss' where ok: "pipeline_ok t sl (context_sessions c) ss p" "pipeline_ok t sl (context_sessions c') ss' p'"
    using run_pipeline_ok [OF assms(1)] run_pipeline_ok [OF assms(2)] by blast
  have "stage_request t sl stage (p_assessments p) = Inr q"
    using ok(1) assms(4,5) by (auto simp: pipeline_ok_def)
  moreover have "stage_request t sl stage (p_assessments p') = Inr q'"
    using ok(2) assms(4,6) by (auto simp: pipeline_ok_def)
  moreover have "stage_request t sl stage (p_assessments p) = stage_request t sl stage (p_assessments p')"
    by (rule stage_request_blind) (use assms(3,4) in blast)+
  ultimately show ?thesis by simp
qed

subsection \<open>A type that cannot be hashed\<close>

definition unhashable_severity :: "dict \<Rightarrow> bool" where
  "unhashable_severity d \<longleftrightarrow>
     list_all (\<lambda>k. candidate_string (getv d k)) CANDIDATE_STRINGS \<and> \<not> hashable (getv d ''severity'')"

lemma parse_candidates_TypeError:
  assumes "loads s = Some (PDict [(''candidates'', PList (PDict d # rest))])" "length rest < 1000" "unhashable_severity d"
  shows "parse_candidates loads s = Inl TypeError"
  using assms
  by (simp add: parse_candidates_def candidate_items_def read_candidate_def unhashable_severity_def in_set_def
      getv_def dict_get_def candidate_id_def guard_def)

text \<open>
  C32: An answer whose first candidate has a list or an object as its severity is not an unverified stage: it raises
  \<open>TypeError\<close> out of the whole pipeline (and out of \<open>invoke_all\<close>, which expects \<open>HarnessError\<close> only), so one
  model answer ends the benchmark run.
\<close>

theorem unhashable_severity_aborts:
  assumes "stage_block_of blocks i = Inr b" "stage_request t sl ''hunter'' [] = Inr q"
    and "adapter_argv (s_host sl) (s_model sl) q (s_arm sl) = Inr argv"
    and "a_execution (host [(''hunter'', q)]) = Inr e" "exited_ok e" "a_response (host [(''hunter'', q)]) = Text raw"
    and "parse_host_message (t_strict t) (s_host sl) raw = Inr m"
    and "t_strict t (m_text m) = Some (PDict [(''candidates'', PList (PDict d # rest))])" "length rest < 1000"
    and "unhashable_severity d"
  shows "run_pipeline_stages t sl host blocks i c = Inl TypeError"
proof -
  let ?p = "start (context_sessions c)"
  have "invoke sl host [(''hunter'', q)] q = host [(''hunter'', q)]" using assms(3) by (simp add: invoke_def)
  moreover have "learn t (s_host sl) ''hunter'' ?p (host [(''hunter'', q)]) = Inl TypeError"
    using assms(4-7) parse_candidates_TypeError [of "t_strict t" "m_text m" d rest] assms(8-10)
    by (simp add: learn_def read_native_def except_value_def)
  moreover have "p_assessments ?p = []" "p_requests ?p = []" by (simp_all add: start_def)
  ultimately have "run_stage t sl host ''hunter'' ?p = Inl TypeError"
    using assms(2)
    by (simp add: run_stage_def stage_input_def hunter_claims_def assessed_def stage_prompt_def STAGES_def Let_def)
  moreover obtain ss where "b_stages b = ''hunter'' # ss"
    using stage_block_of_lineage [OF assms(1)] by (auto simp: LINEAGES_def STAGES_def)
  ultimately show ?thesis
    using assms(1) by (simp add: run_pipeline_stages_def context_sessions_def [symmetric])
qed

subsection \<open>An example\<close>

text \<open>One candidate, a strict reader that knows the lines of the example, and a host that answers every stage in a
  session of its own.\<close>

definition demo_candidate :: "string \<Rightarrow> pyval \<Rightarrow> dict" where
  "demo_candidate status severity =
     [(''bug_id'', PStr ''B1''), (''file'', PStr ''a.py''), (''location'', PStr ''a.py:3''), (''line'', PInt 3),
      (''rationale'', PStr ''r''), (''trigger'', PStr ''t''), (''severity'', severity), (''status'', PStr status)]"

definition demo_reader :: "pyval \<Rightarrow> json_loads" where
  "demo_reader severity s =
     (if s = ''C'' then Some (PDict [(''candidates'', PList [PDict (demo_candidate ''confirmed'' severity)])])
      else if s = ''R'' then Some (PDict [(''candidates'', PList [PDict (demo_candidate ''rejected'' severity)])])
      else if take 1 s = ''i'' then Some (PDict [(''type'', PStr ''system''), (''subtype'', PStr ''init''), (''session_id'', PStr (drop 1 s))])
      else if take 1 s = ''r'' then Some (PDict [(''type'', PStr ''result''), (''subtype'', PStr ''success''), (''is_error'', PBool False),
             (''session_id'', PStr (take 1 (drop 1 s))), (''result'', PStr (drop 2 s))])
      else if s = ''M'' then Some (PDict [(''effective_prompt_sha256'', PStr (replicate 64 (CHR ''a'')))])
      else None)"

definition demo_tools :: "pyval \<Rightarrow> tools" where
  "demo_tools severity = \<lparr>t_loads = demo_reader severity, t_strict = demo_reader severity, t_frepr = (\<lambda>_. []), t_srepr = (\<lambda>_. []),
     t_sha = (\<lambda>_. ''0'')\<rparr>"

definition demo_slot :: slot where
  "demo_slot = \<lparr>s_host = ''claude'', s_model = ''m'', s_arm = ''no_skill_baseline'', s_case = [], s_source = ''S'',
     s_skill = PNone, s_context = None\<rparr>"

definition demo_answer :: "string \<Rightarrow> host_answer" where
  "demo_answer reply requests =
     (let n = nat_str (length requests)
      in \<lparr>a_execution = Inr [(''termination'', PStr ''exited''), (''exit_code'', PInt 0)],
          a_response = Text (''i'' @ n @ LF @ ''r'' @ n @ (if length requests = 1 then ''C'' else reply)),
          a_metadata = Text ''M'', a_source = ''S''\<rparr>)"

abbreviation high :: tools where
  "high \<equiv> demo_tools (PStr ''high'')"

abbreviation reported :: "string \<Rightarrow> dict list" where
  "reported v \<equiv> [demo_candidate (if v = ''C'' then ''confirmed'' else ''rejected'') (PStr ''high'')]"

lemma demo_message:
  assumes "d \<in> {''1'', ''2'', ''3'', ''4''}" "v \<in> {''C'', ''R''}"
  shows "parse_host_message (demo_reader sev) ''claude'' (''i'' @ d @ LF @ ''r'' @ d @ v) = Inr \<lparr>m_text = v, m_session = d\<rparr>"
  using assms
  by (auto simp: parse_host_message_def host_events_def LIMIT_def utf8_length_def LF_def is_break_def strip_def py_space_def
      parsed_line_def demo_reader_def read_host_def read_claude_def of_type_def getv_def dict_get_def whole_message_def)

lemma demo_parsed: "v \<in> {''C'', ''R''} \<Longrightarrow> parse_candidates (demo_reader (PStr ''high'')) v = Inr (reported v)"
  by (elim insertE emptyE; simp only:; code_simp)

lemma demo_metadata:
  "adapter_metadata (demo_reader sev) (Text ''M'') = [(''effective_prompt_sha256'', PStr (replicate 64 (CHR ''a'')))]"
  by (simp add: adapter_metadata_def read_doc_def demo_reader_def metadata_valid_def sha256_hex_def getv_def
      dict_get_def list_all_iff)

lemma demo_prompt_valid: "prompt_valid demo_slot [(''effective_prompt_sha256'', PStr (replicate 64 (CHR ''a'')))]"
  by (simp add: prompt_valid_def sha256_hex_def getv_def dict_get_def list_all_iff demo_slot_def)

lemma demo_validated:
  "stage = ''hunter'' \<or> assessed a ''hunter'' = reported ''C'' \<Longrightarrow> validate_stage_candidates stage (reported v) a = Inr ()"
  by (auto simp: validate_stage_candidates_def claims_def claim_entry_def subscript_def demo_candidate_def same_claims_def)

lemma demo_claims: "assessed a ''hunter'' \<in> {[], reported ''C''} \<Longrightarrow> \<exists>h. hunter_claims (assessed a ''hunter'') = Inr h"
  by (auto simp: hunter_claims_def hunter_claim_def subscript_def demo_candidate_def CLAIM_KEYS_def)

lemma demo_base: "\<exists>base. base_prompt f (s_case demo_slot) (s_arm demo_slot) (s_context demo_slot) = Inr base"
  by (simp add: base_prompt_def demo_slot_def redacted_case_def utf8_length_def MAX_MANIFEST_DESCRIPTION_BYTES_def
      ARM_INSTRUCTIONS_def)

lemma demo_request:
  assumes "s \<in> set STAGES" "assessed a ''hunter'' \<in> {[], reported ''C''}"
  shows "(\<exists>q. stage_request t demo_slot s a = Inr q) \<and> (\<exists>i. stage_input s a = Inr i) \<and>
         (\<exists>q. stage_prompt (t_frepr t) s [] = Inr q)"
proof -
  obtain base where base: "base_prompt (t_frepr t) (s_case demo_slot) (s_arm demo_slot) (s_context demo_slot) = Inr base"
    using demo_base by blast
  have input: "\<exists>i. stage_input s b = Inr i" if "assessed b ''hunter'' \<in> {[], reported ''C''}" for b
    using demo_claims [OF that] assms(1) by (auto simp: stage_input_def STAGES_def)
  have asked: "\<exists>q. stage_prompt (t_frepr t) s b = Inr q" if "assessed b ''hunter'' \<in> {[], reported ''C''}" for b
  proof -
    from input [OF that] obtain i where "stage_input s b = Inr i" by blast
    then show ?thesis using assms(1) unfolding stage_prompt_def by simp
  qed
  have "assessed [] ''hunter'' \<in> {[], reported ''C''}" by (simp add: assessed_def)
  with asked [OF assms(2)] input [OF assms(2)] asked show ?thesis
    by (auto simp: stage_request_def base)
qed

definition demo_state :: "string \<Rightarrow> nat \<Rightarrow> pipeline \<Rightarrow> bool" where
  "demo_state reply n p \<longleftrightarrow>
     map fst (p_requests p) = take n STAGES \<and> map sr_stage (p_receipts p) = take n STAGES \<and>
     list_all sr_completed (p_receipts p) \<and> p_sessions p = rev (map nat_str [1..<Suc n]) @ [''ctx''] \<and>
     assessed (p_assessments p) ''hunter'' = (if n = 0 then [] else reported ''C'') \<and>
     (n \<ge> 2 \<longrightarrow> assessed (p_assessments p) ''skeptic'' = reported reply)"

lemma demo_learn:
  assumes "d \<in> {''1'', ''2'', ''3'', ''4''}" "v \<in> {''C'', ''R''}" "d \<notin> set (p_sessions p)"
    "a_execution a = Inr [(''termination'', PStr ''exited''), (''exit_code'', PInt 0)]"
    "a_response a = Text (''i'' @ d @ LF @ ''r'' @ d @ v)"
    "stage = ''hunter'' \<or> assessed (p_assessments p) ''hunter'' = reported ''C''"
  shows "learn high ''claude'' stage p a = Inr \<lparr>l_session = Some d, l_candidates = Some (reported v), l_reason = None\<rparr>"
proof -
  have "t_strict high = demo_reader (PStr ''high'')" by (simp add: demo_tools_def)
  moreover have "exited_ok [(''termination'', PStr ''exited''), (''exit_code'', PInt 0)]"
    by (simp add: exited_ok_def getv_def dict_get_def)
  ultimately show ?thesis
    using assms(3-5)
    by (simp add: learn_def read_native_def demo_message [OF assms(1,2)] demo_parsed [OF assms(2)]
        demo_validated [OF assms(6), of v] except_value_def Let_def del: append.simps)
qed

lemma demo_digits: "nat_str 1 = ''1''" "nat_str (Suc 0) = ''1''" "nat_str 2 = ''2''" "nat_str 3 = ''3''" "nat_str 4 = ''4''"
    "nat_str (Suc 2) = ''3''" "nat_str (Suc 3) = ''4''" "nat_str (Suc (Suc 0)) = ''2''"
    "nat_str (Suc (Suc (Suc 0))) = ''3''" "nat_str (Suc (Suc (Suc (Suc 0)))) = ''4''"
  by code_simp+

lemma demo_step:
  assumes st: "demo_state reply n p" and n: "n < 4" and reply: "reply \<in> {''C'', ''R''}"
  shows "\<exists>q. run_stage high demo_slot (demo_answer reply) (STAGES ! n) p = Inr q \<and> demo_state reply (Suc n) q"
proof -
  have cases_n: "n \<in> {0, 1, 2, 3}" using n by auto
  let ?s = "STAGES ! n" and ?d = "nat_str (Suc n)" and ?v = "if n = 0 then ''C'' else reply"
  have s: "?s \<in> set STAGES" using n by (intro nth_mem) (simp add: STAGES_def)
  have hunter: "assessed (p_assessments p) ''hunter'' \<in> {[], reported ''C''}" using st by (auto simp: demo_state_def)
  from demo_request [OF s hunter, of high] obtain q i tp where
    r: "stage_request high demo_slot ?s (p_assessments p) = Inr q" "stage_input ?s (p_assessments p) = Inr i"
      "stage_prompt (t_frepr high) ?s [] = Inr tp" by blast
  have len: "length (p_requests p) = n"
    using st n by (auto simp: demo_state_def STAGES_def dest: arg_cong [where f = length])
  let ?a = "demo_answer reply (p_requests p @ [(?s, q)])" and ?m = "adapter_metadata (t_loads high) (Text ''M'')"
  have inv: "invoke demo_slot (demo_answer reply) (p_requests p @ [(?s, q)]) q = ?a"
    by (simp add: invoke_def adapter_argv_def demo_slot_def)
  have d: "?d \<in> {''1'', ''2'', ''3'', ''4''}"
    using cases_n by (elim insertE emptyE) (simp_all add: demo_digits)
  have learn: "learn high ''claude'' ?s p ?a = Inr \<lparr>l_session = Some ?d, l_candidates = Some (reported ?v), l_reason = None\<rparr>"
  proof (rule demo_learn [OF d])
    show "?v \<in> {''C'', ''R''}" using reply by simp
    show "?d \<notin> set (p_sessions p)"
      using cases_n st by (elim insertE emptyE) (simp_all add: demo_state_def demo_digits upt_rec)
    show "?s = ''hunter'' \<or> assessed (p_assessments p) ''hunter'' = reported ''C''"
      using st by (cases "n = 0") (auto simp: demo_state_def STAGES_def)
  qed (use len in \<open>auto simp: demo_answer_def Let_def\<close>)
  let ?l = "\<lparr>l_session = Some ?d, l_candidates = Some (reported ?v), l_reason = None :: reason option\<rparr>"
  let ?r = "receipt_of high demo_slot ?s i tp p ?a ?m ?l"
  have done_: "sr_completed ?r"
  proof -
    have "\<not> prior_unverified p"
      using st by (auto simp: demo_state_def prior_unverified_def list_ex_iff list_all_iff)
    moreover have "prompt_valid demo_slot ?m" using demo_prompt_valid demo_metadata by (simp add: demo_tools_def)
    ultimately show ?thesis
      by (simp add: receipt_of_def stage_completed_def final_reason_def demo_answer_def Let_def demo_slot_def)
  qed
  have run: "run_stage high demo_slot (demo_answer reply) ?s p = Inr (record_stage ?s p q ?l ?r)"
  proof -
    have host: "s_host demo_slot = ''claude''" by (simp add: demo_slot_def)
    have m: "a_metadata ?a = Text ''M''" by (simp add: demo_answer_def Let_def)
    show ?thesis unfolding run_stage_def r by (simp add: inv learn host m Let_def del: append.simps)
  qed
  have "take (Suc n) STAGES = take n STAGES @ [?s]" using n by (intro take_Suc_conv_app_nth) (simp add: STAGES_def)
  then have "demo_state reply (Suc n) (record_stage ?s p q ?l ?r)"
    using st done_ n unfolding demo_state_def record_stage_def
    using cases_n by (elim insertE emptyE) (simp_all add: receipt_of_def STAGES_def upt_rec demo_digits)
  with run show ?thesis by blast
qed

lemma demo_pipeline:
  assumes "reply \<in> {''C'', ''R''}"
  shows "\<exists>p. run_pipeline_stages high demo_slot (demo_answer reply) demo_blocks (PStr ''full_pipeline'') (Some ''ctx'') = Inr p
           \<and> demo_state reply 4 p"
proof -
  have chain: "\<exists>q. run_stages high demo_slot (demo_answer reply) (drop n STAGES) p = Inr q \<and> demo_state reply 4 q"
    if "demo_state reply n p" "n \<le> 4" for n p
    using that
  proof (induction "4 - n" arbitrary: n p)
    case 0
    then show ?case by (simp add: STAGES_def)
  next
    case (Suc k)
    then have n: "n < 4" by simp
    then have ss: "drop n STAGES = STAGES ! n # drop (Suc n) STAGES"
      by (subst Cons_nth_drop_Suc) (simp_all add: STAGES_def)
    obtain q where "run_stage high demo_slot (demo_answer reply) (STAGES ! n) p = Inr q" "demo_state reply (Suc n) q"
      using demo_step [OF Suc.prems(1) n assms] by blast
    moreover have "k = 4 - Suc n" "Suc n \<le> 4" using Suc.hyps(2) n by simp_all
    from Suc.hyps(1) [OF this(1) calculation(2) this(2)] obtain q' where
      "run_stages high demo_slot (demo_answer reply) (drop (Suc n) STAGES) q = Inr q'" "demo_state reply 4 q'" by blast
    ultimately show ?case by (simp add: ss)
  qed
  have b: "stage_block_of demo_blocks (PStr ''full_pipeline'') = Inr \<lparr>b_id = ''full_pipeline'', b_stages = STAGES\<rparr>"
    by code_simp
  have "demo_state reply 0 (start [''ctx''])"
    by (simp add: demo_state_def start_def assessed_def)
  from chain [OF this] show ?thesis by (simp add: run_pipeline_stages_def b)
qed

theorem completed_stages_audited_witness:
  "\<exists>p :: pipeline. list_all sr_completed (p_receipts p) \<and> map sr_stage (p_receipts p) = STAGES \<and>
       list_all (audited demo_slot (p_assessments p)) (p_receipts p)"
proof -
  obtain p where run: "run_pipeline_stages high demo_slot (demo_answer ''C'') demo_blocks (PStr ''full_pipeline'') (Some ''ctx'') = Inr p"
    and st: "demo_state ''C'' 4 p"
    using demo_pipeline [of "''C''"] by blast
  have "list_all sr_completed (p_receipts p)" "map sr_stage (p_receipts p) = STAGES"
    using st by (simp_all add: demo_state_def STAGES_def)
  with completed_stages_audited [OF run] show ?thesis
    by (intro exI [of _ p]) (simp add: list_all_iff)
qed

theorem later_stages_blind_witness:
  "\<exists>(p :: pipeline) (p' :: pipeline) q. (''referee'', q) \<in> set (p_requests p) \<and> (''referee'', q) \<in> set (p_requests p') \<and>
      getv (hd (assessed (p_assessments p) ''skeptic'')) ''status'' = PStr ''confirmed'' \<and>
      getv (hd (assessed (p_assessments p') ''skeptic'')) ''status'' = PStr ''rejected''"
proof -
  obtain p p' where run: "run_pipeline_stages high demo_slot (demo_answer ''C'') demo_blocks (PStr ''full_pipeline'') (Some ''ctx'') = Inr p"
      "run_pipeline_stages high demo_slot (demo_answer ''R'') demo_blocks (PStr ''full_pipeline'') (Some ''ctx'') = Inr p'"
    and st: "demo_state ''C'' 4 p" "demo_state ''R'' 4 p'"
    using demo_pipeline [of "''C''"] demo_pipeline [of "''R''"] by blast
  have asked: "''referee'' \<in> fst ` set (p_requests x)" if "map fst (p_requests x) = take 4 STAGES" for x
  proof -
    have "''referee'' \<in> set (map fst (p_requests x))" by (simp only: that) (simp add: STAGES_def)
    then show ?thesis by simp
  qed
  obtain q q' where q: "(''referee'', q) \<in> set (p_requests p)" "(''referee'', q') \<in> set (p_requests p')"
    using asked [of p] asked [of p'] st by (force simp: demo_state_def)
  have same: "list_all2 same_claim (assessed (p_assessments p) ''hunter'') (assessed (p_assessments p') ''hunter'')"
    using st by (simp add: demo_state_def same_claim_def)
  have "q = q'" using later_stages_blind [OF run same _ q] by simp
  moreover have "getv (hd (assessed (p_assessments p) ''skeptic'')) ''status'' = PStr ''confirmed''"
      "getv (hd (assessed (p_assessments p') ''skeptic'')) ''status'' = PStr ''rejected''"
    using st by (simp_all add: demo_state_def demo_candidate_def getv_def dict_get_def)
  ultimately show ?thesis using q by (intro exI [of _ p] exI [of _ p'] exI [of _ q]) simp
qed

theorem unhashable_severity_aborts_witness:
  "run_pipeline_stages (demo_tools (PList [])) demo_slot (demo_answer ''C'') demo_blocks (PStr ''full_pipeline'') None = Inl TypeError"
proof -
  have b: "stage_block_of demo_blocks (PStr ''full_pipeline'') = Inr \<lparr>b_id = ''full_pipeline'', b_stages = STAGES\<rparr>"
    by code_simp
  let ?t = "demo_tools (PList [])"
  obtain q where q: "stage_request ?t demo_slot ''hunter'' [] = Inr q"
    using demo_request [of "''hunter''" "[]" ?t] by (auto simp: STAGES_def assessed_def)
  have m: "parse_host_message (t_strict ?t) (s_host demo_slot) (''i'' @ ''1'' @ LF @ ''r'' @ ''1'' @ ''C'') =
      Inr \<lparr>m_text = ''C'', m_session = ''1''\<rparr>"
    unfolding demo_tools_def demo_slot_def tools.simps slot.simps by (rule demo_message) simp_all
  show ?thesis
  proof (rule unhashable_severity_aborts [where rest = "[]" and d = "demo_candidate ''confirmed'' (PList [])", OF b q _ _ _ _ m])
    show "adapter_argv (s_host demo_slot) (s_model demo_slot) q (s_arm demo_slot) =
        Inr [''/usr/local/bin/bench-host-adapter'', ''claude'', ''m'', ''no_skill_baseline'', q]"
      by (simp add: adapter_argv_def demo_slot_def)
    show "a_execution (demo_answer ''C'' [(''hunter'', q)]) = Inr [(''termination'', PStr ''exited''), (''exit_code'', PInt 0)]"
      by (simp add: demo_answer_def Let_def)
    show "exited_ok [(''termination'', PStr ''exited''), (''exit_code'', PInt 0)]"
      by (simp add: exited_ok_def getv_def dict_get_def)
    show "a_response (demo_answer ''C'' [(''hunter'', q)]) = Text (''i'' @ ''1'' @ LF @ ''r'' @ ''1'' @ ''C'')"
      by (simp add: demo_answer_def Let_def demo_digits)
    show "unhashable_severity (demo_candidate ''confirmed'' (PList []))" by code_simp
  qed (simp_all add: demo_tools_def demo_reader_def)
qed

end
