(* ===== verification/Calibration.thy ===== *)
theory Calibration
  imports Py_Json
begin

text \<open>
  \<^verbatim>\<open>bench/scorer/calibration.py\<close>: the frozen stratified sample of candidates for human review, the blinded
  packets the reviewers see, the resolution of their labels, and the weighted rates and medians.
  \<open>random.Random(seed).sample\<close> and the bootstrap draws are the parameters \<open>draw\<close> and \<open>boot\<close>, \<open>sha256\<close> is \<open>sha\<close>, the
  text of floats, lists and dictionaries \<open>frepr\<close> and \<open>srepr\<close>.  Floats are rational numbers; integers too large for a
  float are not covered.
\<close>

subsection \<open>The frozen sample\<close>

definition STRATUM_FIELDS :: "string list" where
  "STRATUM_FIELDS = [''host'', ''arm'', ''category'', ''severity'', ''status'']"

definition VALID_LABELS :: "string list" where
  "VALID_LABELS = [''real'', ''false'', ''unverifiable'']"

definition finite_number :: "pyval \<Rightarrow> rat option" where
  "finite_number v = (case v of PInt i \<Rightarrow> Some (of_int i) | PFloat (Fin q) \<Rightarrow> Some q | _ \<Rightarrow> None)"

definition finite_nonnegative :: "pyval \<Rightarrow> bool" where
  "finite_nonnegative v \<longleftrightarrow> (case finite_number v of None \<Rightarrow> False | Some q \<Rightarrow> 0 \<le> q)"

definition field_text :: "(pyval \<Rightarrow> string) \<Rightarrow> dict \<Rightarrow> string \<Rightarrow> string" where
  "field_text srepr d k = py_str srepr (dict_get d k (PStr []))"

definition candidate_key :: "(pyval \<Rightarrow> string) \<Rightarrow> dict \<Rightarrow> string" where
  "candidate_key srepr d = field_text srepr d ''candidate_id''"

definition stratum_of :: "(pyval \<Rightarrow> string) \<Rightarrow> dict \<Rightarrow> string list" where
  "stratum_of srepr d = map (field_text srepr d) STRATUM_FIELDS"

definition IDENTITY_FIELDS :: "string list" where
  "IDENTITY_FIELDS = [''candidate_id'', ''experiment_id'', ''case_id'', ''repository''] @ STRATUM_FIELDS"

definition frame_identity :: "(pyval \<Rightarrow> string) \<Rightarrow> dict list \<Rightarrow> pyval" where
  "frame_identity srepr frame =
     PList (map (\<lambda>row. PDict (map (\<lambda>f. (f, getv row f)) (IDENTITY_FIELDS @ [''evidence''])))
       (sort_key (candidate_key srepr) frame))"

text \<open>One round over the ranked strata: each that is not exhausted gets one more, while any remain.\<close>

type_synonym stratum = "string list"

fun alloc_round :: "(stratum \<Rightarrow> nat) \<Rightarrow> stratum list \<Rightarrow> (stratum \<Rightarrow> nat) \<Rightarrow> nat \<Rightarrow> (stratum \<Rightarrow> nat) \<times> nat" where
  "alloc_round pop [] a r = (a, r)"
| "alloc_round pop (k # ks) a r =
     (if a k < pop k
      then (if r - 1 = 0 then (a(k := Suc (a k)), 0) else alloc_round pop ks (a(k := Suc (a k))) (r - 1))
      else alloc_round pop ks a r)"

lemma alloc_round_le: "snd (alloc_round pop ks a r) \<le> r"
proof (induction ks arbitrary: a r)
  case (Cons k ks)
  have "snd (alloc_round pop ks b (r - 1)) \<le> r" for b using Cons.IH [of b "r - 1"] by simp
  with Cons.IH [of a r] show ?case by (simp del: One_nat_def)
qed simp

function allocate :: "(stratum \<Rightarrow> nat) \<Rightarrow> stratum list \<Rightarrow> (stratum \<Rightarrow> nat) \<Rightarrow> nat \<Rightarrow> (stratum \<Rightarrow> nat)" where
  "allocate pop ks a r =
     (if r = 0 then a
      else (let (a', r') = alloc_round pop ks a r in if r' = r then a' else allocate pop ks a' r'))"
  by pat_completeness auto
termination
proof (relation "measure (\<lambda>(pop, ks, a, r). r)")
  fix pop :: "stratum \<Rightarrow> nat" and ks a and r :: nat and x a' r'
  assume "r \<noteq> 0" "x = alloc_round pop ks a r" "(a', r') = x" "r' \<noteq> r"
  with alloc_round_le [of pop ks a r] show "((pop, ks, a', r'), pop, ks, a, r) \<in> measure (\<lambda>(pop, ks, a, r). r)"
    by (auto simp: le_less dest: sym)
qed simp

declare allocate.simps [simp del]

definition group :: "(pyval \<Rightarrow> string) \<Rightarrow> dict list \<Rightarrow> stratum \<Rightarrow> dict list" where
  "group srepr rows k = filter (\<lambda>r. stratum_of srepr r = k) rows"

definition strata_of :: "(pyval \<Rightarrow> string) \<Rightarrow> dict list \<Rightarrow> stratum list" where
  "strata_of srepr rows = remdups (map (stratum_of srepr) rows)"

definition sample_target :: "nat \<Rightarrow> nat \<Rightarrow> int \<Rightarrow> int" where
  "sample_target n strata minimum =
     (if int n \<le> minimum then int n else min (int n) (max minimum (int strata)))"

definition ranked :: "(stratum \<Rightarrow> nat) \<Rightarrow> stratum list \<Rightarrow> stratum list" where
  "ranked pop ks = sort_key (\<lambda>k. (- int (pop k), k)) ks"

definition allocations :: "(pyval \<Rightarrow> string) \<Rightarrow> dict list \<Rightarrow> int \<Rightarrow> stratum \<Rightarrow> nat" where
  "allocations srepr rows minimum =
     (let ks = strata_of srepr rows; pop = (\<lambda>k. length (group srepr rows k))
      in allocate pop (ranked pop ks) (\<lambda>_. 1)
           (nat (sample_target (length rows) (length ks) minimum - int (length ks))))"

type_synonym sampler = "string \<Rightarrow> dict list \<Rightarrow> nat \<Rightarrow> dict list"

record stratum_sample =
  ss_key :: stratum
  ss_population :: nat
  ss_ids :: "string list"

definition stratum_draw ::
  "(pyval \<Rightarrow> string) \<Rightarrow> sampler \<Rightarrow> int \<Rightarrow> dict list \<Rightarrow> nat \<Rightarrow> stratum \<Rightarrow> stratum_sample" where
  "stratum_draw srepr draw seed rows n k =
     (let population = sort_key (candidate_key srepr) (group srepr rows k)
      in \<lparr>ss_key = k, ss_population = length population,
          ss_ids = sort (map (candidate_key srepr) (draw (int_str seed @ '':'' @ join_with ''|'' k) population n))\<rparr>)"

definition valid_ids :: "(pyval \<Rightarrow> string) \<Rightarrow> dict list \<Rightarrow> bool" where
  "valid_ids srepr rows \<longleftrightarrow>
     list_all (\<lambda>r. candidate_key srepr r \<noteq> []) rows \<and> distinct (map (candidate_key srepr) rows)"

definition strata_samples ::
  "(pyval \<Rightarrow> string) \<Rightarrow> sampler \<Rightarrow> dict list \<Rightarrow> int \<Rightarrow> int \<Rightarrow> value_error + stratum_sample list" where
  "strata_samples srepr draw frame seed minimum =
     (let rows = sort_key (candidate_key srepr) frame
      in if \<not> valid_ids srepr rows then Inl ValueError
         else Inr (map (\<lambda>k. stratum_draw srepr draw seed rows (allocations srepr rows minimum k) k)
                     (sort (strata_of srepr rows))))"

definition inclusion :: "stratum_sample \<Rightarrow> rat" where
  "inclusion s = of_nat (length (ss_ids s)) / of_nat (ss_population s)"

definition sampled_ids :: "stratum_sample list \<Rightarrow> string list" where
  "sampled_ids ss = sort (concat (map ss_ids ss))"

definition stratum_value :: "stratum_sample \<Rightarrow> pyval" where
  "stratum_value s =
     PDict [(''key'', PDict (zip STRATUM_FIELDS (map PStr (ss_key s)))),
            (''population_n'', PInt (int (ss_population s))),
            (''sampled_n'', PInt (int (length (ss_ids s)))),
            (''inclusion_probability'', PFloat (Fin (inclusion s))),
            (''candidate_ids'', PList (map PStr (ss_ids s)))]"

record libs =
  lib_srepr :: "pyval \<Rightarrow> string"
  lib_frepr :: "pyfloat \<Rightarrow> string"
  lib_sha :: "string \<Rightarrow> string"
  lib_draw :: sampler

definition frame_digest :: "libs \<Rightarrow> dict list \<Rightarrow> value_error + string" where
  "frame_digest l frame =
     (let v = frame_identity (lib_srepr l) frame
      in if nonfinite v then Inl ValueError else Inr (lib_sha l (json_dumps False (lib_frepr l) v)))"

definition freeze_sample :: "libs \<Rightarrow> dict list \<Rightarrow> int \<Rightarrow> int \<Rightarrow> value_error + dict" where
  "freeze_sample l frame seed minimum =
     bind_res (strata_samples (lib_srepr l) (lib_draw l) frame seed minimum) (\<lambda>ss.
     bind_res (frame_digest l (sort_key (candidate_key (lib_srepr l)) frame)) (\<lambda>sha.
       Inr [(''schema_version'', PInt 1), (''seed'', PInt seed), (''minimum'', PInt minimum),
            (''frame_sha256'', PStr sha),
            (''population_n'', PInt (int (length frame))),
            (''sampled_candidate_ids'', PList (map PStr (sampled_ids ss))),
            (''strata'', PList (map stratum_value ss))]))"

definition validate_frozen_selection :: "libs \<Rightarrow> dict list \<Rightarrow> dict \<Rightarrow> value_error + unit" where
  "validate_frozen_selection l frame frozen =
     (case (getv frozen ''seed'', getv frozen ''minimum'') of
        (PInt seed, PInt minimum) \<Rightarrow>
          if minimum < 1 then Inl ValueError
          else bind_res (freeze_sample l frame seed minimum) (\<lambda>expected.
            guard (py_eq (PDict frozen) (PDict expected)) ValueError)
      | _ \<Rightarrow> Inl ValueError)"

subsection \<open>Blinded packets\<close>

definition ordinal_id :: "nat \<Rightarrow> string" where
  "ordinal_id n = ''review-'' @ replicate (4 - length (nat_str n)) (CHR ''0'') @ nat_str n"

definition as_mapping :: "pyval \<Rightarrow> dict option" where
  "as_mapping v = (case v of PDict d \<Rightarrow> Some d | _ \<Rightarrow> None)"

definition packet_evidence :: "pyval \<Rightarrow> pyval" where
  "packet_evidence v =
     (let evidence = (case as_mapping v of None \<Rightarrow> [] | Some d \<Rightarrow> d);
          source = (case as_mapping (getv evidence ''source'') of None \<Rightarrow> [] | Some d \<Rightarrow> d);
          missing = PStr ''unavailable''
      in PDict [(''source'', if source = [] then missing else dict_get source ''excerpt'' missing),
                (''source_identity'', if source = [] then PNone
                   else PDict (map (\<lambda>f. (f, getv source f)) [''path'', ''sha256'', ''excerpt_start'', ''excerpt_end''])),
                (''claim'', dict_get evidence ''claim'' missing),
                (''trigger'', dict_get evidence ''trigger'' missing),
                (''repro'', dict_get evidence ''repro'' missing)])"

definition packet :: "pyval \<Rightarrow> nat \<Rightarrow> pyval \<Rightarrow> pyval" where
  "packet sha n evidence =
     PDict [(''review_id'', PStr (ordinal_id n)), (''frame_sha256'', sha), (''evidence'', packet_evidence evidence)]"

definition unblinding_row :: "nat \<Rightarrow> string \<Rightarrow> pyval \<Rightarrow> pyval" where
  "unblinding_row n i p =
     PDict [(''review_id'', PStr (ordinal_id n)), (''candidate_id'', PStr i), (''inclusion_probability'', p)]"

text \<open>\<open>{str(row.get("candidate_id")): row for row in frame}\<close>: the last row of an id.\<close>

definition by_id :: "(pyval \<Rightarrow> string) \<Rightarrow> dict list \<Rightarrow> string \<Rightarrow> dict option" where
  "by_id srepr frame i = map_of (rev (map (\<lambda>r. (py_str srepr (getv r ''candidate_id''), r)) frame)) i"

definition list_of :: "pyval \<Rightarrow> pyval list" where
  "list_of v = (case v of PList xs \<Rightarrow> xs | _ \<Rightarrow> [])"

definition string_of :: "pyval \<Rightarrow> string" where
  "string_of v = (case v of PStr s \<Rightarrow> s | _ \<Rightarrow> [])"

definition frozen_ids :: "dict \<Rightarrow> string list" where
  "frozen_ids frozen = map string_of (list_of (getv frozen ''sampled_candidate_ids''))"

definition probabilities :: "dict \<Rightarrow> (string \<times> pyval) list" where
  "probabilities frozen =
     concat (map (\<lambda>s. case s of
         PDict d \<Rightarrow> map (\<lambda>c. (string_of c, getv d ''inclusion_probability'')) (list_of (getv d ''candidate_ids''))
       | _ \<Rightarrow> []) (list_of (getv frozen ''strata'')))"

definition probability_ok :: "pyval \<Rightarrow> bool" where
  "probability_ok v \<longleftrightarrow> (case v of PBool b \<Rightarrow> b | _ \<Rightarrow> (case finite_number v of None \<Rightarrow> False | Some q \<Rightarrow> 0 < q \<and> q \<le> 1))"

text \<open>After \<open>_validate_frozen_selection\<close> the frozen document equals the recomputed one, so its ids are a list of
  strings and its strata a list of objects.\<close>

definition build_blinded_packets :: "libs \<Rightarrow> dict list \<Rightarrow> dict \<Rightarrow> value_error + pyval list \<times> pyval list" where
  "build_blinded_packets l frame frozen =
     bind_res (frame_digest l frame) (\<lambda>sha.
     bind_res (guard (getv frozen ''frame_sha256'' = PStr sha) ValueError) (\<lambda>_.
     bind_res (validate_frozen_selection l frame frozen) (\<lambda>_.
     let ids = sort (remdups (frozen_ids frozen)); ps = probabilities frozen; row = by_id (lib_srepr l) frame
     in bind_res (guard (list_all (\<lambda>i. row i \<noteq> None) ids) ValueError) (\<lambda>_.
        bind_res (guard (set (map fst ps) = set ids \<and> list_all (\<lambda>i. probability_ok (the (map_of (rev ps) i))) ids) ValueError) (\<lambda>_.
          Inr (map (\<lambda>(n, i). packet (PStr sha) n (getv (the (row i)) ''evidence'')) (enumerate 1 ids),
               map (\<lambda>(n, i). unblinding_row n i (the (map_of (rev ps) i))) (enumerate 1 ids)))))))"

subsection \<open>Fair allocation\<close>

lemma sum_list_upd: "k \<notin> set ks \<Longrightarrow> sum_list (map (a(k := x)) ks) = sum_list (map a ks)"
  by (rule arg_cong [where f = sum_list]) (auto cong: map_cong)

lemma alloc_round_spec:
  assumes "distinct ks" "0 < r" "alloc_round pop ks a r = (b, s)"
  shows "sum_list (map b ks) + s = sum_list (map a ks) + r \<and>
         (\<forall>x. a x \<le> b x \<and> b x \<le> Suc (a x) \<and> (b x \<noteq> a x \<longrightarrow> a x < pop x \<and> x \<in> set ks)) \<and>
         (0 < s \<longrightarrow> (\<forall>x\<in>set ks. b x = (if a x < pop x then Suc (a x) else a x)))"
  using assms
proof (induction ks arbitrary: a r)
  case (Cons k ks)
  have fresh: "k \<notin> set ks" and d: "distinct ks" using Cons.prems(1) by auto
  consider (full) "\<not> a k < pop k" | (last) "a k < pop k" "r = 1" | (more) "a k < pop k" "1 < r"
    using Cons.prems(2) by linarith
  then show ?case
  proof cases
    case full
    then have "alloc_round pop ks a r = (b, s)" using Cons.prems(3) by simp
    note ih = Cons.IH [OF d Cons.prems(2) this]
    have "b k = a k" using ih fresh by blast
    then have "sum_list (map b (k # ks)) + s = sum_list (map a (k # ks)) + r" using ih by simp
    moreover have "\<forall>x. a x \<le> b x \<and> b x \<le> Suc (a x) \<and> (b x \<noteq> a x \<longrightarrow> a x < pop x \<and> x \<in> set (k # ks))"
    proof
      fix x
      have "a x \<le> b x \<and> b x \<le> Suc (a x) \<and> (b x \<noteq> a x \<longrightarrow> a x < pop x \<and> x \<in> set ks)" using ih by blast
      then show "a x \<le> b x \<and> b x \<le> Suc (a x) \<and> (b x \<noteq> a x \<longrightarrow> a x < pop x \<and> x \<in> set (k # ks))" by simp
    qed
    moreover have "0 < s \<longrightarrow> (\<forall>x\<in>set (k # ks). b x = (if a x < pop x then Suc (a x) else a x))"
    proof (intro impI ballI)
      fix x
      assume x: "0 < s" "x \<in> set (k # ks)"
      show "b x = (if a x < pop x then Suc (a x) else a x)"
      proof (cases "x = k")
        case True
        with full \<open>b k = a k\<close> show ?thesis by (simp only: if_False)
      next
        case False
        with x have "x \<in> set ks" by simp
        with ih x(1) show ?thesis by blast
      qed
    qed
    ultimately show ?thesis by (intro conjI)
  next
    case last
    then have b: "b = a(k := Suc (a k))" "s = 0" using Cons.prems(3) by auto
    then have "sum_list (map b ks) = sum_list (map a ks)" by (simp only: sum_list_upd [OF fresh])
    moreover have up: "b k = Suc (a k)" "\<And>x. x \<noteq> k \<Longrightarrow> b x = a x" by (simp_all add: b(1))
    ultimately have "sum_list (map b (k # ks)) + s = sum_list (map a (k # ks)) + r" using last b(2) by simp
    moreover have "a x \<le> b x \<and> b x \<le> Suc (a x) \<and> (b x \<noteq> a x \<longrightarrow> a x < pop x \<and> x \<in> set (k # ks))" for x
      using up last by (cases "x = k") simp_all
    ultimately show ?thesis using b(2) by blast
  next
    case more
    define c where "c = a(k := Suc (a k))"
    have c: "c k = Suc (a k)" "\<And>x. x \<noteq> k \<Longrightarrow> c x = a x" by (simp_all add: c_def)
    have cs: "sum_list (map c ks) = sum_list (map a ks)" unfolding c_def by (rule sum_list_upd [OF fresh])
    have "alloc_round pop ks c (r - 1) = (b, s)" "0 < r - 1" using Cons.prems(3) more by (auto simp: c_def)
    note ih = Cons.IH [OF d this(2) this(1)]
    have bk: "b k = Suc (a k)" using ih fresh c(1) by metis
    have "sum_list (map b ks) + s = sum_list (map a ks) + (r - 1)" using ih cs by simp
    then have "sum_list (map b (k # ks)) + s = sum_list (map a (k # ks)) + r" using bk more by simp
    moreover have "a x \<le> b x \<and> b x \<le> Suc (a x) \<and> (b x \<noteq> a x \<longrightarrow> a x < pop x \<and> x \<in> set (k # ks))" for x
    proof (cases "x = k")
      case True
      with bk more show ?thesis by simp
    next
      case False
      have "c x \<le> b x \<and> b x \<le> Suc (c x) \<and> (b x \<noteq> c x \<longrightarrow> c x < pop x \<and> x \<in> set ks)" using ih by blast
      with c(2) [OF False] show ?thesis by simp
    qed
    moreover have "0 < s \<longrightarrow> (\<forall>x\<in>set (k # ks). b x = (if a x < pop x then Suc (a x) else a x))"
    proof (intro impI ballI)
      fix x
      assume x: "0 < s" "x \<in> set (k # ks)"
      show "b x = (if a x < pop x then Suc (a x) else a x)"
      proof (cases "x = k")
        case True
        with more bk show ?thesis by (simp only: if_True)
      next
        case False
        with x have "x \<in> set ks" by simp
        with ih x(1) have "b x = (if c x < pop x then Suc (c x) else c x)" by blast
        with c(2) [OF False] show ?thesis by simp
      qed
    qed
    ultimately show ?thesis by (intro conjI allI) blast+
  qed
qed auto

text \<open>Every stratum gets the common level, or one more, or all its members if there are fewer.\<close>

definition levelled :: "(stratum \<Rightarrow> nat) \<Rightarrow> stratum list \<Rightarrow> nat \<Rightarrow> (stratum \<Rightarrow> nat) \<Rightarrow> bool" where
  "levelled pop ks L a \<longleftrightarrow> (\<forall>k\<in>set ks. min L (pop k) \<le> a k \<and> a k \<le> min (Suc L) (pop k))"

lemma sum_list_less:
  "(\<And>y. y \<in> set ks \<Longrightarrow> a y \<le> (b y :: nat)) \<Longrightarrow> x \<in> set ks \<Longrightarrow> a x < b x \<Longrightarrow> sum_list (map a ks) < sum_list (map b ks)"
proof (induction ks)
  case (Cons k ks)
  have "sum_list (map a ks) \<le> sum_list (map b ks)" using Cons.prems(1) by (intro sum_list_mono) auto
  with Cons show ?case by (cases "k = x") (auto simp: add_less_le_mono add_le_less_mono)
qed simp

lemma allocate_spec:
  assumes "distinct ks" "\<forall>k\<in>set ks. a k = min L (pop k)" "sum_list (map a ks) + r \<le> sum_list (map pop ks)" "1 \<le> L"
  shows "sum_list (map (allocate pop ks a r) ks) = sum_list (map a ks) + r \<and>
         (\<exists>L'\<ge>1. levelled pop ks L' (allocate pop ks a r))"
  using assms
proof (induction pop ks a r arbitrary: L rule: allocate.induct)
  case (1 pop ks a r)
  show ?case
  proof (cases "r = 0")
    case True
    then have "allocate pop ks a r = a" by (simp add: allocate.simps)
    moreover have "levelled pop ks L a" using "1.prems"(2) by (auto simp: levelled_def)
    ultimately show ?thesis using True "1.prems"(4) by auto
  next
    case False
    obtain b s where bs: "alloc_round pop ks a r = (b, s)" by (cases "alloc_round pop ks a r")
    have r: "0 < r" using False by simp
    note spec = alloc_round_spec [OF "1.prems"(1) r bs]
    have progress: "s \<noteq> r"
    proof
      assume "s = r"
      have sums: "sum_list (map b ks) = sum_list (map a ks)" using spec \<open>s = r\<close> by simp
      have inc: "\<forall>x\<in>set ks. b x = (if a x < pop x then Suc (a x) else a x)" using spec \<open>s = r\<close> r by blast
      have "\<forall>y. a y \<le> b y" using spec by blast
      have full: "pop x \<le> a x" if "x \<in> set ks" for x
      proof (rule ccontr)
        assume "\<not> pop x \<le> a x"
        with inc that have "a x < b x" by simp
        with that \<open>\<forall>y. a y \<le> b y\<close> have "sum_list (map a ks) < sum_list (map b ks)"
          by (intro sum_list_less) auto
        with sums show False by simp
      qed
      then have "sum_list (map pop ks) \<le> sum_list (map a ks)" by (intro sum_list_mono) auto
      with "1.prems"(3) r show False by simp
    qed
    have step: "allocate pop ks a r = allocate pop ks b s"
      using False bs progress by (subst allocate.simps) simp
    show ?thesis
    proof (cases "s = 0")
      case True
      then have "allocate pop ks b s = b" by (simp add: allocate.simps)
      moreover have "levelled pop ks L b"
        unfolding levelled_def
      proof
        fix k assume "k \<in> set ks"
        with "1.prems"(2) have "a k = min L (pop k)" by blast
        moreover have "a k \<le> b k" "b k \<le> Suc (a k)" "b k \<noteq> a k \<longrightarrow> a k < pop k" using spec by blast+
        ultimately show "min L (pop k) \<le> b k \<and> b k \<le> min (Suc L) (pop k)" by auto
      qed
      moreover have "sum_list (map b ks) = sum_list (map a ks) + r" using spec True by simp
      ultimately show ?thesis unfolding step using "1.prems"(4) by auto
    next
      case False
      with spec have inc: "\<forall>x\<in>set ks. b x = (if a x < pop x then Suc (a x) else a x)" by blast
      with "1.prems"(2) have lvl: "\<forall>k\<in>set ks. b k = min (Suc L) (pop k)" by auto
      have "sum_list (map b ks) + s \<le> sum_list (map pop ks)" using spec "1.prems"(3) by simp
      from "1.IH" [OF \<open>r \<noteq> 0\<close> bs [symmetric] refl progress "1.prems"(1) lvl this]
      have "sum_list (map (allocate pop ks b s) ks) = sum_list (map b ks) + s \<and>
          (\<exists>L'\<ge>1. levelled pop ks L' (allocate pop ks b s))" by simp
      then show ?thesis unfolding step using spec by simp
    qed
  qed
qed

subsection \<open>What the sample guarantees\<close>

text \<open>The documented behaviour of \<open>random.Random(seed).sample(population, n)\<close>: \<open>n\<close> members, none twice.\<close>

definition samples :: "sampler \<Rightarrow> bool" where
  "samples draw \<longleftrightarrow>
     (\<forall>seed pop n. n \<le> length pop \<longrightarrow> length (draw seed pop n) = n \<and> mset (draw seed pop n) \<subseteq># mset pop)"

lemma strata_of_props: "distinct (strata_of srepr rows)" "set (strata_of srepr rows) = stratum_of srepr ` set rows"
  by (simp_all add: strata_of_def)

lemma group_nonempty: "k \<in> set (strata_of srepr rows) \<Longrightarrow> 1 \<le> length (group srepr rows k)"
proof -
  assume "k \<in> set (strata_of srepr rows)"
  then obtain r where "r \<in> set (group srepr rows k)" by (auto simp: strata_of_props group_def)
  then show ?thesis by (cases "group srepr rows k") auto
qed

lemma group_total: "sum_list (map (\<lambda>k. length (group srepr rows k)) (strata_of srepr rows)) = length rows"
proof -
  have "mset (concat (map (group srepr rows) (strata_of srepr rows))) = mset rows"
    unfolding group_def by (rule mset_concat_groups) (simp_all add: strata_of_props)
  then have "length (concat (map (group srepr rows) (strata_of srepr rows))) = length rows"
    by (metis size_mset)
  then show ?thesis by (simp add: length_concat o_def)
qed

lemma sample_target_bounds:
  assumes "strata \<le> n"
  shows "int strata \<le> sample_target n strata m \<and> sample_target n strata m \<le> int n"
  using assms by (auto simp: sample_target_def)

lemma strata_le: "length (strata_of srepr rows) \<le> length rows"
  by (simp add: strata_of_def le_trans [OF length_remdups_leq])

lemma allocations_spec:
  fixes rows :: "dict list" and srepr :: "pyval \<Rightarrow> string"
  defines "ks \<equiv> strata_of srepr rows" and "pop \<equiv> \<lambda>k. length (group srepr rows k)"
  shows "int (sum_list (map (allocations srepr rows m) ks)) = sample_target (length rows) (length ks) m \<and>
         (\<exists>L\<ge>1. levelled pop ks L (allocations srepr rows m))"
proof -
  let ?rk = "ranked pop ks" and ?r = "nat (sample_target (length rows) (length ks) m - int (length ks))"
  have perm: "mset ?rk = mset ks" by (simp add: ranked_def)
  have "length ks \<le> length rows" unfolding ks_def by (rule strata_le)
  note target = sample_target_bounds [OF this, of m]
  have ones: "sum_list (map (\<lambda>_. 1) ?rk) = length ks"
    by (simp add: sum_list_triv ranked_def)
  have pops: "sum_list (map pop ?rk) = length rows"
  proof -
    have "sum_list (map pop ?rk) = sum_list (map pop ks)"
      using perm by (metis mset_map sum_mset_sum_list)
    then show ?thesis unfolding ks_def pop_def by (simp add: group_total)
  qed
  have "distinct ?rk" using perm strata_of_props(1) by (metis ks_def mset_eq_imp_distinct_iff)
  moreover have "\<forall>k\<in>set ?rk. (1 :: nat) = min 1 (pop k)"
    using perm group_nonempty by (auto simp: pop_def ks_def min_def dest!: mset_eq_setD)
  moreover have "sum_list (map (\<lambda>_. 1) ?rk) + ?r \<le> sum_list (map pop ?rk)"
    using target unfolding ones pops by linarith
  ultimately have spec: "sum_list (map (allocate pop ?rk (\<lambda>_. 1) ?r) ?rk) = sum_list (map (\<lambda>_. 1) ?rk) + ?r"
      "\<exists>L\<ge>1. levelled pop ?rk L (allocate pop ?rk (\<lambda>_. 1) ?r)"
    using allocate_spec [of ?rk "\<lambda>_. 1" 1 pop ?r] by auto
  have eq: "allocations srepr rows m = allocate pop ?rk (\<lambda>_. 1) ?r"
    by (simp add: allocations_def Let_def ks_def pop_def)
  have "sum_list (map f ?rk) = sum_list (map f ks)" for f :: "stratum \<Rightarrow> nat"
    using perm by (metis mset_map sum_mset_sum_list)
  with spec(1) ones target have "int (sum_list (map (allocations srepr rows m) ks)) = sample_target (length rows) (length ks) m"
    unfolding eq by simp
  moreover have "levelled pop ?rk L a \<longleftrightarrow> levelled pop ks L a" for L a
    using perm by (auto simp: levelled_def dest!: mset_eq_setD)
  ultimately show ?thesis using spec(2) by (simp add: eq)
qed

lemma distinct_submultiset:
  assumes "mset xs \<subseteq># mset ys" "distinct ys"
  shows "distinct xs"
proof -
  have "count (mset xs) a = (if a \<in> set xs then 1 else 0)" for a
  proof (cases "a \<in> set xs")
    case True
    have "count (mset xs) a \<le> count (mset ys) a" by (rule mset_subset_eq_count [OF assms(1)])
    also have "\<dots> \<le> 1" using assms(2) by (simp add: distinct_count_atmost_1)
    finally have "count (mset xs) a \<le> 1" .
    moreover have "count (mset xs) a \<noteq> 0" using True by (simp add: count_mset_0_iff)
    ultimately have "count (mset xs) a = 1" by linarith
    with True show ?thesis by simp
  qed (simp add: count_mset_0_iff)
  then show ?thesis by (simp add: distinct_count_atmost_1)
qed

lemma stratum_draw_spec:
  assumes draw: "samples draw" and n: "n \<le> length (group srepr rows k)"
    and ids: "distinct (map (candidate_key srepr) rows)"
  shows "length (ss_ids (stratum_draw srepr draw seed rows n k)) = n \<and>
         ss_population (stratum_draw srepr draw seed rows n k) = length (group srepr rows k) \<and>
         distinct (ss_ids (stratum_draw srepr draw seed rows n k)) \<and>
         set (ss_ids (stratum_draw srepr draw seed rows n k)) \<subseteq> candidate_key srepr ` set (group srepr rows k)"
proof -
  let ?pop = "sort_key (candidate_key srepr) (group srepr rows k)"
  let ?d = "draw (int_str seed @ '':'' @ join_with ''|'' k) ?pop n"
  have d: "length ?d = n" "mset ?d \<subseteq># mset ?pop"
  proof -
    have "n \<le> length ?pop" using n by simp
    with draw show "length ?d = n" "mset ?d \<subseteq># mset ?pop" unfolding samples_def by blast+
  qed
  have "distinct (map (candidate_key srepr) (group srepr rows k))"
    using ids by (auto simp: group_def intro: distinct_map_filter)
  then have pop: "distinct (map (candidate_key srepr) ?pop)"
    by (metis mset_map mset_sort mset_eq_imp_distinct_iff)
  have "mset (map (candidate_key srepr) ?d) \<subseteq># mset (map (candidate_key srepr) ?pop)"
    using d(2) by (simp add: image_mset_subseteq_mono)
  then have "distinct (map (candidate_key srepr) ?d)"
    by (rule distinct_submultiset [OF _ pop])
  moreover have "set ?d \<subseteq> set (group srepr rows k)"
    using d(2) by (metis set_mset_mono set_mset_mset set_sort)
  ultimately show ?thesis using d(1) by (auto simp: stratum_draw_def Let_def)
qed


lemma sum_list_sort: "sum_list (map f (sort xs)) = (sum_list (map f xs) :: 'a :: comm_monoid_add)"
proof -
  have "sum_mset (mset (map f (sort xs))) = sum_mset (mset (map f xs))" by simp
  then show ?thesis by (simp only: sum_mset_sum_list)
qed

lemma distinct_concat_map:
  "distinct ks \<Longrightarrow> (\<And>k. k \<in> set ks \<Longrightarrow> distinct (f k)) \<Longrightarrow>
     (\<And>k l. k \<in> set ks \<Longrightarrow> l \<in> set ks \<Longrightarrow> k \<noteq> l \<Longrightarrow> set (f k) \<inter> set (f l) = {}) \<Longrightarrow> distinct (concat (map f ks))"
  by (induction ks) (simp, fastforce)

lemma sampled_once:
  assumes draw: "samples draw" and run: "strata_samples srepr draw frame seed m = Inr ss"
  shows "map ss_key ss = sort (strata_of srepr (sort_key (candidate_key srepr) frame)) \<and>
         int (sum_list (map (length \<circ> ss_ids) ss)) = sample_target (length frame) (length ss) m \<and>
         distinct (sampled_ids ss) \<and>
         (\<exists>L\<ge>1. \<forall>s\<in>set ss. min L (ss_population s) \<le> length (ss_ids s) \<and> length (ss_ids s) \<le> min (Suc L) (ss_population s)) \<and>
         (\<forall>s\<in>set ss. ss_population s = length (group srepr frame (ss_key s)) \<and>
            set (ss_ids s) \<subseteq> candidate_key srepr ` set (group srepr frame (ss_key s)))"
proof -
  let ?rows = "sort_key (candidate_key srepr) frame"
  let ?ks = "strata_of srepr ?rows" and ?a = "allocations srepr ?rows m"
  let ?f = "\<lambda>k. stratum_draw srepr draw seed ?rows (?a k) k"
  have ids: "distinct (map (candidate_key srepr) ?rows)" and ss: "ss = map ?f (sort ?ks)"
    using run by (auto simp: strata_samples_def valid_ids_def Let_def split: if_splits)
  note alloc = allocations_spec [of srepr ?rows m]
  obtain L where L: "1 \<le> L" "levelled (\<lambda>k. length (group srepr ?rows k)) ?ks L ?a" using alloc by blast
  have f: "length (ss_ids (?f k)) = ?a k \<and> ss_population (?f k) = length (group srepr ?rows k) \<and>
      distinct (ss_ids (?f k)) \<and> set (ss_ids (?f k)) \<subseteq> candidate_key srepr ` set (group srepr ?rows k)"
    if "k \<in> set ?ks" for k
    using L(2) that by (intro stratum_draw_spec [OF draw _ ids]) (auto simp: levelled_def)
  have key: "ss_key (?f k) = k" for k by (simp add: stratum_draw_def Let_def)
  have keys: "map ss_key ss = sort ?ks" by (simp add: ss o_def key)
  have len: "length ss = length ?ks" by (simp add: ss)
  have "sum_list (map (length \<circ> ss_ids) ss) = sum_list (map ?a (sort ?ks))"
    unfolding ss using f by (intro arg_cong [where f = sum_list]) (auto simp: o_def)
  also have "\<dots> = sum_list (map ?a ?ks)" by (rule sum_list_sort)
  finally have "int (sum_list (map (length \<circ> ss_ids) ss)) = sample_target (length frame) (length ss) m"
    using alloc len by simp
  moreover have "distinct (sampled_ids ss)"
  proof -
    have disj: "set (ss_ids (?f k)) \<inter> set (ss_ids (?f l)) = {}" if kl: "k \<in> set ?ks" "l \<in> set ?ks" "k \<noteq> l" for k l
    proof (rule ccontr)
      assume "set (ss_ids (?f k)) \<inter> set (ss_ids (?f l)) \<noteq> {}"
      then obtain r r' where "r \<in> set (group srepr ?rows k)" "r' \<in> set (group srepr ?rows l)"
          "candidate_key srepr r = candidate_key srepr r'"
        using f [OF kl(1)] f [OF kl(2)] by blast
      with ids have "r = r'" by (auto simp: group_def distinct_map inj_on_def)
      with \<open>r \<in> _\<close> \<open>r' \<in> _\<close> kl(3) show False by (simp add: group_def)
    qed
    have "distinct (concat (map (\<lambda>k. ss_ids (?f k)) (sort ?ks)))"
      using f disj strata_of_props(1) by (intro distinct_concat_map) auto
    then show ?thesis by (simp add: sampled_ids_def ss o_def)
  qed
  moreover have "\<forall>s\<in>set ss. min L (ss_population s) \<le> length (ss_ids s) \<and> length (ss_ids s) \<le> min (Suc L) (ss_population s)"
    using L(2) f by (auto simp: ss levelled_def)
  moreover have "length (group srepr ?rows k) = length (group srepr frame k)"
    "set (group srepr ?rows k) = set (group srepr frame k)" for k
    unfolding group_def by (metis mset_filter mset_sort size_mset) (simp add: group_def)
  then have "\<forall>s\<in>set ss. ss_population s = length (group srepr frame (ss_key s)) \<and>
      set (ss_ids s) \<subseteq> candidate_key srepr ` set (group srepr frame (ss_key s))"
    using f by (auto simp: ss key)
  ultimately show ?thesis using keys L(1) by blast
qed


lemma frame_weight:
  assumes "samples draw" "strata_samples srepr draw frame seed m = Inr ss"
  shows "(\<Sum>s\<leftarrow>ss. \<Sum>i\<leftarrow>ss_ids s. 1 / inclusion s) = of_nat (length frame)"
proof -
  let ?rows = "sort_key (candidate_key srepr) frame"
  note once = sampled_once [OF assms]
  have keys: "map ss_key ss = sort (strata_of srepr ?rows)" using once by blast
  have pop: "ss_population s = length (group srepr ?rows (ss_key s))" "1 \<le> ss_population s" if s: "s \<in> set ss" for s
  proof -
    have "length (group srepr ?rows (ss_key s)) = length (group srepr frame (ss_key s))"
      unfolding group_def by (metis mset_filter mset_sort size_mset)
    with once s show eq: "ss_population s = length (group srepr ?rows (ss_key s))" by simp
    have "ss_key s \<in> set (map ss_key ss)" using s by simp
    then have "ss_key s \<in> set (strata_of srepr ?rows)" using keys by (metis set_sort)
    from group_nonempty [OF this] show "1 \<le> ss_population s" by (simp add: eq)
  qed
  have share: "(\<Sum>i\<leftarrow>ss_ids s. 1 / inclusion s) = of_nat (ss_population s)" if s: "s \<in> set ss" for s
  proof -
    obtain L where "1 \<le> L" "min L (ss_population s) \<le> length (ss_ids s)" using once s by blast
    with pop(2) [OF s] have "length (ss_ids s) \<noteq> 0" by auto
    then show ?thesis by (simp add: sum_list_triv inclusion_def)
  qed
  have "(\<Sum>s\<leftarrow>ss. \<Sum>i\<leftarrow>ss_ids s. 1 / inclusion s) = (\<Sum>s\<leftarrow>ss. of_nat (ss_population s))"
    using share by (intro arg_cong [where f = sum_list]) auto
  also have "\<dots> = of_nat (\<Sum>s\<leftarrow>ss. length (group srepr ?rows (ss_key s)))"
  proof -
    have "of_nat (sum_list xs) = sum_list (map of_nat xs :: rat list)" for xs by (induction xs) simp_all
    then show ?thesis using pop(1) by (simp add: o_def cong: map_cong)
  qed
  also have "(\<Sum>s\<leftarrow>ss. length (group srepr ?rows (ss_key s))) =
      sum_list (map (\<lambda>k. length (group srepr ?rows k)) (sort (strata_of srepr ?rows)))"
    by (rule arg_cong [where f = sum_list]) (simp only: keys [symmetric] map_map o_def)
  also have "\<dots> = sum_list (map (\<lambda>k. length (group srepr ?rows k)) (strata_of srepr ?rows))"
    by (rule sum_list_sort)
  also have "\<dots> = length frame" by (simp add: group_total)
  finally show ?thesis .
qed

text \<open>
  C19: The frozen sample represents its frame: every stratum is in it, the sizes add up to the target (the whole
  frame, or at least the minimum and one of every stratum), no stratum gets two more than another unless that one
  is exhausted, no candidate is drawn twice or from another stratum, and the inverse inclusion probabilities of the
  sampled candidates add up to the number of candidates in the frame.
\<close>

theorem sample_represents_frame:
  assumes "samples draw" "strata_samples srepr draw frame seed m = Inr ss"
  shows "set (map ss_key ss) = stratum_of srepr ` set frame \<and> distinct (map ss_key ss) \<and>
         int (sum_list (map (length \<circ> ss_ids) ss)) = sample_target (length frame) (length ss) m \<and>
         (\<exists>L\<ge>1. \<forall>s\<in>set ss. min L (ss_population s) \<le> length (ss_ids s) \<and> length (ss_ids s) \<le> min (Suc L) (ss_population s)) \<and>
         distinct (sampled_ids ss) \<and>
         (\<forall>s\<in>set ss. set (ss_ids s) \<subseteq> candidate_key srepr ` set (group srepr frame (ss_key s))) \<and>
         (\<Sum>s\<leftarrow>ss. \<Sum>i\<leftarrow>ss_ids s. 1 / inclusion s) = of_nat (length frame)"
proof -
  note once = sampled_once [OF assms]
  have keys: "map ss_key ss = sort (strata_of srepr (sort_key (candidate_key srepr) frame))" using once by blast
  then have "set (map ss_key ss) = set (strata_of srepr (sort_key (candidate_key srepr) frame))" by (metis set_sort)
  then have set_keys: "set (map ss_key ss) = stratum_of srepr ` set frame" by (simp add: strata_of_props)
  have "distinct (map ss_key ss)" unfolding keys by (simp add: strata_of_props)
  show ?thesis using once set_keys \<open>distinct (map ss_key ss)\<close> frame_weight [OF assms] by blast
qed


subsection \<open>Reading a frozen sample back\<close>

lemma freeze_sample_fields:
  assumes "freeze_sample l frame seed m = Inr e"
  shows "distinct (map fst e) \<and>
         (\<exists>ss. strata_samples (lib_srepr l) (lib_draw l) frame seed m = Inr ss \<and>
            map_of e ''sampled_candidate_ids'' = Some (PList (map PStr (sampled_ids ss))) \<and>
            map_of e ''strata'' = Some (PList (map stratum_value ss)))"
  using assms by (auto simp: freeze_sample_def bind_res_Inr_iff)

lemma getv_pnorm:
  "map_option pnorm (map_of d k) = Some v \<Longrightarrow> pnorm (getv d k) = v"
  by (auto simp: getv_def dict_get_def)

lemma frozen_fields:
  assumes v: "validate_frozen_selection l frame frozen = Inr u" and wf: "wf_json (PDict frozen)"
  shows "\<exists>ss seed m. strata_samples (lib_srepr l) (lib_draw l) frame seed m = Inr ss \<and> frozen_ids frozen = sampled_ids ss \<and>
           pnorm (getv frozen ''strata'') = PList (map (pnorm \<circ> stratum_value) ss)"
proof -
  obtain seed m e where e: "freeze_sample l frame seed m = Inr e" and eq: "py_eq (PDict frozen) (PDict e)"
    using v by (auto simp: validate_frozen_selection_def bind_res_Inr_iff split: pyval.splits if_splits)
  obtain ss where ss: "strata_samples (lib_srepr l) (lib_draw l) frame seed m = Inr ss" and d: "distinct (map fst e)"
    and f: "map_of e ''sampled_candidate_ids'' = Some (PList (map PStr (sampled_ids ss)))"
      "map_of e ''strata'' = Some (PList (map stratum_value ss))"
    using freeze_sample_fields [OF e] by blast
  have "pnorm (PDict frozen) = pnorm (PDict e)" using eq by (simp add: py_eq_def)
  from pnorm_dict [OF this wf d] have look: "map_option pnorm (map_of frozen k) = map_option pnorm (map_of e k)" for k
    by auto
  have "pnorm (getv frozen ''sampled_candidate_ids'') = PList (map PStr (sampled_ids ss))"
    by (rule getv_pnorm) (simp add: look f o_def)
  then have "getv frozen ''sampled_candidate_ids'' = PList (map PStr (sampled_ids ss))"
    by (auto simp: pnorm_PList pnorm_strings)
  then have ids: "frozen_ids frozen = sampled_ids ss"
    by (simp add: frozen_ids_def list_of_def string_of_def o_def)
  have "pnorm (getv frozen ''strata'') = PList (map (pnorm \<circ> stratum_value) ss)"
    by (rule getv_pnorm) (simp add: look f)
  with ss ids show ?thesis by blast
qed

definition stratum_probabilities :: "pyval \<Rightarrow> (string \<times> pyval) list" where
  "stratum_probabilities s =
     (case s of
        PDict d \<Rightarrow> map (\<lambda>c. (string_of c, getv d ''inclusion_probability'')) (list_of (getv d ''candidate_ids''))
      | _ \<Rightarrow> [])"

lemma stratum_probabilities_eq:
  assumes "pnorm v = pnorm (stratum_value s)" "wf_json v"
  shows "\<exists>p. pnorm p = PFloat (Fin (inclusion s)) \<and> stratum_probabilities v = map (\<lambda>i. (i, p)) (ss_ids s)"
proof -
  define e where "e = (case stratum_value s of PDict d \<Rightarrow> d | _ \<Rightarrow> [])"
  have e: "stratum_value s = PDict e" "distinct (map fst e)"
      "map_of e ''candidate_ids'' = Some (PList (map PStr (ss_ids s)))"
      "map_of e ''inclusion_probability'' = Some (PFloat (Fin (inclusion s)))"
    by (simp_all add: e_def stratum_value_def)
  obtain d where d: "v = PDict d" "\<And>k. map_option pnorm (map_of d k) = map_option pnorm (map_of e k)"
    using pnorm_dict [of v e] assms e(1,2) by auto
  have "pnorm (getv d ''candidate_ids'') = PList (map PStr (ss_ids s))"
    by (rule getv_pnorm) (simp add: d(2) e(3) o_def)
  then have "getv d ''candidate_ids'' = PList (map PStr (ss_ids s))"
    by (auto simp: pnorm_PList pnorm_strings)
  moreover have "pnorm (getv d ''inclusion_probability'') = PFloat (Fin (inclusion s))"
    by (rule getv_pnorm) (simp add: d(2) e(4))
  ultimately show ?thesis
    by (intro exI [of _ "getv d ''inclusion_probability''"])
      (simp add: stratum_probabilities_def d(1) list_of_def string_of_def o_def)
qed

lemma frozen_probabilities:
  assumes "pnorm (getv frozen ''strata'') = PList (map (pnorm \<circ> stratum_value) ss)" "wf_json (PDict frozen)"
    and "distinct (sampled_ids ss)" "s \<in> set ss" "i \<in> set (ss_ids s)"
  shows "\<exists>p. map_of (rev (probabilities frozen)) i = Some p \<and> pnorm p = PFloat (Fin (inclusion s))"
proof -
  obtain vs where vs: "getv frozen ''strata'' = PList vs" "map pnorm vs = map (pnorm \<circ> stratum_value) ss"
    using assms(1) by (auto simp: pnorm_PList)
  have "wf_json (PList vs)"
  proof -
    have "map_of frozen ''strata'' = Some (PList vs)" using vs(1) by (auto simp: getv_def dict_get_def split: option.splits)
    then have "(''strata'', PList vs) \<in> set frozen" by (rule map_of_SomeD)
    with assms(2) show ?thesis by (force simp: list_all_iff)
  qed
  then have wf: "wf_json v" if "v \<in> set vs" for v using that by (auto simp: list_all_iff)
  have ps: "probabilities frozen = concat (map stratum_probabilities vs)"
    by (simp add: probabilities_def vs list_of_def stratum_probabilities_def [abs_def])
  have rel: "list_all2 (\<lambda>v s. \<exists>p. pnorm p = PFloat (Fin (inclusion s)) \<and> stratum_probabilities v = map (\<lambda>i. (i, p)) (ss_ids s)) vs ss"
    unfolding list_all2_conv_all_nth
  proof (intro conjI allI impI)
    show "length vs = length ss" using vs(2) by (metis length_map)
    fix j assume j: "j < length vs"
    with vs(2) have "pnorm (vs ! j) = pnorm (stratum_value (ss ! j))"
      by (metis \<open>length vs = length ss\<close> comp_apply nth_map)
    then show "\<exists>p. pnorm p = PFloat (Fin (inclusion (ss ! j))) \<and> stratum_probabilities (vs ! j) = map (\<lambda>i. (i, p)) (ss_ids (ss ! j))"
      using stratum_probabilities_eq wf j by simp
  qed
  then have fst: "map fst (concat (map stratum_probabilities vs)) = concat (map ss_ids ss)"
    by (induction rule: list_all2_induct) (auto simp: o_def)
  have "distinct (concat (map ss_ids ss))" using assms(3) by (simp add: sampled_ids_def)
  then have d: "distinct (map fst (rev (concat (map stratum_probabilities vs))))"
    by (simp add: fst flip: rev_map)
  have "\<exists>p. (i, p) \<in> set (concat (map stratum_probabilities vs)) \<and> pnorm p = PFloat (Fin (inclusion s))"
  proof -
    obtain j where j: "j < length ss" "s = ss ! j" using assms(4) by (auto simp: in_set_conv_nth)
    with rel obtain p where p: "pnorm p = PFloat (Fin (inclusion s))" "stratum_probabilities (vs ! j) = map (\<lambda>i. (i, p)) (ss_ids s)"
      by (auto simp: list_all2_conv_all_nth)
    have "vs ! j \<in> set vs" using rel j by (simp add: list_all2_conv_all_nth)
    with p assms(5) show ?thesis by force
  qed
  then obtain p where "(i, p) \<in> set (rev (concat (map stratum_probabilities vs)))" "pnorm p = PFloat (Fin (inclusion s))"
    by auto
  with d show ?thesis by (intro exI [of _ p]) (simp add: ps map_of_is_SomeI del: set_rev)
qed


definition evidence_of :: "(pyval \<Rightarrow> string) \<Rightarrow> dict list \<Rightarrow> string \<Rightarrow> pyval" where
  "evidence_of srepr frame i = getv (the (by_id srepr frame i)) ''evidence''"

definition traced :: "stratum_sample list \<Rightarrow> nat \<times> string \<Rightarrow> pyval \<Rightarrow> bool" where
  "traced ss ni u \<longleftrightarrow>
     (\<exists>s\<in>set ss. \<exists>p. snd ni \<in> set (ss_ids s) \<and> pnorm p = PFloat (Fin (inclusion s)) \<and> u = unblinding_row (fst ni) (snd ni) p)"

text \<open>
  C29: The blinded packets are those of the frozen sample, one for every sampled candidate, numbered in the order of
  the ids; a packet holds its number, the frame's digest and what \<open>packet_evidence\<close> takes from the candidate's
  evidence, and nothing else of the candidate (no status, severity, host or arm); the unblinding map names, under the
  same number, the candidate and the inclusion probability of its stratum.
\<close>

theorem packets_blind_and_traceable:
  assumes "samples (lib_draw l)" "wf_json (PDict frozen)" "build_blinded_packets l frame frozen = Inr (ps, us)"
  shows "\<exists>ss ids sha. (\<exists>seed m. strata_samples (lib_srepr l) (lib_draw l) frame seed m = Inr ss) \<and>
           sorted ids \<and> distinct ids \<and> set ids = set (sampled_ids ss) \<and>
           ps = map (\<lambda>(n, i). packet (PStr sha) n (evidence_of (lib_srepr l) frame i)) (enumerate 1 ids) \<and>
           list_all2 (traced ss) (enumerate 1 ids) us"
proof -
  let ?ids = "sort (remdups (frozen_ids frozen))"
  obtain sha where v: "validate_frozen_selection l frame frozen = Inr ()"
    and ps: "ps = map (\<lambda>(n, i). packet (PStr sha) n (evidence_of (lib_srepr l) frame i)) (enumerate 1 ?ids)"
    and us: "us = map (\<lambda>(n, i). unblinding_row n i (the (map_of (rev (probabilities frozen)) i))) (enumerate 1 ?ids)"
    using assms(3) by (auto simp: build_blinded_packets_def bind_res_Inr_iff Let_def evidence_of_def split: if_splits)
  obtain ss seed m where ss: "strata_samples (lib_srepr l) (lib_draw l) frame seed m = Inr ss"
    and ids: "frozen_ids frozen = sampled_ids ss"
    and strata: "pnorm (getv frozen ''strata'') = PList (map (pnorm \<circ> stratum_value) ss)"
    using frozen_fields [OF v assms(2)] by blast
  have once: "distinct (sampled_ids ss)" using sampled_once [OF assms(1) ss] by blast
  have "traced ss ni (case ni of (n, i) \<Rightarrow> unblinding_row n i (the (map_of (rev (probabilities frozen)) i)))"
    if "ni \<in> set (enumerate 1 ?ids)" for ni
  proof -
    obtain n i where ni: "ni = (n, i)" by (cases ni)
    have "i \<in> set ?ids" using that unfolding ni by (metis in_set_zip snd_conv nth_mem enumerate_eq_zip)
    then obtain s where s: "s \<in> set ss" "i \<in> set (ss_ids s)" by (auto simp: ids sampled_ids_def)
    obtain p where p: "map_of (rev (probabilities frozen)) i = Some p" "pnorm p = PFloat (Fin (inclusion s))"
      using frozen_probabilities [OF strata assms(2) once s] by blast
    show ?thesis
      unfolding ni traced_def by (intro bexI [of _ s] exI [of _ p]) (simp_all add: s p)
  qed
  then have "list_all2 (traced ss) (enumerate 1 ?ids) us"
    by (simp add: us list.rel_map list_all2_same)
  with ss ps ids show ?thesis by (intro exI [of _ ss] exI [of _ ?ids] exI [of _ sha]) auto
qed

subsection \<open>An example\<close>

definition demo_libs :: libs where
  "demo_libs = \<lparr>lib_srepr = (\<lambda>_. []), lib_frepr = (\<lambda>_. []), lib_sha = (\<lambda>_. ''0''), lib_draw = (\<lambda>_ pop n. take n pop)\<rparr>"

definition demo_row :: "string \<Rightarrow> string \<Rightarrow> dict" where
  "demo_row i status =
     [(''candidate_id'', PStr i), (''status'', PStr status), (''evidence'', PDict [(''claim'', PStr (''about '' @ i))])]"

definition demo_frame :: "dict list" where
  "demo_frame = [demo_row ''c3'' ''rejected'', demo_row ''c1'' ''confirmed'', demo_row ''c2'' ''confirmed'']"

definition demo_samples :: "stratum_sample list" where
  "demo_samples =
     [\<lparr>ss_key = [[], [], [], [], ''confirmed''], ss_population = 2, ss_ids = [''c1'']\<rparr>,
      \<lparr>ss_key = [[], [], [], [], ''rejected''], ss_population = 1, ss_ids = [''c3'']\<rparr>]"

definition demo_frozen :: dict where
  "demo_frozen =
     [(''schema_version'', PInt 1), (''seed'', PInt 7), (''minimum'', PInt 2), (''frame_sha256'', PStr ''0''),
      (''population_n'', PInt 3), (''sampled_candidate_ids'', PList [PStr ''c1'', PStr ''c3'']),
      (''strata'', PList (map stratum_value demo_samples))]"

lemma demo_samples: "samples (lib_draw demo_libs)"
proof -
  have "mset (take n xs) \<subseteq># mset xs" for n and xs :: "dict list"
    by (metis append_take_drop_id mset_append mset_subset_eq_add_left)
  then show ?thesis by (simp add: samples_def demo_libs_def)
qed

lemma demo_strata: "strata_samples (lib_srepr demo_libs) (lib_draw demo_libs) demo_frame 7 2 = Inr demo_samples"
  by code_simp


lemma demo_digest: "\<not> nonfinite (frame_identity (lib_srepr demo_libs) f) \<Longrightarrow> frame_digest demo_libs f = Inr ''0''"
  by (simp add: frame_digest_def Let_def demo_libs_def)

lemma demo_finite:
  "\<not> nonfinite (frame_identity (lib_srepr demo_libs) demo_frame)"
  "\<not> nonfinite (frame_identity (lib_srepr demo_libs) (sort_key (candidate_key (lib_srepr demo_libs)) demo_frame))"
  by code_simp+

lemma demo_freeze: "freeze_sample demo_libs demo_frame 7 2 = Inr demo_frozen"
proof -
  have "sampled_ids demo_samples = [''c1'', ''c3'']" by code_simp
  then show ?thesis
    by (simp add: freeze_sample_def demo_strata demo_digest [OF demo_finite(2)] demo_frozen_def)
      (simp add: demo_frame_def)
qed

lemma demo_valid: "validate_frozen_selection demo_libs demo_frame demo_frozen = Inr ()"
proof -
  have "getv demo_frozen ''seed'' = PInt 7" "getv demo_frozen ''minimum'' = PInt 2"
    by (simp_all add: demo_frozen_def getv_def dict_get_def)
  moreover have "py_eq (PDict demo_frozen) (PDict demo_frozen)" by code_simp
  ultimately show ?thesis by (simp add: validate_frozen_selection_def demo_freeze)
qed

lemma demo_build:
  "\<exists>ps us. build_blinded_packets demo_libs demo_frame demo_frozen = Inr (ps, us) \<and> length ps = 2"
proof -
  have "getv demo_frozen ''frame_sha256'' = PStr ''0''" by (simp add: demo_frozen_def getv_def dict_get_def)
  moreover have "frozen_ids demo_frozen = [''c1'', ''c3'']"
    by (simp add: demo_frozen_def frozen_ids_def list_of_def string_of_def getv_def dict_get_def)
  moreover have "sort (remdups [''c1'', ''c3'']) = [''c1'', ''c3'']" by code_simp
  moreover have "list_all (\<lambda>i. by_id (lib_srepr demo_libs) demo_frame i \<noteq> None) [''c1'', ''c3'']" by code_simp
  moreover have "set (map fst (probabilities demo_frozen)) = set [''c1'', ''c3'']" by code_simp
  moreover have "list_all (\<lambda>i. probability_ok (the (map_of (rev (probabilities demo_frozen)) i))) [''c1'', ''c3'']" by code_simp
  ultimately show ?thesis
    by (simp add: build_blinded_packets_def demo_digest [OF demo_finite(1)] demo_valid Let_def del: set_map)
qed

theorem packets_blind_and_traceable_witness:
  "\<exists>ps us ss ids. build_blinded_packets demo_libs demo_frame demo_frozen = Inr (ps, us) \<and> length ps = 2 \<and>
      list_all2 (traced ss) (enumerate 1 ids) us"
proof -
  obtain ps us where run: "build_blinded_packets demo_libs demo_frame demo_frozen = Inr (ps, us)" and two: "length ps = 2"
    using demo_build by blast
  have "wf_json (PDict demo_frozen)" by code_simp
  from packets_blind_and_traceable [OF demo_samples this run] run two show ?thesis by blast
qed

theorem sample_represents_frame_witness:
  "(\<Sum>s\<leftarrow>demo_samples. \<Sum>i\<leftarrow>ss_ids s. 1 / inclusion s) = of_nat (length demo_frame) \<and> distinct (sampled_ids demo_samples)"
  using sample_represents_frame [OF demo_samples demo_strata] by blast

end
