(* ===== verification/Human_Labels.thy ===== *)
theory Human_Labels
  imports Calibration
begin

text \<open>
  The second half of \<^verbatim>\<open>bench/scorer/calibration.py\<close>: the labels of human reviewers are resolved
  (\<open>resolve_labels\<close>), joined with the frozen sample and summarised (\<open>summarize_calibration\<close>) by inclusion-weighted
  rates with bounds for what is unresolved, weighted medians and cluster bootstrap intervals.
\<close>

subsection \<open>Resolving labels\<close>

record vote =
  v_reviewer :: string
  v_label :: string
  v_seconds :: rat

definition nonblank :: "pyval \<Rightarrow> bool" where
  "nonblank v = (case v of PStr s \<Rightarrow> strip s \<noteq> [] | _ \<Rightarrow> False)"

definition positive_number :: "pyval \<Rightarrow> bool" where
  "positive_number v = (case finite_number v of None \<Rightarrow> False | Some q \<Rightarrow> 0 < q)"

definition vote_of :: "dict \<Rightarrow> vote" where
  "vote_of row = \<lparr>v_reviewer = string_of (getv row ''reviewer_id''), v_label = string_of (getv row ''label''),
     v_seconds = (case finite_number (getv row ''seconds'') of None \<Rightarrow> 0 | Some q \<Rightarrow> q)\<rparr>"

definition read_label :: "string list \<Rightarrow> dict \<Rightarrow> value_error + string \<times> vote" where
  "read_label ids row =
     bind_res (in_set ids (getv row ''review_id'')) (\<lambda>known.
     bind_res (guard (known \<and> nonblank (getv row ''reviewer_id'') \<and> getv row ''role'' = PStr ''primary'') ValueError) (\<lambda>_.
     bind_res (in_set VALID_LABELS (getv row ''label'')) (\<lambda>named.
     bind_res (guard (named \<and> positive_number (getv row ''seconds'') \<and> nonblank (getv row ''reason'')) ValueError) (\<lambda>_.
       Inr (string_of (getv row ''review_id''), vote_of row)))))"

definition votes_for :: "(string \<times> vote) list \<Rightarrow> string \<Rightarrow> vote list" where
  "votes_for seen i = map snd (filter (\<lambda>iv. fst iv = i) seen)"

fun read_labels :: "string list \<Rightarrow> (string \<times> vote) list \<Rightarrow> dict list \<Rightarrow> value_error + (string \<times> vote) list" where
  "read_labels ids seen [] = Inr seen"
| "read_labels ids seen (row # rows) =
     bind_res (read_label ids row) (\<lambda>iv.
     bind_res (guard (length (votes_for seen (fst iv)) < 2 \<and>
                v_reviewer (snd iv) \<notin> v_reviewer ` set (votes_for seen (fst iv))) ValueError) (\<lambda>_.
       read_labels ids (seen @ [iv]) rows))"

definition UNVERIFIABLE :: string where
  "UNVERIFIABLE = ''unverifiable''"

definition disagreement :: "vote list \<Rightarrow> bool" where
  "disagreement votes =
     (case votes of [a, b] \<Rightarrow> v_label a \<noteq> v_label b \<or> UNVERIFIABLE \<in> set [v_label a, v_label b] | _ \<Rightarrow> False)"

definition read_adjudication ::
  "(pyval \<Rightarrow> string) \<Rightarrow> string list \<Rightarrow> (string \<times> vote) list \<Rightarrow> dict \<Rightarrow> value_error + string \<times> vote" where
  "read_adjudication srepr ids labels row =
     (let i = field_text srepr row ''review_id''; votes = votes_for labels i
      in bind_res (guard (i \<in> set ids \<and> disagreement votes \<and> getv row ''role'' = PStr ''adjudicator'') ValueError) (\<lambda>_.
         bind_res (in_set VALID_LABELS (getv row ''label'')) (\<lambda>named.
         bind_res (guard (named \<and> positive_number (getv row ''seconds'') \<and> nonblank (getv row ''reason'')
                    \<and> nonblank (getv row ''reviewer_id'')
                    \<and> string_of (getv row ''reviewer_id'') \<notin> v_reviewer ` set votes) ValueError) (\<lambda>_.
           Inr (i, vote_of row)))))"

fun read_adjudications ::
  "(pyval \<Rightarrow> string) \<Rightarrow> string list \<Rightarrow> (string \<times> vote) list \<Rightarrow> (string \<times> vote) list \<Rightarrow> dict list \<Rightarrow>
     value_error + (string \<times> vote) list" where
  "read_adjudications srepr ids labels seen [] = Inr seen"
| "read_adjudications srepr ids labels seen (row # rows) =
     bind_res (read_adjudication srepr ids labels row) (\<lambda>iv.
     bind_res (guard (map_of seen (fst iv) = None) ValueError) (\<lambda>_.
       read_adjudications srepr ids labels (seen @ [iv]) rows))"

datatype label_status = Adjudicated | Agreed | Unresolved

record resolution =
  re_id :: string
  re_label :: "string option"
  re_status :: label_status
  re_reviewers :: nat
  re_seconds :: rat
  re_disagreement :: bool

definition settled :: "vote list \<Rightarrow> vote option \<Rightarrow> string option \<times> label_status" where
  "settled votes final =
     (case final of
        Some f \<Rightarrow> (Some (v_label f), Adjudicated)
      | None \<Rightarrow> (case votes of
            [a, b] \<Rightarrow> if v_label a = v_label b \<and> v_label a \<noteq> UNVERIFIABLE then (Some (v_label a), Agreed)
                      else (None, Unresolved)
          | _ \<Rightarrow> (None, Unresolved)))"

definition resolve :: "(string \<times> vote) list \<Rightarrow> (string \<times> vote) list \<Rightarrow> string \<Rightarrow> resolution" where
  "resolve labels adjudicated i =
     (let votes = votes_for labels i; final = map_of adjudicated i; s = settled votes final
      in \<lparr>re_id = i, re_label = fst s, re_status = snd s, re_reviewers = length votes,
          re_seconds = sum_list (map v_seconds votes) + (case final of None \<Rightarrow> 0 | Some f \<Rightarrow> v_seconds f),
          re_disagreement = disagreement votes\<rparr>)"

definition resolve_labels ::
  "(pyval \<Rightarrow> string) \<Rightarrow> dict list \<Rightarrow> dict list \<Rightarrow> dict list \<Rightarrow> value_error + resolution list" where
  "resolve_labels srepr packets labels adjudications =
     (let ids = map (\<lambda>p. py_str srepr (getv p ''review_id'')) packets
      in bind_res (read_labels ids [] labels) (\<lambda>ls.
         bind_res (read_adjudications srepr ids ls [] adjudications) (\<lambda>as.
           map_res (\<lambda>p. bind_res (subscript (PDict p) ''review_id'') (\<lambda>v. Inr (resolve ls as (py_str srepr v)))) packets)))"

subsection \<open>Weighted rates\<close>

record calibration_row =
  cr_stratum :: "string \<Rightarrow> pyval"
  cr_case :: pyval
  cr_repository :: pyval
  cr_label :: "string option"
  cr_probability :: rat
  cr_reviewers :: nat
  cr_seconds :: rat

record rate =
  rt_estimate :: "rat option"
  rt_lower :: "rat option"
  rt_upper :: "rat option"

definition no_rate :: rate where
  "no_rate = \<lparr>rt_estimate = None, rt_lower = None, rt_upper = None\<rparr>"

definition weight :: "calibration_row \<Rightarrow> rat" where
  "weight r = 1 / cr_probability r"

definition share :: "(calibration_row \<Rightarrow> bool) \<Rightarrow> calibration_row list \<Rightarrow> rat" where
  "share P rows = sum_list (map weight (filter P rows)) / sum_list (map weight rows)"

definition weighted_rate :: "string \<Rightarrow> calibration_row list \<Rightarrow> rate" where
  "weighted_rate positive rows =
     (if rows = [] \<or> list_ex (\<lambda>r. cr_probability r \<le> 0) rows then no_rate
      else (let lower = share (\<lambda>r. cr_label r = Some positive) rows;
                upper = share (\<lambda>r. cr_label r = Some positive \<or> cr_label r = None) rows
            in \<lparr>rt_estimate = (if lower = upper then Some lower else None), rt_lower = Some lower, rt_upper = Some upper\<rparr>))"

fun reach :: "rat \<Rightarrow> rat \<Rightarrow> (rat \<times> rat) list \<Rightarrow> rat option" where
  "reach half running [] = None"
| "reach half running ((v, w) # xs) = (if half \<le> running + w then Some v else reach half (running + w) xs)"

definition weighted_median :: "(rat \<times> rat) list \<Rightarrow> rat option" where
  "weighted_median values =
     (if values = [] \<or> list_ex (\<lambda>(v, w). v < 0 \<or> w \<le> 0) values then None
      else reach (sum_list (map snd values) / 2) 0 (sort values))"

subsection \<open>Bootstrap intervals\<close>

text \<open>The draws of one replicate: for the seed, the replicate, the stratum (only in the paired interval) and the
  clusters, as many clusters as there are, with repetition.  They are a function of these, so that the
  cache of the code changes nothing.\<close>

type_synonym cluster = "string \<times> string"

type_synonym boot = "int \<Rightarrow> nat \<Rightarrow> string list option \<Rightarrow> cluster list \<Rightarrow> cluster list"

definition cluster_of :: "(pyval \<Rightarrow> string) \<Rightarrow> calibration_row \<Rightarrow> cluster" where
  "cluster_of srepr r = (py_str srepr (cr_case r), py_str srepr (cr_repository r))"

definition row_stratum :: "(pyval \<Rightarrow> string) \<Rightarrow> string list \<Rightarrow> calibration_row \<Rightarrow> string list" where
  "row_stratum srepr fs r = map (\<lambda>f. py_str srepr (cr_stratum r f)) fs"

record interval =
  iv_low :: "rat option"
  iv_high :: "rat option"
  iv_sensitivity_low :: "rat option"
  iv_sensitivity_high :: "rat option"
  iv_clusters :: nat

definition no_interval :: "nat \<Rightarrow> interval" where
  "no_interval n = \<lparr>iv_low = None, iv_high = None, iv_sensitivity_low = None, iv_sensitivity_high = None, iv_clusters = n\<rparr>"

text \<open>\<open>int(.025 * (n - 1))\<close> and \<open>int(.975 * (n - 1))\<close>\<close>

definition low_index :: "nat \<Rightarrow> nat" where
  "low_index n = nat \<lfloor>25 / 1000 * (of_nat n - 1 :: rat)\<rfloor>"

definition high_index :: "nat \<Rightarrow> nat" where
  "high_index n = min (n - 1) (nat \<lfloor>975 / 1000 * (of_nat n - 1 :: rat)\<rfloor>)"

definition percentiles :: "nat \<Rightarrow> (rat \<times> rat) list \<Rightarrow> interval" where
  "percentiles n bounds =
     (if bounds = [] then no_interval n
      else (let lowers = sort (map fst bounds); uppers = sort (map snd bounds)
            in \<lparr>iv_low = Some (lowers ! low_index (length lowers)), iv_high = Some (lowers ! high_index (length lowers)),
                iv_sensitivity_low = Some (uppers ! low_index (length uppers)),
                iv_sensitivity_high = Some (uppers ! high_index (length uppers)), iv_clusters = n\<rparr>))"

definition replicate_rows :: "(pyval \<Rightarrow> string) \<Rightarrow> boot \<Rightarrow> int \<Rightarrow> calibration_row list \<Rightarrow> nat \<Rightarrow> calibration_row list" where
  "replicate_rows srepr boot seed rows n =
     concat (map (\<lambda>k. let members = filter (\<lambda>r. row_stratum srepr STRATUM_FIELDS r = k) rows;
                          universe = sort (remdups (map (cluster_of srepr) members))
                      in concat (map (\<lambda>c. filter (\<lambda>r. cluster_of srepr r = c) members) (boot seed n None universe)))
       (sort (remdups (map (row_stratum srepr STRATUM_FIELDS) rows))))"

definition rate_bounds :: "rate \<Rightarrow> (rat \<times> rat) option" where
  "rate_bounds r = (case (rt_lower r, rt_upper r) of (Some l, Some u) \<Rightarrow> Some (l, u) | _ \<Rightarrow> None)"

definition cluster_bootstrap_interval ::
  "(pyval \<Rightarrow> string) \<Rightarrow> boot \<Rightarrow> int \<Rightarrow> string \<Rightarrow> nat \<Rightarrow> calibration_row list \<Rightarrow> interval" where
  "cluster_bootstrap_interval srepr boot seed positive repetitions rows =
     (let eligible = filter (\<lambda>r. 0 < cr_probability r) rows;
          clusters = length (remdups (map (cluster_of srepr) eligible))
      in if eligible = [] \<or> repetitions < 1 then no_interval 0
         else if clusters < 2 then no_interval clusters
         else percentiles clusters
                (List.map_filter (\<lambda>n. rate_bounds (weighted_rate positive (replicate_rows srepr boot seed eligible n)))
                  [0..<repetitions]))"


text \<open>The paired interval: both arms in every stratum over the same clusters, all sampled with certainty.\<close>

definition PAIR_FIELDS :: "string list" where
  "PAIR_FIELDS = [''host'', ''category'', ''severity'', ''status'']"

definition cell :: "(pyval \<Rightarrow> string) \<Rightarrow> calibration_row list \<Rightarrow> string list \<Rightarrow> string \<Rightarrow> calibration_row list" where
  "cell srepr rows k arm = filter (\<lambda>r. row_stratum srepr PAIR_FIELDS r = k \<and> cr_stratum r ''arm'' = PStr arm) rows"

definition clusters_of :: "(pyval \<Rightarrow> string) \<Rightarrow> calibration_row list \<Rightarrow> cluster list" where
  "clusters_of srepr rows = sort (remdups (map (cluster_of srepr) rows))"

definition shared_clusters :: "(pyval \<Rightarrow> string) \<Rightarrow> calibration_row list \<Rightarrow> string \<Rightarrow> string \<Rightarrow> string list \<Rightarrow> cluster list" where
  "shared_clusters srepr rows current reference k =
     filter (\<lambda>c. c \<in> set (clusters_of srepr (cell srepr rows k reference))) (clusters_of srepr (cell srepr rows k current))"

definition drawn :: "(pyval \<Rightarrow> string) \<Rightarrow> calibration_row list \<Rightarrow> string \<Rightarrow> (string list \<times> cluster list) list \<Rightarrow> calibration_row list" where
  "drawn srepr rows arm draws =
     concat (map (\<lambda>(k, cs). concat (map (\<lambda>c. filter (\<lambda>r. cluster_of srepr r = c) (cell srepr rows k arm)) cs)) draws)"

definition difference_bounds :: "rate \<Rightarrow> rate \<Rightarrow> (rat \<times> rat) option" where
  "difference_bounds current reference =
     (case (rate_bounds current, rate_bounds reference) of
        (Some (cl, cu), Some (rl, ru)) \<Rightarrow> Some (cl - ru, cu - rl)
      | _ \<Rightarrow> None)"

definition paired_rows :: "string \<Rightarrow> string \<Rightarrow> calibration_row list \<Rightarrow> value_error + calibration_row list" where
  "paired_rows current reference rows =
     bind_res (map_res (\<lambda>r. in_set [current, reference] (cr_stratum r ''arm'')) rows) (\<lambda>_.
       Inr (filter (\<lambda>r. cr_stratum r ''arm'' \<in> PStr ` set [current, reference] \<and> 0 < cr_probability r) rows))"

definition paired_interval ::
  "(pyval \<Rightarrow> string) \<Rightarrow> boot \<Rightarrow> int \<Rightarrow> string \<Rightarrow> string \<Rightarrow> string \<Rightarrow> nat \<Rightarrow> calibration_row list \<Rightarrow> interval" where
  "paired_interval srepr boot seed current reference positive repetitions rows =
     (let strata = sort (remdups (map (row_stratum srepr PAIR_FIELDS) rows));
          paired = map (\<lambda>k. (k, shared_clusters srepr rows current reference k)) strata;
          n = length (remdups (concat (map snd paired)));
          used = concat (map (\<lambda>(k, cs). concat (map (\<lambda>arm. filter (\<lambda>r. cluster_of srepr r \<in> set cs) (cell srepr rows k arm)) [current, reference])) paired)
      in if paired = [] \<or> list_ex (\<lambda>(k, cs). cs = []) paired \<or> repetitions < 1 then no_interval 0
         else if n < 2 \<or> list_ex (\<lambda>r. cr_probability r \<noteq> 1) used
              \<or> list_ex (\<lambda>k. clusters_of srepr (cell srepr rows k current) \<noteq> clusters_of srepr (cell srepr rows k reference)) strata
         then no_interval n
         else percentiles n
           (List.map_filter (\<lambda>i. let draws = map (\<lambda>(k, cs). (k, boot seed i (Some k) cs)) paired
              in difference_bounds (weighted_rate positive (drawn srepr rows current draws))
                                   (weighted_rate positive (drawn srepr rows reference draws)))
             [0..<repetitions]))"

definition paired_cluster_bootstrap_difference ::
  "(pyval \<Rightarrow> string) \<Rightarrow> boot \<Rightarrow> int \<Rightarrow> string \<Rightarrow> string \<Rightarrow> string \<Rightarrow> nat \<Rightarrow> calibration_row list \<Rightarrow> value_error + interval" where
  "paired_cluster_bootstrap_difference srepr boot seed current reference positive repetitions rows =
     bind_res (paired_rows current reference rows) (\<lambda>rows.
       Inr (paired_interval srepr boot seed current reference positive repetitions rows))"

subsection \<open>The summary\<close>

definition number_of :: "pyval \<Rightarrow> rat" where
  "number_of v = (case pnorm v of PFloat (Fin q) \<Rightarrow> q | _ \<Rightarrow> 0)"

definition resolution_of :: "resolution list \<Rightarrow> string \<Rightarrow> resolution option" where
  "resolution_of rs i = map_of (rev (map (\<lambda>r. (re_id r, r)) rs)) i"

definition ROW_FIELDS :: "string list" where
  "ROW_FIELDS = [''case_id'', ''repository''] @ STRATUM_FIELDS"

text \<open>One row of the summary, from an entry of the unblinding map.\<close>

definition summary_row ::
  "(pyval \<Rightarrow> string) \<Rightarrow> dict list \<Rightarrow> (string \<times> pyval) list \<Rightarrow> resolution list \<Rightarrow> dict \<Rightarrow> value_error + calibration_row" where
  "summary_row srepr frame ps resolved item =
     bind_res (subscript (PDict item) ''candidate_id'') (\<lambda>c.
     bind_res (subscript (PDict item) ''review_id'') (\<lambda>rv.
       case (by_id srepr frame (py_str srepr c), resolution_of resolved (py_str srepr rv)) of
         (Some source, Some r) \<Rightarrow>
           (case map_of (rev ps) (py_str srepr c) of
              None \<Rightarrow> Inl KeyError
            | Some p \<Rightarrow>
                bind_res (guard (\<not> is_bool (getv item ''inclusion_probability'') \<and>
                           py_eq (getv item ''inclusion_probability'') p) ValueError) (\<lambda>_.
                  Inr \<lparr>cr_stratum = getv source, cr_case = getv source ''case_id'', cr_repository = getv source ''repository'',
                       cr_label = re_label r, cr_probability = number_of p, cr_reviewers = re_reviewers r,
                       cr_seconds = re_seconds r\<rparr>))
       | _ \<Rightarrow> Inl ValueError))"

record metric =
  me_rate :: rate
  me_bootstrap :: interval
  me_sampled :: nat
  me_unresolved :: nat

record host_metrics =
  hm_arms :: "(string \<times> metric \<times> metric \<times> metric) list"
  hm_paired :: interval

record summary =
  su_frame_sha256 :: pyval
  su_sampled_ids :: "string list"
  su_actual_humans :: bool
  su_confirmation :: metric
  su_rejection :: metric
  su_rejection_audit_complete :: bool
  su_by_host :: "(string \<times> host_metrics) list"
  su_review_time_complete :: bool

definition REPETITIONS :: nat where
  "REPETITIONS = 1000"

definition metric_for :: "(pyval \<Rightarrow> string) \<Rightarrow> boot \<Rightarrow> int \<Rightarrow> calibration_row list \<Rightarrow> string \<Rightarrow> metric" where
  "metric_for srepr boot seed rows status =
     (let subset = filter (\<lambda>r. cr_stratum r ''status'' = PStr status) rows
      in \<lparr>me_rate = weighted_rate ''real'' subset,
          me_bootstrap = cluster_bootstrap_interval srepr boot seed ''real'' REPETITIONS subset,
          me_sampled = length subset, me_unresolved = length (filter (\<lambda>r. cr_label r = None) subset)\<rparr>)"

definition serious_rows :: "calibration_row list \<Rightarrow> value_error + calibration_row list" where
  "serious_rows rows =
     bind_res (map_res (\<lambda>r. bind_res (in_set [''high'', ''critical''] (cr_stratum r ''severity'')) (\<lambda>b. Inr (b, r))) rows)
       (\<lambda>marked. Inr (map snd (filter fst marked)))"

definition arm_metrics ::
  "(pyval \<Rightarrow> string) \<Rightarrow> boot \<Rightarrow> int \<Rightarrow> calibration_row list \<Rightarrow> string \<Rightarrow> value_error + string \<times> metric \<times> metric \<times> metric" where
  "arm_metrics srepr boot seed host_rows arm =
     (let subset = filter (\<lambda>r. py_str srepr (cr_stratum r ''arm'') = arm) host_rows
      in bind_res (serious_rows subset) (\<lambda>serious.
           Inr (arm, metric_for srepr boot seed subset ''confirmed'', metric_for srepr boot seed serious ''confirmed'',
                metric_for srepr boot seed subset ''rejected'')))"

definition metrics_of_host ::
  "(pyval \<Rightarrow> string) \<Rightarrow> boot \<Rightarrow> int \<Rightarrow> calibration_row list \<Rightarrow> string \<Rightarrow> value_error + string \<times> host_metrics" where
  "metrics_of_host srepr boot seed rows host =
     (let host_rows = filter (\<lambda>r. py_str srepr (cr_stratum r ''host'') = host) rows;
          arms = sort (remdups (map (\<lambda>r. py_str srepr (cr_stratum r ''arm'')) host_rows))
      in bind_res (map_res (arm_metrics srepr boot seed host_rows) arms) (\<lambda>ms.
         bind_res (paired_cluster_bootstrap_difference srepr boot seed ''current_skill'' ''previous_release'' ''real''
                     REPETITIONS (filter (\<lambda>r. cr_stratum r ''status'' = PStr ''confirmed'') host_rows)) (\<lambda>p.
           Inr (host, \<lparr>hm_arms = ms, hm_paired = p\<rparr>))))"

definition unblinding_ids :: "(pyval \<Rightarrow> string) \<Rightarrow> string \<Rightarrow> dict list \<Rightarrow> string list" where
  "unblinding_ids srepr k items = map (\<lambda>item. field_text srepr item k) items"

definition summary_rows ::
  "libs \<Rightarrow> dict list \<Rightarrow> dict \<Rightarrow> resolution list \<Rightarrow> dict list \<Rightarrow> value_error + calibration_row list" where
  "summary_rows l frame frozen resolved unblinding =
     (let expected = frozen_ids frozen; ps = probabilities frozen;
          mapped = unblinding_ids (lib_srepr l) ''candidate_id'' unblinding;
          reviews = unblinding_ids (lib_srepr l) ''review_id'' unblinding
      in bind_res (guard (list_all (\<lambda>r. map_of r ''candidate_id'' \<noteq> None) frame) KeyError) (\<lambda>_.
         bind_res (frame_digest l frame) (\<lambda>sha.
         bind_res (guard (getv frozen ''frame_sha256'' = PStr sha) ValueError) (\<lambda>_.
         bind_res (validate_frozen_selection l frame frozen) (\<lambda>_.
         bind_res (guard (set mapped = set expected \<and> length mapped = length (remdups expected) \<and> distinct reviews \<and>
                    set reviews = set (map re_id resolved)) ValueError) (\<lambda>_.
         bind_res (guard (set (map fst ps) = set expected) ValueError) (\<lambda>_.
           map_res (summary_row (lib_srepr l) frame ps resolved) unblinding)))))))"

definition summarize_calibration ::
  "libs \<Rightarrow> boot \<Rightarrow> dict list \<Rightarrow> dict \<Rightarrow> resolution list \<Rightarrow> dict list \<Rightarrow> value_error + summary" where
  "summarize_calibration l boot frame frozen resolved unblinding =
     bind_res (summary_rows l frame frozen resolved unblinding) (\<lambda>rows.
     let seed = (case getv frozen ''seed'' of PInt s \<Rightarrow> s | _ \<Rightarrow> 0); srepr = lib_srepr l;
         hosts = sort (remdups (map (\<lambda>r. py_str srepr (cr_stratum r ''host'')) rows))
     in bind_res (map_res (metrics_of_host srepr boot seed rows) hosts) (\<lambda>by_host.
          Inr \<lparr>su_frame_sha256 = getv frozen ''frame_sha256'',
               su_sampled_ids = sort (remdups (frozen_ids frozen)),
               su_actual_humans = (rows \<noteq> [] \<and> list_all (\<lambda>r. cr_reviewers r = 2) rows),
               su_confirmation = metric_for srepr boot seed rows ''confirmed'',
               su_rejection = metric_for srepr boot seed rows ''rejected'',
               su_rejection_audit_complete = (me_sampled (metric_for srepr boot seed rows ''rejected'') \<noteq> 0),
               su_by_host = by_host,
               su_review_time_complete = (rows \<noteq> [] \<and> list_all (\<lambda>r. 0 < cr_seconds r) rows)\<rparr>))"


subsection \<open>Who may decide a label\<close>

definition labelled :: "dict \<Rightarrow> string \<Rightarrow> string \<Rightarrow> string \<Rightarrow> string \<Rightarrow> bool" where
  "labelled row role i reviewer label \<longleftrightarrow>
     getv row ''role'' = PStr role \<and> getv row ''reviewer_id'' = PStr reviewer \<and> strip reviewer \<noteq> [] \<and>
     getv row ''label'' = PStr label \<and> label \<in> set VALID_LABELS \<and> nonblank (getv row ''reason'') \<and>
     positive_number (getv row ''seconds'') \<and> (role = ''primary'' \<longrightarrow> getv row ''review_id'' = PStr i)"

lemma nonblank_iff: "nonblank v \<longleftrightarrow> (\<exists>s. v = PStr s \<and> strip s \<noteq> [])"
  by (cases v) (auto simp: nonblank_def)

lemma read_label_Inr:
  assumes "read_label ids row = Inr (i, v)"
  shows "i \<in> set ids \<and> labelled row ''primary'' i (v_reviewer v) (v_label v)"
proof -
  have c: "in_set ids (getv row ''review_id'') = Inr True" "in_set VALID_LABELS (getv row ''label'') = Inr True"
      "nonblank (getv row ''reviewer_id'')" "getv row ''role'' = PStr ''primary''" "positive_number (getv row ''seconds'')"
      "nonblank (getv row ''reason'')" "i = string_of (getv row ''review_id'')" "v = vote_of row"
    using assms by (auto simp: read_label_def bind_res_Inr_iff split: if_splits)
  obtain s where "getv row ''reviewer_id'' = PStr s" "strip s \<noteq> []" using c(3) by (auto simp: nonblank_iff)
  with in_set_True [OF c(1)] in_set_True [OF c(2)] show ?thesis
    by (auto simp: labelled_def vote_of_def string_of_def c)
qed

definition wf_labels :: "string list \<Rightarrow> dict list \<Rightarrow> (string \<times> vote) list \<Rightarrow> bool" where
  "wf_labels ids rows ls \<longleftrightarrow>
     (\<forall>(i, v)\<in>set ls. i \<in> set ids \<and> (\<exists>row\<in>set rows. labelled row ''primary'' i (v_reviewer v) (v_label v))) \<and>
     (\<forall>i. length (votes_for ls i) \<le> 2 \<and> distinct (map v_reviewer (votes_for ls i)))"

lemma votes_for_snoc: "votes_for (ls @ [(j, v)]) i = votes_for ls i @ (if j = i then [v] else [])"
  by (simp add: votes_for_def)

lemma read_labels_wf:
  "read_labels ids seen rows = Inr ls \<Longrightarrow> wf_labels ids all seen \<Longrightarrow> set rows \<subseteq> set all \<Longrightarrow> wf_labels ids all ls"
proof (induction ids seen rows rule: read_labels.induct)
  case (2 ids seen row rows)
  obtain i v where iv: "read_label ids row = Inr (i, v)"
    and new: "length (votes_for seen i) < 2" "v_reviewer v \<notin> v_reviewer ` set (votes_for seen i)"
    and rest: "read_labels ids (seen @ [(i, v)]) rows = Inr ls"
    using "2.prems"(1) by (auto simp: bind_res_Inr_iff split: if_splits)
  note ok = read_label_Inr [OF iv]
  have row: "row \<in> set all" using "2.prems"(3) by simp
  have "wf_labels ids all (seen @ [(i, v)])"
    unfolding wf_labels_def
  proof (intro conjI)
    show "\<forall>(j, w)\<in>set (seen @ [(i, v)]). j \<in> set ids \<and> (\<exists>row\<in>set all. labelled row ''primary'' j (v_reviewer w) (v_label w))"
      using "2.prems"(2) ok row by (auto simp: wf_labels_def)
    show "\<forall>j. length (votes_for (seen @ [(i, v)]) j) \<le> 2 \<and> distinct (map v_reviewer (votes_for (seen @ [(i, v)]) j))"
    proof
      fix j
      have old: "length (votes_for seen j) \<le> 2" "distinct (map v_reviewer (votes_for seen j))"
        using "2.prems"(2) by (auto simp: wf_labels_def)
      with new show "length (votes_for (seen @ [(i, v)]) j) \<le> 2 \<and> distinct (map v_reviewer (votes_for (seen @ [(i, v)]) j))"
        by (auto simp: votes_for_snoc)
    qed
  qed
  from "2.IH" [OF rest this] "2.prems"(3) show ?case by simp
qed simp

definition wf_adjudicated :: "dict list \<Rightarrow> (string \<times> vote) list \<Rightarrow> (string \<times> vote) list \<Rightarrow> bool" where
  "wf_adjudicated rows ls as \<longleftrightarrow>
     (\<forall>(i, v)\<in>set as. disagreement (votes_for ls i) \<and> v_reviewer v \<notin> v_reviewer ` set (votes_for ls i) \<and>
        (\<exists>row\<in>set rows. labelled row ''adjudicator'' i (v_reviewer v) (v_label v)))"

lemma read_adjudication_Inr:
  assumes "read_adjudication srepr ids ls row = Inr (i, v)"
  shows "disagreement (votes_for ls i) \<and> v_reviewer v \<notin> v_reviewer ` set (votes_for ls i) \<and>
         labelled row ''adjudicator'' i (v_reviewer v) (v_label v)"
proof -
  have c: "in_set VALID_LABELS (getv row ''label'') = Inr True" "getv row ''role'' = PStr ''adjudicator''"
      "disagreement (votes_for ls i)" "nonblank (getv row ''reviewer_id'')" "positive_number (getv row ''seconds'')"
      "nonblank (getv row ''reason'')" "string_of (getv row ''reviewer_id'') \<notin> v_reviewer ` set (votes_for ls i)" "v = vote_of row"
    using assms by (auto simp: read_adjudication_def bind_res_Inr_iff Let_def split: if_splits)
  obtain s where "getv row ''reviewer_id'' = PStr s" "strip s \<noteq> []" using c(4) by (auto simp: nonblank_iff)
  with c(7) in_set_True [OF c(1)] show ?thesis
    by (auto simp: labelled_def vote_of_def string_of_def c(2,3,5,6,8))
qed

lemma read_adjudications_wf:
  "read_adjudications srepr ids ls seen rows = Inr as \<Longrightarrow> wf_adjudicated all ls seen \<Longrightarrow> set rows \<subseteq> set all \<Longrightarrow>
     wf_adjudicated all ls as"
proof (induction srepr ids ls seen rows rule: read_adjudications.induct)
  case (2 srepr ids ls seen row rows)
  obtain i v where iv: "read_adjudication srepr ids ls row = Inr (i, v)" and new: "map_of seen i = None"
    and rest: "read_adjudications srepr ids ls (seen @ [(i, v)]) rows = Inr as"
    using "2.prems"(1) by (auto simp: bind_res_Inr_iff split: if_splits)
  have row: "row \<in> set all" using "2.prems"(3) by simp
  have "wf_adjudicated all ls (seen @ [(i, v)])"
    using "2.prems"(2) read_adjudication_Inr [OF iv] row by (auto simp: wf_adjudicated_def)
  from "2.IH" [OF rest this] "2.prems"(3) show ?case by simp
qed simp

text \<open>The rows that decided a label: two primary reviewers who agree, or two who do not and a third as adjudicator.\<close>

definition agreed_by :: "dict list \<Rightarrow> string \<Rightarrow> string \<Rightarrow> bool" where
  "agreed_by labels i l \<longleftrightarrow>
     (\<exists>a\<in>set labels. \<exists>b\<in>set labels. \<exists>x y. labelled a ''primary'' i x l \<and> labelled b ''primary'' i y l \<and> x \<noteq> y) \<and>
     l \<noteq> UNVERIFIABLE"

definition adjudicated_by :: "dict list \<Rightarrow> dict list \<Rightarrow> string \<Rightarrow> string \<Rightarrow> bool" where
  "adjudicated_by labels adjudications i l \<longleftrightarrow>
     (\<exists>a\<in>set labels. \<exists>b\<in>set labels. \<exists>c\<in>set adjudications. \<exists>x y z la lb.
        labelled a ''primary'' i x la \<and> labelled b ''primary'' i y lb \<and> labelled c ''adjudicator'' i z l \<and>
        distinct [x, y, z] \<and> (la \<noteq> lb \<or> UNVERIFIABLE \<in> {la, lb}))"

lemma two_votes:
  assumes "wf_labels ids rows ls" "votes_for ls i = [a, b]"
  shows "v_reviewer a \<noteq> v_reviewer b \<and> (\<exists>row\<in>set rows. labelled row ''primary'' i (v_reviewer a) (v_label a)) \<and>
         (\<exists>row\<in>set rows. labelled row ''primary'' i (v_reviewer b) (v_label b))"
proof -
  have "(i, v) \<in> set ls" if "v \<in> set (votes_for ls i)" for v using that by (auto simp: votes_for_def)
  then have "(i, a) \<in> set ls" "(i, b) \<in> set ls" using assms(2) by simp_all
  moreover have "distinct (map v_reviewer (votes_for ls i))" using assms(1) by (simp add: wf_labels_def)
  ultimately show ?thesis using assms unfolding wf_labels_def by fastforce
qed

lemma resolve_sound:
  assumes ls: "wf_labels ids labels ls" and as: "wf_adjudicated adjudications ls as" and l: "re_label (resolve ls as i) = Some l"
  shows "re_status (resolve ls as i) = Agreed \<and> agreed_by labels i l \<or>
         re_status (resolve ls as i) = Adjudicated \<and> adjudicated_by labels adjudications i l"
proof (cases "map_of as i")
  case None
  then obtain a b where v: "votes_for ls i = [a, b]" "v_label a = v_label b" "v_label a = l" "l \<noteq> UNVERIFIABLE"
    and s: "re_status (resolve ls as i) = Agreed"
    using l by (auto simp: resolve_def settled_def Let_def split: list.splits if_splits)
  from two_votes [OF ls v(1)] v s show ?thesis unfolding agreed_by_def by metis
next
  case (Some f)
  then have "(i, f) \<in> set as" by (rule map_of_SomeD)
  then have d: "disagreement (votes_for ls i)" and new: "v_reviewer f \<notin> v_reviewer ` set (votes_for ls i)"
    and row: "\<exists>row\<in>set adjudications. labelled row ''adjudicator'' i (v_reviewer f) (v_label f)"
    using as by (auto simp: wf_adjudicated_def)
  from d obtain a b where v: "votes_for ls i = [a, b]"
    and dis: "v_label a \<noteq> v_label b \<or> UNVERIFIABLE \<in> {v_label a, v_label b}"
    by (auto simp: disagreement_def split: list.splits)
  have "l = v_label f" "re_status (resolve ls as i) = Adjudicated"
    using l Some by (auto simp: resolve_def settled_def Let_def)
  moreover have "distinct [v_reviewer a, v_reviewer b, v_reviewer f]" using two_votes [OF ls v] new v by auto
  ultimately show ?thesis
    using two_votes [OF ls v] row dis unfolding adjudicated_by_def by blast
qed

lemma resolve_labels_Inr:
  assumes "resolve_labels srepr packets labels adjudications = Inr rs"
  shows "\<exists>ids ls as. wf_labels ids labels ls \<and> wf_adjudicated adjudications ls as \<and>
           rs = map (\<lambda>p. resolve ls as (py_str srepr (getv p ''review_id''))) packets"
proof -
  let ?ids = "map (\<lambda>p. py_str srepr (getv p ''review_id'')) packets"
  obtain ls as where ls: "read_labels ?ids [] labels = Inr ls" and as: "read_adjudications srepr ?ids ls [] adjudications = Inr as"
    and rs: "map_res (\<lambda>p. bind_res (subscript (PDict p) ''review_id'') (\<lambda>v. Inr (resolve ls as (py_str srepr v)))) packets = Inr rs"
    using assms by (auto simp: resolve_labels_def Let_def bind_res_Inr_iff)
  have "map (\<lambda>r. r) rs = map (\<lambda>p. resolve ls as (py_str srepr (getv p ''review_id''))) packets"
    by (rule map_res_map [OF rs]) (auto simp: bind_res_Inr_iff subscript_def getv_def dict_get_def split: option.splits)
  moreover have "wf_labels ?ids labels ls"
    by (rule read_labels_wf [OF ls]) (simp_all add: wf_labels_def votes_for_def)
  moreover have "wf_adjudicated adjudications ls as"
    by (rule read_adjudications_wf [OF as]) (simp_all add: wf_adjudicated_def)
  ultimately show ?thesis by auto
qed

text \<open>
  C20: Every packet is resolved, in order.  A label is given only by two different primary reviewers who gave the same
  verifiable label with a reason and a time, or, where two different primary reviewers disagree or cannot verify, by an
  adjudicator who is neither of them.
\<close>

theorem labels_need_two_reviewers:
  assumes "resolve_labels srepr packets labels adjudications = Inr rs"
  shows "map re_id rs = map (\<lambda>p. py_str srepr (getv p ''review_id'')) packets \<and>
         (\<forall>r\<in>set rs. \<forall>l. re_label r = Some l \<longrightarrow>
            re_status r = Agreed \<and> agreed_by labels (re_id r) l \<or>
            re_status r = Adjudicated \<and> adjudicated_by labels adjudications (re_id r) l)"
proof -
  obtain ids ls as where wf: "wf_labels ids labels ls" "wf_adjudicated adjudications ls as"
    and rs: "rs = map (\<lambda>p. resolve ls as (py_str srepr (getv p ''review_id''))) packets"
    using resolve_labels_Inr [OF assms] by blast
  have id: "re_id (resolve ls as i) = i" for i by (simp add: resolve_def Let_def)
  from resolve_sound [OF wf] show ?thesis unfolding rs by (auto simp: id)
qed


subsection \<open>Bounds that hold however the open labels fall\<close>

definition usable :: "calibration_row list \<Rightarrow> bool" where
  "usable rows \<longleftrightarrow> rows \<noteq> [] \<and> list_all (\<lambda>r. 0 < cr_probability r) rows"

text \<open>The same rows with every open label decided.\<close>

definition completes :: "calibration_row list \<Rightarrow> calibration_row list \<Rightarrow> bool" where
  "completes = list_all2 (\<lambda>r s. cr_probability s = cr_probability r \<and> cr_label s \<noteq> None \<and>
     (cr_label r \<noteq> None \<longrightarrow> cr_label s = cr_label r))"

lemma weight_pos: "0 < cr_probability r \<Longrightarrow> 0 < weight r"
  by (simp add: weight_def)

lemma sum_weight_pos: "usable rows \<Longrightarrow> 0 < sum_list (map weight rows)"
proof -
  have nonneg: "list_all (\<lambda>r. 0 < cr_probability r) xs \<Longrightarrow> 0 \<le> sum_list (map weight xs)" for xs
    by (induction xs) (auto simp: weight_def)
  assume "usable rows"
  then show ?thesis
    by (cases rows) (auto simp: usable_def weight_pos add_pos_nonneg nonneg)
qed

lemma weighted_rate_usable:
  "usable rows \<Longrightarrow> weighted_rate l rows =
     (let lower = share (\<lambda>r. cr_label r = Some l) rows; upper = share (\<lambda>r. cr_label r = Some l \<or> cr_label r = None) rows
      in \<lparr>rt_estimate = (if lower = upper then Some lower else None), rt_lower = Some lower, rt_upper = Some upper\<rparr>)"
  by (auto simp: weighted_rate_def usable_def list_ex_iff list_all_iff not_le)

lemma share_le:
  assumes "usable rows" "\<And>r. r \<in> set rows \<Longrightarrow> P r \<Longrightarrow> Q r"
  shows "share P rows \<le> share Q rows"
proof -
  have "list_all (\<lambda>r. 0 < cr_probability r) xs \<Longrightarrow> (\<And>r. r \<in> set xs \<Longrightarrow> P r \<Longrightarrow> Q r) \<Longrightarrow>
      sum_list (map weight (filter P xs)) \<le> sum_list (map weight (filter Q xs))" for xs
  proof (induction xs)
    case (Cons x xs)
    have "0 \<le> weight x" using Cons.prems(1) by (simp add: weight_def)
    moreover have "sum_list (map weight (filter P xs)) \<le> sum_list (map weight (filter Q xs))"
      using Cons by auto
    ultimately show ?case using Cons.prems(2) [of x] by auto
  qed simp
  then show ?thesis
    using assms sum_weight_pos [OF assms(1)] by (simp add: share_def usable_def divide_right_mono)
qed

lemma share_bounds:
  assumes "usable rows"
  shows "0 \<le> share P rows \<and> share P rows \<le> 1"
proof
  have "share (\<lambda>_. False) rows \<le> share P rows" by (rule share_le [OF assms]) simp
  then show "0 \<le> share P rows" by (simp add: share_def)
  have "share P rows \<le> share (\<lambda>_. True) rows" by (rule share_le [OF assms]) simp
  then show "share P rows \<le> 1" using sum_weight_pos [OF assms] by (simp add: share_def)
qed

lemma completes_usable: "usable rows \<Longrightarrow> completes rows full \<Longrightarrow> usable full"
proof -
  assume u: "usable rows" and c: "completes rows full"
  have "list_all (\<lambda>r. 0 < cr_probability r) rows \<Longrightarrow> list_all (\<lambda>r. 0 < cr_probability r) full"
    using c unfolding completes_def by (induction rule: list_all2_induct) auto
  moreover have "full \<noteq> []" using u c by (auto simp: completes_def usable_def)
  ultimately show ?thesis using u by (simp add: usable_def)
qed

lemma completes_shares:
  assumes "completes rows full" "list_all (\<lambda>r. 0 < cr_probability r) rows"
  shows "sum_list (map weight full) = sum_list (map weight rows) \<and>
         sum_list (map weight (filter (\<lambda>r. cr_label r = Some l) rows)) \<le> sum_list (map weight (filter (\<lambda>r. cr_label r = Some l) full)) \<and>
         sum_list (map weight (filter (\<lambda>r. cr_label r = Some l) full))
           \<le> sum_list (map weight (filter (\<lambda>r. cr_label r = Some l \<or> cr_label r = None) rows))"
  using assms unfolding completes_def
proof (induction rule: list_all2_induct)
  case (Cons r rs s ss)
  have w: "weight s = weight r" "0 \<le> weight r" using Cons.hyps(1) Cons.prems by (auto simp: weight_def)
  from Cons.IH Cons.prems have ih: "sum_list (map weight ss) = sum_list (map weight rs)"
    "sum_list (map weight (filter (\<lambda>r. cr_label r = Some l) rs)) \<le> sum_list (map weight (filter (\<lambda>r. cr_label r = Some l) ss))"
    "sum_list (map weight (filter (\<lambda>r. cr_label r = Some l) ss))
           \<le> sum_list (map weight (filter (\<lambda>r. cr_label r = Some l \<or> cr_label r = None) rs))" by auto
  from Cons.hyps(1) consider (none) "cr_label r = None" | (some) "cr_label r \<noteq> None" "cr_label s = cr_label r" by auto
  then show ?case
  proof cases
    case none
    with w ih show ?thesis by (cases "cr_label s = Some l") (simp_all add: add_increasing)
  next
    case some
    with w ih show ?thesis by (cases "cr_label r = Some l") simp_all
  qed
qed simp

text \<open>
  C30: The weighted rate is bracketed soundly: over rows with positive inclusion probabilities the bounds lie in the
  unit interval, an estimate is given exactly when they meet, and however the rows without a label are decided, the
  rate of the decided rows is an estimate within the bounds.
\<close>

theorem weighted_rate_brackets:
  assumes "usable rows" "completes rows full"
  shows "\<exists>lo hi e. rt_lower (weighted_rate l rows) = Some lo \<and> rt_upper (weighted_rate l rows) = Some hi \<and>
           0 \<le> lo \<and> lo \<le> e \<and> e \<le> hi \<and> hi \<le> 1 \<and> rt_estimate (weighted_rate l full) = Some e \<and>
           (rt_estimate (weighted_rate l rows) = (if lo = hi then Some lo else None))"
proof -
  let ?lo = "share (\<lambda>r. cr_label r = Some l) rows" and ?hi = "share (\<lambda>r. cr_label r = Some l \<or> cr_label r = None) rows"
  let ?e = "share (\<lambda>r. cr_label r = Some l) full"
  note full = completes_usable [OF assms]
  have all: "list_all (\<lambda>r. 0 < cr_probability r) rows" using assms(1) by (simp add: usable_def)
  note sums = completes_shares [OF assms(2) all, of l]
  have le: "?lo \<le> ?e" "?e \<le> ?hi"
    using sums sum_weight_pos [OF assms(1)] unfolding share_def by (simp_all add: divide_right_mono)
  have "list_all (\<lambda>r. cr_label r \<noteq> None) full"
    using assms(2) unfolding completes_def by (induction rule: list_all2_induct) auto
  then have "filter (\<lambda>r. cr_label r = Some l \<or> cr_label r = None) full = filter (\<lambda>r. cr_label r = Some l) full"
    by (intro filter_cong) (auto simp: list_all_iff)
  then have "rt_estimate (weighted_rate l full) = Some ?e"
    by (simp add: weighted_rate_usable [OF full] share_def Let_def)
  moreover have "0 \<le> ?lo" "?hi \<le> 1" using share_bounds [OF assms(1)] by blast+
  moreover have "rt_lower (weighted_rate l rows) = Some ?lo" "rt_upper (weighted_rate l rows) = Some ?hi"
      "rt_estimate (weighted_rate l rows) = (if ?lo = ?hi then Some ?lo else None)"
    by (simp_all add: weighted_rate_usable [OF assms(1)] Let_def)
  ultimately show ?thesis using le by blast
qed

text \<open>
  A label settled as \<open>unverifiable\<close> is not open: rows that are all unverifiable have the exact rate 0 (so a
  miss rate of rejected candidates is reported as 0), while without any label the bounds are 0 and 1.
\<close>

theorem unverifiable_counts_as_false:
  assumes "usable rows"
  shows "((\<forall>r\<in>set rows. cr_label r = Some UNVERIFIABLE) \<longrightarrow>
            weighted_rate ''real'' rows = \<lparr>rt_estimate = Some 0, rt_lower = Some 0, rt_upper = Some 0\<rparr>) \<and>
         ((\<forall>r\<in>set rows. cr_label r = None) \<longrightarrow>
            weighted_rate ''real'' rows = \<lparr>rt_estimate = None, rt_lower = Some 0, rt_upper = Some 1\<rparr>)"
proof -
  have none: "share P rows = 0" if "\<forall>r\<in>set rows. \<not> P r" for P
  proof -
    have "filter P rows = []" using that by (simp add: filter_empty_conv)
    then show ?thesis by (simp add: share_def)
  qed
  have all: "share P rows = 1" if "\<forall>r\<in>set rows. P r" for P
    using that sum_weight_pos [OF assms] by (simp add: share_def filter_id_conv [THEN iffD2])
  show ?thesis by (simp add: weighted_rate_usable [OF assms] none all UNVERIFIABLE_def Let_def)
qed

subsection \<open>The weighted median\<close>

lemma reach_Some:
  assumes "reach half running xs = Some m" "sorted (map fst xs)" "list_all (\<lambda>(v, w). 0 < w) xs" "running < half"
  shows "m \<in> fst ` set xs \<and> running + sum_list (map snd (filter (\<lambda>(v, w). v < m) xs)) < half \<and>
         half \<le> running + sum_list (map snd (filter (\<lambda>(v, w). v \<le> m) xs))"
  using assms
proof (induction half running xs rule: reach.induct)
  case (2 half running v w xs)
  have above: "\<forall>(v', w')\<in>set xs. v \<le> v'" using "2.prems"(2) by auto
  show ?case
  proof (cases "half \<le> running + w")
    case True
    with "2.prems"(1) have m: "m = v" by simp
    have "filter (\<lambda>(v', w). v' < v) xs = []" using above by (auto simp: filter_empty_conv)
    moreover have "0 \<le> sum_list (map snd (filter (\<lambda>(v', w). v' \<le> v) xs))"
      using "2.prems"(3) by (intro sum_list_nonneg) (auto simp: list_all_iff less_imp_le)
    ultimately show ?thesis using True "2.prems"(4) by (simp add: m)
  next
    case False
    with "2.prems" have ih: "m \<in> fst ` set xs"
        "running + w + sum_list (map snd (filter (\<lambda>(v, w). v < m) xs)) < half"
        "half \<le> running + w + sum_list (map snd (filter (\<lambda>(v, w). v \<le> m) xs))"
      using "2.IH" by auto
    have "0 < w" using "2.prems"(3) by simp
    have "v \<le> m" using ih(1) above by auto
    with ih \<open>0 < w\<close> show ?thesis by (cases "v < m") auto
  qed
qed simp

lemma reach_total: "half \<le> running + sum_list (map snd xs) \<Longrightarrow> running < half \<Longrightarrow> \<exists>m. reach half running xs = Some m"
  by (induction half running xs rule: reach.induct) (auto simp: add.assoc not_le)

text \<open>
  The weighted median exists for nonempty lists of nonnegative values with positive weights; it is one of the
  values, the values below it carry less than half of the weight, and those up to it at least half.
\<close>

theorem weighted_median_exact:
  assumes "values \<noteq> []" "list_all (\<lambda>(v, w). 0 \<le> v \<and> 0 < w) values"
  shows "\<exists>m. weighted_median values = Some m \<and> m \<in> fst ` set values \<and>
           sum_list (map snd (filter (\<lambda>(v, w). v < m) values)) < sum_list (map snd values) / 2 \<and>
           sum_list (map snd values) / 2 \<le> sum_list (map snd (filter (\<lambda>(v, w). v \<le> m) values))"
proof -
  let ?half = "sum_list (map snd values) / 2" and ?xs = "sort values"
  have perm: "sum_list (map snd (filter P ?xs)) = sum_list (map snd (filter P values))" for P
  proof -
    have "mset (map snd (filter P ?xs)) = mset (map snd (filter P values))" by simp
    then show ?thesis by (metis sum_mset_sum_list)
  qed
  have tot: "sum_list (map snd ?xs) = sum_list (map snd values)" using perm [of "\<lambda>_. True"] by simp
  have pos: "list_all (\<lambda>(v, w). 0 < w) ?xs" using assms(2) by (auto simp: list_all_iff)
  have "0 < sum_list (map snd values)"
  proof -
    have nonneg: "list_all (\<lambda>(v, w). 0 \<le> v \<and> 0 < w) xs \<Longrightarrow> 0 \<le> sum_list (map snd xs)" for xs :: "(rat \<times> rat) list"
      by (induction xs) auto
    with assms show ?thesis by (cases "values") (auto simp: add_pos_nonneg)
  qed
  then have half: "0 < ?half" "?half \<le> 0 + sum_list (map snd ?xs)" by (simp_all add: tot)
  obtain m where m: "reach ?half 0 ?xs = Some m" using reach_total [OF half(2,1)] by blast
  have "sorted (map fst ?xs)"
    unfolding sorted_wrt_map by (rule sorted_wrt_mono_rel [OF _ sorted_sort]) (auto simp: less_eq_prod_def)
  from reach_Some [OF m this pos half(1)]
  have "m \<in> fst ` set values" "sum_list (map snd (filter (\<lambda>(v, w). v < m) values)) < ?half"
      "?half \<le> sum_list (map snd (filter (\<lambda>(v, w). v \<le> m) values))"
    by (simp_all add: perm)
  moreover have "weighted_median values = Some m"
    using assms m by (auto simp: weighted_median_def list_ex_iff list_all_iff)
  ultimately show ?thesis by blast
qed


subsection \<open>The bootstrap intervals\<close>

lemma index_bounds: "0 < n \<Longrightarrow> low_index n \<le> high_index n \<and> high_index n < n"
proof -
  assume "0 < n"
  have "\<lfloor>25 / 1000 * (of_nat n - 1 :: rat)\<rfloor> \<le> \<lfloor>975 / 1000 * (of_nat n - 1 :: rat)\<rfloor>"
    using \<open>0 < n\<close> by (intro floor_mono mult_right_mono) (simp_all add: Suc_leI)
  moreover have "\<lfloor>25 / 1000 * (of_nat n - 1 :: rat)\<rfloor> \<le> \<lfloor>of_nat n - 1 :: rat\<rfloor>"
    using \<open>0 < n\<close> by (intro floor_mono) (simp add: field_simps Suc_leI)
  moreover have "\<lfloor>of_nat n - 1 :: rat\<rfloor> = int n - 1" by simp
  ultimately show ?thesis using \<open>0 < n\<close> by (auto simp: low_index_def high_index_def)
qed

lemma rate_bounds_Some:
  assumes "rate_bounds (weighted_rate l rows) = Some (lo, hi)"
  shows "0 \<le> lo \<and> lo \<le> hi \<and> hi \<le> 1"
proof -
  have u: "usable rows"
    using assms by (auto simp: weighted_rate_def no_rate_def rate_bounds_def usable_def list_all_iff list_ex_iff not_le split: if_splits)
  have "lo = share (\<lambda>r. cr_label r = Some l) rows" "hi = share (\<lambda>r. cr_label r = Some l \<or> cr_label r = None) rows"
    using assms by (simp_all add: weighted_rate_usable [OF u] Let_def rate_bounds_def)
  with share_bounds [OF u] share_le [OF u, of "\<lambda>r. cr_label r = Some l" "\<lambda>r. cr_label r = Some l \<or> cr_label r = None"]
  show ?thesis by auto
qed

definition interval_within :: "rat \<Rightarrow> rat \<Rightarrow> interval \<Rightarrow> bool" where
  "interval_within a b iv \<longleftrightarrow>
     (\<exists>l h sl sh. iv_low iv = Some l \<and> iv_high iv = Some h \<and> iv_sensitivity_low iv = Some sl \<and>
        iv_sensitivity_high iv = Some sh \<and> a \<le> l \<and> l \<le> h \<and> h \<le> b \<and> a \<le> sl \<and> sl \<le> sh \<and> sh \<le> b)"

lemma sorted_percentiles:
  assumes "xs \<noteq> []" "\<forall>x\<in>set xs. a \<le> x \<and> x \<le> (b :: rat)"
  shows "a \<le> sort xs ! low_index (length xs) \<and> sort xs ! low_index (length xs) \<le> sort xs ! high_index (length xs)
         \<and> sort xs ! high_index (length xs) \<le> b"
proof -
  have i: "low_index (length xs) \<le> high_index (length xs)" "high_index (length xs) < length xs"
    using index_bounds [of "length xs"] assms(1) by auto
  then have "sort xs ! low_index (length xs) \<le> sort xs ! high_index (length xs)"
    by (intro sorted_nth_mono) simp_all
  moreover have "sort xs ! low_index (length xs) \<in> set xs" "sort xs ! high_index (length xs) \<in> set xs"
    using i by (metis le_less_trans length_sort nth_mem set_sort)+
  ultimately show ?thesis using assms(2) by auto
qed

lemma percentiles_within:
  assumes "bs \<noteq> []" "\<forall>(lo, hi)\<in>set bs. a \<le> lo \<and> lo \<le> b \<and> a \<le> hi \<and> hi \<le> b"
  shows "interval_within a b (percentiles n bs)"
proof -
  have "\<forall>x\<in>set (map fst bs). a \<le> x \<and> x \<le> b" "\<forall>x\<in>set (map snd bs). a \<le> x \<and> x \<le> b" using assms(2) by auto
  from sorted_percentiles [OF _ this(1)] sorted_percentiles [OF _ this(2)] assms(1) show ?thesis
    by (simp add: interval_within_def percentiles_def Let_def)
qed

definition in_range :: "rat \<Rightarrow> rat \<Rightarrow> interval \<Rightarrow> bool" where
  "in_range a b iv \<longleftrightarrow> iv \<in> range no_interval \<or> interval_within a b iv"

lemma in_range_none [simp]: "in_range a b (no_interval n)"
  by (simp add: in_range_def)

lemma in_range_percentiles:
  assumes "\<And>i lo hi. f i = Some (lo, hi) \<Longrightarrow> a \<le> lo \<and> lo \<le> b \<and> a \<le> hi \<and> hi \<le> b"
  shows "in_range a b (percentiles n (List.map_filter f xs))"
proof (cases "List.map_filter f xs = []")
  case True
  then show ?thesis by (simp add: percentiles_def)
next
  case False
  have "\<forall>(lo, hi)\<in>set (List.map_filter f xs). a \<le> lo \<and> lo \<le> b \<and> a \<le> hi \<and> hi \<le> b"
    using assms by (auto simp: set_map_filter)
  from percentiles_within [OF False this] show ?thesis by (simp add: in_range_def)
qed

lemma in_range_if: "in_range a b x \<Longrightarrow> in_range a b y \<Longrightarrow> in_range a b (if c then x else y)"
  by simp

lemma difference_bounds_Some:
  "difference_bounds (weighted_rate l rows) (weighted_rate l' rows') = Some (lo, hi) \<Longrightarrow>
     - 1 \<le> lo \<and> lo \<le> 1 \<and> - 1 \<le> hi \<and> hi \<le> 1"
  by (auto simp: difference_bounds_def split: option.splits dest!: rate_bounds_Some)

text \<open>
  A bootstrap interval is either withheld (too few clusters, no repetition, nothing eligible) or ordered and within
  the range of what it estimates: rates in the unit interval, differences of rates between -1 and 1.
\<close>

theorem bootstrap_intervals_in_range:
  "in_range 0 1 (cluster_bootstrap_interval srepr boot seed l reps rows) \<and>
   (\<forall>iv. paired_cluster_bootstrap_difference srepr boot seed cur ref l reps rows = Inr iv \<longrightarrow> in_range (- 1) 1 iv)"
proof
  show "in_range 0 1 (cluster_bootstrap_interval srepr boot seed l reps rows)"
    unfolding cluster_bootstrap_interval_def Let_def
    by (intro in_range_if in_range_none in_range_percentiles) (auto dest: rate_bounds_Some)
  have "in_range (- 1) 1 (paired_interval srepr boot seed cur ref l reps rs)" for rs
    unfolding paired_interval_def Let_def
    by (intro in_range_if in_range_none in_range_percentiles) (erule difference_bounds_Some)
  then show "\<forall>iv. paired_cluster_bootstrap_difference srepr boot seed cur ref l reps rows = Inr iv \<longrightarrow> in_range (- 1) 1 iv"
    by (auto simp: paired_cluster_bootstrap_difference_def bind_res_Inr_iff)
qed


subsection \<open>The summary covers the frame\<close>

lemma summary_row_Inr:
  assumes "summary_row srepr frame ps resolved item = Inr row"
  shows "\<exists>p. map_of (rev ps) (field_text srepr item ''candidate_id'') = Some p \<and> cr_probability row = number_of p \<and>
           (\<exists>r. resolution_of resolved (field_text srepr item ''review_id'') = Some r \<and> cr_label row = re_label r \<and>
                cr_reviewers row = re_reviewers r)"
proof -
  obtain c rv where keys: "subscript (PDict item) ''candidate_id'' = Inr c" "subscript (PDict item) ''review_id'' = Inr rv"
    using assms by (auto simp: summary_row_def bind_res_Inr_iff)
  then have texts: "field_text srepr item ''candidate_id'' = py_str srepr c" "field_text srepr item ''review_id'' = py_str srepr rv"
    by (auto simp: subscript_def field_text_def dict_get_def split: option.splits)
  show ?thesis
    using assms unfolding summary_row_def keys texts by (auto split: option.splits if_splits)
qed

lemma number_of_pnorm: "pnorm p = PFloat (Fin q) \<Longrightarrow> number_of p = q"
  by (simp add: number_of_def)

lemma summary_rows_weights:
  assumes "samples (lib_draw l)" "wf_json (PDict frozen)" "summary_rows l frame frozen resolved unblinding = Inr rows"
  shows "\<exists>ss seed m. strata_samples (lib_srepr l) (lib_draw l) frame seed m = Inr ss \<and>
           length rows = length (sampled_ids ss) \<and>
           mset (map cr_probability rows) = mset (concat (map (\<lambda>s. map (\<lambda>_. inclusion s) (ss_ids s)) ss))"
proof -
  let ?ps = "probabilities frozen" and ?mapped = "unblinding_ids (lib_srepr l) ''candidate_id'' unblinding"
  have v: "validate_frozen_selection l frame frozen = Inr ()"
    and set_eq: "set ?mapped = set (frozen_ids frozen)" and len: "length ?mapped = length (remdups (frozen_ids frozen))"
    and rows: "map_res (summary_row (lib_srepr l) frame ?ps resolved) unblinding = Inr rows"
    using assms(3) by (auto simp: summary_rows_def Let_def bind_res_Inr_iff split: if_splits)
  obtain ss seed m where ss: "strata_samples (lib_srepr l) (lib_draw l) frame seed m = Inr ss"
    and ids: "frozen_ids frozen = sampled_ids ss"
    and strata: "pnorm (getv frozen ''strata'') = PList (map (pnorm \<circ> stratum_value) ss)"
    using frozen_fields [OF v assms(2)] by blast
  have once: "distinct (sampled_ids ss)" using sampled_once [OF assms(1) ss] by blast
  have "distinct ?mapped"
    using set_eq len once by (metis card_distinct distinct_card distinct_remdups ids set_remdups)
  then have perm: "mset ?mapped = mset (sampled_ids ss)"
    using set_eq once by (simp add: ids set_eq_iff_mset_eq_distinct)
  let ?pr = "\<lambda>i. number_of (the (map_of (rev ?ps) i))"
  have "map cr_probability rows = map (\<lambda>item. ?pr (field_text (lib_srepr l) item ''candidate_id'')) unblinding"
    by (rule map_res_map [OF rows]) (auto dest!: summary_row_Inr)
  then have probs: "map cr_probability rows = map ?pr ?mapped" by (simp add: unblinding_ids_def)
  have "mset (map ?pr ?mapped) = image_mset ?pr (mset (sampled_ids ss))" unfolding mset_map perm ..
  also have "\<dots> = mset (map ?pr (concat (map ss_ids ss)))" by (simp add: sampled_ids_def)
  also have "map ?pr (concat (map ss_ids ss)) = concat (map (\<lambda>s. map (\<lambda>_. inclusion s) (ss_ids s)) ss)"
  proof -
    have "map ?pr (ss_ids s) = map (\<lambda>_. inclusion s) (ss_ids s)" if s: "s \<in> set ss" for s
    proof (rule map_cong [OF refl])
      fix i assume "i \<in> set (ss_ids s)"
      from frozen_probabilities [OF strata assms(2) once s this] show "?pr i = inclusion s"
        by (auto simp: number_of_pnorm)
    qed
    then have "map (map ?pr) (map ss_ids ss) = map (\<lambda>s. map (\<lambda>_. inclusion s) (ss_ids s)) ss" by simp
    then show ?thesis by (simp only: map_concat)
  qed
  finally have "mset (map cr_probability rows) = mset (concat (map (\<lambda>s. map (\<lambda>_. inclusion s) (ss_ids s)) ss))"
    by (simp only: probs)
  moreover have "length rows = length (sampled_ids ss)"
  proof -
    have "length rows = length ?mapped" using probs by (metis length_map)
    also have "\<dots> = length (sampled_ids ss)" using perm by (metis size_mset)
    finally show ?thesis .
  qed
  ultimately show ?thesis using ss by blast
qed

lemma sum_weights_concat:
  "sum_list (map (\<lambda>p. 1 / p) (concat (map (\<lambda>s. map (\<lambda>_. inclusion s) (ss_ids s)) ss))) =
     (\<Sum>s\<leftarrow>ss. \<Sum>i\<leftarrow>ss_ids s. 1 / inclusion s)"
  by (induction ss) (simp_all add: o_def)

text \<open>
  C21: A calibration summary speaks for the whole frame: its rows are the sampled candidates, each once, every
  inclusion probability positive, and their weights add up to the number of candidates in the frozen frame.
\<close>

theorem summary_weighs_frame:
  assumes "samples (lib_draw l)" "wf_json (PDict frozen)" "summarize_calibration l boot frame frozen resolved unblinding = Inr su"
  shows "\<exists>rows. summary_rows l frame frozen resolved unblinding = Inr rows \<and>
           sum_list (map weight rows) = of_nat (length frame) \<and> list_all (\<lambda>r. 0 < cr_probability r) rows \<and>
           (su_actual_humans su \<longleftrightarrow> usable rows \<and> list_all (\<lambda>r. cr_reviewers r = 2) rows)"
proof -
  obtain rows where rows: "summary_rows l frame frozen resolved unblinding = Inr rows"
    and humans: "su_actual_humans su \<longleftrightarrow> rows \<noteq> [] \<and> list_all (\<lambda>r. cr_reviewers r = 2) rows"
    using assms(3) by (auto simp: summarize_calibration_def bind_res_Inr_iff Let_def)
  obtain ss seed m where ss: "strata_samples (lib_srepr l) (lib_draw l) frame seed m = Inr ss"
    and probs: "mset (map cr_probability rows) = mset (concat (map (\<lambda>s. map (\<lambda>_. inclusion s) (ss_ids s)) ss))"
    using summary_rows_weights [OF assms(1,2) rows] by blast
  have "sum_list (map weight rows) = sum_list (map (\<lambda>p. 1 / p) (map cr_probability rows))"
    by (simp add: weight_def o_def cong: map_cong)
  also have "\<dots> = sum_list (map (\<lambda>p. 1 / p) (concat (map (\<lambda>s. map (\<lambda>_. inclusion s) (ss_ids s)) ss)))"
  proof -
    have "mset (map (\<lambda>p. 1 / p) (map cr_probability rows)) =
        mset (map (\<lambda>p. 1 / p) (concat (map (\<lambda>s. map (\<lambda>_. inclusion s) (ss_ids s)) ss)))"
      unfolding mset_map [of "\<lambda>p. 1 / p"] probs ..
    then show ?thesis by (metis sum_mset_sum_list)
  qed
  also have "\<dots> = of_nat (length frame)" unfolding sum_weights_concat by (rule frame_weight [OF assms(1) ss])
  finally have "sum_list (map weight rows) = of_nat (length frame)" .
  moreover have pos: "list_all (\<lambda>r. 0 < cr_probability r) rows"
  proof -
    have "0 < p" if p_in: "p \<in> set (concat (map (\<lambda>s. map (\<lambda>_. inclusion s) (ss_ids s)) ss))" for p
    proof -
      obtain s where s: "s \<in> set ss" "p = inclusion s" "ss_ids s \<noteq> []" using p_in by force
      obtain L where "length (ss_ids s) \<le> min (Suc L) (ss_population s)" using sampled_once [OF assms(1) ss] s(1) by blast
      with s show ?thesis by (cases "ss_ids s") (auto simp: inclusion_def)
    qed
    then have "\<forall>p\<in>set (map cr_probability rows). 0 < p" using probs mset_eq_setD by blast
    then show ?thesis by (simp add: list_all_iff)
  qed
  ultimately show ?thesis using rows humans by (auto simp: usable_def)
qed


subsection \<open>Examples\<close>

definition demo_label :: "string \<Rightarrow> string \<Rightarrow> string \<Rightarrow> string \<Rightarrow> dict" where
  "demo_label i role reviewer label =
     [(''review_id'', PStr i), (''role'', PStr role), (''reviewer_id'', PStr reviewer), (''label'', PStr label),
      (''seconds'', PInt 90), (''reason'', PStr ''read it'')]"

definition demo_packets :: "dict list" where
  "demo_packets = [[(''review_id'', PStr ''review-0001'')], [(''review_id'', PStr ''review-0002'')]]"

definition demo_labels :: "dict list" where
  "demo_labels =
     [demo_label ''review-0001'' ''primary'' ''ann'' ''real'', demo_label ''review-0001'' ''primary'' ''bob'' ''real'',
      demo_label ''review-0002'' ''primary'' ''ann'' ''real'', demo_label ''review-0002'' ''primary'' ''bob'' ''false'']"

definition demo_adjudications :: "dict list" where
  "demo_adjudications = [demo_label ''review-0002'' ''adjudicator'' ''eve'' ''false'']"

definition demo_resolved :: "resolution list" where
  "demo_resolved =
     [\<lparr>re_id = ''review-0001'', re_label = Some ''real'', re_status = Agreed, re_reviewers = 2, re_seconds = 180,
       re_disagreement = False\<rparr>,
      \<lparr>re_id = ''review-0002'', re_label = Some ''false'', re_status = Adjudicated, re_reviewers = 2, re_seconds = 270,
       re_disagreement = True\<rparr>]"

lemma demo_resolve: "resolve_labels (\<lambda>_. []) demo_packets demo_labels demo_adjudications = Inr demo_resolved"
  by code_simp

theorem labels_need_two_reviewers_witness:
  "agreed_by demo_labels ''review-0001'' ''real'' \<and> adjudicated_by demo_labels demo_adjudications ''review-0002'' ''false''"
  using labels_need_two_reviewers [OF demo_resolve] by (simp add: demo_resolved_def)

definition demo_rows :: "string option list \<Rightarrow> calibration_row list" where
  "demo_rows labels = map (\<lambda>l. \<lparr>cr_stratum = (\<lambda>_. PStr ''x''), cr_case = PStr ''c'', cr_repository = PStr ''r'',
     cr_label = l, cr_probability = 1 / 2, cr_reviewers = 2, cr_seconds = 60\<rparr>) labels"

theorem weighted_rate_brackets_witness:
  "rt_estimate (weighted_rate ''real'' (demo_rows [Some ''real'', Some ''false'', None])) = None \<and>
   rt_estimate (weighted_rate ''real'' (demo_rows [Some ''real'', Some ''false'', Some ''false''])) = Some (1 / 3)"
proof -
  let ?rows = "demo_rows [Some ''real'', Some ''false'', None]"
  let ?full = "demo_rows [Some ''real'', Some ''false'', Some ''false'']"
  have "usable ?rows" "completes ?rows ?full" by (simp_all add: usable_def completes_def demo_rows_def)
  from weighted_rate_brackets [OF this, of "''real''"] obtain e where
    "rt_estimate (weighted_rate ''real'' ?full) = Some e" by blast
  moreover have "rt_estimate (weighted_rate ''real'' ?rows) = None" "rt_estimate (weighted_rate ''real'' ?full) = Some (1 / 3)"
    by (simp_all add: weighted_rate_def demo_rows_def share_def weight_def Let_def)
  ultimately show ?thesis by simp
qed

theorem unverifiable_counts_as_false_witness:
  "rt_upper (weighted_rate ''real'' (demo_rows [Some UNVERIFIABLE])) = Some 0 \<and>
   rt_upper (weighted_rate ''real'' (demo_rows [None])) = Some 1"
proof -
  have u: "usable (demo_rows [x])" for x by (simp add: usable_def demo_rows_def)
  have "(\<forall>r\<in>set (demo_rows [Some UNVERIFIABLE]). cr_label r = Some UNVERIFIABLE)" "(\<forall>r\<in>set (demo_rows [None]). cr_label r = None)"
    by (simp_all add: demo_rows_def)
  with unverifiable_counts_as_false [OF u, of "Some UNVERIFIABLE"] unverifiable_counts_as_false [OF u, of None]
  show ?thesis by simp
qed

theorem weighted_median_exact_witness:
  "weighted_median [(9, 1), (2, 1), (5, 1)] = Some 5"
proof -
  have "list_all (\<lambda>(v, w). 0 \<le> v \<and> 0 < w) [(9, 1), (2, 1), (5 :: rat, 1 :: rat)]" by simp
  from weighted_median_exact [OF _ this] obtain m where "weighted_median [(9, 1), (2, 1), (5 :: rat, 1 :: rat)] = Some m" by blast
  moreover have "weighted_median [(9, 1), (2, 1), (5, 1)] = Some 5" by code_simp
  ultimately show ?thesis by simp
qed

theorem bootstrap_intervals_in_range_witness:
  "in_range (- 1) 1 (projr (paired_cluster_bootstrap_difference (\<lambda>_. []) (\<lambda>_ _ _ cs. cs) 7 ''a'' ''b'' ''real'' 10 []))"
proof -
  have "paired_cluster_bootstrap_difference (\<lambda>_. []) (\<lambda>_ _ _ cs. cs) 7 ''a'' ''b'' ''real'' 10 [] =
      Inr (paired_interval (\<lambda>_. []) (\<lambda>_ _ _ cs. cs) 7 ''a'' ''b'' ''real'' 10 [])"
    by (simp add: paired_cluster_bootstrap_difference_def paired_rows_def)
  with bootstrap_intervals_in_range show ?thesis by fastforce
qed


definition hashable_row :: "calibration_row \<Rightarrow> bool" where
  "hashable_row r \<longleftrightarrow> hashable (cr_stratum r ''severity'') \<and> hashable (cr_stratum r ''arm'')"

lemma serious_rows_total: "\<forall>r\<in>set rows. hashable_row r \<Longrightarrow> \<exists>x. serious_rows rows = Inr x"
  using map_res_total [of rows "\<lambda>r. bind_res (in_set [''high'', ''critical''] (cr_stratum r ''severity'')) (\<lambda>b. Inr (b, r))"]
  by (auto simp: serious_rows_def in_set_def hashable_row_def)

lemma paired_total:
  "\<forall>r\<in>set rows. hashable_row r \<Longrightarrow> \<exists>x. paired_cluster_bootstrap_difference srepr boot seed c p l n rows = Inr x"
  using map_res_total [of rows "\<lambda>r. in_set [c, p] (cr_stratum r ''arm'')"]
  by (auto simp: paired_cluster_bootstrap_difference_def paired_rows_def in_set_def hashable_row_def)

lemma metrics_total:
  assumes "\<forall>r\<in>set rows. hashable_row r"
  shows "\<exists>x. metrics_of_host srepr boot seed rows host = Inr x"
proof -
  let ?hr = "filter (\<lambda>r. py_str srepr (cr_stratum r ''host'') = host) rows"
  have "\<exists>y. arm_metrics srepr boot seed ?hr a = Inr y" for a
    using serious_rows_total [of "filter (\<lambda>r. py_str srepr (cr_stratum r ''arm'') = a) ?hr"] assms
    by (auto simp: arm_metrics_def Let_def)
  then have "\<exists>ms. map_res (arm_metrics srepr boot seed ?hr)
      (sort (remdups (map (\<lambda>r. py_str srepr (cr_stratum r ''arm'')) ?hr))) = Inr ms"
    by (intro map_res_total)
  then obtain ms where ms: "map_res (arm_metrics srepr boot seed ?hr)
      (sort (remdups (map (\<lambda>r. py_str srepr (cr_stratum r ''arm'')) ?hr))) = Inr ms" by (elim exE)
  have "\<forall>r\<in>set (filter (\<lambda>r. cr_stratum r ''status'' = PStr ''confirmed'') ?hr). hashable_row r" using assms by simp
  then obtain p where "paired_cluster_bootstrap_difference srepr boot seed ''current_skill'' ''previous_release'' ''real''
      REPETITIONS (filter (\<lambda>r. cr_stratum r ''status'' = PStr ''confirmed'') ?hr) = Inr p"
    using paired_total by blast
  with ms show ?thesis by (simp add: metrics_of_host_def Let_def)
qed

lemma summarize_total:
  assumes "summary_rows l frame frozen resolved unblinding = Inr rows" "\<forall>r\<in>set rows. hashable_row r"
  shows "\<exists>su. summarize_calibration l boot frame frozen resolved unblinding = Inr su"
proof -
  let ?seed = "case getv frozen ''seed'' of PInt s \<Rightarrow> s | _ \<Rightarrow> 0"
  have "\<exists>x. map_res (metrics_of_host (lib_srepr l) boot ?seed rows)
      (sort (remdups (map (\<lambda>r. py_str (lib_srepr l) (cr_stratum r ''host'')) rows))) = Inr x"
    by (rule map_res_total) (rule metrics_total [OF assms(2)])
  then obtain x where "map_res (metrics_of_host (lib_srepr l) boot ?seed rows)
      (sort (remdups (map (\<lambda>r. py_str (lib_srepr l) (cr_stratum r ''host'')) rows))) = Inr x" by (elim exE)
  then show ?thesis by (simp add: summarize_calibration_def assms(1) Let_def)
qed

definition demo_unblinding :: "dict list" where
  "demo_unblinding =
     [[(''review_id'', PStr ''review-0001''), (''candidate_id'', PStr ''c1''), (''inclusion_probability'', PFloat (Fin (1 / 2)))],
      [(''review_id'', PStr ''review-0002''), (''candidate_id'', PStr ''c3''), (''inclusion_probability'', PFloat (Fin 1))]]"

definition demo_joined :: "calibration_row list" where
  "demo_joined =
     [\<lparr>cr_stratum = getv (demo_row ''c1'' ''confirmed''), cr_case = PNone, cr_repository = PNone, cr_label = Some ''real'',
       cr_probability = 1 / 2, cr_reviewers = 2, cr_seconds = 180\<rparr>,
      \<lparr>cr_stratum = getv (demo_row ''c3'' ''rejected''), cr_case = PNone, cr_repository = PNone, cr_label = Some ''false'',
       cr_probability = 1, cr_reviewers = 2, cr_seconds = 270\<rparr>]"

lemma demo_summary_rows:
  "summary_rows demo_libs demo_frame demo_frozen demo_resolved demo_unblinding = Inr demo_joined"
proof -
  have "list_all (\<lambda>r. map_of r ''candidate_id'' \<noteq> None) demo_frame" by code_simp
  moreover have "getv demo_frozen ''frame_sha256'' = PStr ''0''" by (simp add: demo_frozen_def getv_def dict_get_def)
  moreover have "set (unblinding_ids (lib_srepr demo_libs) ''candidate_id'' demo_unblinding) = set (frozen_ids demo_frozen) \<and>
      length (unblinding_ids (lib_srepr demo_libs) ''candidate_id'' demo_unblinding) = length (remdups (frozen_ids demo_frozen)) \<and>
      distinct (unblinding_ids (lib_srepr demo_libs) ''review_id'' demo_unblinding) \<and>
      set (unblinding_ids (lib_srepr demo_libs) ''review_id'' demo_unblinding) = set (map re_id demo_resolved)"
    by code_simp
  moreover have "set (map fst (probabilities demo_frozen)) = set (frozen_ids demo_frozen)" by code_simp
  moreover have "map_res (summary_row (lib_srepr demo_libs) demo_frame (probabilities demo_frozen) demo_resolved) demo_unblinding
      = Inr demo_joined"
  proof -
    let ?row = "summary_row (lib_srepr demo_libs) demo_frame (probabilities demo_frozen) demo_resolved"
    have by_id: "by_id (lib_srepr demo_libs) demo_frame ''c1'' = Some (demo_row ''c1'' ''confirmed'')"
      "by_id (lib_srepr demo_libs) demo_frame ''c3'' = Some (demo_row ''c3'' ''rejected'')" by code_simp+
    have ps: "map_of (rev (probabilities demo_frozen)) ''c1'' = Some (PFloat (Fin (1 / 2)))"
      "map_of (rev (probabilities demo_frozen)) ''c3'' = Some (PFloat (Fin 1))" by code_simp+
    have rs: "resolution_of demo_resolved ''review-0001'' = Some (hd demo_resolved)"
      "resolution_of demo_resolved ''review-0002'' = Some (last demo_resolved)" by code_simp+
    have eqs: "py_eq (PFloat (Fin (1 / 2))) (PFloat (Fin (1 / 2)))" "py_eq (PFloat (Fin 1)) (PFloat (Fin 1))"
      by (simp_all add: py_eq_def)
    have "?row (demo_unblinding ! 0) = Inr (demo_joined ! 0)" "?row (demo_unblinding ! 1) = Inr (demo_joined ! 1)"
      by (simp_all add: summary_row_def demo_unblinding_def subscript_def by_id ps rs getv_def [of "[_, _, _]"] dict_get_def eqs)
        (simp_all add: demo_joined_def demo_resolved_def number_of_def demo_row_def getv_def dict_get_def)
    then show ?thesis by (simp add: demo_unblinding_def demo_joined_def)
  qed
  ultimately show ?thesis
    by (simp add: summary_rows_def Let_def demo_digest [OF demo_finite(1)] demo_valid del: set_map)
qed

theorem summary_weighs_frame_witness:
  "sum_list (map weight demo_joined) = of_nat (length demo_frame) \<and> sum_list (map weight demo_joined) = 3"
proof -
  have "\<forall>r\<in>set demo_joined. hashable_row r"
    by (simp add: demo_joined_def hashable_row_def demo_row_def getv_def dict_get_def)
  from summarize_total [OF demo_summary_rows this] obtain su where
    su: "summarize_calibration demo_libs (\<lambda>_ _ _ cs. cs) demo_frame demo_frozen demo_resolved demo_unblinding = Inr su" by blast
  have wf: "wf_json (PDict demo_frozen)" by code_simp
  have "length demo_frame = 3" by (simp add: demo_frame_def)
  with summary_weighs_frame [OF demo_samples wf su] show ?thesis
    by (auto simp: demo_summary_rows)
qed

end
