(* ===== verification/Exec_Inputs.thy ===== *)
theory Exec_Inputs
  imports Py_Json Py_Text
begin

text \<open>
  The inputs of an execution in \<^verbatim>\<open>scripts/_execution.py\<close>: the argument vector, the environment, the
  declared outputs and the source identity, each validated and normalised before anything runs.  The digest
  of a text and the text of a float are the fields of the parameter \<open>hashing\<close>.
\<close>

record hashing =
  hs_sha :: "string \<Rightarrow> string"
  hs_frepr :: "pyfloat \<Rightarrow> string"

definition canonical_json :: "hashing \<Rightarrow> pyval \<Rightarrow> value_error + string" where
  "canonical_json hs v = (if nonfinite v then Inl ValueError else Inr (json_dumps False (hs_frepr hs) v))"

definition json_digest :: "hashing \<Rightarrow> pyval \<Rightarrow> value_error + string" where
  "json_digest hs v = bind_res (canonical_json hs v) (\<lambda>s. Inr (hs_sha hs s))"

definition sha256_text :: "string \<Rightarrow> bool" where
  "sha256_text s \<longleftrightarrow> length s = 64 \<and> list_all (\<lambda>c. c \<in> set ''0123456789abcdef'') s"

definition sha256_value :: "pyval \<Rightarrow> bool" where
  "sha256_value v = (case v of PStr s \<Rightarrow> sha256_text s | _ \<Rightarrow> False)"

subsection \<open>Commands\<close>

definition MAX_ARGV :: nat where "MAX_ARGV = 256"
definition MAX_ARG_BYTES :: nat where "MAX_ARG_BYTES = 16384"
definition MAX_ENV :: nat where "MAX_ENV = 64"
definition MAX_OUTPUTS :: nat where "MAX_OUTPUTS = 32"
definition MAX_OUTPUT_BYTES :: int where "MAX_OUTPUT_BYTES = 16777216"
definition MAX_SOURCE_FILES :: nat where "MAX_SOURCE_FILES = 100000"
definition MAX_PATH_BYTES :: nat where "MAX_PATH_BYTES = 4096"

definition argument :: "pyval \<Rightarrow> value_error + string" where
  "argument v = (case v of
       PStr s \<Rightarrow> if s \<noteq> [] \<and> CHR 0x00 \<notin> set s \<and> utf8_length s \<le> MAX_ARG_BYTES then Inr s else Inl ValueError
     | _ \<Rightarrow> Inl ValueError)"

definition validate_command :: "pyval \<Rightarrow> value_error + string list" where
  "validate_command v = (case v of
       PList xs \<Rightarrow> if xs = [] \<or> MAX_ARGV < length xs then Inl ValueError else map_res argument xs
     | _ \<Rightarrow> Inl ValueError)"

subsection \<open>Environments\<close>

type_synonym env = "(string \<times> string) list"

definition env_start :: "char \<Rightarrow> bool" where
  "env_start c \<longleftrightarrow> (let n = of_char c :: nat in 65 \<le> n \<and> n \<le> 90 \<or> 97 \<le> n \<and> n \<le> 122 \<or> n = 95)"

definition env_rest :: "char \<Rightarrow> bool" where
  "env_rest c \<longleftrightarrow> env_start c \<or> (let n = of_char c :: nat in 48 \<le> n \<and> n \<le> 57)"

definition env_key :: "string \<Rightarrow> bool" where
  "env_key s \<longleftrightarrow> (case s of [] \<Rightarrow> False | c # cs \<Rightarrow> env_start c \<and> list_all env_rest cs \<and> length cs \<le> 127)"

text \<open>The alternatives of \<open>_SECRET_RE\<close>, in lower case: the search ignores case.\<close>

definition SECRET_WORDS :: "string list" where
  "SECRET_WORDS = [''token'', ''secret'', ''password'', ''passwd'', ''credential'', ''private_key'', ''access_key'',
     ''auth'', ''cookie'', ''session'', ''ssh'', ''docker_host'']"

definition secret_like :: "string \<Rightarrow> bool" where
  "secret_like key \<longleftrightarrow> list_ex (contains (lower key)) SECRET_WORDS"

definition RESERVED_KEYS :: "string list" where
  "RESERVED_KEYS = [''PATH'', ''HOME'', ''TMPDIR'', ''BUGSWEEP_OUTPUT_DIR'']"

definition env_value :: "string \<Rightarrow> bool" where
  "env_value s \<longleftrightarrow> CHR 0x00 \<notin> set s \<and> utf8_length s \<le> MAX_ARG_BYTES"

definition env_entry :: "string \<times> pyval \<Rightarrow> value_error + string \<times> string" where
  "env_entry kv = (case kv of (k, v) \<Rightarrow>
     bind_res (guard (env_key k) ValueError) (\<lambda>_.
     bind_res (guard (\<not> secret_like k) ValueError) (\<lambda>_.
     case v of
       PStr s \<Rightarrow> if env_value s \<and> k \<notin> set RESERVED_KEYS then Inr (k, s) else Inl ValueError
     | _ \<Rightarrow> Inl ValueError)))"

definition validate_environment :: "pyval \<Rightarrow> value_error + env" where
  "validate_environment v = (case v of
       PNone \<Rightarrow> Inr []
     | PDict d \<Rightarrow>
         if MAX_ENV < length d then Inl ValueError
         else bind_res (map_res env_entry d) (\<lambda>e. Inr (sort_key fst e))
     | _ \<Rightarrow> Inl ValueError)"

definition env_dict :: "env \<Rightarrow> dict" where
  "env_dict e = map (\<lambda>(k, s). (k, PStr s)) e"

text \<open>\<open>{**a, **b}\<close>\<close>

definition merge :: "('k \<times> 'v) list \<Rightarrow> ('k \<times> 'v) list \<Rightarrow> ('k \<times> 'v) list" where
  "merge a b = fold (\<lambda>(k, v). AList.update k v) b a"

definition fixed_environment :: "string \<Rightarrow> env" where
  "fixed_environment out =
     [(''PATH'', ''/usr/local/sbin:/usr/local/bin:/usr/sbin:/usr/bin:/sbin:/bin''), (''HOME'', ''/tmp/bugsweep-home''),
      (''TMPDIR'', ''/tmp''), (''LANG'', ''C.UTF-8''), (''LC_ALL'', ''C.UTF-8''), (''BUGSWEEP_OUTPUT_DIR'', out)]"

definition target_environment :: "env \<Rightarrow> env \<Rightarrow> string \<Rightarrow> env" where
  "target_environment e img out = merge (merge img (fixed_environment out)) e"

subsection \<open>Paths and outputs\<close>

definition relative_output_path :: "pyval \<Rightarrow> value_error + string" where
  "relative_output_path v = (case v of
       PStr s \<Rightarrow>
         if s \<noteq> [] \<and> CHR 0x00 \<notin> set s \<and> \<not> starts_with s ''/'' \<and> posix_relative s = s \<and>
            ''..'' \<notin> set (path_parts s) \<and> utf8_length s \<le> MAX_PATH_BYTES
         then Inr s else Inl ValueError
     | _ \<Rightarrow> Inl ValueError)"

record outfile =
  o_path :: string
  o_kind :: string
  o_max :: int

definition OUTPUT_KINDS :: "string list" where
  "OUTPUT_KINDS = [''junit'', ''sarif'', ''host-adapter-json'']"

definition output_limit :: "pyval \<Rightarrow> value_error + int" where
  "output_limit v = (case v of
       PInt n \<Rightarrow> if 0 < n \<and> n \<le> MAX_OUTPUT_BYTES then Inr n else Inl ValueError
     | _ \<Rightarrow> Inl ValueError)"

definition fresh_path :: "string list \<Rightarrow> string \<Rightarrow> bool" where
  "fresh_path seen p \<longleftrightarrow> p \<notin> set seen \<and> p \<notin> {''stdout.log'', ''stderr.log''}"

definition read_output :: "string list \<Rightarrow> pyval \<Rightarrow> value_error + outfile" where
  "read_output seen item = (case item of
       PDict d \<Rightarrow>
         if set (map fst d) \<noteq> {''path'', ''kind'', ''max_bytes''} then Inl ValueError
         else bind_res (relative_output_path (getv d ''path'')) (\<lambda>p.
              bind_res (in_set OUTPUT_KINDS (getv d ''kind'')) (\<lambda>ok.
              bind_res (guard ok ValueError) (\<lambda>_.
              bind_res (output_limit (getv d ''max_bytes'')) (\<lambda>n.
              bind_res (guard (fresh_path seen p) ValueError) (\<lambda>_.
              Inr \<lparr>o_path = p, o_kind = (case getv d ''kind'' of PStr k \<Rightarrow> k | _ \<Rightarrow> []), o_max = n\<rparr>)))))
     | _ \<Rightarrow> Inl ValueError)"

fun read_outputs :: "string list \<Rightarrow> pyval list \<Rightarrow> value_error + outfile list" where
  "read_outputs seen [] = Inr []"
| "read_outputs seen (v # vs) =
     bind_res (read_output seen v) (\<lambda>x.
     bind_res (read_outputs (o_path x # seen) vs) (\<lambda>xs. Inr (x # xs)))"

definition validate_outputs :: "pyval \<Rightarrow> value_error + outfile list" where
  "validate_outputs v = (case v of
       PList xs \<Rightarrow>
         if MAX_OUTPUTS < length xs then Inl ValueError
         else bind_res (read_outputs [] xs) (\<lambda>os. Inr (sort_key o_path os))
     | _ \<Rightarrow> Inl ValueError)"

definition output_value :: "outfile \<Rightarrow> pyval" where
  "output_value x = PDict [(''path'', PStr (o_path x)), (''kind'', PStr (o_kind x)), (''max_bytes'', PInt (o_max x))]"

subsection \<open>Source identity\<close>

record source_identity =
  si_sha :: string
  si_files :: env

definition identity_file :: "string \<times> pyval \<Rightarrow> value_error + string \<times> string" where
  "identity_file kv = (case kv of (p, v) \<Rightarrow>
     bind_res (relative_output_path (PStr p)) (\<lambda>p.
     case v of PStr s \<Rightarrow> if sha256_text s then Inr (p, s) else Inl ValueError | _ \<Rightarrow> Inl ValueError))"

definition identity_files :: "hashing \<Rightarrow> string \<Rightarrow> dict \<Rightarrow> value_error + source_identity" where
  "identity_files hs sha d =
     bind_res (map_res identity_file d) (\<lambda>fs.
     bind_res (json_digest hs (PDict (env_dict (sort_key fst fs)))) (\<lambda>s.
     bind_res (guard (s = sha) ValueError) (\<lambda>_.
     Inr \<lparr>si_sha = sha, si_files = sort_key fst fs\<rparr>)))"

definition validate_source_identity :: "hashing \<Rightarrow> pyval \<Rightarrow> value_error + source_identity" where
  "validate_source_identity hs v = (case v of
       PDict d \<Rightarrow>
         if set (map fst d) \<noteq> {''kind'', ''sha256'', ''source_file_sha256''} \<or>
            getv d ''kind'' \<noteq> PStr ''content-manifest-sha256'' then Inl ValueError
         else (case (getv d ''sha256'', getv d ''source_file_sha256'') of
             (PStr sha, PDict fs) \<Rightarrow>
               if sha256_text sha \<and> fs \<noteq> [] \<and> length fs \<le> MAX_SOURCE_FILES
               then identity_files hs sha fs else Inl ValueError
           | _ \<Rightarrow> Inl ValueError)
     | _ \<Rightarrow> Inl ValueError)"

definition identity_value :: "source_identity \<Rightarrow> pyval" where
  "identity_value i = PDict [(''kind'', PStr ''content-manifest-sha256''), (''sha256'', PStr (si_sha i)),
     (''source_file_sha256'', PDict (env_dict (si_files i)))]"

text \<open>\<open>execution_environment_sha256\<close>\<close>

definition environment_sha256 :: "hashing \<Rightarrow> env \<Rightarrow> value_error + string" where
  "environment_sha256 hs e = json_digest hs (PDict
     [(''allowlist'', PDict (env_dict (sort_key fst e))), (''fixed_path'', PStr ''/usr/bin:/bin:/usr/sbin:/sbin''),
      (''home'', PStr ''ephemeral''), (''scratch_mount'', PStr ''/bugsweep-output'')])"

subsection \<open>What validation accepts\<close>

lemma map_res_id: "map_res f xs = Inr ys \<Longrightarrow> (\<And>x y. f x = Inr y \<Longrightarrow> f (g y) = Inr y) \<Longrightarrow> map_res f (map g ys) = Inr ys"
  unfolding map_res_Inr by (induction rule: list_all2_induct) (auto simp: list_all2_Cons)

lemma map_res_Inr_all: "map_res f xs = Inr ys \<Longrightarrow> (\<And>x y. f x = Inr y \<Longrightarrow> P y) \<Longrightarrow> y \<in> set ys \<Longrightarrow> P y"
  by (drule map_res_set) auto

lemma map_res_length: "map_res f xs = Inr ys \<Longrightarrow> length ys = length xs"
  unfolding map_res_Inr by (simp add: list_all2_lengthD)

lemma argument_Inr: "argument v = Inr s \<longleftrightarrow> v = PStr s \<and> s \<noteq> [] \<and> CHR 0x00 \<notin> set s \<and> utf8_length s \<le> MAX_ARG_BYTES"
  by (auto simp: argument_def split: pyval.splits if_splits)

lemma validate_command_again: "validate_command v = Inr argv \<Longrightarrow> validate_command (PList (map PStr argv)) = Inr argv"
proof -
  assume "validate_command v = Inr argv"
  then obtain xs where xs: "v = PList xs" "xs \<noteq> []" "length xs \<le> MAX_ARGV" "map_res argument xs = Inr argv"
    by (auto simp: validate_command_def split: pyval.splits if_splits)
  have "map_res argument (map PStr argv) = Inr argv" by (rule map_res_id [OF xs(4)]) (simp add: argument_Inr)
  with xs map_res_length [OF xs(4)] show ?thesis by (auto simp: validate_command_def)
qed

lemma validate_command_ne: "validate_command v = Inr argv \<Longrightarrow> argv \<noteq> []"
  by (auto simp: validate_command_def split: pyval.splits if_splits dest: map_res_length)

lemma env_entry_Inr:
  "env_entry kv = Inr e \<longleftrightarrow> kv = (fst e, PStr (snd e)) \<and> env_key (fst e) \<and> \<not> secret_like (fst e) \<and>
     env_value (snd e) \<and> fst e \<notin> set RESERVED_KEYS"
  by (cases kv; cases e) (auto simp: env_entry_def split: pyval.splits if_splits)

lemma map_res_inverse: "map_res f xs = Inr ys \<Longrightarrow> (\<And>x y. f x = Inr y \<Longrightarrow> x = g y) \<Longrightarrow> xs = map g ys"
  unfolding map_res_Inr by (induction rule: list_all2_induct) auto

lemma env_dict_eq: "env_dict = map (\<lambda>e. (fst e, PStr (snd e)))"
  by (simp add: env_dict_def fun_eq_iff case_prod_unfold)

lemma env_dict_keys [simp]: "map fst (env_dict e) = map fst e"
  by (simp add: env_dict_def o_def case_prod_unfold)

lemma map_of_env_dict [simp]: "map_of (env_dict e) k = map_option PStr (map_of e k)"
  by (induction e) (auto simp: env_dict_def)

definition clean_env :: "env \<Rightarrow> bool" where
  "clean_env e \<longleftrightarrow> (\<forall>(k, s)\<in>set e. env_key k \<and> \<not> secret_like k \<and> env_value s \<and> k \<notin> set RESERVED_KEYS)"

lemma map_res_env: "map_res env_entry d = Inr e \<longleftrightarrow> d = env_dict e \<and> clean_env e"
proof -
  have "map_res env_entry d = Inr e \<longleftrightarrow> list_all2 (\<lambda>kv e. kv = (fst e, PStr (snd e)) \<and> env_key (fst e) \<and>
      \<not> secret_like (fst e) \<and> env_value (snd e) \<and> fst e \<notin> set RESERVED_KEYS) d e"
    unfolding map_res_Inr env_entry_Inr ..
  also have "\<dots> \<longleftrightarrow> d = env_dict e \<and> clean_env e"
    by (induction e arbitrary: d) (auto simp: env_dict_def clean_env_def list_all2_Cons2)
  finally show ?thesis .
qed

lemma clean_env_sort [simp]: "clean_env (sort_key f e) = clean_env e"
  by (simp add: clean_env_def)

lemma validate_environment_Inr:
  "validate_environment v = Inr e \<longleftrightarrow>
     v = PNone \<and> e = [] \<or> (\<exists>e'. v = PDict (env_dict e') \<and> length e' \<le> MAX_ENV \<and> clean_env e' \<and> e = sort_key fst e')"
  by (auto simp: validate_environment_def bind_res_Inr_iff map_res_env env_dict_def split: pyval.splits if_splits)

lemma sort_key_again: "sort_key f (sort_key f xs) = sort_key f xs"
  by (simp add: sort_key_id_if_sorted)

lemma validate_environment_again:
  "validate_environment v = Inr e \<Longrightarrow> validate_environment (PDict (env_dict e)) = Inr e"
  unfolding validate_environment_Inr
proof (elim disjE exE conjE)
  fix e' assume "v = PDict (env_dict e')" "length e' \<le> MAX_ENV" "clean_env e'" "e = sort_key fst e'"
  then show "PDict (env_dict e) = PNone \<and> e = [] \<or>
    (\<exists>f. PDict (env_dict e) = PDict (env_dict f) \<and> length f \<le> MAX_ENV \<and> clean_env f \<and> e = sort_key fst f)"
    by (intro disjI2 exI [of _ e]) (simp add: sort_key_again)
qed (auto simp: env_dict_def clean_env_def)

lemma relative_path_Inr:
  "relative_output_path v = Inr p \<longleftrightarrow> v = PStr p \<and> p \<noteq> [] \<and> CHR 0x00 \<notin> set p \<and> \<not> starts_with p ''/'' \<and>
     posix_relative p = p \<and> ''..'' \<notin> set (path_parts p) \<and> utf8_length p \<le> MAX_PATH_BYTES"
  by (auto simp: relative_output_path_def split: pyval.splits if_splits)

text \<open>A declared output, read back from its normal form.\<close>

definition wf_output :: "outfile \<Rightarrow> bool" where
  "wf_output x \<longleftrightarrow> relative_output_path (PStr (o_path x)) = Inr (o_path x) \<and> o_kind x \<in> set OUTPUT_KINDS \<and>
     0 < o_max x \<and> o_max x \<le> MAX_OUTPUT_BYTES"

lemma output_limit_Inr: "output_limit v = Inr n \<longleftrightarrow> v = PInt n \<and> 0 < n \<and> n \<le> MAX_OUTPUT_BYTES"
  by (auto simp: output_limit_def split: pyval.splits if_splits)

lemma read_output_Inr:
  assumes "read_output seen v = Inr x"
  shows "wf_output x \<and> fresh_path seen (o_path x)"
proof -
  obtain d p n where d: "relative_output_path (getv d ''path'') = Inr p" "in_set OUTPUT_KINDS (getv d ''kind'') = Inr True"
      "output_limit (getv d ''max_bytes'') = Inr n" "fresh_path seen p"
    and x: "x = \<lparr>o_path = p, o_kind = (case getv d ''kind'' of PStr k \<Rightarrow> k | _ \<Rightarrow> []), o_max = n\<rparr>"
    using assms by (cases v) (auto simp: read_output_def bind_res_Inr_iff split: if_splits)
  from d(1) have "relative_output_path (PStr p) = Inr p" by (simp add: relative_path_Inr)
  moreover from d(2) obtain k where "getv d ''kind'' = PStr k" "k \<in> set OUTPUT_KINDS" by (auto dest: in_set_True)
  ultimately show ?thesis using d(3,4) by (simp add: wf_output_def output_limit_Inr x)
qed

lemma read_output_value:
  assumes "wf_output x" "fresh_path seen (o_path x)"
  shows "read_output seen (output_value x) = Inr x"
proof -
  let ?d = "[(''path'', PStr (o_path x)), (''kind'', PStr (o_kind x)), (''max_bytes'', PInt (o_max x))]"
  have g: "getv ?d ''path'' = PStr (o_path x)" "getv ?d ''kind'' = PStr (o_kind x)" "getv ?d ''max_bytes'' = PInt (o_max x)"
    and k: "set (map fst ?d) = {''path'', ''kind'', ''max_bytes''}"
    by (simp_all add: getv_def)
  have "in_set OUTPUT_KINDS (PStr (o_kind x)) = Inr True" "output_limit (PInt (o_max x)) = Inr (o_max x)"
      "relative_output_path (PStr (o_path x)) = Inr (o_path x)"
    using assms by (simp_all add: wf_output_def in_set_def output_limit_def)
  with assms(2) show ?thesis
    by (simp only: read_output_def output_value_def pyval.case g k bind_res_simps bind_guard simp_thms if_True if_False) simp
qed

lemma read_outputs_Inr:
  "read_outputs seen vs = Inr xs \<Longrightarrow> (\<forall>x\<in>set xs. wf_output x \<and> fresh_path seen (o_path x)) \<and>
     distinct (map o_path xs) \<and> length xs = length vs"
proof (induction seen vs arbitrary: xs rule: read_outputs.induct)
  case (2 seen v vs)
  obtain y ys where y: "read_output seen v = Inr y" "read_outputs (o_path y # seen) vs = Inr ys" "xs = y # ys"
    using "2.prems" by (auto simp: bind_res_Inr_iff)
  from "2.IH" [OF y(2)] read_output_Inr [OF y(1)] show ?case by (auto simp: y(3) fresh_path_def)
qed simp

lemma read_outputs_values:
  "(\<forall>x\<in>set xs. wf_output x \<and> fresh_path seen (o_path x)) \<Longrightarrow> distinct (map o_path xs) \<Longrightarrow>
     read_outputs seen (map output_value xs) = Inr xs"
proof (induction xs arbitrary: seen)
  case (Cons x xs)
  have "read_outputs (o_path x # seen) (map output_value xs) = Inr xs"
    by (rule Cons.IH) (use Cons.prems in \<open>auto simp: fresh_path_def image_iff\<close>)
  moreover have "read_output seen (output_value x) = Inr x" by (rule read_output_value) (use Cons.prems in auto)
  ultimately show ?case by simp
qed simp

definition normal_outputs :: "outfile list \<Rightarrow> bool" where
  "normal_outputs xs \<longleftrightarrow> (\<forall>x\<in>set xs. wf_output x \<and> fresh_path [] (o_path x)) \<and> distinct (map o_path xs) \<and>
     sorted (map o_path xs) \<and> length xs \<le> MAX_OUTPUTS"

lemma validate_outputs_normal: "validate_outputs v = Inr xs \<Longrightarrow> normal_outputs xs"
proof -
  assume "validate_outputs v = Inr xs"
  then have "\<exists>vs ys. length vs \<le> MAX_OUTPUTS \<and> read_outputs [] vs = Inr ys \<and> xs = sort_key o_path ys"
    by (cases v) (auto simp: validate_outputs_def bind_res_Inr_iff not_less split: if_splits)
  then obtain vs ys where "length vs \<le> MAX_OUTPUTS" "read_outputs [] vs = Inr ys" "xs = sort_key o_path ys"
    by blast
  then show ?thesis
    using read_outputs_Inr [of "[]" vs ys] by (auto simp: normal_outputs_def sorted_sort_key distinct_map)
qed

lemma validate_normal_outputs: "normal_outputs xs \<Longrightarrow> validate_outputs (PList (map output_value xs)) = Inr xs"
  by (simp add: normal_outputs_def validate_outputs_def read_outputs_values sort_key_id_if_sorted)

lemma json_digest_strings: "json_digest hs (PDict (env_dict e)) = Inr (hs_sha hs (json_dumps False (hs_frepr hs) (PDict (env_dict e))))"
proof -
  have "\<not> nonfinite (PDict (env_dict e))" by (induction e) (auto simp: env_dict_def)
  then show ?thesis by (simp add: json_digest_def canonical_json_def)
qed

end
