(* ===== verification/Source_Capture.thy ===== *)
theory Source_Capture
  imports Exec_Inputs
begin

text \<open>
  The walks of \<^verbatim>\<open>scripts/_execution.py\<close> over a mounted tree: \<open>_capture_source_files\<close> hashes every regular file
  outside \<^verbatim>\<open>.git\<close>, \<open>_verify_source_identity\<close> compares the hashes with the identity a policy binds, and
  \<open>_mount_inventory\<close> records every entry and rejects what could lead out of the mount.

  A directory is the list of its entries in the order the scan returns them; a file carries the digest
  \<open>_sha256_relative\<close> computes (\<open>None\<close>: unreadable, over the byte limit or changed while it was read).
  The tree does not change during one walk, so the checks that a pending directory is still a directory inside
  the root cannot fail and are not repeated here.
\<close>

subsection \<open>Trees\<close>

type_synonym path = "string list"

record stat_info =
  st_mode :: int
  st_dev :: int
  st_ino :: int
  st_nlink :: int
  st_size :: int
  st_mtime_ns :: int

text \<open>\<open>Symlink\<close> carries what it resolves to (\<open>None\<close>: broken) and its text; \<open>Unstatable\<close> is an entry whose
  \<open>stat\<close> fails, and a directory with \<open>None\<close> one that cannot be scanned.\<close>

datatype node =
    Regular stat_info "string option"
  | Directory stat_info "(string \<times> node) list option"
  | Symlink stat_info "path option" string
  | Special stat_info
  | Unstatable

type_synonym listing = "(string \<times> node) list"

primrec weight :: "node \<Rightarrow> nat" where
  "weight (Regular m d) = 0"
| "weight (Directory m es) =
     Suc (case map_option (map (map_prod id weight)) es of None \<Rightarrow> 0 | Some ws \<Rightarrow> sum_list (map snd ws))"
| "weight (Symlink m t s) = 0"
| "weight (Special m) = 0"
| "weight Unstatable = 0"

definition listing_weight :: "listing option \<Rightarrow> nat" where
  "listing_weight es = Suc (case es of None \<Rightarrow> 0 | Some es \<Rightarrow> sum_list (map (\<lambda>e. weight (snd e)) es))"

lemma weight_Directory [simp]: "weight (Directory m es) = listing_weight es"
  by (simp add: listing_weight_def o_def split: option.split)

lemma weight_node: "weight x = (case x of Directory m es \<Rightarrow> listing_weight es | _ \<Rightarrow> 0)"
  by (cases x) (simp_all del: weight.simps(2))

declare weight.simps(2) [simp del]

definition relative :: "path \<Rightarrow> string" where
  "relative p = join_with ''/'' p"

type_synonym pending = "(path \<times> listing option) list"

definition pending_weight :: "pending \<Rightarrow> nat" where
  "pending_weight st = sum_list (map (\<lambda>x. listing_weight (snd x)) st)"

lemma pending_weight_simps [simp]:
  "pending_weight [] = 0"
  "pending_weight (x # st) = listing_weight (snd x) + pending_weight st"
  "pending_weight (st @ st') = pending_weight st + pending_weight st'"
  "pending_weight (rev st) = pending_weight st"
  by (simp_all add: pending_weight_def rev_map [symmetric])

subsection \<open>Hashing the sources\<close>

definition git_entry_ok :: "bool \<Rightarrow> path \<Rightarrow> node \<Rightarrow> bool" where
  "git_entry_ok git pre x \<longleftrightarrow> git \<and> pre = [] \<and> (case x of Regular m d \<Rightarrow> st_nlink m = 1 | _ \<Rightarrow> False)"

text \<open>The entries of one directory: the files found so far, and the directories to visit later.\<close>

fun capture_entries :: "bool \<Rightarrow> bool \<Rightarrow> path \<Rightarrow> env \<Rightarrow> listing \<Rightarrow> value_error + env \<times> pending" where
  "capture_entries git links pre fs [] = Inr (fs, [])"
| "capture_entries git links pre fs ((n, x) # es) =
     (if hd (pre @ [n]) = ''.git''
      then (if git_entry_ok git pre x then capture_entries git links pre fs es else Inl ValueError)
      else (case x of
          Directory m sub \<Rightarrow>
            bind_res (capture_entries git links pre fs es) (\<lambda>(fs', ds). Inr (fs', (pre @ [n], sub) # ds))
        | Regular m (Some d) \<Rightarrow>
            if st_nlink m \<noteq> 1 \<or> MAX_SOURCE_FILES \<le> length fs then Inl ValueError
            else capture_entries git links pre (AList.update (relative (pre @ [n])) d fs) es
        | Symlink m t s \<Rightarrow> if links then capture_entries git links pre fs es else Inl ValueError
        | _ \<Rightarrow> Inl ValueError))"

lemma capture_entries_weight:
  "capture_entries git links pre fs es = Inr (fs', ds) \<Longrightarrow> pending_weight ds \<le> sum_list (map (\<lambda>e. weight (snd e)) es)"
proof (induction git links pre fs es arbitrary: fs' ds rule: capture_entries.induct)
  case (2 git links pre fs n x es)
  show ?case
  proof (cases "hd (pre @ [n]) = ''.git''")
    case True
    with 2 show ?thesis by (fastforce split: if_splits)
  next
    case False
    with 2 show ?thesis by (cases x) (fastforce simp: bind_res_Inr_iff split: if_splits option.splits)+
  qed
qed simp

lemma sum_weights_sort: "sum_list (map (\<lambda>e. weight (snd e)) (sort_key fst es)) = sum_list (map (\<lambda>e. weight (snd e)) es)"
proof -
  have "mset (map (\<lambda>e. weight (snd e)) (sort_key fst es)) = mset (map (\<lambda>e. weight (snd e)) es)" by simp
  then show ?thesis by (metis sum_mset_sum_list)
qed

lemma visited_weight:
  assumes "pending_weight ds \<le> sum_list (map (\<lambda>e. weight (snd e)) (sort_key fst es))"
  shows "pending_weight (rev ds @ st) < pending_weight ((pre, Some es) # st)"
  using assms by (simp add: listing_weight_def sum_weights_sort)

text \<open>The stack of \<open>pending.pop()\<close>: the directory pushed last is visited first.\<close>

function capture_loop :: "bool \<Rightarrow> bool \<Rightarrow> env \<Rightarrow> pending \<Rightarrow> value_error + env" where
  "capture_loop git links fs [] = Inr fs"
| "capture_loop git links fs ((pre, None) # st) = Inl ValueError"
| "capture_loop git links fs ((pre, Some es) # st) =
     (case capture_entries git links pre fs (sort_key fst es) of
        Inl e \<Rightarrow> Inl e
      | Inr (fs', ds) \<Rightarrow> capture_loop git links fs' (rev ds @ st))"
  by pat_completeness auto
termination
proof (relation "measure (\<lambda>(git, links, fs, st). pending_weight st)")
  fix git links fs pre es st x fs' ds
  assume "capture_entries git links pre fs (sort_key fst es) = Inr x" "(fs', ds) = x"
  then have "capture_entries git links pre fs (sort_key fst es) = Inr (fs', ds)" by simp
  from visited_weight [OF capture_entries_weight [OF this]]
  show "((git, links, fs', rev ds @ st), git, links, fs, (pre, Some es) # st)
      \<in> measure (\<lambda>(git, links, fs, st). pending_weight st)" by simp
qed simp

definition capture_source_files :: "bool \<Rightarrow> bool \<Rightarrow> listing option \<Rightarrow> value_error + env" where
  "capture_source_files git links t =
     bind_res (capture_loop git links [] [([], t)]) (\<lambda>fs.
     bind_res (guard (fs \<noteq> []) ValueError) (\<lambda>_. Inr (sort_key fst fs)))"

text \<open>Two dictionaries are equal up to the order of their keys.\<close>

definition same_files :: "env \<Rightarrow> env \<Rightarrow> bool" where
  "same_files a b \<longleftrightarrow> set a = set b"

definition verify_source_identity :: "listing option \<Rightarrow> source_identity \<Rightarrow> string \<Rightarrow> value_error + unit" where
  "verify_source_identity t i mode =
     (let archive = (mode = ''archive-ro'')
      in bind_res (capture_source_files (\<not> archive) (\<not> archive) t) (\<lambda>actual.
         guard (same_files actual (si_files i)) ValueError))"

subsection \<open>The inventory of a mount\<close>

definition MAX_MOUNT_ENTRIES :: nat where "MAX_MOUNT_ENTRIES = 200000"

definition is_within :: "path \<Rightarrow> path \<Rightarrow> bool" where
  "is_within p parent \<longleftrightarrow> take (length parent) p = parent"

definition mount_record :: "path \<Rightarrow> stat_info \<Rightarrow> pyval list \<Rightarrow> string \<times> pyval" where
  "mount_record p m kind = (relative p, PList ([PStr (relative p), PInt (st_mode m), PInt (st_dev m), PInt (st_ino m),
     PInt (st_nlink m), PInt (st_size m), PInt (st_mtime_ns m)] @ kind))"

definition mount_entry :: "path \<Rightarrow> path \<Rightarrow> node \<Rightarrow> value_error + (string \<times> pyval) \<times> pending" where
  "mount_entry top_dir p x = (case x of
       Directory m sub \<Rightarrow> Inr (mount_record p m [PStr ''directory''], [(p, sub)])
     | Regular m d \<Rightarrow>
         if st_nlink m \<noteq> 1 then Inl ValueError else Inr (mount_record p m [PStr ''regular''], [])
     | Symlink m (Some t) s \<Rightarrow>
         if is_within t top_dir then Inr (mount_record p m [PStr ''symlink'', PStr s], []) else Inl ValueError
     | _ \<Rightarrow> Inl ValueError)"

fun mount_entries ::
    "path \<Rightarrow> path \<Rightarrow> (string \<times> pyval) list \<Rightarrow> listing \<Rightarrow> value_error + (string \<times> pyval) list \<times> pending" where
  "mount_entries top_dir pre recs [] = Inr (recs, [])"
| "mount_entries top_dir pre recs ((n, x) # es) =
     (if MAX_MOUNT_ENTRIES \<le> length recs then Inl ValueError
      else bind_res (mount_entry top_dir (pre @ [n]) x) (\<lambda>(r, d).
           bind_res (mount_entries top_dir pre (recs @ [r]) es) (\<lambda>(recs', ds). Inr (recs', d @ ds))))"

lemma mount_entry_weight: "mount_entry top_dir p x = Inr (r, d) \<Longrightarrow> pending_weight d = weight x"
  by (auto simp: mount_entry_def split: node.splits if_splits option.splits)

lemma mount_entries_weight:
  "mount_entries top_dir pre recs es = Inr (recs', ds) \<Longrightarrow> pending_weight ds \<le> sum_list (map (\<lambda>e. weight (snd e)) es)"
  by (induction top_dir pre recs es arbitrary: recs' ds rule: mount_entries.induct)
    (fastforce simp: bind_res_Inr_iff dest: mount_entry_weight split: if_splits)+

function mount_loop :: "path \<Rightarrow> (string \<times> pyval) list \<Rightarrow> pending \<Rightarrow> value_error + (string \<times> pyval) list" where
  "mount_loop top_dir recs [] = Inr recs"
| "mount_loop top_dir recs ((pre, None) # st) = Inl ValueError"
| "mount_loop top_dir recs ((pre, Some es) # st) =
     (case mount_entries top_dir pre recs (sort_key fst es) of
        Inl e \<Rightarrow> Inl e
      | Inr (recs', ds) \<Rightarrow> mount_loop top_dir recs' (rev ds @ st))"
  by pat_completeness auto
termination
proof (relation "measure (\<lambda>(top_dir, recs, st). pending_weight st)")
  fix top_dir recs pre es st x recs' ds
  assume "mount_entries top_dir pre recs (sort_key fst es) = Inr x" "(recs', ds) = x"
  then have "mount_entries top_dir pre recs (sort_key fst es) = Inr (recs', ds)" by simp
  from visited_weight [OF mount_entries_weight [OF this]]
  show "((top_dir, recs', rev ds @ st), top_dir, recs, (pre, Some es) # st)
      \<in> measure (\<lambda>(top_dir, recs, st). pending_weight st)" by simp
qed simp

text \<open>\<open>sorted(records)\<close>: the relative paths come first and differ, so they decide the order.\<close>

definition mount_inventory :: "hashing \<Rightarrow> path \<Rightarrow> listing option \<Rightarrow> value_error + string" where
  "mount_inventory hs top_dir t =
     bind_res (mount_loop top_dir [] [([], t)]) (\<lambda>recs. json_digest hs (PList (map snd (sort_key fst recs))))"

subsection \<open>The reference listing\<close>

text \<open>
  What the walk is meant to compute, by recursion on the tree: the files with their paths, and the entries a
  mount may have.
\<close>

primrec node_files :: "node \<Rightarrow> path \<Rightarrow> (path \<times> string) list" where
  "node_files (Regular m d) = (\<lambda>p. case d of None \<Rightarrow> [] | Some x \<Rightarrow> [(p, x)])"
| "node_files (Directory m es) =
     (\<lambda>p. case map_option (map (map_prod id node_files)) es of
            None \<Rightarrow> [] | Some fs \<Rightarrow> concat (map (\<lambda>(n, f). f (p @ [n])) fs))"
| "node_files (Symlink m t s) = (\<lambda>p. [])"
| "node_files (Special m) = (\<lambda>p. [])"
| "node_files Unstatable = (\<lambda>p. [])"

primrec node_ok :: "bool \<Rightarrow> node \<Rightarrow> bool" where
  "node_ok links (Regular m d) \<longleftrightarrow> st_nlink m = 1 \<and> d \<noteq> None"
| "node_ok links (Directory m es) \<longleftrightarrow>
     (case map_option (map (map_prod id (node_ok links))) es of None \<Rightarrow> False | Some bs \<Rightarrow> list_all snd bs)"
| "node_ok links (Symlink m t s) \<longleftrightarrow> links"
| "node_ok links (Special m) \<longleftrightarrow> False"
| "node_ok links Unstatable \<longleftrightarrow> False"

definition name_ok :: "string \<Rightarrow> bool" where
  "name_ok n \<longleftrightarrow> CHR ''/'' \<notin> set n"

primrec wf_node :: "node \<Rightarrow> bool" where
  "wf_node (Regular m d) = True"
| "wf_node (Directory m es) \<longleftrightarrow>
     (case map_option (map (map_prod id wf_node)) es of
        None \<Rightarrow> True | Some bs \<Rightarrow> distinct (map fst bs) \<and> list_all name_ok (map fst bs) \<and> list_all snd bs)"
| "wf_node (Symlink m t s) = True"
| "wf_node (Special m) = True"
| "wf_node Unstatable = True"

definition wf_listing :: "listing \<Rightarrow> bool" where
  "wf_listing es \<longleftrightarrow> distinct (map fst es) \<and> (\<forall>(n, x)\<in>set es. name_ok n \<and> wf_node x)"

definition skipped :: "path \<Rightarrow> string \<Rightarrow> bool" where
  "skipped p n \<longleftrightarrow> hd (p @ [n]) = ''.git''"

definition entry_files :: "path \<Rightarrow> string \<times> node \<Rightarrow> (path \<times> string) list" where
  "entry_files p e = (case e of (n, x) \<Rightarrow> if skipped p n then [] else node_files x (p @ [n]))"

definition listing_files :: "path \<Rightarrow> listing \<Rightarrow> (path \<times> string) list" where
  "listing_files p es = concat (map (entry_files p) es)"

definition entry_ok :: "bool \<Rightarrow> bool \<Rightarrow> path \<Rightarrow> string \<times> node \<Rightarrow> bool" where
  "entry_ok git links p e \<longleftrightarrow> (case e of (n, x) \<Rightarrow> if skipped p n then git_entry_ok git p x else node_ok links x)"

definition named :: "(path \<times> string) list \<Rightarrow> env" where
  "named fs = map (map_prod relative id) fs"

definition mounted_files :: "listing \<Rightarrow> env" where
  "mounted_files es = named (listing_files [] es)"

definition mount_ok :: "bool \<Rightarrow> bool \<Rightarrow> listing \<Rightarrow> bool" where
  "mount_ok git links es \<longleftrightarrow> list_all (entry_ok git links []) es \<and> mounted_files es \<noteq> [] \<and>
     length (mounted_files es) \<le> MAX_SOURCE_FILES"

lemma node_files_Directory [simp]:
  "node_files (Directory m None) p = []"
  "node_files (Directory m (Some es)) p = concat (map (\<lambda>(n, x). node_files x (p @ [n])) es)"
  by (simp_all add: o_def case_prod_unfold)

lemma node_ok_Directory [simp]:
  "node_ok links (Directory m None) = False"
  "node_ok links (Directory m (Some es)) = list_all (\<lambda>(n, x). node_ok links x) es"
  by (simp_all add: list_all_iff case_prod_unfold)

lemma wf_node_Directory [simp]: "wf_node (Directory m (Some es)) = wf_listing es"
  by (auto simp: wf_listing_def list_all_iff o_def)

declare node_files.simps(2) [simp del] node_ok.simps(2) [simp del] wf_node.simps(2) [simp del]

subsection \<open>Paths of different files differ\<close>

lemma split_on_free: "c \<notin> set s \<Longrightarrow> split_on c s = [s]"
  by (induction s) auto

lemma split_on_glue: "c \<notin> set s \<Longrightarrow> split_on c (s @ c # t) = s # split_on c t"
  by (induction s) auto

lemma split_join_with: "ps \<noteq> [] \<Longrightarrow> \<forall>p\<in>set ps. c \<notin> set p \<Longrightarrow> split_on c (join_with [c] ps) = ps"
  by (induction "[c]" ps rule: join_with.induct) (auto simp: split_on_free split_on_glue)

lemma relative_inject: "p \<noteq> [] \<Longrightarrow> q \<noteq> [] \<Longrightarrow> list_all name_ok p \<Longrightarrow> list_all name_ok q \<Longrightarrow> relative p = relative q \<Longrightarrow> p = q"
  unfolding relative_def name_ok_def list_all_iff by (metis split_join_with)

lemma distinct_pieces:
  assumes "distinct (map fst xs)" "\<And>x. x \<in> set xs \<Longrightarrow> distinct (f x)"
    and "\<And>x y a. x \<in> set xs \<Longrightarrow> y \<in> set xs \<Longrightarrow> a \<in> set (f x) \<Longrightarrow> a \<in> set (f y) \<Longrightarrow> fst x = fst y"
  shows "distinct (concat (map f xs))"
  using assms
proof (induction xs)
  case (Cons x xs)
  have "distinct (concat (map f xs))" by (rule Cons.IH) (use Cons.prems in auto)
  moreover have "set (f x) \<inter> (\<Union>y\<in>set xs. set (f y)) = {}"
    using Cons.prems(1) Cons.prems(3) [of x] by (fastforce simp: image_iff)
  ultimately show ?case using Cons.prems(2) by simp
qed simp

lemma node_files_below:
  "(q, d) \<in> set (node_files x p) \<Longrightarrow> wf_node x \<Longrightarrow> \<exists>r. q = p @ r \<and> list_all name_ok r"
proof (induction x arbitrary: p q)
  case (Directory m es)
  then obtain l where es: "es = Some l" by (cases es) auto
  with Directory.prems obtain n y where y: "(n, y) \<in> set l" "(q, d) \<in> set (node_files y (p @ [n]))" by auto
  from y(1) Directory.prems(2) have "name_ok n" "wf_node y" by (auto simp: es wf_listing_def)
  with Directory.IH [of l "(n, y)" y, OF _ y(1) _ y(2)] show ?case
    by (auto simp: es)
qed (auto split: option.splits)

lemma node_files_prefix: "a \<in> fst ` set (node_files x p) \<Longrightarrow> wf_node x \<Longrightarrow> take (length p) a = p"
  using node_files_below by fastforce

lemma pieces_by_name:
  assumes "a \<in> fst ` set (node_files x (p @ [n]))" "a \<in> fst ` set (node_files y (p @ [m]))" "wf_node x" "wf_node y"
  shows "n = m"
  using node_files_prefix [OF assms(1,3)] node_files_prefix [OF assms(2,4)] by simp

lemma distinct_listing:
  assumes "wf_listing l" "\<And>n y. (n, y) \<in> set l \<Longrightarrow> distinct (map fst (node_files y (p @ [n])))"
    and "\<And>e. set (g e) \<subseteq> set (map fst (node_files (snd e) (p @ [fst e])))" "\<And>e. e \<in> set l \<Longrightarrow> distinct (g e)"
  shows "distinct (concat (map g l))"
proof (rule distinct_pieces)
  show "distinct (map fst l)" using assms(1) by (simp add: wf_listing_def)
  show "distinct (g e)" if "e \<in> set l" for e using that by (rule assms(4))
  fix e e' a
  assume e: "e \<in> set l" "e' \<in> set l" "a \<in> set (g e)" "a \<in> set (g e')"
  have "a \<in> fst ` set (node_files (snd e) (p @ [fst e]))" "a \<in> fst ` set (node_files (snd e') (p @ [fst e']))"
    using assms(3) [of e] assms(3) [of e'] e(3,4) by auto
  moreover have "wf_node (snd e)" "wf_node (snd e')" using assms(1) e(1,2) by (auto simp: wf_listing_def)
  ultimately show "fst e = fst e'" by (rule pieces_by_name)
qed

lemma node_files_distinct: "wf_node x \<Longrightarrow> distinct (map fst (node_files x p))"
proof (induction x arbitrary: p)
  case (Directory m es)
  show ?case
  proof (cases es)
    case (Some l)
    let ?g = "\<lambda>e. map fst (node_files (snd e) (p @ [fst e]))"
    have wf: "wf_listing l" using Directory.prems by (simp add: Some)
    have each: "distinct (?g e)" if e_in: "e \<in> set l" for e
    proof (rule Directory.IH [of l e])
      show "l \<in> set_option es" by (simp add: Some)
      show "snd e \<in> Basic_BNFs.snds e" by (cases e) simp
      show "wf_node (snd e)" using wf e_in by (auto simp: wf_listing_def)
    qed (rule e_in)
    have "distinct (concat (map ?g l))" by (rule distinct_listing [OF wf]) (use each in \<open>force+\<close>)
    then show ?thesis by (simp add: Some map_concat o_def case_prod_unfold)
  qed simp
qed (auto split: option.splits)

subsection \<open>The walk computes the listing\<close>

definition direct_files :: "path \<Rightarrow> listing \<Rightarrow> env" where
  "direct_files p es = concat (map (\<lambda>(n, x). case x of
       Regular m (Some d) \<Rightarrow> if skipped p n then [] else [(relative (p @ [n]), d)] | _ \<Rightarrow> []) es)"

definition sub_dirs :: "path \<Rightarrow> listing \<Rightarrow> pending" where
  "sub_dirs p es = concat (map (\<lambda>(n, x). case x of
       Directory m t \<Rightarrow> if skipped p n then [] else [(p @ [n], t)] | _ \<Rightarrow> []) es)"

definition here_ok :: "bool \<Rightarrow> bool \<Rightarrow> path \<Rightarrow> string \<times> node \<Rightarrow> bool" where
  "here_ok git links p e \<longleftrightarrow> (case e of (n, x) \<Rightarrow>
     if skipped p n then git_entry_ok git p x
     else (case x of Directory m t \<Rightarrow> True | Regular m d \<Rightarrow> st_nlink m = 1 \<and> d \<noteq> None | Symlink m t s \<Rightarrow> links | _ \<Rightarrow> False))"

lemma Nil_simps [simp]: "direct_files p [] = []" "sub_dirs p [] = []"
  by (simp_all add: direct_files_def sub_dirs_def)

lemma Cons_simps:
  "direct_files p ((n, x) # es) =
     (case x of Regular m (Some d) \<Rightarrow> if skipped p n then [] else [(relative (p @ [n]), d)] | _ \<Rightarrow> []) @ direct_files p es"
  "sub_dirs p ((n, x) # es) =
     (case x of Directory m t \<Rightarrow> if skipped p n then [] else [(p @ [n], t)] | _ \<Rightarrow> []) @ sub_dirs p es"
  by (simp_all add: direct_files_def sub_dirs_def)

lemma update_fresh: "k \<notin> fst ` set fs \<Longrightarrow> AList.update k v fs = fs @ [(k, v)]"
  by (induction fs) auto

definition entries_result :: "bool \<Rightarrow> bool \<Rightarrow> path \<Rightarrow> env \<Rightarrow> listing \<Rightarrow> value_error + env \<times> pending" where
  "entries_result git links p fs es =
     (if list_all (here_ok git links p) es \<and> length fs + length (direct_files p es) \<le> MAX_SOURCE_FILES
      then Inr (fs @ direct_files p es, sub_dirs p es) else Inl ValueError)"

lemma capture_entries_eq:
  "length fs \<le> MAX_SOURCE_FILES \<Longrightarrow> distinct (map fst (fs @ direct_files p es)) \<Longrightarrow>
     capture_entries git links p fs es = entries_result git links p fs es"
proof (induction es arbitrary: fs)
  case Nil
  then show ?case by (simp add: entries_result_def)
next
  case (Cons e es)
  obtain n x where e: "e = (n, x)" by force
  show ?case
  proof (cases "skipped p n")
    case True
    then have "direct_files p (e # es) = direct_files p es" "sub_dirs p (e # es) = sub_dirs p es"
        "here_ok git links p e = git_entry_ok git p x"
      by (simp_all add: e Cons_simps here_ok_def split: node.split option.split)
    moreover have "capture_entries git links p fs es = entries_result git links p fs es"
      by (rule Cons.IH) (use Cons.prems calculation in auto)
    ultimately show ?thesis
      using True [unfolded skipped_def] by (simp add: e entries_result_def)
  next
    case ns: False
    note hd = ns [unfolded skipped_def]
    show ?thesis
    proof (cases "\<exists>m d. x = Regular m (Some d)")
      case True
      then obtain m d where x: "x = Regular m (Some d)" by blast
      let ?k = "relative (p @ [n])"
      from Cons.prems have d: "?k \<notin> fst ` set fs" "distinct (map fst ((fs @ [(?k, d)]) @ direct_files p es))"
        by (simp_all add: e x ns Cons_simps)
      show ?thesis
      proof (cases "MAX_SOURCE_FILES \<le> length fs")
        case True
        then show ?thesis using hd ns by (simp add: e x entries_result_def Cons_simps)
      next
        case False
        then have "capture_entries git links p (fs @ [(?k, d)]) es = entries_result git links p (fs @ [(?k, d)]) es"
          by (intro Cons.IH d(2)) simp
        then show ?thesis using hd ns False
          by (simp add: e x entries_result_def Cons_simps here_ok_def update_fresh [OF d(1)])
      qed
    next
      case False
      then have dir: "direct_files p (e # es) = direct_files p es"
        by (auto simp: e Cons_simps split: node.split option.split)
      then have ih: "capture_entries git links p fs es = entries_result git links p fs es"
        by (intro Cons.IH) (use Cons.prems in auto)
      show ?thesis
      proof (cases x)
        case (Regular m d)
        with False have "d = None" by (cases d) auto
        with hd ns show ?thesis by (simp add: e Regular entries_result_def here_ok_def)
      next
        case (Directory m t)
        with hd ns ih show ?thesis
          by (simp add: e entries_result_def here_ok_def Cons_simps)
      next
        case (Symlink m t s)
        with hd ns ih show ?thesis
          by (cases links) (simp_all add: e entries_result_def here_ok_def Cons_simps)
      qed (use hd ns in \<open>simp_all add: e entries_result_def here_ok_def\<close>)
    qed
  qed
qed

definition pend_files :: "pending \<Rightarrow> env" where
  "pend_files st = concat (map (\<lambda>(p, t). case t of None \<Rightarrow> [] | Some es \<Rightarrow> named (listing_files p es)) st)"

definition pend_ok :: "bool \<Rightarrow> bool \<Rightarrow> pending \<Rightarrow> bool" where
  "pend_ok git links st \<longleftrightarrow>
     list_all (\<lambda>(p, t). case t of None \<Rightarrow> False | Some es \<Rightarrow> list_all (entry_ok git links p) es) st"

lemma pend_simps [simp]:
  "pend_files [] = []"
  "pend_files ((p, None) # st) = pend_files st"
  "pend_files ((p, Some es) # st) = named (listing_files p es) @ pend_files st"
  "pend_files (st @ st') = pend_files st @ pend_files st'"
  "pend_ok git links []"
  "\<not> pend_ok git links ((p, None) # st)"
  "pend_ok git links ((p, Some es) # st) \<longleftrightarrow> list_all (entry_ok git links p) es \<and> pend_ok git links st"
  "pend_ok git links (st @ st') \<longleftrightarrow> pend_ok git links st \<and> pend_ok git links st'"
  "pend_ok git links (rev st) \<longleftrightarrow> pend_ok git links st"
  by (simp_all add: pend_files_def pend_ok_def)

lemma mset_pend_rev [simp]: "mset (pend_files (rev st)) = mset (pend_files st)"
  by (induction st) (auto simp: pend_files_def)

lemma skipped_deeper [simp]: "skipped (p @ [n]) k = skipped p n"
  by (cases p) (simp_all add: skipped_def)

lemma listing_Cons: "listing_files p (e # es) = entry_files p e @ listing_files p es"
  by (simp add: listing_files_def)

lemma named_append [simp]: "named (xs @ ys) = named xs @ named ys" "named [] = []"
  by (simp_all add: named_def)

lemma node_files_listing: "\<not> skipped p n \<Longrightarrow> node_files (Directory m (Some es)) (p @ [n]) = listing_files (p @ [n]) es"
proof -
  assume n: "\<not> skipped p n"
  have "entry_files (p @ [n]) = (\<lambda>(k, x). node_files x ((p @ [n]) @ [k]))"
    using n by (auto simp: entry_files_def fun_eq_iff simp del: append_assoc)
  then show ?thesis by (simp add: listing_files_def)
qed

lemma entry_split:
  "mset (named (entry_files p (n, x))) = mset (direct_files p [(n, x)]) + mset (pend_files (sub_dirs p [(n, x)]))"
proof (cases x)
  case (Directory m t)
  then show ?thesis by (cases t) (simp_all add: entry_files_def Cons_simps node_files_listing del: node_files_Directory(2))
qed (auto simp: entry_files_def Cons_simps named_def split: option.split)

lemma listing_split:
  "mset (named (listing_files p es)) = mset (direct_files p es) + mset (pend_files (sub_dirs p es))"
proof (induction es)
  case (Cons e es)
  have app: "direct_files p (e # es) = direct_files p [e] @ direct_files p es" "sub_dirs p (e # es) = sub_dirs p [e] @ sub_dirs p es"
    by (cases e; simp add: Cons_simps)+
  show ?case using Cons.IH entry_split [of p "fst e" "snd e"] by (simp add: listing_Cons app del: Nil_simps)
qed (simp add: listing_files_def)

lemma ok_split: "list_all (entry_ok git links p) es \<longleftrightarrow> list_all (here_ok git links p) es \<and> pend_ok git links (sub_dirs p es)"
proof (induction es)
  case (Cons e es)
  obtain n x where e: "e = (n, x)" by force
  have "entry_ok git links p e \<longleftrightarrow> here_ok git links p e \<and> pend_ok git links (sub_dirs p [e])"
  proof (cases x)
    case (Directory m t)
    then show ?thesis
      by (cases t) (auto simp: e entry_ok_def here_ok_def Cons_simps list_all_iff)
  qed (auto simp: e entry_ok_def here_ok_def Cons_simps)
  moreover have "sub_dirs p (e # es) = sub_dirs p [e] @ sub_dirs p es" by (cases e) (simp add: Cons_simps)
  ultimately show ?case using Cons.IH by auto
qed simp

lemma mset_listing_sort: "mset (named (listing_files p (sort_key fst es))) = mset (named (listing_files p es))"
proof -
  have "mset (listing_files p xs) = \<Sum>\<^sub># (image_mset (mset \<circ> entry_files p) (mset xs))" for xs
    by (simp add: listing_files_def mset_concat sum_mset_sum_list [symmetric] multiset.map_comp)
  then have "mset (listing_files p (sort_key fst es)) = mset (listing_files p es)" by simp
  then show ?thesis by (simp add: named_def)
qed

lemma distinct_keys_mset: "mset xs = mset ys \<Longrightarrow> distinct (map fst xs) = distinct (map fst ys)"
  by (metis mset_map mset_eq_imp_distinct_iff)

definition loop_result :: "bool \<Rightarrow> bool \<Rightarrow> env \<Rightarrow> pending \<Rightarrow> value_error + env \<Rightarrow> bool" where
  "loop_result git links fs st r \<longleftrightarrow>
     (if pend_ok git links st \<and> length fs + length (pend_files st) \<le> MAX_SOURCE_FILES
      then \<exists>fs'. r = Inr fs' \<and> mset fs' = mset fs + mset (pend_files st) else r = Inl ValueError)"

lemma capture_loop_spec:
  "length fs \<le> MAX_SOURCE_FILES \<Longrightarrow> distinct (map fst (fs @ pend_files st)) \<Longrightarrow>
     loop_result git links fs st (capture_loop git links fs st)"
proof (induction git links fs st rule: capture_loop.induct)
  case (3 git links fs p es st)
  let ?es = "sort_key fst es"
  let ?fs = "fs @ direct_files p ?es" and ?st = "rev (sub_dirs p ?es) @ st"
  have all: "mset (named (listing_files p es)) = mset (direct_files p ?es) + mset (pend_files (sub_dirs p ?es))"
    using mset_listing_sort [of p es] listing_split [of p ?es] by simp
  then have eq: "mset (fs @ pend_files ((p, Some es) # st)) = mset (?fs @ pend_files ?st)" by simp
  with "3.prems"(2) have dis: "distinct (map fst (?fs @ pend_files ?st))" using distinct_keys_mset [OF eq] by simp
  have len: "length fs + length (pend_files ((p, Some es) # st)) = length ?fs + length (pend_files ?st)"
    using arg_cong [OF eq, of size] by (simp only: size_mset length_append)
  have ok: "pend_ok git links ((p, Some es) # st) \<longleftrightarrow> list_all (here_ok git links p) ?es \<and> pend_ok git links ?st"
    using ok_split [of git links p ?es] by (auto simp: list_all_iff)
  have entries: "capture_entries git links p fs ?es = entries_result git links p fs ?es"
    by (rule capture_entries_eq) (use "3.prems"(1) dis in auto)
  show ?case
  proof (cases "list_all (here_ok git links p) ?es \<and> length ?fs \<le> MAX_SOURCE_FILES")
    case True
    then have e: "capture_entries git links p fs ?es = Inr (?fs, sub_dirs p ?es)"
      by (simp add: entries entries_result_def)
    have "loop_result git links ?fs ?st (capture_loop git links ?fs ?st)"
      by (rule "3.IH" [OF e refl _ dis]) (use True in simp)
    moreover have "capture_loop git links fs ((p, Some es) # st) = capture_loop git links ?fs ?st" by (simp add: e)
    moreover have "pend_ok git links ((p, Some es) # st) = pend_ok git links ?st" using ok True by blast
    moreover have "mset fs + mset (pend_files ((p, Some es) # st)) = mset ?fs + mset (pend_files ?st)"
      using eq by (simp only: mset_append)
    ultimately show ?thesis unfolding loop_result_def len by (simp only:)
  next
    case False
    then have "capture_entries git links p fs ?es = Inl ValueError"
      by (simp add: entries entries_result_def)
    moreover have "\<not> (pend_ok git links ((p, Some es) # st) \<and> length fs + length (pend_files ((p, Some es) # st)) \<le> MAX_SOURCE_FILES)"
      unfolding ok len using False by auto
    ultimately show ?thesis by (simp add: loop_result_def)
  qed
qed (simp_all add: loop_result_def)

declare capture_loop.simps [simp del]

lemma wf_listing_keys: "wf_listing es \<Longrightarrow> distinct (map fst (mounted_files es))"
proof -
  assume wf: "wf_listing es"
  let ?g = "\<lambda>e. map fst (entry_files [] e)"
  have "distinct (concat (map ?g es))"
  proof (rule distinct_listing [OF wf, where p = "[]"])
    show "distinct (map fst (node_files y ([] @ [n])))" if "(n, y) \<in> set es" for n y
      using that wf by (intro node_files_distinct) (auto simp: wf_listing_def)
    show "set (?g e) \<subseteq> set (map fst (node_files (snd e) ([] @ [fst e])))" for e
      by (auto simp: entry_files_def split: prod.splits if_splits)
    show "distinct (?g e)" if "e \<in> set es" for e
      using that wf node_files_distinct [of "snd e" "[fst e]"] by (auto simp: entry_files_def wf_listing_def split: prod.split)
  qed
  then have d: "distinct (map fst (listing_files [] es))" by (simp add: listing_files_def map_concat o_def)
  have "q \<noteq> [] \<and> list_all name_ok q" if q: "(q, x) \<in> set (listing_files [] es)" for q x
  proof -
    from q obtain n y where e: "(n, y) \<in> set es" "(q, x) \<in> set (node_files y [n])"
      by (auto simp: listing_files_def entry_files_def split: if_splits)
    with wf have "wf_node y" "name_ok n" by (auto simp: wf_listing_def)
    with node_files_below [OF e(2)] show ?thesis by auto
  qed
  then have "inj_on relative (set (map fst (listing_files [] es)))"
    by (intro inj_onI relative_inject) auto
  with d have "distinct (map relative (map fst (listing_files [] es)))" unfolding distinct_map [of relative] ..
  then show ?thesis by (simp only: mounted_files_def named_def map_map fst_comp_map_prod)
qed

lemma keys_inj: "distinct (map fst xs) \<Longrightarrow> inj_on fst (set xs)"
  by (simp add: distinct_map)

text \<open>
  C17: The stack walk of \<open>_capture_source_files\<close>, with its counter of files and its checks on the way, returns
  exactly the files of the tree outside \<^verbatim>\<open>.git\<close> in path order, and raises \<open>ValueError\<close> exactly when an entry is
  not acceptable (a hard link, a special file, an unreadable file or directory, a symbolic link or \<^verbatim>\<open>.git\<close> of an
  archive, a \<^verbatim>\<open>.git\<close> that is not a plain file), there is no file or there are too many.\<close>

theorem capture_is_the_listing:
  assumes "wf_listing es"
  shows "capture_source_files git links (Some es) =
     (if mount_ok git links es then Inr (sort_key fst (mounted_files es)) else Inl ValueError)"
proof -
  have files: "pend_files [([], Some es)] = mounted_files es" by (simp add: mounted_files_def)
  note keys = wf_listing_keys [OF assms]
  have r: "loop_result git links [] [([], Some es)] (capture_loop git links [] [([], Some es)])"
    by (rule capture_loop_spec) (simp_all add: files keys del: pend_simps(3))
  show ?thesis
  proof (cases "list_all (entry_ok git links []) es \<and> length (mounted_files es) \<le> MAX_SOURCE_FILES")
    case True
    with r obtain fs where fs: "capture_loop git links [] [([], Some es)] = Inr fs" "mset fs = mset (mounted_files es)"
      by (auto simp: loop_result_def mounted_files_def)
    have "sorted (map fst (sort_key fst (mounted_files es)))" by simp
    then have "sort_key fst fs = sort_key fst (mounted_files es)"
      by (intro sort_key_inj_key_eq) (use fs keys_inj keys distinct_keys_mset [OF fs(2)] in auto)
    moreover have "fs = [] \<longleftrightarrow> mounted_files es = []" using fs(2) by (metis mset_zero_iff)
    ultimately show ?thesis using True by (simp add: capture_source_files_def fs(1) mount_ok_def)
  next
    case False
    with r have "capture_loop git links [] [([], Some es)] = Inl ValueError"
      by (auto simp: loop_result_def mounted_files_def)
    with False show ?thesis by (auto simp: capture_source_files_def mount_ok_def)
  qed
qed

lemma identity_verified_iff:
  assumes "wf_listing es"
  shows "verify_source_identity (Some es) i mode = Inr () \<longleftrightarrow>
    mount_ok (mode \<noteq> ''archive-ro'') (mode \<noteq> ''archive-ro'') es \<and> set (si_files i) = set (mounted_files es)"
  unfolding verify_source_identity_def Let_def capture_is_the_listing [OF assms]
  by (auto simp: same_files_def)

definition plain_stat :: stat_info where
  "plain_stat = \<lparr>st_mode = 33188, st_dev = 1, st_ino = 1, st_nlink = 1, st_size = 1, st_mtime_ns = 0\<rparr>"

definition demo_tree :: listing where
  "demo_tree = [(''src'', Directory plain_stat (Some [(''b.py'', Regular plain_stat (Some ''h1''))])),
     (''.git'', Regular plain_stat None), (''a.py'', Regular plain_stat (Some ''h2''))]"

theorem capture_is_the_listing_witness:
  "wf_listing demo_tree \<and>
   capture_source_files True False (Some demo_tree) = Inr [(''a.py'', ''h2''), (''src/b.py'', ''h1'')] \<and>
   capture_source_files False False (Some demo_tree) = Inl ValueError"
proof -
  have wf: "wf_listing demo_tree" by code_simp
  have files: "mounted_files demo_tree = [(''src/b.py'', ''h1''), (''a.py'', ''h2'')]" by code_simp
  then have sorted: "sort_key fst (mounted_files demo_tree) = [(''a.py'', ''h2''), (''src/b.py'', ''h1'')]" by code_simp
  have "list_all (entry_ok True False []) demo_tree" "\<not> list_all (entry_ok False False []) demo_tree" by code_simp+
  then have "mount_ok True False demo_tree" "\<not> mount_ok False False demo_tree"
    by (simp_all add: mount_ok_def files MAX_SOURCE_FILES_def)
  with capture_is_the_listing [OF wf] wf sorted show ?thesis by simp
qed

end
