(* ===== verification/Exec_Policy.thy ===== *)
theory Exec_Policy
  imports Source_Capture
begin

text \<open>
  The policy of an execution in \<^verbatim>\<open>scripts/_execution.py\<close>: \<open>_validate_policy\<close> with the benchmark profile and the
  engine identity, the digest of a configuration, and the argument vector of the backend.

  The files outside the mount are the parameter \<open>disk\<close>: what a path resolves to (\<open>None\<close>: \<open>OSError\<close>), which
  paths are symbolic links or directories, what reading a regular file gives, the mounted trees and \<open>json.loads\<close>.
\<close>

datatype exec_error = ExecutionError | DeadlineExceeded | OSError | KeyboardInterrupt | UnboundLocalError | Raised value_error

definition raised :: "value_error + 'a \<Rightarrow> exec_error + 'a" where
  "raised r = (case r of Inl e \<Rightarrow> Inl (Raised e) | Inr x \<Rightarrow> Inr x)"

lemma raised_simps [simp]: "raised (Inl e) = Inl (Raised e)" "raised (Inr x) = Inr x"
  by (simp_all add: raised_def)

lemma raised_Inr [simp]: "raised r = Inr x \<longleftrightarrow> r = Inr x"
  by (cases r) auto

abbreviation invalid :: "exec_error + 'a" where
  "invalid \<equiv> Inl (Raised ValueError)"

definition require :: "bool \<Rightarrow> exec_error + unit" where
  "require b = guard b (Raised ValueError)"

lemma require_Inr [simp]: "require b = Inr u \<longleftrightarrow> b"
  by (simp add: require_def)

lemma bind_require [simp]: "bind_res (require b) f = (if b then f () else invalid)"
  by (simp add: require_def)

record disk =
  dk_symlink :: "string \<Rightarrow> bool"
  dk_resolve :: "string \<Rightarrow> path option"
  dk_dir :: "path \<Rightarrow> bool"
  dk_file :: "path \<Rightarrow> exec_error + string"
  dk_tree :: "path \<Rightarrow> listing option"
  dk_stat :: "string \<Rightarrow> stat_info option"
  dk_loads :: json_loads

subsection \<open>Paths and files\<close>

definition path_text :: "path \<Rightarrow> string" where
  "path_text p = CHR ''/'' # join_with ''/'' p"

text \<open>\<open>str(Path(s))\<close> of an absolute path: exactly two leading slashes stay.\<close>

definition posix_absolute :: "string \<Rightarrow> string" where
  "posix_absolute s =
     (if starts_with s ''//'' \<and> \<not> starts_with s ''///'' then ''//'' else ''/'') @ join_with ''/'' (path_parts s)"

definition same_path :: "string \<Rightarrow> path \<Rightarrow> bool" where
  "same_path s p \<longleftrightarrow> posix_absolute s = path_text p"

definition absolute :: "string \<Rightarrow> bool" where
  "absolute s \<longleftrightarrow> starts_with s ''/''"

definition read_bounded :: "disk \<Rightarrow> path \<Rightarrow> nat \<Rightarrow> exec_error + string" where
  "read_bounded k p n = bind_res (dk_file k p) (\<lambda>s. if n < length s then Inl ExecutionError else Inr s)"

definition resolve_strict :: "disk \<Rightarrow> string \<Rightarrow> exec_error + path" where
  "resolve_strict k s = (case dk_resolve k s of None \<Rightarrow> Inl OSError | Some p \<Rightarrow> Inr p)"

definition existing_dir :: "disk \<Rightarrow> pyval \<Rightarrow> exec_error + path" where
  "existing_dir k v = (case v of
       PStr s \<Rightarrow>
         if absolute s \<and> utf8_length (posix_absolute s) \<le> MAX_PATH_BYTES
         then (case dk_resolve k s of None \<Rightarrow> invalid | Some p \<Rightarrow> if dk_dir k p then Inr p else invalid)
         else invalid
     | _ \<Rightarrow> invalid)"

definition engine_check :: "hashing \<Rightarrow> disk \<Rightarrow> string \<Rightarrow> string \<Rightarrow> string + string" where
  "engine_check hs k p sha =
     (if \<not> absolute p \<or> dk_symlink k p then Inl ''engine_path_not_canonical''
      else (case dk_resolve k p of
          None \<Rightarrow> Inl ''engine_unavailable''
        | Some q \<Rightarrow> (case dk_file k q of
            Inl _ \<Rightarrow> Inl ''engine_unavailable''
          | Inr bytes \<Rightarrow>
              if \<not> same_path p q then Inl ''engine_path_not_canonical''
              else if hs_sha hs bytes \<noteq> sha then Inl ''engine_identity_mismatch'' else Inr p)))"

text \<open>\<open>_engine_identity\<close>: the reason the engine is unavailable, or its path.\<close>

definition engine_identity :: "hashing \<Rightarrow> disk \<Rightarrow> dict \<Rightarrow> exec_error + (string + string)" where
  "engine_identity hs k d = (case (getv d ''canonical_engine_path'', getv d ''engine_sha256'') of
       (PStr p, PStr sha) \<Rightarrow> if sha256_text sha then Inr (engine_check hs k p sha) else invalid
     | _ \<Rightarrow> invalid)"

definition bounded_json_file :: "hashing \<Rightarrow> disk \<Rightarrow> pyval \<Rightarrow> path \<Rightarrow> path \<Rightarrow> exec_error + dict \<times> string" where
  "bounded_json_file hs k v cwd scratch = (case v of
       PStr s \<Rightarrow>
         bind_res (require (absolute s \<and> \<not> dk_symlink k s)) (\<lambda>_.
         bind_res (resolve_strict k s) (\<lambda>p.
         bind_res (require (\<not> is_within p cwd \<and> \<not> is_within p scratch)) (\<lambda>_.
         bind_res (read_bounded k p 65536) (\<lambda>raw.
         case dk_loads k raw of Some (PDict d) \<Rightarrow> Inr (d, hs_sha hs raw) | _ \<Rightarrow> invalid))))
     | _ \<Rightarrow> invalid)"

subsection \<open>The benchmark profile\<close>

definition name_char :: "char \<Rightarrow> bool" where
  "name_char c \<longleftrightarrow> env_rest c \<or> c \<in> {CHR ''.'', CHR ''-''}"

definition bugsweep_name :: "string \<Rightarrow> bool" where
  "bugsweep_name s \<longleftrightarrow> starts_with s ''bugsweep-'' \<and>
     1 \<le> length (drop 9 s) \<and> length (drop 9 s) \<le> 100 \<and> list_all name_char (drop 9 s)"

definition str_that :: "(string \<Rightarrow> bool) \<Rightarrow> pyval \<Rightarrow> bool" where
  "str_that P v \<longleftrightarrow> (case v of PStr s \<Rightarrow> P s | _ \<Rightarrow> False)"

text \<open>A mapping with exactly these keys.\<close>

definition exact_dict :: "string list \<Rightarrow> pyval \<Rightarrow> exec_error + dict" where
  "exact_dict ks v = (case v of PDict d \<Rightarrow> if set (map fst d) = set ks then Inr d else invalid | _ \<Rightarrow> invalid)"

definition identity_pair :: "pyval \<Rightarrow> exec_error + dict" where
  "identity_pair v =
     bind_res (exact_dict [''name'', ''id''] v) (\<lambda>d.
     bind_res (require (str_that bugsweep_name (getv d ''name'') \<and> str_that sha256_text (getv d ''id''))) (\<lambda>_.
     Inr [(''name'', getv d ''name''), (''id'', getv d ''id'')]))"

definition proxy_identity :: "pyval \<Rightarrow> exec_error + dict" where
  "proxy_identity v =
     bind_res (exact_dict [''container_name'', ''container_id'', ''image_digest''] v) (\<lambda>d.
     bind_res (require (str_that bugsweep_name (getv d ''container_name'') \<and>
       str_that sha256_text (getv d ''container_id'') \<and> str_that sha256_text (getv d ''image_digest''))) (\<lambda>_. Inr d))"

definition upstream_of :: "string \<Rightarrow> string \<times> string" where
  "upstream_of host =
     (if host = ''claude'' then (''api.anthropic.com'', ''/v1/messages'') else (''api.openai.com'', ''/v1/responses''))"

definition profile_upstream :: "string \<Rightarrow> pyval \<Rightarrow> exec_error + dict" where
  "profile_upstream host v =
     bind_res (exact_dict [''host'', ''allowed_paths''] v) (\<lambda>d.
     bind_res (require (getv d ''host'' = PStr (fst (upstream_of host)) \<and>
       py_eq (getv d ''allowed_paths'') (PList [PStr (snd (upstream_of host))]))) (\<lambda>_. Inr d))"

definition profile_analysis :: "pyval \<Rightarrow> exec_error + dict" where
  "profile_analysis v =
     bind_res (exact_dict [''entrypoint'', ''entrypoint_sha256''] v) (\<lambda>d.
     bind_res (require (getv d ''entrypoint'' = PStr ''/usr/local/bin/bench-host-adapter'' \<and>
       str_that sha256_text (getv d ''entrypoint_sha256''))) (\<lambda>_. Inr d))"

definition INERT :: string where
  "INERT = ''benchmark-inert-client-credential''"

definition profile_client :: "pyval \<Rightarrow> exec_error + dict" where
  "profile_client v = (case v of
       PDict d \<Rightarrow> if py_eq v (PDict [(''inert_credential_literal'', PStr INERT)]) then Inr d else invalid
     | _ \<Rightarrow> invalid)"

definition profile_arm :: "string \<times> pyval \<Rightarrow> exec_error + string \<times> pyval" where
  "profile_arm kv = (case kv of (arm, v) \<Rightarrow>
     bind_res (exact_dict [''skill_revision'', ''skill_content_sha256''] v) (\<lambda>d.
     bind_res (require (str_that (\<lambda>s. s \<noteq> [] \<and> length s \<le> 128) (getv d ''skill_revision'') \<and>
       str_that sha256_text (getv d ''skill_content_sha256''))) (\<lambda>_.
     Inr (arm, PDict [(''skill_revision'', getv d ''skill_revision''), (''skill_content_sha256'', getv d ''skill_content_sha256'')]))))"

definition profile_arms :: "pyval \<Rightarrow> exec_error + dict" where
  "profile_arms v = bind_res (exact_dict [''current'', ''previous'', ''baseline''] v) (map_res profile_arm)"

text \<open>\<open>isinstance(v, (int, float))\<close>, not a \<open>bool\<close>, \<open>math.isfinite(v)\<close> and a test; \<open>isfinite\<close> of an integer
  beyond the floats raises \<open>OverflowError\<close>.  Several such limits are read in the order of the list.\<close>

definition finite_that :: "(rat \<Rightarrow> bool) \<Rightarrow> pyval \<Rightarrow> exec_error + bool" where
  "finite_that P v = (case v of
       PInt i \<Rightarrow> if \<bar>i\<bar> < 2 ^ 1024 - 2 ^ 970 then Inr (P (of_int i)) else Inl (Raised OverflowError)
     | PFloat (Fin q) \<Rightarrow> Inr (P q)
     | _ \<Rightarrow> Inr False)"

definition NUMERIC_LIMITS :: "string list" where
  "NUMERIC_LIMITS = [''wall_clock_seconds'', ''max_turns'', ''max_input_tokens'', ''max_output_tokens'', ''max_spend_usd'']"

fun require_all :: "(exec_error + bool) list \<Rightarrow> exec_error + unit" where
  "require_all [] = Inr ()"
| "require_all (r # rs) = bind_res r (\<lambda>b. bind_res (require b) (\<lambda>_. require_all rs))"

definition profile_limits :: "pyval \<Rightarrow> exec_error + dict" where
  "profile_limits v =
     bind_res (exact_dict (''enforcement'' # NUMERIC_LIMITS) v) (\<lambda>d.
     bind_res (require_all (map (\<lambda>n. finite_that (\<lambda>q. 0 < q) (getv d n)) NUMERIC_LIMITS)) (\<lambda>_.
     bind_res (exact_dict NUMERIC_LIMITS (getv d ''enforcement'')) (\<lambda>e.
     bind_res (require (list_all (\<lambda>kv. str_that (\<lambda>s. s \<noteq> [] \<and> length s \<le> 256) (snd kv)) e)) (\<lambda>_. Inr d))))"

definition profile_receipt_ref :: "pyval \<Rightarrow> exec_error + dict" where
  "profile_receipt_ref v =
     bind_res (exact_dict [''path'', ''sha256'', ''schema_version'', ''owner''] v) (\<lambda>d.
     bind_res (require (py_eq (getv d ''schema_version'') (PInt 1) \<and> getv d ''owner'' = PStr ''bench/lib/proxy.sh'')) (\<lambda>_.
     Inr d))"

record profile =
  p_host :: string
  p_ref :: dict
  p_internal :: dict
  p_egress :: dict
  p_proxy :: dict
  p_upstream :: dict
  p_analysis :: dict
  p_client :: dict
  p_arms :: dict
  p_limits :: dict

definition PROFILE_FIELDS :: "string list" where
  "PROFILE_FIELDS = [''host'', ''proxy_receipt'', ''internal_network'', ''egress_network'', ''proxy'', ''upstream'',
     ''analysis'', ''client'', ''arms'', ''limits'']"

definition profile_host :: "pyval \<Rightarrow> exec_error + string" where
  "profile_host v = bind_res (raised (in_set [''claude'', ''codex''] v)) (\<lambda>b. case v of PStr s \<Rightarrow> if b then Inr s else invalid | _ \<Rightarrow> invalid)"

definition read_profile :: "dict \<Rightarrow> exec_error + profile" where
  "read_profile d =
     bind_res (profile_host (getv d ''host'')) (\<lambda>host.
     bind_res (identity_pair (getv d ''internal_network'')) (\<lambda>internal.
     bind_res (identity_pair (getv d ''egress_network'')) (\<lambda>egress.
     bind_res (require (internal \<noteq> egress)) (\<lambda>_.
     bind_res (proxy_identity (getv d ''proxy'')) (\<lambda>proxy.
     bind_res (profile_upstream host (getv d ''upstream'')) (\<lambda>upstream.
     bind_res (profile_analysis (getv d ''analysis'')) (\<lambda>analysis.
     bind_res (profile_client (getv d ''client'')) (\<lambda>client.
     bind_res (profile_arms (getv d ''arms'')) (\<lambda>arms.
     bind_res (profile_limits (getv d ''limits'')) (\<lambda>limits.
     bind_res (profile_receipt_ref (getv d ''proxy_receipt'')) (\<lambda>ref.
     Inr \<lparr>p_host = host, p_ref = ref, p_internal = internal, p_egress = egress, p_proxy = proxy, p_upstream = upstream,
          p_analysis = analysis, p_client = client, p_arms = arms, p_limits = limits\<rparr>)))))))))))"

text \<open>The receipt the proxy's launcher wrote must name the same identities.\<close>

definition receipt_names :: "profile \<Rightarrow> dict \<Rightarrow> bool" where
  "receipt_names p r \<longleftrightarrow>
     py_eq (getv r ''schema_version'') (PInt 1) \<and> getv r ''owner'' = PStr ''bench/lib/proxy.sh'' \<and>
     getv r ''host'' = PStr (p_host p) \<and> py_eq (getv r ''internal_network'') (PDict (p_internal p)) \<and>
     py_eq (getv r ''egress_network'') (PDict (p_egress p)) \<and>
     (case getv r ''proxy'' of
        PDict x \<Rightarrow> list_all (\<lambda>n. py_eq (getv x n) (getv (p_proxy p) n)) [''container_name'', ''container_id'']
      | _ \<Rightarrow> False) \<and>
     py_eq (getv r ''upstream'') (PDict [(''host'', getv (p_upstream p) ''host''),
       (''allowed_paths'', getv (p_upstream p) ''allowed_paths'')])"

definition secret_boundary :: pyval where
  "secret_boundary = PDict [(''mount'', PStr ''/run/secrets/provider-key''), (''mode'', PStr ''0600''),
     (''outside_target_and_results'', PBool True)]"

definition proxy_policy_ok :: "dict \<Rightarrow> bool" where
  "proxy_policy_ok d \<longleftrightarrow> set (map fst d) = {''mount'', ''sha256'', ''nonsecret''} \<and>
     getv d ''mount'' = PStr ''/etc/bugsweep/proxy-policy.json'' \<and> str_that sha256_text (getv d ''sha256'') \<and>
     getv d ''nonsecret'' = PBool True"

definition receipt_boundaries :: "dict \<Rightarrow> exec_error + dict" where
  "receipt_boundaries r =
     bind_res (require (py_eq (getv r ''secret'') secret_boundary)) (\<lambda>_.
     case getv r ''policy'' of PDict d \<Rightarrow> if proxy_policy_ok d then Inr d else invalid | _ \<Rightarrow> invalid)"

definition image_id :: "dict \<Rightarrow> string" where
  "image_id proxy = ''sha256:'' @ (case getv proxy ''image_digest'' of PStr s \<Rightarrow> s | _ \<Rightarrow> [])"

definition proxy_image :: "dict \<Rightarrow> pyval" where
  "proxy_image r = (case getv r ''proxy'' of PDict x \<Rightarrow> getv x ''image_digest'' | _ \<Rightarrow> PNone)"

definition profile_dict :: "profile \<Rightarrow> dict \<Rightarrow> dict" where
  "profile_dict p pol =
     [(''host'', PStr (p_host p)), (''proxy_receipt'', PDict (p_ref p)), (''internal_network'', PDict (p_internal p)),
      (''egress_network'', PDict (p_egress p)), (''proxy'', PDict (p_proxy p)),
      (''proxy_image_id'', PStr (image_id (p_proxy p))), (''upstream'', PDict (p_upstream p)),
      (''analysis'', PDict (p_analysis p)), (''client'', PDict (p_client p)), (''arms'', PDict (p_arms p)),
      (''limits'', PDict (p_limits p)), (''proxy_policy'', PDict pol)]"

definition validate_benchmark_profile :: "hashing \<Rightarrow> disk \<Rightarrow> pyval \<Rightarrow> path \<Rightarrow> path \<Rightarrow> exec_error + dict" where
  "validate_benchmark_profile hs k v cwd scratch =
     bind_res (exact_dict PROFILE_FIELDS v) (\<lambda>d.
     bind_res (read_profile d) (\<lambda>p.
     bind_res (bounded_json_file hs k (getv (p_ref p) ''path'') cwd scratch) (\<lambda>(r, sha).
     bind_res (require (getv (p_ref p) ''sha256'' = PStr sha \<and> receipt_names p r)) (\<lambda>_.
     bind_res (receipt_boundaries r) (\<lambda>pol.
     bind_res (require (proxy_image r = PStr (image_id (p_proxy p)) \<and> py_eq (getv r ''limits'') (PDict (p_limits p)))) (\<lambda>_.
     Inr (profile_dict p pol)))))))"

subsection \<open>The policy\<close>

definition COMMON_FIELDS :: "string list" where
  "COMMON_FIELDS = [''schema_version'', ''mode'', ''backend'', ''canonical_engine_path'', ''engine_sha256'', ''target_root'',
     ''scratch_root'', ''source_identity'', ''term_grace_seconds'']"

definition DOCKER_FIELDS :: "string list" where
  "DOCKER_FIELDS = COMMON_FIELDS @ [''image'', ''uid'', ''pids_limit'', ''memory_bytes'', ''cpus'', ''network_mode'',
     ''image_env_allowlist'', ''benchmark_profile'', ''source_mount_mode'']"

text \<open>The pair of mode and backend is looked up in a set, so both must be hashable.\<close>

definition policy_backend :: "dict \<Rightarrow> exec_error + string" where
  "policy_backend d =
     bind_res (require (py_eq (getv d ''schema_version'') (PInt 1))) (\<lambda>_.
     if \<not> hashable (getv d ''mode'') \<or> \<not> hashable (getv d ''backend'') then Inl (Raised TypeError)
     else if getv d ''mode'' = PStr ''required-untrusted'' \<and> getv d ''backend'' = PStr ''docker'' then Inr ''docker''
     else if getv d ''mode'' = PStr ''trusted-worktree'' \<and> getv d ''backend'' = PStr ''native'' then Inr ''native''
     else invalid)"

definition policy_fields_ok :: "string \<Rightarrow> dict \<Rightarrow> bool" where
  "policy_fields_ok backend d \<longleftrightarrow>
     set (map fst d) \<subseteq> set (if backend = ''docker'' then DOCKER_FIELDS else COMMON_FIELDS)"

definition policy_roots :: "disk \<Rightarrow> dict \<Rightarrow> path \<Rightarrow> exec_error + path" where
  "policy_roots k d cwd =
     bind_res (existing_dir k (getv d ''target_root'')) (\<lambda>target.
     bind_res (require (target = cwd)) (\<lambda>_.
     bind_res (existing_dir k (getv d ''scratch_root'')) (\<lambda>scratch.
     bind_res (require (\<not> is_within scratch cwd \<and> \<not> is_within cwd scratch)) (\<lambda>_. Inr scratch))))"

definition policy_grace :: "dict \<Rightarrow> exec_error + unit" where
  "policy_grace d = bind_res (finite_that (\<lambda>q. 0 \<le> q \<and> q \<le> 30) (getv d ''term_grace_seconds'')) require"

definition image_char :: "char \<Rightarrow> bool" where
  "image_char c \<longleftrightarrow> env_rest c \<or> c \<in> {CHR ''.'', CHR ''/'', CHR '':'', CHR ''+'', CHR ''-''}"

definition image_name :: "string \<Rightarrow> bool" where
  "image_name s \<longleftrightarrow> (case s of [] \<Rightarrow> False
     | c # cs \<Rightarrow> env_rest c \<and> c \<noteq> CHR ''_'' \<and> list_all image_char cs \<and> length cs \<le> 511)"

text \<open>The digest an image is pinned by (\<open>_IMAGE_RE\<close>).\<close>

definition image_digest :: "string \<Rightarrow> string option" where
  "image_digest s = (case partition_on (CHR ''@'') s of (n, found, r) \<Rightarrow>
     if found \<and> image_name n \<and> starts_with r ''sha256:'' \<and> sha256_text (drop 7 r) then Some (drop 7 r) else None)"

definition positive_decimal :: "string \<Rightarrow> bool" where
  "positive_decimal s \<longleftrightarrow> s \<noteq> [] \<and> length s \<le> 10 \<and> list_all (\<lambda>c. digit_val c \<noteq> None) s \<and> hd s \<noteq> CHR ''0''"

definition nonroot_uid :: "string \<Rightarrow> bool" where
  "nonroot_uid s \<longleftrightarrow> (case partition_on (CHR '':'') s of (u, found, g) \<Rightarrow> found \<and> positive_decimal u \<and> positive_decimal g)"

definition int_between :: "int \<Rightarrow> int \<Rightarrow> pyval \<Rightarrow> bool" where
  "int_between lo hi v \<longleftrightarrow> (case v of PInt i \<Rightarrow> lo \<le> i \<and> i \<le> hi | _ \<Rightarrow> False)"

text \<open>The float the literal \<open>0.1\<close> denotes.\<close>

definition TENTH :: rat where
  "TENTH = Fract 3602879701896397 36028797018963968"

definition policy_limits :: "dict \<Rightarrow> exec_error + unit" where
  "policy_limits d =
     bind_res (require (str_that (\<lambda>s. image_digest s \<noteq> None) (getv d ''image''))) (\<lambda>_.
     bind_res (require (str_that nonroot_uid (getv d ''uid''))) (\<lambda>_.
     bind_res (require (int_between 2 4096 (getv d ''pids_limit''))) (\<lambda>_.
     bind_res (require (int_between 16777216 68719476736 (getv d ''memory_bytes''))) (\<lambda>_.
     bind_res (finite_that (\<lambda>q. TENTH \<le> q \<and> q \<le> 64) (getv d ''cpus'')) require))))"

definition mount_mode :: "dict \<Rightarrow> exec_error + string" where
  "mount_mode d = (let v = dict_get d ''source_mount_mode'' (PStr ''worktree-rw'')
     in bind_res (raised (in_set [''worktree-rw'', ''archive-ro''] v)) (\<lambda>b.
        case v of PStr s \<Rightarrow> if b then Inr s else invalid | _ \<Rightarrow> invalid))"

definition network_mode :: "dict \<Rightarrow> exec_error + string" where
  "network_mode d = (let v = getv d ''network_mode''
     in bind_res (raised (in_set [''none'', ''approved-proxy-only''] v)) (\<lambda>b.
        case v of PStr s \<Rightarrow> if b then Inr s else invalid | _ \<Rightarrow> invalid))"

definition policy_network :: "hashing \<Rightarrow> disk \<Rightarrow> dict \<Rightarrow> path \<Rightarrow> path \<Rightarrow> string \<Rightarrow> dict \<Rightarrow> exec_error + dict" where
  "policy_network hs k d cwd scratch mode n =
     bind_res (network_mode d) (\<lambda>net.
     if net = ''none'' then (if getv d ''benchmark_profile'' = PNone then Inr n else invalid)
     else bind_res (require (mode = ''archive-ro'')) (\<lambda>_.
          bind_res (validate_benchmark_profile hs k (getv d ''benchmark_profile'') cwd scratch) (\<lambda>p.
          Inr (AList.update ''benchmark_profile'' (PDict p) n))))"

definition docker_policy ::
    "hashing \<Rightarrow> disk \<Rightarrow> dict \<Rightarrow> path \<Rightarrow> path \<Rightarrow> source_identity \<Rightarrow> dict \<Rightarrow> exec_error + dict" where
  "docker_policy hs k d cwd scratch i n =
     bind_res (mount_mode d) (\<lambda>mode.
     bind_res (raised (verify_source_identity (dk_tree k cwd) i mode)) (\<lambda>_.
     bind_res (policy_limits d) (\<lambda>_.
     bind_res (raised (validate_environment (getv d ''image_env_allowlist''))) (\<lambda>e.
     policy_network hs k d cwd scratch mode
       (AList.update ''image_env_allowlist'' (PDict (env_dict e)) (AList.update ''source_mount_mode'' (PStr mode) n))))))"

definition rooted :: "dict \<Rightarrow> path \<Rightarrow> path \<Rightarrow> source_identity \<Rightarrow> dict" where
  "rooted d cwd scratch i =
     AList.update ''source_identity'' (identity_value i)
       (AList.update ''scratch_root'' (PStr (path_text scratch)) (AList.update ''target_root'' (PStr (path_text cwd)) d))"

definition validate_policy_dict ::
    "hashing \<Rightarrow> disk \<Rightarrow> dict \<Rightarrow> path \<Rightarrow> exec_error + dict \<times> path \<times> (string + string)" where
  "validate_policy_dict hs k d cwd =
     bind_res (policy_backend d) (\<lambda>backend.
     bind_res (require (policy_fields_ok backend d)) (\<lambda>_.
     bind_res (policy_roots k d cwd) (\<lambda>scratch.
     bind_res (raised (validate_source_identity hs (getv d ''source_identity''))) (\<lambda>i.
     bind_res (policy_grace d) (\<lambda>_.
     bind_res (if backend = ''docker'' then docker_policy hs k d cwd scratch i (rooted d cwd scratch i)
               else bind_res (raised (verify_source_identity (dk_tree k cwd) i ''worktree-rw''))
                      (\<lambda>_. Inr (rooted d cwd scratch i))) (\<lambda>n.
     bind_res (engine_identity hs k n) (\<lambda>e. Inr (n, scratch, e))))))))"

definition validate_policy ::
    "hashing \<Rightarrow> disk \<Rightarrow> pyval \<Rightarrow> path \<Rightarrow> exec_error + dict \<times> path \<times> (string + string)" where
  "validate_policy hs k v cwd = (case v of PDict d \<Rightarrow> validate_policy_dict hs k d cwd | _ \<Rightarrow> invalid)"

subsection \<open>The digest of a configuration\<close>

definition stable_profile :: "dict \<Rightarrow> value_error + pyval" where
  "stable_profile p =
     bind_res (subscript (PDict p) ''proxy'') (\<lambda>x.
     bind_res (subscript x ''image_digest'') (\<lambda>y.
     Inr (PDict (AList.update ''proxy_image_digest'' y
       (filter (\<lambda>kv. fst kv \<notin> {''proxy_receipt'', ''internal_network'', ''egress_network'', ''proxy''}) p)))))"

definition stable_policy :: "dict \<Rightarrow> value_error + dict" where
  "stable_policy d =
     (let s = filter (\<lambda>kv. fst kv \<notin> {''source_identity'', ''target_root'', ''scratch_root''}) d
      in case getv s ''benchmark_profile'' of
           PDict p \<Rightarrow> bind_res (stable_profile p) (\<lambda>v. Inr (AList.update ''benchmark_profile'' v s))
         | _ \<Rightarrow> Inr s)"

definition execution_config_sha256 :: "hashing \<Rightarrow> dict \<Rightarrow> outfile list \<Rightarrow> value_error + string" where
  "execution_config_sha256 hs d xs =
     bind_res (stable_policy d) (\<lambda>s.
     json_digest hs (PDict [(''policy'', PDict s), (''outputs'', PList (map output_value xs))]))"

subsection \<open>The argument vector\<close>

definition container_name_ok :: "string \<Rightarrow> bool" where
  "container_name_ok s \<longleftrightarrow> starts_with s ''bugsweep-'' \<and> length (drop 9 s) = 32 \<and>
     list_all (\<lambda>c. c \<in> set ''0123456789abcdef'') (drop 9 s)"

fun text_of :: "pyval \<Rightarrow> string" where
  "text_of (PStr s) = s"
| "text_of _ = []"

fun dict_of :: "pyval \<Rightarrow> dict" where
  "dict_of (PDict d) = d"
| "dict_of _ = []"

definition env_of :: "pyval \<Rightarrow> env" where
  "env_of v = map (\<lambda>(k, x). (k, text_of x)) (dict_of v)"

text \<open>\<open>str(n)\<close> of a number.\<close>

definition number_text :: "hashing \<Rightarrow> pyval \<Rightarrow> string" where
  "number_text hs v = (case v of PInt i \<Rightarrow> int_str i | PFloat f \<Rightarrow> hs_frepr hs f | _ \<Rightarrow> [])"

text \<open>What a benchmark profile adds to the environment: an inert credential and the address of the proxy.\<close>

definition profile_env :: "dict \<Rightarrow> env \<Rightarrow> env" where
  "profile_env p e =
     AList.update ''BUGSWEEP_PROXY_URL''
       (''http://'' @ text_of (getv (dict_of (getv p ''proxy'')) ''container_name'') @ '':8888'')
       (AList.update (if getv p ''host'' = PStr ''claude'' then ''ANTHROPIC_API_KEY'' else ''OPENAI_API_KEY'') INERT e)"

definition container_env :: "dict \<Rightarrow> env \<Rightarrow> env" where
  "container_env n e =
     (let t = target_environment e (env_of (getv n ''image_env_allowlist'')) ''/bugsweep-output''
      in if getv n ''network_mode'' = PStr ''approved-proxy-only''
         then profile_env (dict_of (getv n ''benchmark_profile'')) t else t)"

definition container_network :: "dict \<Rightarrow> string" where
  "container_network n =
     (if getv n ''network_mode'' = PStr ''approved-proxy-only''
      then text_of (getv (dict_of (getv (dict_of (getv n ''benchmark_profile'')) ''internal_network'')) ''name'') else ''none'')"

definition docker_argv :: "hashing \<Rightarrow> dict \<Rightarrow> string \<Rightarrow> string list \<Rightarrow> path \<Rightarrow> path \<Rightarrow> string \<Rightarrow> env \<Rightarrow> string list" where
  "docker_argv hs n engine argv target scratch name e =
     [engine, ''create'', ''--name'', name, ''--label'', ''org.bugsweep.invocation='' @ drop 9 name,
      ''--network'', container_network n, ''--ipc'', ''none'', ''--cap-drop'', ''ALL'',
      ''--security-opt'', ''no-new-privileges:true'', ''--pids-limit'', number_text hs (getv n ''pids_limit''),
      ''--memory'', number_text hs (getv n ''memory_bytes''), ''--memory-swap'', number_text hs (getv n ''memory_bytes''),
      ''--cpus'', number_text hs (getv n ''cpus''), ''--user'', text_of (getv n ''uid''), ''--read-only'',
      ''--tmpfs'', ''/tmp:rw,noexec,nosuid,nodev,size=67108864'',
      ''--mount'', ''type=bind,src='' @ path_text target @
        (if getv n ''source_mount_mode'' = PStr ''archive-ro'' then '',dst=/workspace,readonly'' else '',dst=/workspace,rw''),
      ''--mount'', ''type=bind,src='' @ path_text scratch @ '',dst=/bugsweep-output,rw'',
      ''--workdir'', ''/workspace'', ''--entrypoint'', hd argv] @
     concat (map (\<lambda>(k, v). [''--env'', k @ ''='' @ v]) (sort_key fst (container_env n e))) @
     text_of (getv n ''image'') # tl argv"

definition mountable :: "path \<Rightarrow> path \<Rightarrow> bool" where
  "mountable target scratch \<longleftrightarrow>
     list_all (\<lambda>c. c \<notin> {CHR '','', CHR 0x0A, CHR 0x0D}) (path_text target @ path_text scratch)"

definition native_argv :: "disk \<Rightarrow> string \<Rightarrow> string list \<Rightarrow> exec_error + string list" where
  "native_argv k engine argv =
     bind_res (require (absolute (hd argv) \<and> \<not> dk_symlink k (hd argv))) (\<lambda>_.
     bind_res (resolve_strict k (hd argv)) (\<lambda>p.
     bind_res (require (same_path engine p)) (\<lambda>_. Inr argv)))"

definition build_backend_argv ::
    "hashing \<Rightarrow> disk \<Rightarrow> pyval \<Rightarrow> string \<Rightarrow> string \<Rightarrow> pyval \<Rightarrow> string \<Rightarrow> pyval \<Rightarrow> exec_error + string list" where
  "build_backend_argv hs k command cwd scratch policy name e =
     bind_res (raised (validate_command command)) (\<lambda>argv.
     bind_res (existing_dir k (PStr cwd)) (\<lambda>target.
     bind_res (existing_dir k (PStr scratch)) (\<lambda>sc.
     bind_res (validate_policy hs k policy target) (\<lambda>(n, top_scratch, eng).
     case eng of
       Inl _ \<Rightarrow> Inl ExecutionError
     | Inr engine \<Rightarrow>
         bind_res (require (is_within sc top_scratch \<and> sc \<noteq> top_scratch)) (\<lambda>_.
         bind_res (raised (validate_environment e)) (\<lambda>ev.
         if getv n ''backend'' = PStr ''native'' then native_argv k engine argv
         else bind_res (require (container_name_ok name \<and> mountable target sc)) (\<lambda>_.
              Inr (docker_argv hs n engine argv target sc name ev))))))))"

subsection \<open>Accepted policies\<close>

lemma getv_update [simp]: "getv (AList.update k v d) k' = (if k' = k then v else getv d k')"
  by (simp add: getv_def)

lemma rooted_getv [simp]:
  "x \<notin> {''source_identity'', ''scratch_root'', ''target_root''} \<Longrightarrow> getv (rooted d cwd scratch i) x = getv d x"
  by (simp add: rooted_def)

definition profiled :: "dict \<Rightarrow> bool" where
  "profiled n \<longleftrightarrow> getv n ''network_mode'' = PStr ''approved-proxy-only''"

lemma network_mode_Inr: "network_mode d = Inr s \<Longrightarrow> getv d ''network_mode'' = PStr s \<and> s \<in> {''none'', ''approved-proxy-only''}"
  by (cases "getv d ''network_mode''") (auto simp: network_mode_def in_set_def split: if_splits)

definition built_profile :: "pyval \<Rightarrow> bool" where
  "built_profile v \<longleftrightarrow> v \<in> range (\<lambda>(p, pol). PDict (profile_dict p pol))"

lemma built_profileI: "built_profile (PDict (profile_dict p pol))"
  unfolding built_profile_def by (rule range_eqI [of _ _ "(p, pol)"]) simp

lemma built_profileE: "built_profile v \<Longrightarrow> (\<And>p pol. v = PDict (profile_dict p pol) \<Longrightarrow> thesis) \<Longrightarrow> thesis"
  by (auto simp: built_profile_def)

lemma validate_profile_built: "validate_benchmark_profile hs k v cwd scratch = Inr p \<Longrightarrow> built_profile (PDict p)"
  by (auto simp: validate_benchmark_profile_def bind_res_Inr_iff split: if_splits intro: built_profileI)

lemma policy_network_Inr:
  assumes "policy_network hs k d cwd scratch mode n = Inr n'"
  shows "getv d ''network_mode'' = PStr ''none'' \<and> getv d ''benchmark_profile'' = PNone \<and> n' = n \<or>
    getv d ''network_mode'' = PStr ''approved-proxy-only'' \<and> mode = ''archive-ro'' \<and>
    (\<exists>p. built_profile (PDict p) \<and> n' = AList.update ''benchmark_profile'' (PDict p) n)"
proof -
  obtain net where net: "network_mode d = Inr net"
    using assms by (cases "network_mode d") (simp_all add: policy_network_def)
  note m = network_mode_Inr [OF net]
  show ?thesis
  proof (cases "net = ''none''")
    case True
    with assms net m show ?thesis by (simp add: policy_network_def split: if_splits)
  next
    case False
    with assms net obtain p where "mode = ''archive-ro''" "validate_benchmark_profile hs k (getv d ''benchmark_profile'') cwd scratch = Inr p"
        "n' = AList.update ''benchmark_profile'' (PDict p) n"
      by (auto simp: policy_network_def bind_res_Inr_iff split: if_splits)
    moreover from this(2) have "built_profile (PDict p)" by (rule validate_profile_built)
    ultimately show ?thesis using False m by auto
  qed
qed

lemma docker_policy_Inr:
  assumes "docker_policy hs k d cwd scratch i n = Inr n'"
  obtains mode e where "mount_mode d = Inr mode" "verify_source_identity (dk_tree k cwd) i mode = Inr ()"
    "policy_limits d = Inr ()" "validate_environment (getv d ''image_env_allowlist'') = Inr e"
    "policy_network hs k d cwd scratch mode
       (AList.update ''image_env_allowlist'' (PDict (env_dict e)) (AList.update ''source_mount_mode'' (PStr mode) n)) = Inr n'"
  using assms by (auto simp: docker_policy_def bind_res_Inr_iff)

lemma validate_policy_Inr:
  assumes "validate_policy hs k (PDict d) cwd = Inr (n, scratch, eng)"
  obtains i where "policy_roots k d cwd = Inr scratch" "validate_source_identity hs (getv d ''source_identity'') = Inr i"
    "policy_backend d = Inr ''docker'' \<and> docker_policy hs k d cwd scratch i (rooted d cwd scratch i) = Inr n \<or>
     policy_backend d = Inr ''native'' \<and> policy_fields_ok ''native'' d \<and> n = rooted d cwd scratch i"
    "engine_identity hs k n = Inr eng"
proof -
  have "policy_backend d = Inr b \<Longrightarrow> b = ''docker'' \<or> b = ''native''" for b
    by (auto simp: policy_backend_def split: if_splits)
  then show ?thesis
    using assms that by (auto simp: validate_policy_def validate_policy_dict_def bind_res_Inr_iff split: if_splits)
qed

lemma native_has_no_network:
  assumes "policy_fields_ok ''native'' d" "x \<in> {''network_mode'', ''image_env_allowlist''}"
  shows "getv d x = PNone"
proof -
  have "x \<notin> set (map fst d)" using assms by (auto simp: policy_fields_ok_def COMMON_FIELDS_def)
  then have "map_of d x = None" by (simp add: map_of_eq_None_iff)
  then show ?thesis by (simp add: getv_def)
qed

lemma accepted_profile:
  assumes "validate_policy hs k v cwd = Inr (n, scratch, eng)" "profiled n"
  shows "built_profile (getv n ''benchmark_profile'')"
proof -
  obtain d where v: "v = PDict d" using assms(1) by (cases v) (simp_all add: validate_policy_def)
  from assms(1) show ?thesis unfolding v
  proof (rule validate_policy_Inr)
    fix i
    assume "policy_backend d = Inr ''docker'' \<and> docker_policy hs k d cwd scratch i (rooted d cwd scratch i) = Inr n \<or>
       policy_backend d = Inr ''native'' \<and> policy_fields_ok ''native'' d \<and> n = rooted d cwd scratch i"
    then show ?thesis
    proof (elim disjE conjE)
      assume "docker_policy hs k d cwd scratch i (rooted d cwd scratch i) = Inr n"
      then show ?thesis
        by (rule docker_policy_Inr) (use assms(2) in \<open>auto simp: profiled_def dest!: policy_network_Inr\<close>)
    next
      assume "policy_fields_ok ''native'' d" "n = rooted d cwd scratch i"
      with assms(2) native_has_no_network [of d "''network_mode''"] show ?thesis by (simp add: profiled_def)
    qed
  qed
qed

lemma accepted_image_env:
  assumes "validate_policy hs k v cwd = Inr (n, scratch, eng)"
  shows "clean_env (env_of (getv n ''image_env_allowlist''))"
proof -
  have clean: "clean_env (env_of (PDict (env_dict e)))" if "validate_environment w = Inr e" for w e
  proof -
    have "env_of (PDict (env_dict e)) = e" by (induction e) (auto simp: env_of_def env_dict_def)
    moreover have "clean_env e" using that by (auto simp: validate_environment_Inr clean_env_def)
    ultimately show ?thesis by simp
  qed
  obtain d where v: "v = PDict d" using assms(1) by (cases v) (simp_all add: validate_policy_def)
  from assms(1) show ?thesis unfolding v
  proof (rule validate_policy_Inr)
    fix i
    assume "policy_backend d = Inr ''docker'' \<and> docker_policy hs k d cwd scratch i (rooted d cwd scratch i) = Inr n \<or>
       policy_backend d = Inr ''native'' \<and> policy_fields_ok ''native'' d \<and> n = rooted d cwd scratch i"
    then show ?thesis
    proof (elim disjE conjE)
      assume "docker_policy hs k d cwd scratch i (rooted d cwd scratch i) = Inr n"
      then show ?thesis by (rule docker_policy_Inr) (auto dest!: policy_network_Inr clean)
    next
      assume "policy_fields_ok ''native'' d" "n = rooted d cwd scratch i"
      with native_has_no_network [of d "''image_env_allowlist''"] show ?thesis by (simp add: env_of_def clean_env_def)
    qed
  qed
qed

subsection \<open>The environment of the container\<close>

lemma merge_Cons: "merge a ((k, v) # b) = merge (AList.update k v a) b"
  by (simp add: merge_def)

lemma map_of_merge_other: "k \<notin> fst ` set b \<Longrightarrow> map_of (merge a b) k = map_of a k"
  by (induction b arbitrary: a) (auto simp: merge_def)

lemma keys_merge: "fst ` set (merge a b) = fst ` set a \<union> fst ` set b"
proof (induction b arbitrary: a)
  case (Cons e b)
  have "fst ` set (AList.update (fst e) (snd e) a) = insert (fst e) (fst ` set a)"
    using dom_map_of_conv_image_fst [of "AList.update (fst e) (snd e) a"] dom_map_of_conv_image_fst [of a]
    by (auto simp: update_conv')
  with Cons show ?case by (cases e) (simp add: merge_Cons)
qed (simp add: merge_def)

lemma clean_keys: "clean_env e \<Longrightarrow> k \<in> fst ` set e \<Longrightarrow> env_key k \<and> \<not> secret_like k \<and> k \<notin> set RESERVED_KEYS"
  by (auto simp: clean_env_def)

definition ADDED_KEYS :: "string list" where
  "ADDED_KEYS = RESERVED_KEYS @ [''LANG'', ''LC_ALL'', ''ANTHROPIC_API_KEY'', ''OPENAI_API_KEY'', ''BUGSWEEP_PROXY_URL'']"

lemma fixed_keys: "fst ` set (fixed_environment out) \<subseteq> set ADDED_KEYS"
  by (simp add: fixed_environment_def ADDED_KEYS_def RESERVED_KEYS_def)

lemma added_not_secret: "list_all (\<lambda>k. \<not> secret_like k) ADDED_KEYS"
  by code_simp

lemma target_keys:
  assumes "clean_env e" "clean_env img" "k \<in> fst ` set (target_environment e img out)"
  shows "\<not> secret_like k"
  using assms fixed_keys [of out] added_not_secret
  by (auto simp: target_environment_def keys_merge list_all_iff dest: clean_keys)

lemma target_reserved:
  assumes "clean_env e" "k \<in> set RESERVED_KEYS"
  shows "map_of (target_environment e img out) k = map_of (fixed_environment out) k"
proof -
  have "k \<notin> fst ` set e" using assms clean_keys by blast
  then have "map_of (target_environment e img out) k = map_of (merge img (fixed_environment out)) k"
    by (simp add: target_environment_def map_of_merge_other)
  with assms(2) show ?thesis by (auto simp: merge_def fixed_environment_def RESERVED_KEYS_def)
qed

definition inert_credentials :: "dict \<Rightarrow> env \<Rightarrow> bool" where
  "inert_credentials n e \<longleftrightarrow>
     map_of e (if getv (dict_of (getv n ''benchmark_profile'')) ''host'' = PStr ''claude'' then ''ANTHROPIC_API_KEY''
               else ''OPENAI_API_KEY'') = Some INERT"

lemma keys_update: "k \<in> fst ` set (AList.update x v e) \<Longrightarrow> k = x \<or> k \<in> fst ` set e"
proof (induction e)
  case (Cons e es)
  then show ?case by (cases "fst e = x") auto
qed simp

lemma profile_env_keys: "k \<in> fst ` set (profile_env p e) \<Longrightarrow> k \<in> set ADDED_KEYS \<or> k \<in> fst ` set e"
  by (auto simp: profile_env_def ADDED_KEYS_def dest!: keys_update split: if_splits)

text \<open>
  C15: Whatever the caller, the image list and the benchmark profile ask for, the environment of an accepted container
  run has the fixed search path, home, temporary and output directories, and no variable whose name the filter
  \<open>secret_like\<close> takes for a credential.  Without a benchmark profile its names are exactly the fixed ones and those
  of the two lists.  The filter misses the names of the provider keys, so a real key in one of the lists passes;
  only under a benchmark profile is the key of the profile's host overwritten with the inert literal, and a run with
  such a policy is refused before it starts.\<close>

theorem container_environment_confined:
  assumes "validate_policy hs k v cwd = Inr (n, scratch, eng)" "validate_environment w = Inr e"
  shows "(\<forall>x\<in>set RESERVED_KEYS. map_of (container_env n e) x = map_of (fixed_environment ''/bugsweep-output'') x) \<and>
    (\<forall>x\<in>fst ` set (container_env n e). \<not> secret_like x) \<and> (profiled n \<longrightarrow> inert_credentials n (container_env n e)) \<and>
    (\<not> profiled n \<longrightarrow> fst ` set (container_env n e) = fst ` set (fixed_environment ''/bugsweep-output'') \<union>
       fst ` set e \<union> fst ` set (env_of (getv n ''image_env_allowlist'')))"
proof -
  let ?t = "target_environment e (env_of (getv n ''image_env_allowlist'')) ''/bugsweep-output''"
  have clean: "clean_env e" using assms(2) by (auto simp: validate_environment_Inr clean_env_def)
  note img = accepted_image_env [OF assms(1)]
  have env: "container_env n e = (if profiled n then profile_env (dict_of (getv n ''benchmark_profile'')) ?t else ?t)"
    by (simp add: container_env_def profiled_def Let_def)
  have "map_of (profile_env p ?t) x = map_of ?t x" if "x \<in> set RESERVED_KEYS" for p x
    using that by (auto simp: profile_env_def RESERVED_KEYS_def)
  then have "map_of (container_env n e) x = map_of (fixed_environment ''/bugsweep-output'') x" if "x \<in> set RESERVED_KEYS" for x
    using target_reserved [OF clean that] that by (simp add: env)
  moreover have "\<not> secret_like x" if "x \<in> fst ` set (container_env n e)" for x
    using that target_keys [OF clean img, of x] added_not_secret
    by (auto simp: env list_all_iff split: if_splits dest!: profile_env_keys)
  moreover have "inert_credentials n (container_env n e)" if "profiled n"
    using that by (simp add: env inert_credentials_def profile_env_def)
  moreover have "fst ` set (container_env n e) = fst ` set (fixed_environment ''/bugsweep-output'') \<union>
      fst ` set e \<union> fst ` set (env_of (getv n ''image_env_allowlist''))" if "\<not> profiled n"
    using that by (auto simp: env target_environment_def keys_merge)
  ultimately show ?thesis by blast
qed

text \<open>The filter for credential-like names misses the provider keys: a real \<^verbatim>\<open>OPENAI_API_KEY\<close> or \<^verbatim>\<open>ANTHROPIC_API_KEY\<close>
  is accepted in the environment and, without a benchmark profile, reaches the container unchanged.\<close>

theorem provider_keys_pass:
  assumes "key \<in> {''ANTHROPIC_API_KEY'', ''OPENAI_API_KEY''}" "env_value s" "\<not> profiled n"
  shows "validate_environment (PDict [(key, PStr s)]) = Inr [(key, s)] \<and> map_of (container_env n [(key, s)]) key = Some s"
proof -
  have "env_key ''ANTHROPIC_API_KEY''" "env_key ''OPENAI_API_KEY''" "\<not> secret_like ''ANTHROPIC_API_KEY''"
    "\<not> secret_like ''OPENAI_API_KEY''" by code_simp+
  with assms(1,2) have "env_entry (key, PStr s) = Inr (key, s)" by (auto simp: env_entry_Inr RESERVED_KEYS_def)
  moreover have "map_of (container_env n [(key, s)]) key = Some s"
    using assms(3) by (simp add: container_env_def profiled_def target_environment_def merge_def)
  ultimately show ?thesis by (simp add: validate_environment_def MAX_ENV_def)
qed

theorem provider_keys_pass_witness:
  "validate_environment (PDict [(''OPENAI_API_KEY'', PStr ''sk-1'')]) = Inr [(''OPENAI_API_KEY'', ''sk-1'')] \<and>
   map_of (container_env [] [(''OPENAI_API_KEY'', ''sk-1'')]) ''OPENAI_API_KEY'' = Some ''sk-1''"
proof (rule provider_keys_pass)
  show "env_value ''sk-1''" by (simp add: env_value_def utf8_length_def MAX_ARG_BYTES_def)
  show "\<not> profiled []" by (simp add: profiled_def getv_def)
qed simp

subsection \<open>Validating a normalised policy\<close>

lemma profile_dict_rejected: "exact_dict PROFILE_FIELDS (PDict (profile_dict p pol)) = invalid"
proof -
  have "''proxy_image_id'' \<in> set (map fst (profile_dict p pol))" "''proxy_image_id'' \<notin> set PROFILE_FIELDS"
    by (simp_all add: profile_dict_def PROFILE_FIELDS_def)
  then have "set (map fst (profile_dict p pol)) \<noteq> set PROFILE_FIELDS" by blast
  then show ?thesis by (simp add: exact_dict_def)
qed

lemma profiled_rejected:
  assumes "getv n ''benchmark_profile'' = PDict (profile_dict p pol)" "profiled n"
  shows "validate_policy hs k (PDict n) cwd \<noteq> Inr r"
proof
  assume r: "validate_policy hs k (PDict n) cwd = Inr r"
  obtain n' scratch eng where req: "r = (n', scratch, eng)" by (cases r)
  from r [unfolded req] show False
  proof (rule validate_policy_Inr)
    fix i
    assume "policy_backend n = Inr ''docker'' \<and> docker_policy hs k n cwd scratch i (rooted n cwd scratch i) = Inr n' \<or>
       policy_backend n = Inr ''native'' \<and> policy_fields_ok ''native'' n \<and> n' = rooted n cwd scratch i"
    then show False
    proof (elim disjE conjE)
      assume "docker_policy hs k n cwd scratch i (rooted n cwd scratch i) = Inr n'"
      then obtain mode m where "policy_network hs k n cwd scratch mode m = Inr n'" by (rule docker_policy_Inr)
      moreover have "network_mode n = Inr ''approved-proxy-only''"
        using assms(2) by (simp add: profiled_def network_mode_def in_set_def)
      ultimately show False
        by (simp add: policy_network_def assms(1) validate_benchmark_profile_def profile_dict_rejected split: if_splits)
    next
      assume "policy_fields_ok ''native'' n"
      with assms(2) native_has_no_network [of n "''network_mode''"] show False by (simp add: profiled_def)
    qed
  qed
qed

text \<open>
  C26: A normalised policy with a benchmark profile is not a policy: validation adds two fields that validation
  refuses, so \<open>build_backend_argv\<close>, which \<open>run_command\<close> calls with the normalised policy, never returns an
  argument vector for an approved-proxy run.\<close>

theorem approved_proxy_never_builds:
  assumes "validate_policy hs k v cwd = Inr (n, scratch, eng)" "profiled n"
  shows "build_backend_argv hs k command target sc (PDict n) name e \<noteq> Inr argv"
proof -
  obtain p pol where "getv n ''benchmark_profile'' = PDict (profile_dict p pol)"
    using accepted_profile [OF assms] by (rule built_profileE)
  from profiled_rejected [OF this assms(2)] show ?thesis
    by (auto simp: build_backend_argv_def bind_res_Inr_iff)
qed

end
