(* ===== verification/Exec_Readback.thy ===== *)
theory Exec_Readback
  imports Exec_Policy Py_Float
begin

text \<open>
  What Docker reports about a created container, checked against the policy before the container starts:
  \<open>_verify_analysis_inspect\<close>, \<open>_verify_benchmark_dependencies\<close> and \<open>verify_backend_readback\<close> of
  \<^verbatim>\<open>scripts/_execution.py\<close>.  The reports are decoded JSON; a failed check is \<open>ExecutionError\<close>, and reading a
  missing key or a value of the wrong type raises what Python raises.  Where the source turns a value into text
  before it compares (\<open>str(tmpfs[...])\<close>), only a string can pass, because the text of a list or a dictionary has
  brackets.
\<close>

subsection \<open>Reading values\<close>

definition verify :: "bool \<Rightarrow> exec_error + unit" where
  "verify b = guard b ExecutionError"

lemma verify_Inr [simp]: "verify b = Inr u \<longleftrightarrow> b"
  by (simp add: verify_def)

lemma bind_verify [simp]: "bind_res (verify b) f = (if b then f () else Inl ExecutionError)"
  by (simp add: verify_def)

definition item :: "pyval \<Rightarrow> string \<Rightarrow> exec_error + pyval" where
  "item v k = raised (subscript v k)"

definition item_text :: "pyval \<Rightarrow> string \<Rightarrow> exec_error + string" where
  "item_text v k = bind_res (item v k) (\<lambda>x. case x of PStr s \<Rightarrow> Inr s | _ \<Rightarrow> Inl (Raised TypeError))"

definition mapping :: "pyval \<Rightarrow> exec_error + dict" where
  "mapping v = (case v of PDict d \<Rightarrow> Inr d | _ \<Rightarrow> Inl ExecutionError)"

lemma mapping_Inr [simp]: "mapping v = Inr d \<longleftrightarrow> v = PDict d"
  by (cases v) (auto simp: mapping_def)

text \<open>\<open>set(v or [])\<close> compared with a set of strings.\<close>

definition set_is :: "pyval \<Rightarrow> string list \<Rightarrow> exec_error + bool" where
  "set_is v ss =
     (if \<not> truthy v then Inr (ss = [])
      else bind_res (raised (py_iter v)) (\<lambda>xs.
           if list_all hashable xs then Inr (set (map pnorm xs) = PStr ` set ss) else Inl (Raised TypeError)))"

definition nothing :: "pyval \<Rightarrow> bool" where
  "nothing v \<longleftrightarrow> v \<in> {PNone, PList [], PStr [], PDict []}"

definition none_or_false :: "pyval \<Rightarrow> bool" where
  "none_or_false v \<longleftrightarrow> v = PNone \<or> py_eq v (PBool False)"

text \<open>\<open>s.split("=", 1)\<close> of every entry.\<close>

fun env_items :: "string list \<Rightarrow> pyval list \<Rightarrow> exec_error + env" where
  "env_items seen [] = Inr []"
| "env_items seen (v # vs) = (case v of
       PStr s \<Rightarrow> (case partition_on (CHR ''='') s of (k, found, x) \<Rightarrow>
         if \<not> found \<or> k \<in> set seen then Inl ExecutionError
         else bind_res (env_items (k # seen) vs) (\<lambda>e. Inr ((k, x) # e)))
     | _ \<Rightarrow> Inl ExecutionError)"

definition env_from_inspect :: "pyval \<Rightarrow> exec_error + env" where
  "env_from_inspect v = (case v of PList xs \<Rightarrow> env_items [] xs | _ \<Rightarrow> Inl ExecutionError)"

text \<open>Equality of dictionaries of strings and of arbitrary values.\<close>

definition same_env :: "env \<Rightarrow> dict \<Rightarrow> bool" where
  "same_env e d \<longleftrightarrow> fst ` set e = fst ` set d \<and> list_all (\<lambda>(k, s). map_of d k = Some (PStr s)) e"

subsection \<open>The analysis container\<close>

definition expected_env :: "dict \<Rightarrow> env \<Rightarrow> exec_error + dict" where
  "expected_env p e =
     bind_res (item (PDict p) ''image_env_allowlist'') (\<lambda>img.
     case img of
       PDict d \<Rightarrow> Inr (merge (merge d (env_dict (fixed_environment ''/bugsweep-output''))) (env_dict e))
     | _ \<Rightarrow> Inl (Raised TypeError))"

text \<open>\<open>_analysis_network\<close>: the name and the id of the network, and the environment it adds to.\<close>

definition analysis_network :: "dict \<Rightarrow> dict \<Rightarrow> exec_error + (pyval \<times> pyval) \<times> dict" where
  "analysis_network p e =
     bind_res (item (PDict p) ''network_mode'') (\<lambda>mode.
     if mode = PStr ''none'' then Inr ((PStr ''none'', PNone), e)
     else bind_res (item (PDict p) ''benchmark_profile'') (\<lambda>prof.
          bind_res (item prof ''internal_network'') (\<lambda>internal.
          bind_res (item prof ''host'') (\<lambda>host.
          bind_res (item prof ''proxy'') (\<lambda>proxy.
          bind_res (item_text proxy ''container_name'') (\<lambda>name.
          bind_res (item internal ''name'') (\<lambda>net.
          bind_res (item internal ''id'') (\<lambda>i.
          Inr ((net, i), AList.update ''BUGSWEEP_PROXY_URL'' (PStr (''http://'' @ name @ '':8888''))
            (AList.update (if host = PStr ''claude'' then ''ANTHROPIC_API_KEY'' else ''OPENAI_API_KEY'') (PStr INERT) e))))))))))"

definition invocation_of :: "string \<Rightarrow> string" where
  "invocation_of name = (if starts_with name ''bugsweep-'' then drop 9 name else name)"

record inspected =
  in_config :: dict
  in_host :: dict
  in_settings :: dict

definition identity_checked :: "dict \<Rightarrow> string \<Rightarrow> string \<Rightarrow> exec_error + inspected" where
  "identity_checked ins cid name =
     bind_res (verify (getv ins ''Id'' = PStr cid \<and> getv ins ''Name'' = PStr (CHR ''/'' # name))) (\<lambda>_.
     bind_res (mapping (getv ins ''Config'')) (\<lambda>c.
     bind_res (mapping (getv ins ''HostConfig'')) (\<lambda>h.
     bind_res (mapping (getv ins ''NetworkSettings'')) (\<lambda>s.
     Inr \<lparr>in_config = c, in_host = h, in_settings = s\<rparr>))))"

definition process_checked :: "dict \<Rightarrow> dict \<Rightarrow> string \<Rightarrow> string list \<Rightarrow> exec_error + dict" where
  "process_checked c p name argv =
     bind_res (item (PDict p) ''image'') (\<lambda>image.
     bind_res (verify (py_eq (getv c ''Image'') image)) (\<lambda>_.
     bind_res (item (PDict p) ''uid'') (\<lambda>uid.
     bind_res (verify (py_eq (getv c ''User'') uid \<and> getv c ''WorkingDir'' = PStr ''/workspace'')) (\<lambda>_.
     bind_res (verify (py_eq (getv c ''Entrypoint'') (PList [PStr (hd argv)]) \<and>
       py_eq (getv c ''Cmd'') (PList (map PStr (tl argv))))) (\<lambda>_.
     bind_res (mapping (getv c ''Labels'')) (\<lambda>labels.
     bind_res (verify (getv labels ''org.bugsweep.invocation'' = PStr (invocation_of name))) (\<lambda>_. Inr labels)))))))"

definition adapter_checked :: "hashing \<Rightarrow> dict \<Rightarrow> dict \<Rightarrow> string list \<Rightarrow> exec_error + unit" where
  "adapter_checked hs p labels argv =
     (if getv p ''network_mode'' = PStr ''approved-proxy-only''
      then bind_res (item (PDict p) ''benchmark_profile'') (\<lambda>prof.
           bind_res (item prof ''analysis'') (\<lambda>an.
           bind_res (item an ''entrypoint'') (\<lambda>entry.
           bind_res (verify (entry = PStr (hd argv))) (\<lambda>_.
           bind_res (item an ''entrypoint_sha256'') (\<lambda>sha.
           bind_res (verify (py_eq (getv labels ''org.bugsweep.adapter.sha256'') sha)) (\<lambda>_.
           bind_res (item prof ''arms'') (\<lambda>arms.
           bind_res (raised (json_digest hs arms)) (\<lambda>dg.
           verify (getv labels ''org.bugsweep.arms.sha256'' = PStr dg)))))))))
      else Inr ())"

text \<open>\<open>int(cpus * 1_000_000_000)\<close>: an integer is multiplied exactly, a float with the rounding of the product.\<close>

definition nano_cpus :: "pyval \<Rightarrow> exec_error + int" where
  "nano_cpus v = (case v of
       PInt i \<Rightarrow> Inr (i * 1000000000)
     | PBool b \<Rightarrow> Inr (if b then 1000000000 else 0)
     | PFloat (Fin q) \<Rightarrow> raised (py_int (PFloat (Fin (fl (q * 1000000000)))))
     | PFloat f \<Rightarrow> raised (py_int (PFloat f))
     | _ \<Rightarrow> Inl (Raised TypeError))"

definition hardening :: "dict \<Rightarrow> string list \<Rightarrow> exec_error + unit" where
  "hardening h surfaces =
     bind_res (set_is (getv h ''CapDrop'') [''ALL'']) (\<lambda>drop_all.
     bind_res (verify (drop_all \<and> getv h ''CapAdd'' \<in> {PNone, PList []})) (\<lambda>_.
     bind_res (set_is (getv h ''SecurityOpt'') [''no-new-privileges'']) (\<lambda>a.
     bind_res (set_is (getv h ''SecurityOpt'') [''no-new-privileges:true'']) (\<lambda>b.
     bind_res (verify (a \<or> b)) (\<lambda>_.
     verify (list_all (\<lambda>x. nothing (getv h x)) surfaces \<and> none_or_false (getv h ''PublishAllPorts'')))))))"

definition SURFACES :: "string list" where
  "SURFACES = [''Binds'', ''Devices'', ''DeviceRequests'', ''PidMode'', ''PortBindings'', ''Links'', ''VolumesFrom'']"

definition values_are :: "dict \<Rightarrow> (string \<times> pyval) list \<Rightarrow> bool" where
  "values_are h xs \<longleftrightarrow> list_all (\<lambda>(k, v). py_eq (getv h k) v) xs"

definition host_values :: "dict \<Rightarrow> pyval \<Rightarrow> exec_error + (string \<times> pyval) list" where
  "host_values p net =
     bind_res (item (PDict p) ''pids_limit'') (\<lambda>pids.
     bind_res (item (PDict p) ''memory_bytes'') (\<lambda>mem.
     bind_res (item (PDict p) ''cpus'') (\<lambda>cpus.
     bind_res (nano_cpus cpus) (\<lambda>nano.
     Inr [(''NetworkMode'', net), (''IpcMode'', PStr ''none''), (''Privileged'', PBool False), (''ReadonlyRootfs'', PBool True),
          (''PidsLimit'', pids), (''Memory'', mem), (''MemorySwap'', mem), (''NanoCpus'', PInt nano)]))))"

definition tmpfs_is :: "string list \<Rightarrow> pyval \<Rightarrow> bool" where
  "tmpfs_is options v \<longleftrightarrow> (case v of
       PDict d \<Rightarrow> set (map fst d) = {''/tmp''} \<and>
         (case getv d ''/tmp'' of PStr s \<Rightarrow> set (split_on (CHR '','') s) = set options | _ \<Rightarrow> False)
     | _ \<Rightarrow> False)"

definition two_items :: "pyval \<Rightarrow> exec_error + pyval list" where
  "two_items v = (case v of PList xs \<Rightarrow> if length xs = 2 then Inr xs else Inl ExecutionError | _ \<Rightarrow> Inl ExecutionError)"

text \<open>The dictionary of the configured bind mounts, by target.\<close>

definition is_bind :: "pyval \<Rightarrow> bool" where
  "is_bind m \<longleftrightarrow> (case m of PDict d \<Rightarrow> getv d ''Type'' = PStr ''bind'' | _ \<Rightarrow> False)"

definition configured_mounts :: "pyval list \<Rightarrow> exec_error + (pyval \<times> pyval \<times> pyval) list" where
  "configured_mounts ms =
     (let bs = map dict_of (filter is_bind ms)
      in if list_all (\<lambda>d. hashable (getv d ''Target'')) bs
         then Inr (fold (\<lambda>d. AList.update (pnorm (getv d ''Target'')) (getv d ''Source'', getv d ''ReadOnly'')) bs [])
         else Inl (Raised TypeError))"

definition observed_mount :: "pyval \<Rightarrow> exec_error + string \<times> string \<times> bool" where
  "observed_mount m = (case m of
       PDict d \<Rightarrow>
         if getv d ''Type'' = PStr ''bind''
         then (case (getv d ''Destination'', getv d ''Source'', getv d ''RW'') of
             (PStr t, PStr s, PBool w) \<Rightarrow> Inr (t, s, w) | _ \<Rightarrow> Inl ExecutionError)
         else Inl ExecutionError
     | _ \<Rightarrow> Inl ExecutionError)"

definition observed_mounts :: "pyval list \<Rightarrow> exec_error + (string \<times> string \<times> bool) list" where
  "observed_mounts ms =
     bind_res (map_res observed_mount ms) (\<lambda>xs. Inr (fold (\<lambda>(t, m). AList.update t m) xs []))"

definition mounts_checked :: "dict \<Rightarrow> dict \<Rightarrow> dict \<Rightarrow> path \<Rightarrow> path \<Rightarrow> exec_error + unit" where
  "mounts_checked ins h p cwd scratch =
     (let ro = (getv p ''source_mount_mode'' = PStr ''archive-ro'')
      in bind_res (two_items (getv ins ''Mounts'')) (\<lambda>seen.
         bind_res (two_items (getv h ''Mounts'')) (\<lambda>conf.
         bind_res (configured_mounts conf) (\<lambda>c.
         bind_res (verify (set (map fst c) = {PStr ''/workspace'', PStr ''/bugsweep-output''} \<and>
           (case map_of c (PStr ''/workspace'') of
              Some (s, r) \<Rightarrow> s = PStr (path_text cwd) \<and> py_eq r (PBool ro) | None \<Rightarrow> False) \<and>
           (case map_of c (PStr ''/bugsweep-output'') of
              Some (s, r) \<Rightarrow> s = PStr (path_text scratch) \<and> py_eq r (PBool False) | None \<Rightarrow> False))) (\<lambda>_.
         bind_res (observed_mounts seen) (\<lambda>o'.
         verify (set o' = {(''/workspace'', path_text cwd, \<not> ro), (''/bugsweep-output'', path_text scratch, True)})))))))"

definition detached :: "pyval \<Rightarrow> bool" where
  "detached v \<longleftrightarrow> (case v of
       PDict d \<Rightarrow> list_all (\<lambda>x. getv d x \<in> {PNone, PStr []}) [''Gateway'', ''IPAddress'', ''GlobalIPv6Address''] | _ \<Rightarrow> False)"

definition no_network :: "pyval \<Rightarrow> bool" where
  "no_network v \<longleftrightarrow> v \<in> {PNone, PDict []} \<or>
     (case v of PDict d \<Rightarrow> set (map fst d) = {''none''} \<and> detached (getv d ''none'') | _ \<Rightarrow> False)"

definition network_checked :: "dict \<Rightarrow> dict \<Rightarrow> pyval \<times> pyval \<Rightarrow> exec_error + string" where
  "network_checked settings p net =
     bind_res (item (PDict p) ''network_mode'') (\<lambda>mode.
     if mode = PStr ''none''
     then bind_res (verify (no_network (getv settings ''Networks''))) (\<lambda>_. Inr ''verified_denied'')
     else bind_res (mapping (getv settings ''Networks'')) (\<lambda>d.
          bind_res (if hashable (fst net) then Inr () else Inl (Raised TypeError)) (\<lambda>_.
          bind_res (verify (PStr ` set (map fst d) = {fst net})) (\<lambda>_.
          bind_res (mapping (getv d (text_of (fst net)))) (\<lambda>a.
          bind_res (verify (py_eq (getv a ''NetworkID'') (snd net))) (\<lambda>_. Inr ''approved_proxy_only_verified''))))))"

definition verify_analysis_inspect ::
    "hashing \<Rightarrow> dict \<Rightarrow> dict \<Rightarrow> path \<Rightarrow> path \<Rightarrow> string \<Rightarrow> string \<Rightarrow> string list \<Rightarrow> env \<Rightarrow> exec_error + string" where
  "verify_analysis_inspect hs ins p cwd scratch cid name argv e =
     bind_res (verify (getv p ''network_mode'' = PStr ''approved-proxy-only'' \<longrightarrow>
       getv p ''source_mount_mode'' = PStr ''archive-ro'')) (\<lambda>_.
     bind_res (identity_checked ins cid name) (\<lambda>i.
     bind_res (process_checked (in_config i) p name argv) (\<lambda>labels.
     bind_res (expected_env p e) (\<lambda>ex.
     bind_res (analysis_network p ex) (\<lambda>(net, ex').
     bind_res (env_from_inspect (getv (in_config i) ''Env'')) (\<lambda>seen.
     bind_res (verify (same_env seen ex')) (\<lambda>_.
     bind_res (adapter_checked hs p labels argv) (\<lambda>_.
     bind_res (host_values p (fst net)) (\<lambda>xs.
     bind_res (verify (values_are (in_host i) xs)) (\<lambda>_.
     bind_res (hardening (in_host i) SURFACES) (\<lambda>_.
     bind_res (verify (tmpfs_is [''rw'', ''noexec'', ''nosuid'', ''nodev'', ''size=67108864''] (getv (in_host i) ''Tmpfs''))) (\<lambda>_.
     bind_res (mounts_checked ins (in_host i) p cwd scratch) (\<lambda>_.
     network_checked (in_settings i) p net)))))))))))))"

subsection \<open>The proxy and the networks of a benchmark\<close>

definition proxy_process :: "dict \<Rightarrow> dict \<Rightarrow> pyval \<Rightarrow> pyval \<Rightarrow> exec_error + unit" where
  "proxy_process x c img digest =
     bind_res (verify (py_eq (getv x ''Image'') img)) (\<lambda>_.
     bind_res (verify (case getv c ''Image'' of
        PStr s \<Rightarrow> (case image_digest s of Some h \<Rightarrow> digest = PStr h | None \<Rightarrow> False) | _ \<Rightarrow> False)) (\<lambda>_.
     verify (py_eq (getv c ''Entrypoint'') (PList [PStr ''/usr/local/bin/bugsweep-provider-proxy'']) \<and>
       getv c ''Cmd'' \<in> {PNone, PList []} \<and> getv c ''User'' = PStr ''65534:65534'' \<and> getv c ''WorkingDir'' = PStr ''/'')))"

definition proxy_host_values :: "pyval \<Rightarrow> (string \<times> pyval) list" where
  "proxy_host_values net =
     [(''NetworkMode'', net), (''IpcMode'', PStr ''none''), (''PidMode'', PStr []), (''Privileged'', PBool False),
      (''ReadonlyRootfs'', PBool True), (''PidsLimit'', PInt 64), (''Memory'', PInt 134217728),
      (''MemorySwap'', PInt 134217728), (''NanoCpus'', PInt 1000000000)]"

definition PROXY_SURFACES :: "string list" where
  "PROXY_SURFACES = [''Binds'', ''Devices'', ''DeviceRequests'', ''PortBindings'', ''Links'', ''VolumesFrom'', ''ExtraHosts'']"

definition restart_ok :: "pyval \<Rightarrow> bool" where
  "restart_ok v \<longleftrightarrow> v \<in> {PNone, PDict []} \<or>
     (case v of PDict d \<Rightarrow> getv d ''Name'' \<in> {PNone, PStr [], PStr ''no''} | _ \<Rightarrow> False)"

definition proxy_host :: "dict \<Rightarrow> pyval \<Rightarrow> exec_error + unit" where
  "proxy_host h net =
     bind_res (verify (values_are h (proxy_host_values net))) (\<lambda>_.
     bind_res (hardening h PROXY_SURFACES) (\<lambda>_.
     bind_res (verify (restart_ok (getv h ''RestartPolicy''))) (\<lambda>_.
     verify (tmpfs_is [''rw'', ''noexec'', ''nosuid'', ''nodev'', ''size=16777216''] (getv h ''Tmpfs'')))))"

definition attached :: "dict \<Rightarrow> pyval \<Rightarrow> pyval \<Rightarrow> bool" where
  "attached d name i \<longleftrightarrow> (case getv d (text_of name) of PDict a \<Rightarrow> py_eq (getv a ''NetworkID'') i | _ \<Rightarrow> False)"

definition proxy_networks :: "dict \<Rightarrow> dict \<Rightarrow> dict \<Rightarrow> exec_error + unit" where
  "proxy_networks settings internal egress =
     bind_res (mapping (getv settings ''Networks'')) (\<lambda>d.
     bind_res (verify (PStr ` set (map fst d) = {getv internal ''name'', getv egress ''name''})) (\<lambda>_.
     verify (attached d (getv internal ''name'') (getv internal ''id'') \<and>
       attached d (getv egress ''name'') (getv egress ''id''))))"

definition proxy_environment :: "dict \<Rightarrow> exec_error + unit" where
  "proxy_environment c =
     bind_res (env_from_inspect (getv c ''Env'')) (\<lambda>e.
     bind_res (verify (map_of e ''BUGSWEEP_PROXY_POLICY'' = Some ''/etc/bugsweep/proxy-policy.json'')) (\<lambda>_.
     verify (\<not> list_ex (\<lambda>kv. secret_like (fst kv)) e)))"

definition proxy_observed :: "pyval \<Rightarrow> exec_error + string \<times> string" where
  "proxy_observed m = (case observed_mount m of
       Inr (t, s, w) \<Rightarrow> if w then Inl ExecutionError else Inr (t, s) | Inl e \<Rightarrow> Inl e)"

definition proxy_configured :: "pyval \<Rightarrow> exec_error + string \<times> string" where
  "proxy_configured m = (case m of
       PDict d \<Rightarrow>
         if getv d ''Type'' = PStr ''bind''
         then (case (getv d ''Target'', getv d ''Source'', getv d ''ReadOnly'') of
             (PStr t, PStr s, PBool True) \<Rightarrow> Inr (t, s) | _ \<Rightarrow> Inl ExecutionError)
         else Inl ExecutionError
     | _ \<Rightarrow> Inl ExecutionError)"

definition by_destination :: "(string \<times> string) list \<Rightarrow> env" where
  "by_destination xs = fold (\<lambda>(t, s). AList.update t s) xs []"

definition SECRET_MOUNT :: string where "SECRET_MOUNT = ''/run/secrets/provider-key''"
definition POLICY_MOUNT :: string where "POLICY_MOUNT = ''/etc/bugsweep/proxy-policy.json''"

definition proxy_mounts :: "dict \<Rightarrow> dict \<Rightarrow> exec_error + env" where
  "proxy_mounts x h =
     bind_res (two_items (getv x ''Mounts'')) (\<lambda>seen.
     bind_res (two_items (getv h ''Mounts'')) (\<lambda>conf.
     bind_res (map_res proxy_observed seen) (\<lambda>os.
     bind_res (verify (fst ` set (by_destination os) = {SECRET_MOUNT, POLICY_MOUNT})) (\<lambda>_.
     bind_res (map_res proxy_configured conf) (\<lambda>cs.
     bind_res (verify (set (by_destination cs) = set (by_destination os))) (\<lambda>_. Inr (by_destination os)))))))"

text \<open>\<open>stat.S_ISREG\<close> and \<open>stat.S_IMODE\<close>.\<close>

definition regular_mode :: "int \<Rightarrow> bool" where
  "regular_mode m \<longleftrightarrow> m div 4096 mod 16 = 8"

definition mount_source :: "disk \<Rightarrow> path \<Rightarrow> path \<Rightarrow> string \<times> string \<Rightarrow> exec_error + unit" where
  "mount_source k target scratch ts = (case ts of (t, s) \<Rightarrow>
     bind_res (verify (absolute s \<and> \<not> dk_symlink k s)) (\<lambda>_.
     bind_res (resolve_strict k s) (\<lambda>p.
     bind_res (verify (\<not> is_within p target \<and> \<not> is_within p scratch)) (\<lambda>_.
     case dk_stat k s of
       None \<Rightarrow> Inl OSError
     | Some st \<Rightarrow> verify (regular_mode (st_mode st) \<and> st_nlink st = 1 \<and>
         (t = SECRET_MOUNT \<longrightarrow> st_mode st mod 4096 = 384))))))"

fun mount_sources :: "disk \<Rightarrow> path \<Rightarrow> path \<Rightarrow> env \<Rightarrow> exec_error + unit" where
  "mount_sources k target scratch [] = Inr ()"
| "mount_sources k target scratch (m # ms) =
     bind_res (mount_source k target scratch m) (\<lambda>_. mount_sources k target scratch ms)"

definition policy_digest :: "hashing \<Rightarrow> disk \<Rightarrow> env \<Rightarrow> pyval \<Rightarrow> exec_error + unit" where
  "policy_digest hs k os expected =
     bind_res (resolve_strict k (the (map_of os POLICY_MOUNT))) (\<lambda>p.
     bind_res (read_bounded k p 65536) (\<lambda>raw. verify (expected = PStr (hs_sha hs raw))))"

text \<open>The networks by their id; an id that cannot be a key raises.\<close>

definition networks_by_id :: "pyval list \<Rightarrow> exec_error + (pyval \<times> dict) list" where
  "networks_by_id vs =
     (let ds = map dict_of (filter is_dict vs)
      in if list_all (\<lambda>d. hashable (getv d ''Id'')) ds
         then Inr (fold (\<lambda>d. AList.update (pnorm (getv d ''Id'')) d) ds []) else Inl (Raised TypeError))"

definition network_ok :: "(pyval \<times> dict) list \<Rightarrow> dict \<Rightarrow> bool \<Rightarrow> pyval set \<Rightarrow> bool" where
  "network_ok ns expected internal members \<longleftrightarrow> (case map_of ns (getv expected ''id'') of
       None \<Rightarrow> False
     | Some n \<Rightarrow> py_eq (getv n ''Name'') (getv expected ''name'') \<and> getv n ''Internal'' = PBool internal \<and>
         (case getv n ''Containers'' of PDict c \<Rightarrow> PStr ` set (map fst c) = members | _ \<Rightarrow> False))"

definition networks_checked :: "pyval \<Rightarrow> dict \<Rightarrow> dict \<Rightarrow> pyval \<Rightarrow> string \<Rightarrow> exec_error + unit" where
  "networks_checked v internal egress proxy_id cid =
     bind_res (two_items v) (\<lambda>vs.
     bind_res (networks_by_id vs) (\<lambda>ns.
     bind_res (verify (set (map fst ns) = {getv internal ''id'', getv egress ''id''})) (\<lambda>_.
     verify (network_ok ns internal True {PStr cid, proxy_id} \<and> network_ok ns egress False {proxy_id}))))"

text \<open>The fields of a profile that \<open>_validate_benchmark_profile\<close> has built; a receipt may bind any other object,
  on which the subscripts raise \<open>KeyError\<close> or \<open>TypeError\<close>; the model reads the fields before the checks, where the
  source reads them between the checks.\<close>

definition strings_of :: "pyval \<Rightarrow> string list \<Rightarrow> exec_error + dict" where
  "strings_of v ks = bind_res (map_res (item v) ks) (\<lambda>xs. Inr (zip ks xs))"

definition verify_benchmark_dependencies :: "hashing \<Rightarrow> disk \<Rightarrow> dict \<Rightarrow> dict \<Rightarrow> string \<Rightarrow> exec_error + unit" where
  "verify_benchmark_dependencies hs k rb p cid =
     bind_res (item (PDict p) ''benchmark_profile'') (\<lambda>prof.
     bind_res (item prof ''proxy'') (\<lambda>px.
     bind_res (strings_of px [''container_id'', ''container_name'', ''image_digest'']) (\<lambda>proxy.
     bind_res (item prof ''internal_network'') (\<lambda>inet.
     bind_res (strings_of inet [''name'', ''id'']) (\<lambda>internal.
     bind_res (item prof ''egress_network'') (\<lambda>enet.
     bind_res (strings_of enet [''name'', ''id'']) (\<lambda>egress.
     bind_res (mapping (getv rb ''proxy'')) (\<lambda>x.
     bind_res (verify (py_eq (getv x ''Id'') (getv proxy ''container_id''))) (\<lambda>_.
     bind_res (verify (getv x ''Name'' = PStr (CHR ''/'' # text_of (getv proxy ''container_name'')))) (\<lambda>_.
     bind_res (mapping (getv x ''Config'')) (\<lambda>c.
     bind_res (mapping (getv x ''HostConfig'')) (\<lambda>h.
     bind_res (mapping (getv x ''NetworkSettings'')) (\<lambda>settings.
     bind_res (item prof ''proxy_image_id'') (\<lambda>image.
     bind_res (proxy_process x c image (getv proxy ''image_digest'')) (\<lambda>_.
     bind_res (proxy_host h (getv egress ''name'')) (\<lambda>_.
     bind_res (proxy_networks settings internal egress) (\<lambda>_.
     bind_res (proxy_environment c) (\<lambda>_.
     bind_res (proxy_mounts x h) (\<lambda>os.
     bind_res (item_text (PDict p) ''target_root'') (\<lambda>target.
     bind_res (item_text (PDict p) ''scratch_root'') (\<lambda>scratch.
     bind_res (mount_sources k (path_parts target) (path_parts scratch) os) (\<lambda>_.
     bind_res (item prof ''proxy_policy'') (\<lambda>pol.
     bind_res (item pol ''sha256'') (\<lambda>sha.
     bind_res (policy_digest hs k os sha) (\<lambda>_.
     networks_checked (getv rb ''networks'') internal egress (getv proxy ''container_id'') cid)))))))))))))))))))))))))"

subsection \<open>The whole readback\<close>

definition verify_backend_readback ::
    "hashing \<Rightarrow> disk \<Rightarrow> dict \<Rightarrow> dict \<Rightarrow> path \<Rightarrow> path \<Rightarrow> string \<Rightarrow> string \<Rightarrow> string list \<Rightarrow> env \<Rightarrow> exec_error + string" where
  "verify_backend_readback hs k rb p cwd scratch cid name argv e =
     bind_res (item (PDict p) ''network_mode'') (\<lambda>mode.
     let proxied = (mode = PStr ''approved-proxy-only'')
     in bind_res (verify (set (map fst rb) = {''schema_version'', ''kind'', ''analysis''} \<union>
          (if proxied then {''proxy'', ''networks''} else {}) \<and>
          py_eq (getv rb ''schema_version'') (PInt 1) \<and> getv rb ''kind'' = PStr ''docker-inspect-readback'')) (\<lambda>_.
        bind_res (mapping (getv rb ''analysis'')) (\<lambda>ins.
        bind_res (verify_analysis_inspect hs ins p cwd scratch cid name argv e) (\<lambda>net.
        bind_res (if proxied then verify_benchmark_dependencies hs k rb p cid else Inr ()) (\<lambda>_. Inr net)))))"

subsection \<open>What a verified container is\<close>

text \<open>
  The promise of the sandbox, stated on the report itself: every bind mount that exists, the exact environment,
  no network, no privileges.
\<close>

definition mount_view :: "pyval \<Rightarrow> string \<times> string \<times> bool" where
  "mount_view m = (text_of (getv (dict_of m) ''Destination''), text_of (getv (dict_of m) ''Source''),
     getv (dict_of m) ''RW'' = PBool True)"

definition only_mounts :: "dict \<Rightarrow> (string \<times> string \<times> bool) list \<Rightarrow> bool" where
  "only_mounts ins ms \<longleftrightarrow> (case getv ins ''Mounts'' of
       PList xs \<Rightarrow> list_all is_bind xs \<and> mset (map mount_view xs) = mset ms | _ \<Rightarrow> False)"

definition only_env :: "dict \<Rightarrow> dict \<Rightarrow> bool" where
  "only_env c d \<longleftrightarrow> (case getv c ''Env'' of
       PList xs \<Rightarrow> distinct xs \<and>
         set xs = {PStr (k @ ''='' @ s) |k s. map_of d k = Some (PStr s)} \<and> (\<forall>k\<in>fst ` set d. \<exists>s. map_of d k = Some (PStr s))
     | _ \<Rightarrow> False)"

definition unprivileged :: "dict \<Rightarrow> bool" where
  "unprivileged h \<longleftrightarrow> py_eq (getv h ''Privileged'') (PBool False) \<and> py_eq (getv h ''ReadonlyRootfs'') (PBool True) \<and>
     set_is (getv h ''CapDrop'') [''ALL''] = Inr True \<and> getv h ''CapAdd'' \<in> {PNone, PList []} \<and>
     list_all (\<lambda>x. nothing (getv h x)) SURFACES"

lemma partition_eq: "partition_on c s = (k, True, x) \<longleftrightarrow> s = k @ c # x \<and> c \<notin> set k"
proof
  assume "s = k @ c # x \<and> c \<notin> set k"
  then have "partition_on c (k @ c # x) = (k, True, x)" by (induction k arbitrary: s) auto
  then show "partition_on c s = (k, True, x)" using \<open>s = k @ c # x \<and> c \<notin> set k\<close> by simp
qed (use partition_on_recombine in fastforce)

definition env_text :: "string \<times> string \<Rightarrow> pyval" where
  "env_text e = PStr (fst e @ ''='' @ snd e)"

lemma env_items_Inr:
  "env_items seen vs = Inr e \<Longrightarrow> vs = map env_text e \<and> distinct (map fst e) \<and> fst ` set e \<inter> set seen = {} \<and>
     (\<forall>k\<in>fst ` set e. CHR ''='' \<notin> set k)"
proof (induction seen vs arbitrary: e rule: env_items.induct)
  case (2 seen v vs)
  obtain s where v: "v = PStr s" using "2.prems" by (cases v) simp_all
  obtain k f x where p: "partition_on (CHR ''='') s = (k, f, x)" by (cases "partition_on (CHR ''='') s")
  with "2.prems" v have f: "f" "k \<notin> set seen" by (auto split: if_splits)
  with "2.prems" v p obtain e' where e': "env_items (k # seen) vs = Inr e'" "e = (k, x) # e'"
    by (auto simp: bind_res_Inr_iff)
  have "s = k @ CHR ''='' # x \<and> CHR ''='' \<notin> set k" using p f(1) partition_eq by simp
  with "2.IH" [OF v p [symmetric] refl _ e'(1)] f e'(2) show ?case by (auto simp: v env_text_def)
qed simp

lemma env_text_inject:
  "CHR ''='' \<notin> set (fst a) \<Longrightarrow> CHR ''='' \<notin> set (fst b) \<Longrightarrow> env_text a = env_text b \<Longrightarrow> a = b"
  using partition_eq [of "CHR ''=''" "fst a @ CHR ''='' # snd a" "fst a" "snd a"]
    partition_eq [of "CHR ''=''" "fst a @ CHR ''='' # snd a" "fst b" "snd b"]
  by (cases a; cases b) (auto simp: env_text_def)

lemma env_checked:
  assumes "env_from_inspect (getv c ''Env'') = Inr e" "same_env e d"
  shows "only_env c d"
proof -
  obtain xs where xs: "getv c ''Env'' = PList xs" "env_items [] xs = Inr e"
    using assms(1) by (auto simp: env_from_inspect_def split: pyval.splits)
  note items = env_items_Inr [OF xs(2)]
  have "distinct (map env_text e)"
  proof -
    have "distinct e" using items by (simp add: distinct_map)
    moreover have "inj_on env_text (set e)" using items env_text_inject by (fastforce intro: inj_onI)
    ultimately show ?thesis by (simp add: distinct_map)
  qed
  moreover have eq: "map_of d k = Some (PStr s) \<longleftrightarrow> (k, s) \<in> set e" for k s
  proof
    assume "map_of d k = Some (PStr s)"
    moreover from this have "k \<in> fst ` set d" by (metis domI dom_map_of_conv_image_fst)
    then have "k \<in> fst ` set e" using assms(2) by (simp add: same_env_def)
    then obtain s' where "(k, s') \<in> set e" by force
    ultimately show "(k, s) \<in> set e" using assms(2) by (auto simp: same_env_def list_all_iff)
  qed (use assms(2) in \<open>auto simp: same_env_def list_all_iff\<close>)
  moreover have "\<exists>s. map_of d k = Some (PStr s)" if "k \<in> fst ` set d" for k
  proof -
    have "k \<in> fst ` set e" using that assms(2) by (simp add: same_env_def)
    then show ?thesis using eq by force
  qed
  moreover have "env_text ` set e = {PStr (k @ ''='' @ s) |k s. (k, s) \<in> set e}"
    unfolding env_text_def by force
  ultimately show ?thesis using items by (auto simp: only_env_def xs(1))
qed

lemma observed_mount_Inr:
  assumes "observed_mount m = Inr x"
  shows "is_bind m \<and> mount_view m = x"
proof -
  obtain d where m: "m = PDict d" "getv d ''Type'' = PStr ''bind''"
    using assms by (cases m) (auto simp: observed_mount_def split: if_splits)
  with assms show ?thesis
    by (cases "getv d ''Destination''"; cases "getv d ''Source''"; cases "getv d ''RW''")
      (simp_all add: observed_mount_def is_bind_def mount_view_def)
qed

lemma two_observed:
  assumes "observed_mounts [m1, m2] = Inr o'" "set o' = {a, b}" "fst a \<noteq> fst b"
  shows "is_bind m1 \<and> is_bind m2 \<and> mset [mount_view m1, mount_view m2] = mset [a, b]"
proof -
  obtain x y where xy: "observed_mount m1 = Inr x" "observed_mount m2 = Inr y"
    and o': "o' = AList.update (fst y) (snd y) [x]"
    using assms(1) by (auto simp: observed_mounts_def bind_res_Inr_iff case_prod_unfold)
  have "o' = [x, y] \<or> o' = [(fst y, snd y)]" using o' by (cases x) auto
  then have "o' = [x, y]"
  proof
    assume "o' = [(fst y, snd y)]"
    then have "{a, b} = {y}" using assms(2) by simp
    then show ?thesis using assms(3) by blast
  qed
  then have "{x, y} = {a, b}" using assms(2) by simp
  then have "mset [x, y] = mset [a, b]" by (auto simp: doubleton_eq_iff)
  with observed_mount_Inr [OF xy(1)] observed_mount_Inr [OF xy(2)] show ?thesis by simp
qed

lemma mounts_checked_Inr:
  assumes "mounts_checked ins h p cwd scratch = Inr ()"
  shows "only_mounts ins [(''/workspace'', path_text cwd, getv p ''source_mount_mode'' \<noteq> PStr ''archive-ro''),
    (''/bugsweep-output'', path_text scratch, True)]"
proof -
  obtain seen o' where s: "two_items (getv ins ''Mounts'') = Inr seen" "observed_mounts seen = Inr o'"
    "set o' = {(''/workspace'', path_text cwd, getv p ''source_mount_mode'' \<noteq> PStr ''archive-ro''), (''/bugsweep-output'', path_text scratch, True)}"
    using assms by (auto simp: mounts_checked_def Let_def bind_res_Inr_iff split: if_splits)
  obtain m1 m2 where m: "getv ins ''Mounts'' = PList [m1, m2]" "seen = [m1, m2]"
    using s(1) by (auto simp: two_items_def length_Suc_conv numeral_2_eq_2 split: pyval.splits if_splits)
  from two_observed [OF s(2) [unfolded m(2)] s(3)] show ?thesis
    by (simp add: only_mounts_def m(1))
qed

lemma hardening_Inr:
  "hardening h surfaces = Inr () \<Longrightarrow> set_is (getv h ''CapDrop'') [''ALL''] = Inr True \<and>
     getv h ''CapAdd'' \<in> {PNone, PList []} \<and> list_all (\<lambda>x. nothing (getv h x)) surfaces"
  by (auto simp: hardening_def bind_res_Inr_iff split: if_splits)

lemma host_values_privileges:
  "host_values p net = Inr xs \<Longrightarrow> values_are h xs \<Longrightarrow>
     py_eq (getv h ''NetworkMode'') net \<and> py_eq (getv h ''Privileged'') (PBool False) \<and> py_eq (getv h ''ReadonlyRootfs'') (PBool True)"
  by (auto simp: host_values_def bind_res_Inr_iff values_are_def)

definition confined :: "dict \<Rightarrow> dict \<Rightarrow> dict \<Rightarrow> path \<Rightarrow> path \<Rightarrow> bool" where
  "confined ins p d cwd scratch \<longleftrightarrow>
     only_mounts ins [(''/workspace'', path_text cwd, getv p ''source_mount_mode'' \<noteq> PStr ''archive-ro''),
       (''/bugsweep-output'', path_text scratch, True)] \<and>
     only_env (dict_of (getv ins ''Config'')) d \<and> unprivileged (dict_of (getv ins ''HostConfig''))"

lemma inspect_confined:
  assumes "verify_analysis_inspect hs ins p cwd scratch cid name argv e = Inr r"
  obtains ex net ex' where "expected_env p e = Inr ex" "analysis_network p ex = Inr (net, ex')"
    "confined ins p ex' cwd scratch" "network_checked (dict_of (getv ins ''NetworkSettings'')) p net = Inr r"
    "py_eq (getv (dict_of (getv ins ''HostConfig'')) ''NetworkMode'') (fst net)"
proof -
  obtain i labels ex net ex' seen xs where
      i: "identity_checked ins cid name = Inr i" and ex: "expected_env p e = Inr ex"
    and net: "analysis_network p ex = Inr (net, ex')"
    and seen: "env_from_inspect (getv (in_config i) ''Env'') = Inr seen" "same_env seen ex'"
    and xs: "host_values p (fst net) = Inr xs" "values_are (in_host i) xs"
    and hard: "hardening (in_host i) SURFACES = Inr ()"
    and mounts: "mounts_checked ins (in_host i) p cwd scratch = Inr ()"
    and r: "network_checked (in_settings i) p net = Inr r"
    using assms by (auto simp: verify_analysis_inspect_def bind_res_Inr_iff split: if_splits prod.splits)
  have fields: "getv ins ''Config'' = PDict (in_config i)" "getv ins ''HostConfig'' = PDict (in_host i)"
      "getv ins ''NetworkSettings'' = PDict (in_settings i)"
    using i by (auto simp: identity_checked_def bind_res_Inr_iff split: if_splits)
  note pv = host_values_privileges [OF xs]
  have "confined ins p ex' cwd scratch"
    using env_checked [OF seen] mounts_checked_Inr [OF mounts] hardening_Inr [OF hard] pv
    by (simp add: confined_def fields unprivileged_def)
  moreover have "network_checked (dict_of (getv ins ''NetworkSettings'')) p net = Inr r"
      "py_eq (getv (dict_of (getv ins ''HostConfig'')) ''NetworkMode'') (fst net)"
    using r pv by (simp_all only: fields dict_of.simps)
  ultimately show ?thesis by (rule that [OF ex net])
qed

lemma verified_confined:
  assumes "verify_backend_readback hs k rb p cwd scratch cid name argv e = Inr ''verified_denied''"
  shows "\<exists>ins ex. getv rb ''analysis'' = PDict ins \<and> expected_env p e = Inr ex \<and> confined ins p ex cwd scratch \<and>
     getv p ''network_mode'' = PStr ''none'' \<and>
     getv (dict_of (getv ins ''HostConfig'')) ''NetworkMode'' = PStr ''none'' \<and>
     no_network (getv (dict_of (getv ins ''NetworkSettings'')) ''Networks'')"
proof -
  obtain ins where ins: "getv rb ''analysis'' = PDict ins"
    and v: "verify_analysis_inspect hs ins p cwd scratch cid name argv e = Inr ''verified_denied''"
    using assms by (auto simp: verify_backend_readback_def bind_res_Inr_iff Let_def split: if_splits)
  from v show ?thesis
  proof (rule inspect_confined)
    fix ex net ex'
    assume ex: "expected_env p e = Inr ex" "analysis_network p ex = Inr (net, ex')" "confined ins p ex' cwd scratch"
      and c: "network_checked (dict_of (getv ins ''NetworkSettings'')) p net = Inr ''verified_denied''"
      and m: "py_eq (getv (dict_of (getv ins ''HostConfig'')) ''NetworkMode'') (fst net)"
    from c have mode: "item (PDict p) ''network_mode'' = Inr (PStr ''none'')"
        "no_network (getv (dict_of (getv ins ''NetworkSettings'')) ''Networks'')"
      by (auto simp: network_checked_def bind_res_Inr_iff split: if_splits)
    then have "net = (PStr ''none'', PNone)" "ex' = ex" using ex(2) by (auto simp: analysis_network_def)
    moreover have "getv p ''network_mode'' = PStr ''none''"
      using mode(1) by (auto simp: item_def subscript_def getv_def split: option.splits)
    ultimately show ?thesis using ins ex m mode(2) by auto
  qed
qed

text \<open>
  C6: A container whose readback is \<open>verified_denied\<close> is confined: its policy asks for no network and it is attached to
  none that has an address, its bind mounts are exactly the source and the invocation scratch (the source
  read-only in archive mode), its environment is exactly the expected one, it has no privileges and exposes no
  host surface.\<close>

theorem verified_denied_is_confined:
  assumes "verify_backend_readback hs k rb p cwd scratch cid name argv e = Inr ''verified_denied''"
  shows "\<exists>ins ex. getv rb ''analysis'' = PDict ins \<and> expected_env p e = Inr ex \<and> confined ins p ex cwd scratch \<and>
     getv p ''network_mode'' = PStr ''none'' \<and>
     getv (dict_of (getv ins ''HostConfig'')) ''NetworkMode'' = PStr ''none'' \<and>
     no_network (getv (dict_of (getv ins ''NetworkSettings'')) ''Networks'')"
  using assms by (rule verified_confined)

subsection \<open>A run without a network\<close>

definition plain_hashing :: hashing where
  "plain_hashing = \<lparr>hs_sha = (\<lambda>s. s), hs_frepr = (\<lambda>f. ''1.0'')\<rparr>"

definition empty_disk :: disk where
  "empty_disk = \<lparr>dk_symlink = (\<lambda>s. False), dk_resolve = (\<lambda>s. None), dk_dir = (\<lambda>p. False), dk_file = (\<lambda>p. Inl OSError),
     dk_tree = (\<lambda>p. None), dk_stat = (\<lambda>s. None), dk_loads = (\<lambda>s. None)\<rparr>"

definition offline_policy :: dict where
  "offline_policy = [(''network_mode'', PStr ''none''), (''source_mount_mode'', PStr ''archive-ro''), (''image'', PStr ''i''),
     (''uid'', PStr ''1000:1000''), (''pids_limit'', PInt 64), (''memory_bytes'', PInt 16777216), (''cpus'', PInt 2),
     (''image_env_allowlist'', PDict [])]"

definition offline_host :: dict where
  "offline_host = [(''NetworkMode'', PStr ''none''), (''IpcMode'', PStr ''none''), (''Privileged'', PBool False),
     (''ReadonlyRootfs'', PBool True), (''PidsLimit'', PInt 64), (''Memory'', PInt 16777216), (''MemorySwap'', PInt 16777216),
     (''NanoCpus'', PInt 2000000000), (''CapDrop'', PList [PStr ''ALL'']), (''SecurityOpt'', PList [PStr ''no-new-privileges'']),
     (''Tmpfs'', PDict [(''/tmp'', PStr ''rw,noexec,nosuid,nodev,size=67108864'')]),
     (''Mounts'', PList [PDict [(''Type'', PStr ''bind''), (''Target'', PStr ''/workspace''), (''Source'', PStr ''/s''), (''ReadOnly'', PBool True)],
        PDict [(''Type'', PStr ''bind''), (''Target'', PStr ''/bugsweep-output''), (''Source'', PStr ''/o''), (''ReadOnly'', PBool False)]])]"

definition offline_inspect :: dict where
  "offline_inspect = [(''Id'', PStr ''c1''), (''Name'', PStr ''/bugsweep-1''),
     (''Config'', PDict [(''Image'', PStr ''i''), (''User'', PStr ''1000:1000''), (''WorkingDir'', PStr ''/workspace''),
        (''Entrypoint'', PList [PStr ''pytest'']), (''Cmd'', PList [PStr ''-q'']),
        (''Labels'', PDict [(''org.bugsweep.invocation'', PStr ''1'')]),
        (''Env'', PList (map env_text ((''CI'', ''1'') # fixed_environment ''/bugsweep-output'')))]),
     (''HostConfig'', PDict offline_host), (''NetworkSettings'', PDict [(''Networks'', PDict [])]),
     (''Mounts'', PList [PDict [(''Type'', PStr ''bind''), (''Destination'', PStr ''/bugsweep-output''), (''Source'', PStr ''/o''), (''RW'', PBool True)],
        PDict [(''Type'', PStr ''bind''), (''Destination'', PStr ''/workspace''), (''Source'', PStr ''/s''), (''RW'', PBool False)]])]"

definition offline_readback :: dict where
  "offline_readback = [(''schema_version'', PInt 1), (''kind'', PStr ''docker-inspect-readback''), (''analysis'', PDict offline_inspect)]"

lemma offline_verified:
  "verify_backend_readback plain_hashing empty_disk offline_readback offline_policy [''s''] [''o''] ''c1'' ''bugsweep-1''
     [''pytest'', ''-q''] [(''CI'', ''1'')] = Inr ''verified_denied''"
  by code_simp

theorem verified_denied_is_confined_witness:
  "\<exists>ex. confined offline_inspect offline_policy ex [''s''] [''o'']"
  using verified_denied_is_confined [OF offline_verified] by (auto simp: offline_readback_def getv_def)

end
