(* ===== verification/Sample_Policy.thy ===== *)
theory Sample_Policy
  imports Exec_Policy
begin

text \<open>
  A policy that \<open>validate_policy\<close> accepts, in the approved-proxy mode with the receipt of the proxy's launcher, and the
  properties of accepted policies at it.  Every digest is the same 64 characters.
\<close>

definition zeros :: string where "zeros = replicate 64 CHR ''0''"

lemma zeros_sha [simp]: "sha256_text zeros" by (simp add: sha256_text_def zeros_def list_all_iff)

definition zero_hashing :: hashing where
  "zero_hashing = \<lparr>hs_sha = (\<lambda>s. zeros), hs_frepr = (\<lambda>f. ''1.0'')\<rparr>"

definition sample_pair :: "string \<Rightarrow> pyval" where
  "sample_pair s = PDict [(''name'', PStr s), (''id'', PStr zeros)]"

definition sample_limits :: dict where
  "sample_limits = (''enforcement'', PDict (map (\<lambda>n. (n, PStr ''proxy'')) NUMERIC_LIMITS)) # map (\<lambda>n. (n, PInt 1)) NUMERIC_LIMITS"

definition sample_upstream :: dict where
  "sample_upstream = [(''host'', PStr ''api.anthropic.com''), (''allowed_paths'', PList [PStr ''/v1/messages''])]"

definition sample_arm :: pyval where
  "sample_arm = PDict [(''skill_revision'', PStr ''r1''), (''skill_content_sha256'', PStr zeros)]"

definition sample_ref :: dict where
  "sample_ref = [(''path'', PStr ''/r''), (''sha256'', PStr zeros), (''schema_version'', PInt 1), (''owner'', PStr ''bench/lib/proxy.sh'')]"

definition sample_proxy :: dict where
  "sample_proxy = [(''container_name'', PStr ''bugsweep-proxy''), (''container_id'', PStr zeros), (''image_digest'', PStr zeros)]"

definition sample_analysis :: dict where
  "sample_analysis = [(''entrypoint'', PStr ''/usr/local/bin/bench-host-adapter''), (''entrypoint_sha256'', PStr zeros)]"

definition sample_client :: dict where
  "sample_client = [(''inert_credential_literal'', PStr INERT)]"

definition sample_arms :: dict where
  "sample_arms = [(''current'', sample_arm), (''previous'', sample_arm), (''baseline'', sample_arm)]"

definition sample_profile :: dict where
  "sample_profile =
     [(''host'', PStr ''claude''), (''proxy_receipt'', PDict sample_ref), (''internal_network'', sample_pair ''bugsweep-in''),
      (''egress_network'', sample_pair ''bugsweep-out''), (''proxy'', PDict sample_proxy), (''upstream'', PDict sample_upstream),
      (''analysis'', PDict sample_analysis), (''client'', PDict sample_client), (''arms'', PDict sample_arms),
      (''limits'', PDict sample_limits)]"

definition sample_receipt :: dict where
  "sample_receipt =
     [(''schema_version'', PInt 1), (''owner'', PStr ''bench/lib/proxy.sh''), (''host'', PStr ''claude''),
      (''internal_network'', sample_pair ''bugsweep-in''), (''egress_network'', sample_pair ''bugsweep-out''),
      (''proxy'', PDict [(''container_name'', PStr ''bugsweep-proxy''), (''container_id'', PStr zeros),
        (''image_digest'', PStr (''sha256:'' @ zeros))]),
      (''upstream'', PDict sample_upstream), (''secret'', secret_boundary),
      (''policy'', PDict [(''mount'', PStr ''/etc/bugsweep/proxy-policy.json''), (''sha256'', PStr zeros), (''nonsecret'', PBool True)]),
      (''limits'', PDict sample_limits)]"

definition sample_disk :: disk where
  "sample_disk = \<lparr>dk_symlink = (\<lambda>s. False), dk_resolve = (\<lambda>s. Some (path_parts s)), dk_dir = (\<lambda>p. True), dk_file = (\<lambda>p. Inr []),
     dk_tree = (\<lambda>p. Some [(''a'', Regular plain_stat (Some zeros))]), dk_stat = (\<lambda>s. None),
     dk_loads = (\<lambda>s. Some (PDict sample_receipt))\<rparr>"

definition sample_policy :: dict where
  "sample_policy =
     [(''schema_version'', PInt 1), (''mode'', PStr ''required-untrusted''), (''backend'', PStr ''docker''),
      (''canonical_engine_path'', PStr ''/d''), (''engine_sha256'', PStr zeros), (''target_root'', PStr ''/t''),
      (''scratch_root'', PStr ''/s''),
      (''source_identity'', PDict [(''kind'', PStr ''content-manifest-sha256''), (''sha256'', PStr zeros),
        (''source_file_sha256'', PDict [(''a'', PStr zeros)])]),
      (''term_grace_seconds'', PInt 1), (''image'', PStr (''a@sha256:'' @ zeros)), (''uid'', PStr ''1:1''), (''pids_limit'', PInt 2),
      (''memory_bytes'', PInt 16777216), (''cpus'', PInt 1), (''network_mode'', PStr ''approved-proxy-only''),
      (''source_mount_mode'', PStr ''archive-ro''), (''benchmark_profile'', PDict sample_profile)]"

lemma sample_disk_simps [simp]:
  "dk_symlink sample_disk s = False" "dk_resolve sample_disk s = Some (path_parts s)" "dk_dir sample_disk p"
  "dk_file sample_disk p = Inr []" "dk_loads sample_disk s = Some (PDict sample_receipt)"
  by (simp_all add: sample_disk_def)

lemma sample_hash [simp]: "hs_sha zero_hashing s = zeros"
  by (simp add: zero_hashing_def)

lemma sample_paths [simp]:
  "path_parts ''/d'' = [''d'']" "path_parts ''/t'' = [''t'']" "path_parts ''/s'' = [''s'']" "path_parts ''/r'' = [''r'']"
  by code_simp+


lemma py_eq_same: "\<not> has_nan a \<Longrightarrow> py_eq a a"
  by (simp add: py_eq_def)

lemmas name_simps = bugsweep_name_def starts_with_def name_char_def env_rest_def env_start_def Let_def
lemmas record_simps = getv_def exact_dict_def str_that_def

lemma sample_pair_ok:
  "identity_pair (sample_pair ''bugsweep-in'') = Inr (dict_of (sample_pair ''bugsweep-in''))"
  "identity_pair (sample_pair ''bugsweep-out'') = Inr (dict_of (sample_pair ''bugsweep-out''))"
  by (simp_all add: identity_pair_def sample_pair_def record_simps name_simps)

lemma sample_proxy_ok: "proxy_identity (PDict sample_proxy) = Inr sample_proxy"
  by (simp add: sample_proxy_def proxy_identity_def record_simps name_simps)

lemma sample_upstream_ok: "profile_upstream ''claude'' (PDict sample_upstream) = Inr sample_upstream"
  by (simp add: sample_upstream_def record_simps profile_upstream_def upstream_of_def py_eq_same)

lemma sample_analysis_ok: "profile_analysis (PDict sample_analysis) = Inr sample_analysis"
  by (simp add: sample_analysis_def record_simps profile_analysis_def)

lemma sample_client_ok: "profile_client (PDict sample_client) = Inr sample_client"
  by (simp add: sample_client_def profile_client_def py_eq_same)

lemma sample_arms_ok: "profile_arms (PDict sample_arms) = Inr sample_arms"
  by (simp add: sample_arms_def record_simps profile_arms_def sample_arm_def profile_arm_def)

lemma sample_limits_ok: "profile_limits (PDict sample_limits) = Inr sample_limits"
  by (simp add: sample_limits_def record_simps profile_limits_def NUMERIC_LIMITS_def finite_that_def)

lemma sample_ref_ok: "profile_receipt_ref (PDict sample_ref) = Inr sample_ref"
  by (simp add: sample_ref_def record_simps profile_receipt_ref_def)

definition sample_read :: profile where
  "sample_read = \<lparr>p_host = ''claude'', p_ref = sample_ref, p_internal = dict_of (sample_pair ''bugsweep-in''),
     p_egress = dict_of (sample_pair ''bugsweep-out''), p_proxy = sample_proxy, p_upstream = sample_upstream,
     p_analysis = sample_analysis, p_client = sample_client, p_arms = sample_arms, p_limits = sample_limits\<rparr>"

lemma sample_read_ok: "read_profile sample_profile = Inr sample_read"
proof -
  have "dict_of (sample_pair ''bugsweep-in'') \<noteq> dict_of (sample_pair ''bugsweep-out'')" by (simp add: sample_pair_def)
  then show ?thesis
    by (simp add: read_profile_def sample_profile_def getv_def profile_host_def in_set_def sample_pair_ok sample_proxy_ok
      sample_upstream_ok sample_analysis_ok sample_client_ok sample_arms_ok sample_limits_ok sample_ref_ok sample_read_def)
qed

lemma sample_boundaries: "receipt_boundaries sample_receipt = Inr (dict_of (getv sample_receipt ''policy''))"
  by (simp add: sample_receipt_def receipt_boundaries_def record_simps secret_boundary_def proxy_policy_ok_def py_eq_same)

lemma sample_no_nan:
  "\<not> has_nan (PDict sample_upstream)" "\<not> has_nan (PDict sample_limits)" "\<not> has_nan (sample_pair s)"
  by (simp_all add: sample_upstream_def sample_limits_def sample_pair_def NUMERIC_LIMITS_def)

lemma sample_names: "receipt_names sample_read sample_receipt"
proof -
  have "PDict (dict_of (sample_pair s)) = sample_pair s" for s by (simp add: sample_pair_def)
  moreover have "py_eq (PDict [(''host'', getv sample_upstream ''host''), (''allowed_paths'', getv sample_upstream ''allowed_paths'')])
      (PDict sample_upstream)"
    by (simp add: sample_upstream_def getv_def py_eq_same)
  moreover have "py_eq (PDict sample_upstream) (PDict [(''host'', getv sample_upstream ''host''), (''allowed_paths'', getv sample_upstream ''allowed_paths'')])"
    by (simp add: sample_upstream_def getv_def py_eq_same)
  ultimately show ?thesis
    by (simp add: receipt_names_def sample_read_def sample_receipt_def getv_def py_eq_same sample_no_nan sample_proxy_def)
qed

lemma sample_profile_ok:
  "validate_benchmark_profile zero_hashing sample_disk (PDict sample_profile) [''t''] [''s''] =
     Inr (profile_dict sample_read (dict_of (getv sample_receipt ''policy'')))"
proof -
  have "set (map fst sample_profile) = set PROFILE_FIELDS" by (simp add: sample_profile_def PROFILE_FIELDS_def)
  moreover have "bounded_json_file zero_hashing sample_disk (getv (p_ref sample_read) ''path'') [''t''] [''s''] = Inr (sample_receipt, zeros)"
    by (simp add: bounded_json_file_def sample_read_def sample_ref_def getv_def absolute_def starts_with_def resolve_strict_def
      read_bounded_def is_within_def)
  moreover have "getv (p_ref sample_read) ''sha256'' = PStr zeros" by (simp add: sample_read_def sample_ref_def getv_def)
  moreover have "proxy_image sample_receipt = PStr (image_id (p_proxy sample_read))"
    by (simp add: proxy_image_def sample_receipt_def image_id_def sample_read_def sample_proxy_def getv_def)
  moreover have "py_eq (getv sample_receipt ''limits'') (PDict (p_limits sample_read))"
    by (simp add: sample_receipt_def sample_read_def getv_def py_eq_same [OF sample_no_nan(2)])
  ultimately show ?thesis
    by (simp add: validate_benchmark_profile_def exact_dict_def sample_read_ok sample_names sample_boundaries)
qed

lemma sample_image: "image_digest (''a@sha256:'' @ zeros) = Some zeros"
  by (simp add: image_digest_def image_name_def starts_with_def env_rest_def env_start_def Let_def)

lemma sample_uid: "nonroot_uid ''1:1''"
  by code_simp

lemma sample_limits_policy: "policy_limits sample_policy = Inr ()"
proof -
  have "finite_that (\<lambda>q. TENTH \<le> q \<and> q \<le> 64) (PInt 1) = Inr True" by (simp add: finite_that_def TENTH_def Fract_of_int_quotient)
  moreover have "getv sample_policy ''image'' = PStr (''a@sha256:'' @ zeros)" "getv sample_policy ''uid'' = PStr ''1:1''"
      "getv sample_policy ''pids_limit'' = PInt 2" "getv sample_policy ''memory_bytes'' = PInt 16777216"
      "getv sample_policy ''cpus'' = PInt 1"
    by (simp_all add: sample_policy_def getv_def)
  ultimately show ?thesis
    by (simp only: policy_limits_def sample_image) (simp add: str_that_def sample_image sample_uid int_between_def del: append.simps)
qed

lemma sample_roots: "policy_roots sample_disk sample_policy [''t''] = Inr [''s'']"
  by (simp add: sample_policy_def policy_roots_def getv_def existing_dir_def absolute_def starts_with_def posix_absolute_def
    utf8_length_def MAX_PATH_BYTES_def is_within_def)

definition sample_identity :: source_identity where
  "sample_identity = \<lparr>si_sha = zeros, si_files = [(''a'', zeros)]\<rparr>"

lemma sample_source: "validate_source_identity zero_hashing (getv sample_policy ''source_identity'') = Inr sample_identity"
proof -
  have "relative_output_path (PStr ''a'') = Inr ''a''" by code_simp
  then show ?thesis
    by (simp add: sample_policy_def validate_source_identity_def getv_def identity_files_def identity_file_def json_digest_def
      canonical_json_def env_dict_def MAX_SOURCE_FILES_def sample_identity_def)
qed

lemma sample_verified: "verify_source_identity (dk_tree sample_disk p) sample_identity mode = Inr ()"
  by (simp add: sample_disk_def sample_identity_def verify_source_identity_def capture_source_files_def capture_loop.simps
    plain_stat_def MAX_SOURCE_FILES_def same_files_def relative_def)

lemma sample_engine:
  assumes "getv n ''canonical_engine_path'' = PStr ''/d''" "getv n ''engine_sha256'' = PStr zeros"
  shows "engine_identity zero_hashing sample_disk n = Inr (Inr ''/d'')"
  by (simp add: engine_identity_def engine_check_def same_path_def assms absolute_def starts_with_def posix_absolute_def path_text_def)

lemma sample_fields:
  "policy_backend sample_policy = Inr ''docker''" "policy_fields_ok ''docker'' sample_policy" "policy_grace sample_policy = Inr ()"
  "mount_mode sample_policy = Inr ''archive-ro''" "network_mode sample_policy = Inr ''approved-proxy-only''"
  "getv sample_policy ''image_env_allowlist'' = PNone" "getv sample_policy ''benchmark_profile'' = PDict sample_profile"
  "getv sample_policy ''canonical_engine_path'' = PStr ''/d''" "getv sample_policy ''engine_sha256'' = PStr zeros"
  "getv sample_policy ''network_mode'' = PStr ''approved-proxy-only''"
  by (simp_all add: sample_policy_def policy_backend_def policy_fields_ok_def DOCKER_FIELDS_def COMMON_FIELDS_def policy_grace_def
    finite_that_def mount_mode_def network_mode_def in_set_def getv_def Let_def)

lemma sample_accepted:
  obtains n where "validate_policy zero_hashing sample_disk (PDict sample_policy) [''t''] = Inr (n, [''s''], Inr ''/d'')" "profiled n"
proof
  let ?r = "rooted sample_policy [''t''] [''s''] sample_identity"
  let ?n = "AList.update ''benchmark_profile'' (PDict (profile_dict sample_read (dict_of (getv sample_receipt ''policy''))))
    (AList.update ''image_env_allowlist'' (PDict []) (AList.update ''source_mount_mode'' (PStr ''archive-ro'') ?r))"
  have "docker_policy zero_hashing sample_disk sample_policy [''t''] [''s''] sample_identity ?r = Inr ?n"
    by (simp add: docker_policy_def sample_fields sample_verified sample_limits_policy validate_environment_def env_dict_def
      policy_network_def sample_profile_ok)
  moreover have "engine_identity zero_hashing sample_disk ?n = Inr (Inr ''/d'')"
    by (rule sample_engine) (simp_all add: sample_fields)
  ultimately show "validate_policy zero_hashing sample_disk (PDict sample_policy) [''t''] = Inr (?n, [''s''], Inr ''/d'')"
    by (simp add: validate_policy_def validate_policy_dict_def sample_fields sample_roots sample_source)
  show "profiled ?n" by (simp add: profiled_def sample_fields)
qed

theorem container_environment_confined_witness:
  "\<exists>n e. validate_environment (PDict [(''CI'', PStr ''1'')]) = Inr e \<and> profiled n \<and> inert_credentials n (container_env n e)"
proof -
  obtain n where n: "validate_policy zero_hashing sample_disk (PDict sample_policy) [''t''] = Inr (n, [''s''], Inr ''/d'')" "profiled n"
    by (rule sample_accepted)
  have e: "validate_environment (PDict [(''CI'', PStr ''1'')]) = Inr [(''CI'', ''1'')]" by code_simp
  have "inert_credentials n (container_env n [(''CI'', ''1'')])"
    using container_environment_confined [OF n(1) e] n(2) by (elim conjE) (drule (1) mp)
  with e n(2) show ?thesis by (intro exI conjI)
qed

theorem approved_proxy_never_builds_witness:
  "\<exists>n. validate_policy zero_hashing sample_disk (PDict sample_policy) [''t''] = Inr (n, [''s''], Inr ''/d'') \<and>
     (\<forall>argv. build_backend_argv zero_hashing sample_disk (PList [PStr ''x'']) ''/t'' ''/s'' (PDict n) ''bugsweep-1'' PNone \<noteq> Inr argv)"
proof -
  obtain n where n: "validate_policy zero_hashing sample_disk (PDict sample_policy) [''t''] = Inr (n, [''s''], Inr ''/d'')" "profiled n"
    by (rule sample_accepted)
  from approved_proxy_never_builds [OF n] n(1) show ?thesis by blast
qed

end
