(* ===== verification/Run_Command.thy ===== *)
theory Run_Command
  imports Exec_Readback Sample_Policy
begin

text \<open>
  \<open>run_command\<close> of \<^verbatim>\<open>scripts/_execution.py\<close>: one execution from the validation of its inputs to its receipt.
  Its locals are the record \<open>run_state\<close>, with a log of what reached the backend; the \<open>try\<close> block is a
  state-and-error step, so the handlers and the \<open>finally\<close> block see what was done before an exception.

  What the outside world answers is the parameter \<open>session\<close>: the disk as each step finds it, the exit status and
  the output of every control command, the end of the process, and whether the deadline has passed.
\<close>

subsection \<open>The session\<close>

text \<open>
  The control commands.  \<open>Create\<close> runs the job's argument vector; the inspections carry the ids they ask Docker about;
  \<open>Cleanup_Inspect\<close> and \<open>Remove\<close> name the container of the job, in the \<open>try\<close> block or finally.
\<close>

datatype control = Create | Inspect string | Proxy_Inspect string | Network_Inspect "string list" | Cleanup_Inspect bool | Remove bool

text \<open>The points at which a step looks at the disk.\<close>

datatype moment = At_Validation | At_Building | At_Launch | At_Control control | At_Readback | At_Start

datatype ending = Exited int | Timed_Out int | Interrupted int | Wait_Failed int

record session =
  se_hashing :: hashing
  se_disk :: "moment \<Rightarrow> disk"
  se_exists :: "string \<Rightarrow> bool"
  se_mkdir :: "exec_error + unit"
  se_id :: string
  se_expired :: bool
  se_scratch :: "exec_error + path"
  se_late :: "control \<Rightarrow> bool"
  se_status :: "control \<Rightarrow> exec_error + int"
  se_stdout :: "control \<Rightarrow> exec_error + string"
  se_write :: "exec_error + unit"
  se_open :: "string \<Rightarrow> exec_error + unit"
  se_popen :: "exec_error + unit"
  se_ending :: ending
  se_artifact :: "string \<Rightarrow> exec_error + string \<times> int"
  se_tree :: "listing option"
  se_started_at :: string
  se_finished_at :: string

text \<open>What reached the backend: a control command, or the process started with this argument vector.\<close>

datatype event = Ran control | Started "string list"

record run_state =
  r_attempted :: bool
  r_created :: bool
  r_cid :: "string option"
  r_readback :: "string option"
  r_verified :: bool
  r_network :: string
  r_captures :: "string list"
  r_process :: bool
  r_exit :: "int option"
  r_termination :: string
  r_reason :: "string option"
  r_removed :: bool
  r_log :: "event list"

type_synonym 'a step = "(run_state, exec_error, 'a) act"

definition change :: "(run_state \<Rightarrow> run_state) \<Rightarrow> unit step" where
  "change f = (\<lambda>s. (Inr (), f s))"

definition result :: "exec_error + 'a \<Rightarrow> 'a step" where
  "result r = act_read (\<lambda>s. r)"

lemma step_eval [act_simps]: "change f s = (Inr (), f s)" "result r s = (r, s)"
  by (simp_all add: change_def result_def act_read_def)

definition log_event :: "event \<Rightarrow> unit step" where
  "log_event x = change (\<lambda>s. s\<lparr>r_log := r_log s @ [x]\<rparr>)"

subsection \<open>Control commands\<close>

definition engine_still :: "session \<Rightarrow> moment \<Rightarrow> dict \<Rightarrow> string \<Rightarrow> bool" where
  "engine_still w t n engine \<longleftrightarrow> engine_identity (se_hashing w) (se_disk w t) n = Inr (Inr engine)"

definition control_capture :: "session \<Rightarrow> dict \<Rightarrow> string \<Rightarrow> control \<Rightarrow> int step" where
  "control_capture w n engine c =
     act_bind (result (verify (engine_still w (At_Control c) n engine))) (\<lambda>_.
     act_bind (log_event (Ran c)) (\<lambda>_. result (se_status w c)))"

definition decoded :: "session \<Rightarrow> moment \<Rightarrow> string \<Rightarrow> exec_error + pyval" where
  "decoded w t raw = (case dk_loads (se_disk w t) raw of None \<Rightarrow> Inl ExecutionError | Some v \<Rightarrow> Inr v)"

definition docker_json :: "session \<Rightarrow> dict \<Rightarrow> string \<Rightarrow> control \<Rightarrow> pyval step" where
  "docker_json w n engine c =
     act_bind (control_capture w n engine c) (\<lambda>status.
     act_bind (result (verify (status = 0))) (\<lambda>_.
     act_bind (result (se_stdout w c)) (\<lambda>raw. result (decoded w (At_Control c) raw))))"

definition in_time :: "session \<Rightarrow> control \<Rightarrow> unit step" where
  "in_time w c = result (if se_late w c then Inl DeadlineExceeded else Inr ())"

definition timed_json :: "session \<Rightarrow> dict \<Rightarrow> string \<Rightarrow> control \<Rightarrow> pyval step" where
  "timed_json w n engine c = act_bind (in_time w c) (\<lambda>_. docker_json w n engine c)"

definition owned :: "string \<Rightarrow> pyval \<Rightarrow> bool" where
  "owned name v \<longleftrightarrow> (case v of
       PList [PDict c] \<Rightarrow> getv c ''Name'' = PStr (CHR ''/'' # name) \<and>
         (case getv c ''Config'' of
            PDict d \<Rightarrow> (case getv d ''Labels'' of
                PDict l \<Rightarrow> getv l ''org.bugsweep.invocation'' = PStr (invocation_of name) | _ \<Rightarrow> False)
          | _ \<Rightarrow> False)
     | _ \<Rightarrow> False)"

text \<open>What \<open>_remove_owned_container\<close> and \<open>_control_engine\<close> turn into \<open>False\<close>.\<close>

definition caught :: "exec_error \<Rightarrow> bool" where
  "caught e \<longleftrightarrow> e \<in> {ExecutionError, DeadlineExceeded, OSError}"

definition control_engine :: "session \<Rightarrow> dict \<Rightarrow> string \<Rightarrow> control \<Rightarrow> bool step" where
  "control_engine w n engine c = (\<lambda>s. case control_capture w n engine c s of
       (Inr status, s') \<Rightarrow> (Inr (status = 0), s')
     | (Inl e, s') \<Rightarrow> (if caught e then Inr False else Inl e, s'))"

definition remove_owned :: "session \<Rightarrow> dict \<Rightarrow> string \<Rightarrow> string \<Rightarrow> bool \<Rightarrow> bool step" where
  "remove_owned w n engine name final = (\<lambda>s. case docker_json w n engine (Cleanup_Inspect final) s of
       (Inr v, s') \<Rightarrow> if owned name v then control_engine w n engine (Remove final) s' else (Inr False, s')
     | (Inl e, s') \<Rightarrow> (if caught e then Inr False else Inl e, s'))"

definition remove_backend :: "session \<Rightarrow> dict \<Rightarrow> string \<Rightarrow> string \<Rightarrow> bool \<Rightarrow> unit step" where
  "remove_backend w n engine name final =
     act_bind (remove_owned w n engine name final) (\<lambda>b. change (\<lambda>s. s\<lparr>r_removed := b\<rparr>))"

subsection \<open>The guarded part\<close>

record job =
  j_argv :: "string list"
  j_env :: env
  j_outputs :: "outfile list"
  j_target :: path
  j_policy :: dict
  j_engine :: string
  j_scratch :: path
  j_name :: string
  j_mount :: "string option"
  j_launch :: "string list"

definition docker :: "job \<Rightarrow> bool" where
  "docker j \<longleftrightarrow> getv (j_policy j) ''backend'' = PStr ''docker''"

definition ascii :: "string \<Rightarrow> exec_error + string" where
  "ascii s = (if list_all (\<lambda>c. (of_char c :: nat) < 128) s then Inr s else Inl (Raised ValueError))"

definition create_container :: "session \<Rightarrow> job \<Rightarrow> string step" where
  "create_container w j =
     act_bind (change (\<lambda>s. s\<lparr>r_attempted := True\<rparr>)) (\<lambda>_.
     act_bind (in_time w Create) (\<lambda>_.
     act_bind (control_capture w (j_policy j) (j_engine j) Create) (\<lambda>status.
     act_bind (result (verify (status = 0))) (\<lambda>_.
     act_bind (change (\<lambda>s. s\<lparr>r_created := True\<rparr>)) (\<lambda>_.
     act_bind (result (se_stdout w Create)) (\<lambda>raw.
     act_bind (result (ascii raw)) (\<lambda>text.
     act_bind (change (\<lambda>s. s\<lparr>r_cid := Some (strip text)\<rparr>)) (\<lambda>_.
     act_bind (result (verify (sha256_text (strip text)))) (\<lambda>_. act_return (strip text))))))))))"

definition only_item :: "pyval \<Rightarrow> exec_error + pyval" where
  "only_item v = (case v of PList [x] \<Rightarrow> Inr x | _ \<Rightarrow> Inl ExecutionError)"

text \<open>The ids that the benchmark profile of the policy names.\<close>

definition profile_id :: "job \<Rightarrow> string \<Rightarrow> string \<Rightarrow> string" where
  "profile_id j part key = text_of (getv (dict_of (getv (dict_of (getv (j_policy j) ''benchmark_profile'')) part)) key)"

definition proxy_inspect :: "job \<Rightarrow> control" where
  "proxy_inspect j = Proxy_Inspect (profile_id j ''proxy'' ''container_id'')"

definition network_inspect :: "job \<Rightarrow> control" where
  "network_inspect j = Network_Inspect [profile_id j ''internal_network'' ''id'', profile_id j ''egress_network'' ''id'']"

definition read_backend :: "session \<Rightarrow> job \<Rightarrow> string \<Rightarrow> dict step" where
  "read_backend w j cid =
     act_bind (timed_json w (j_policy j) (j_engine j) (Inspect cid)) (\<lambda>a.
     act_bind (result (only_item a)) (\<lambda>analysis.
     let rb = [(''schema_version'', PInt 1), (''kind'', PStr ''docker-inspect-readback''), (''analysis'', analysis)]
     in if profiled (j_policy j)
        then act_bind (timed_json w (j_policy j) (j_engine j) (proxy_inspect j)) (\<lambda>p.
             act_bind (timed_json w (j_policy j) (j_engine j) (network_inspect j)) (\<lambda>nets.
             act_bind (result (only_item p)) (\<lambda>proxy.
             act_return (rb @ [(''proxy'', proxy), (''networks'', nets)]))))
        else act_return rb))"

definition MAX_READBACK :: nat where "MAX_READBACK = 4194304"

definition write_readback :: "session \<Rightarrow> dict \<Rightarrow> unit step" where
  "write_readback w rb =
     act_bind (result (raised (canonical_json (se_hashing w) (PDict rb)))) (\<lambda>bytes.
     act_bind (result (verify (length bytes \<le> MAX_READBACK))) (\<lambda>_.
     act_bind (result (se_write w)) (\<lambda>_. change (\<lambda>s. s\<lparr>r_readback := Some bytes\<rparr>))))"

definition bound_identity :: "job \<Rightarrow> source_identity" where
  "bound_identity j = (let d = dict_of (getv (j_policy j) ''source_identity'')
     in \<lparr>si_sha = text_of (getv d ''sha256''), si_files = env_of (getv d ''source_file_sha256'')\<rparr>)"

definition verify_run :: "session \<Rightarrow> job \<Rightarrow> string \<Rightarrow> dict \<Rightarrow> exec_error + string" where
  "verify_run w j cid rb = verify_backend_readback (se_hashing w) (se_disk w At_Readback) rb (j_policy j) (j_target j)
     (j_scratch j) cid (j_name j) (j_argv j) (j_env j)"

definition source_unchanged :: "session \<Rightarrow> job \<Rightarrow> exec_error + unit" where
  "source_unchanged w j =
     bind_res (raised (verify_source_identity (dk_tree (se_disk w At_Start) (j_target j)) (bound_identity j)
       (text_of (getv (j_policy j) ''source_mount_mode'')))) (\<lambda>_.
     bind_res (raised (mount_inventory (se_hashing w) (j_target j) (dk_tree (se_disk w At_Start) (j_target j)))) (\<lambda>m.
     verify (j_mount j = Some m)))"

definition verify_container :: "session \<Rightarrow> job \<Rightarrow> string \<Rightarrow> unit step" where
  "verify_container w j cid =
     act_bind (read_backend w j cid) (\<lambda>rb.
     act_bind (write_readback w rb) (\<lambda>_.
     act_bind (result (verify_run w j cid rb)) (\<lambda>net.
     act_bind (change (\<lambda>s. s\<lparr>r_network := net\<rparr>)) (\<lambda>_.
     act_bind (result (source_unchanged w j)) (\<lambda>_. change (\<lambda>s. s\<lparr>r_verified := True\<rparr>))))))"

definition open_capture :: "session \<Rightarrow> string \<Rightarrow> unit step" where
  "open_capture w name = act_bind (result (se_open w name)) (\<lambda>_. change (\<lambda>s. s\<lparr>r_captures := r_captures s @ [name]\<rparr>))"

definition ended :: "ending \<Rightarrow> run_state \<Rightarrow> run_state" where
  "ended x s = (case x of
       Exited c \<Rightarrow> s\<lparr>r_exit := Some c\<rparr>
     | Timed_Out c \<Rightarrow> s\<lparr>r_exit := Some c, r_termination := ''timeout'', r_reason := Some ''deadline_exceeded''\<rparr>
     | Interrupted c \<Rightarrow> s\<lparr>r_exit := Some c, r_termination := ''cancelled'', r_reason := Some ''coordinator_cancelled''\<rparr>
     | Wait_Failed c \<Rightarrow> s)"

text \<open>
  What is started: for Docker the container that was created and verified, by its id; natively the argument
  vector itself.\<close>

definition start_argv :: "job \<Rightarrow> string \<Rightarrow> string list" where
  "start_argv j cid = [j_engine j, ''start'', ''--attach'', cid]"

definition prepare :: "session \<Rightarrow> job \<Rightarrow> string list step" where
  "prepare w j =
     (if docker j
      then act_bind (create_container w j) (\<lambda>cid.
           act_bind (verify_container w j cid) (\<lambda>_. act_return (start_argv j cid)))
      else act_return (j_launch j))"

text \<open>Starting the process and waiting for it; a wait that fails leaves it to a handler to reap.\<close>

definition run_process :: "session \<Rightarrow> job \<Rightarrow> string list \<Rightarrow> unit step" where
  "run_process w j argv =
     act_bind (result (verify (engine_still w At_Launch (j_policy j) (j_engine j)))) (\<lambda>_.
     act_bind (open_capture w ''stdout.log'') (\<lambda>_.
     act_bind (open_capture w ''stderr.log'') (\<lambda>_.
     act_bind (result (se_popen w)) (\<lambda>_.
     act_bind (change (\<lambda>s. s\<lparr>r_process := True, r_log := r_log s @ [Started argv]\<rparr>)) (\<lambda>_.
     act_bind (result (case se_ending w of Wait_Failed c \<Rightarrow> Inl OSError | _ \<Rightarrow> Inr ())) (\<lambda>_.
     change (ended (se_ending w))))))))"

definition guarded :: "session \<Rightarrow> job \<Rightarrow> unit step" where
  "guarded w j =
     act_bind (result (verify (engine_still w At_Launch (j_policy j) (j_engine j)))) (\<lambda>_.
     act_bind (prepare w j) (\<lambda>argv.
     act_bind (run_process w j argv) (\<lambda>_. \<lambda>s.
       if r_created s
       then act_bind (remove_backend w (j_policy j) (j_engine j) (j_name j) False) (\<lambda>_.
            change (\<lambda>s. if r_removed s then s else s\<lparr>r_reason := Some ''backend_removal_failed''\<rparr>)) s
       else (Inr (), s))))"

text \<open>The handlers, the \<open>finally\<close> block, and the exceptions neither catches.\<close>

definition reaped :: "session \<Rightarrow> run_state \<Rightarrow> run_state" where
  "reaped w s = (case (r_process s, se_ending w) of (True, Wait_Failed c) \<Rightarrow> s\<lparr>r_exit := Some c\<rparr> | _ \<Rightarrow> s)"

definition handle :: "session \<Rightarrow> exec_error \<Rightarrow> run_state \<Rightarrow> (exec_error + unit) \<times> run_state" where
  "handle w e s =
     (if e = KeyboardInterrupt
      then (Inr (), reaped w (s\<lparr>r_termination := ''cancelled'', r_reason := Some ''coordinator_cancelled''\<rparr>))
      else if e = DeadlineExceeded
      then (Inr (), reaped w (s\<lparr>r_termination := ''timeout'', r_reason := Some ''deadline_exceeded''\<rparr>))
      else if caught e
      then (Inr (), reaped w (s\<lparr>r_termination := ''backend_unavailable'',
             r_reason := Some (if r_readback s \<noteq> None \<and> \<not> r_verified s then ''backend_readback_rejected''
                               else ''backend_launch_failed'')\<rparr>))
      else (Inl e, s))"

definition finally_remove :: "session \<Rightarrow> job \<Rightarrow> exec_error + unit \<Rightarrow> unit step" where
  "finally_remove w j r = (\<lambda>s.
     if r_attempted s \<and> \<not> r_removed s
     then (case remove_backend w (j_policy j) (j_engine j) (j_name j) True s of
             (Inl e, s') \<Rightarrow> (Inl e, s') | (Inr _, s') \<Rightarrow> (r, s'))
     else (r, s))"

definition guarded_run :: "session \<Rightarrow> job \<Rightarrow> unit step" where
  "guarded_run w j = (\<lambda>s. case guarded w j s of
       (Inr u, s') \<Rightarrow> finally_remove w j (Inr u) s'
     | (Inl e, s') \<Rightarrow> (case handle w e s' of (r, s'') \<Rightarrow> finally_remove w j r s''))"

subsection \<open>Importing outputs\<close>

primrec lookup_node :: "node \<Rightarrow> path \<Rightarrow> node option" where
  "lookup_node (Regular m d) = (\<lambda>p. if p = [] then Some (Regular m d) else None)"
| "lookup_node (Directory m es) = (\<lambda>p. case p of
       [] \<Rightarrow> Some (Directory m es)
     | n # q \<Rightarrow> (case map_option (map (map_prod id lookup_node)) es of
         None \<Rightarrow> None | Some fs \<Rightarrow> (case map_of fs n of None \<Rightarrow> None | Some f \<Rightarrow> f q)))"
| "lookup_node (Symlink m t s) = (\<lambda>p. if p = [] then Some (Symlink m t s) else None)"
| "lookup_node (Special m) = (\<lambda>p. if p = [] then Some (Special m) else None)"
| "lookup_node Unstatable = (\<lambda>p. if p = [] then Some Unstatable else None)"

definition expected_dirs :: "outfile list \<Rightarrow> string list" where
  "expected_dirs xs = concat (map (\<lambda>x. map (\<lambda>i. relative (take i (path_parts (o_path x))))
     [1..<length (path_parts (o_path x))]) xs)"

primrec expected_node :: "string list \<Rightarrow> string list \<Rightarrow> node \<Rightarrow> path \<Rightarrow> bool" where
  "expected_node dirs fs (Regular m d) = (\<lambda>p. relative p \<in> set fs)"
| "expected_node dirs fs (Directory m es) = (\<lambda>p. relative p \<in> set dirs \<and>
     (case map_option (map (map_prod id (expected_node dirs fs))) es of
        None \<Rightarrow> True | Some bs \<Rightarrow> list_all (\<lambda>(n, b). b (p @ [n])) bs))"
| "expected_node dirs fs (Symlink m t s) = (\<lambda>p. False)"
| "expected_node dirs fs (Special m) = (\<lambda>p. False)"
| "expected_node dirs fs Unstatable = (\<lambda>p. False)"

text \<open>\<open>_scratch_inventory_is_expected\<close>; \<open>os.walk\<close> passes over a directory it cannot list.\<close>

definition scratch_expected :: "listing option \<Rightarrow> outfile list \<Rightarrow> bool" where
  "scratch_expected t xs \<longleftrightarrow> (case t of
       None \<Rightarrow> True
     | Some es \<Rightarrow> list_all (\<lambda>(n, x). expected_node (expected_dirs xs) (map o_path xs) x [n]) es)"

definition scratch_node :: "listing option \<Rightarrow> path \<Rightarrow> node option" where
  "scratch_node t p = lookup_node (Directory
     \<lparr>st_mode = 0, st_dev = 0, st_ino = 0, st_nlink = 1, st_size = 0, st_mtime_ns = 0\<rparr> t) p"

definition artifact_value :: "path \<Rightarrow> string \<Rightarrow> string \<Rightarrow> string \<Rightarrow> int \<Rightarrow> pyval" where
  "artifact_value authority kind name sha n =
     PDict [(''kind'', PStr kind), (''path'', PStr (path_text (authority @ path_parts name))), (''sha256'', PStr sha), (''bytes'', PInt n)]"

text \<open>\<open>_copy_exclusive\<close>: only a regular file within its limit, to a name that is free and not below a file.\<close>

definition blocked :: "string list \<Rightarrow> string \<Rightarrow> bool" where
  "blocked present name \<longleftrightarrow> name \<in> set present \<or> list_ex (\<lambda>i. relative (take i (path_parts name)) \<in> set present) [1..<length (path_parts name)]"

definition copy_exclusive :: "path \<Rightarrow> string list \<Rightarrow> outfile \<Rightarrow> node \<Rightarrow> exec_error + pyval" where
  "copy_exclusive authority present x v = (case v of
       Regular m (Some sha) \<Rightarrow>
         if o_max x < st_size m then Inl ExecutionError
         else if blocked present (o_path x) then Inl OSError
         else Inr (artifact_value authority (o_kind x) (o_path x) sha (st_size m))
     | Regular m None \<Rightarrow> Inl OSError
     | _ \<Rightarrow> Inl ExecutionError)"

fun copy_outputs :: "path \<Rightarrow> listing option \<Rightarrow> string list \<Rightarrow> outfile list \<Rightarrow> (exec_error + pyval list) \<times> string list" where
  "copy_outputs authority t present [] = (Inr [], present)"
| "copy_outputs authority t present (x # xs) = (case scratch_node t (path_parts (o_path x)) of
       None \<Rightarrow> copy_outputs authority t present xs
     | Some v \<Rightarrow> (case copy_exclusive authority present x v of
         Inl e \<Rightarrow> (Inl e, present)
       | Inr a \<Rightarrow> (case copy_outputs authority t (o_path x # present) xs of
           (Inl e, q) \<Rightarrow> (Inl e, q) | (Inr as, q) \<Rightarrow> (Inr (a # as), q))))"

definition import_outputs :: "path \<Rightarrow> listing option \<Rightarrow> string list \<Rightarrow> outfile list \<Rightarrow> (exec_error + pyval list) \<times> string list" where
  "import_outputs authority t present xs =
     (if scratch_expected t xs then copy_outputs authority t present xs else (Inl ExecutionError, present))"

subsection \<open>Receipts\<close>

text \<open>\<open>_write_receipt\<close>: the receipt must not exist, nor its temporary name.\<close>

definition write_receipt :: "hashing \<Rightarrow> string list \<Rightarrow> dict \<Rightarrow> exec_error + dict" where
  "write_receipt hs present r =
     bind_res (raised (canonical_json hs (PDict r))) (\<lambda>_.
     if ''execution-receipt.json.tmp'' \<in> set present then Inl OSError
     else if ''execution-receipt.json'' \<in> set present then Inl ExecutionError else Inr r)"

definition optional :: "string option \<Rightarrow> pyval" where
  "optional x = (case x of None \<Rightarrow> PNone | Some s \<Rightarrow> PStr s)"

definition strs :: "string list \<Rightarrow> pyval" where
  "strs xs = PList (map PStr xs)"

definition unavailable_receipt ::
    "session \<Rightarrow> string list \<Rightarrow> path \<Rightarrow> string \<Rightarrow> dict option \<Rightarrow> exec_error + dict" where
  "unavailable_receipt w argv target reason config =
     (let hs = se_hashing w
      in bind_res (raised (json_digest hs (strs argv))) (\<lambda>command.
         bind_res (raised (case config of
             None \<Rightarrow> json_digest hs (PDict [(''mode'', PStr ''required-untrusted''), (''backend'', PStr ''unconfigured'')])
           | Some d \<Rightarrow> execution_config_sha256 hs d [])) (\<lambda>cfg.
         bind_res (raised (environment_sha256 hs [])) (\<lambda>es.
         write_receipt hs []
           [(''schema_version'', PInt 1), (''invocation_id'', PStr (se_id w)), (''command'', strs argv), (''command_sha256'', PStr command),
            (''config_sha256'', PStr cfg), (''environment_sha256'', PStr es), (''cwd'', PStr (path_text target)),
            (''source_identity'', case config of
               None \<Rightarrow> PDict [(''kind'', PStr ''unavailable''), (''sha256'', PNone), (''source_file_sha256'', PDict [])]
             | Some d \<Rightarrow> getv d ''source_identity''),
            (''source_manifest_sha256'', case config of
               None \<Rightarrow> PNone | Some d \<Rightarrow> getv (dict_of (getv d ''source_identity'')) ''sha256''),
            (''execution_policy'', case config of None \<Rightarrow> PNone | Some d \<Rightarrow> PDict d), (''environment_allowlist'', PDict []),
            (''declared_outputs'', PList []),
            (''backend'', PDict [(''name'', PStr ''unconfigured''), (''engine_path'', PNone), (''engine_sha256'', PNone),
               (''image_digest'', PNone), (''container_id'', PNone), (''container_name'', PNone)]),
            (''backend_readback_path'', PNone), (''backend_readback_sha256'', PNone), (''backend_readback_verified'', PBool False),
            (''mount_inventory_sha256'', PNone), (''applied_limits'', PNone),
            (''capabilities'', PDict [(''isolation'', PStr ''unsupported''), (''network'', PStr ''unsupported''),
               (''deadline'', PStr ''unsupported''), (''output_import'', PStr ''not_run''), (''evidence_tier'', PStr ''unverified'')]),
            (''started_at'', PStr (se_started_at w)), (''finished_at'', PStr (se_finished_at w)), (''exit_code'', PNone),
            (''termination'', PStr ''backend_unavailable''), (''reason'', PStr reason), (''outputs'', PList []),
            (''stdout_path'', PNone), (''stdout_sha256'', PNone), (''stderr_path'', PNone), (''stderr_sha256'', PNone)]))))"

definition capture_kind :: "string \<Rightarrow> string" where
  "capture_kind name = (if name = ''stdout.log'' then ''stdout'' else if name = ''stderr.log'' then ''stderr'' else ''backend-readback'')"

definition capture_record :: "session \<Rightarrow> path \<Rightarrow> string \<Rightarrow> exec_error + pyval" where
  "capture_record w authority name =
     bind_res (se_artifact w name) (\<lambda>(sha, n). Inr (artifact_value authority (capture_kind name) name sha n))"

definition captured :: "run_state \<Rightarrow> string list" where
  "captured s = r_captures s @ (if r_readback s = None then [] else [''backend-readback.json''])"

definition sha_of_kind :: "string \<Rightarrow> pyval list \<Rightarrow> pyval" where
  "sha_of_kind kind as = (case filter (\<lambda>a. getv (dict_of a) ''kind'' = PStr kind) as of [] \<Rightarrow> PNone | a # _ \<Rightarrow> getv (dict_of a) ''sha256'')"

definition path_if :: "bool \<Rightarrow> path \<Rightarrow> string \<Rightarrow> pyval" where
  "path_if b authority name = (if b then PStr (path_text (authority @ [name])) else PNone)"

definition applied_limits :: "dict \<Rightarrow> pyval" where
  "applied_limits n = (if profiled n
     then PDict (merge (dict_of (getv (dict_of (getv n ''benchmark_profile'')) ''limits''))
       [(''enforced'', PBool False), (''reason'', PStr ''limit_enforcement_unverified'')])
     else PNone)"

definition capabilities_of :: "job \<Rightarrow> run_state \<Rightarrow> string \<Rightarrow> pyval" where
  "capabilities_of j s imported = PDict
     [(''isolation'', PStr (if r_verified s then ''verified'' else if docker j then ''configured_unverified'' else ''none'')),
      (''network'', PStr (if docker j then r_network s else ''host'')),
      (''deadline'', PStr ''process_group_term_kill_reap''), (''output_import'', PStr imported),
      (''evidence_tier'', PStr (if r_verified s then ''verified_backend'' else if docker j then ''configuration_only'' else ''host_execution''))]"

text \<open>\<open>container_id\<close> is read whenever the container was created, but bound only once its id was read.\<close>

definition backend_of :: "job \<Rightarrow> run_state \<Rightarrow> exec_error + pyval" where
  "backend_of j s =
     bind_res (if r_created s then (case r_cid s of None \<Rightarrow> Inl UnboundLocalError | Some c \<Rightarrow> Inr (PStr c)) else Inr PNone) (\<lambda>cid.
     Inr (PDict [(''name'', getv (j_policy j) ''backend''), (''engine_path'', PStr (j_engine j)),
       (''engine_sha256'', getv (j_policy j) ''engine_sha256''),
       (''image_digest'', case getv (j_policy j) ''image'' of PStr i \<Rightarrow> optional (image_digest i) | _ \<Rightarrow> PNone),
       (''container_id'', cid), (''container_name'', if r_created s then PStr (j_name j) else PNone)]))"

definition receipt_dict ::
    "session \<Rightarrow> job \<Rightarrow> path \<Rightarrow> run_state \<Rightarrow> pyval \<Rightarrow> string \<Rightarrow> pyval list \<Rightarrow> pyval list \<Rightarrow> string \<Rightarrow> string \<Rightarrow> string \<Rightarrow> dict" where
  "receipt_dict w j authority s backend imported caps outs command cfg es =
     [(''schema_version'', PInt 1), (''invocation_id'', PStr (se_id w)), (''command'', strs (j_argv j)),
      (''command_sha256'', PStr command), (''config_sha256'', PStr cfg), (''environment_sha256'', PStr es),
      (''cwd'', PStr (path_text (j_target j))), (''source_identity'', getv (j_policy j) ''source_identity''),
      (''source_manifest_sha256'', getv (dict_of (getv (j_policy j) ''source_identity'')) ''sha256''),
      (''execution_policy'', PDict (j_policy j)), (''environment_allowlist'', PDict (env_dict (j_env j))),
      (''declared_outputs'', PList (map output_value (j_outputs j))), (''backend'', backend),
      (''backend_readback_path'', path_if (r_readback s \<noteq> None) authority ''backend-readback.json''),
      (''backend_readback_sha256'', optional (map_option (hs_sha (se_hashing w)) (r_readback s))),
      (''backend_readback_verified'', PBool (r_verified s)), (''mount_inventory_sha256'', optional (j_mount j)),
      (''applied_limits'', applied_limits (j_policy j)), (''capabilities'', capabilities_of j s imported),
      (''started_at'', PStr (se_started_at w)), (''finished_at'', PStr (se_finished_at w)),
      (''exit_code'', case r_exit s of None \<Rightarrow> PNone | Some c \<Rightarrow> PInt c), (''termination'', PStr (r_termination s)),
      (''reason'', optional (r_reason s)), (''outputs'', PList (caps @ outs)),
      (''stdout_path'', path_if (''stdout.log'' \<in> set (r_captures s)) authority ''stdout.log''),
      (''stdout_sha256'', sha_of_kind ''stdout'' caps),
      (''stderr_path'', path_if (''stderr.log'' \<in> set (r_captures s)) authority ''stderr.log''),
      (''stderr_sha256'', sha_of_kind ''stderr'' caps)]"

text \<open>The exit status of a process that the kernel stopped at the limit on its output files.\<close>

definition SIGXFSZ :: int where "SIGXFSZ = 25"

definition limited :: "run_state \<Rightarrow> run_state" where
  "limited s = (if r_termination s = ''exited'' \<and> r_exit s = Some (- SIGXFSZ)
     then s\<lparr>r_reason := Some ''stdout_stderr_limit_exceeded''\<rparr> else s)"

definition imported_outputs :: "session \<Rightarrow> job \<Rightarrow> path \<Rightarrow> run_state \<Rightarrow> (pyval list \<times> string \<times> string list) \<times> run_state" where
  "imported_outputs w j authority s =
     (if \<not> r_process s then (([], ''not_run'', captured s), s)
      else if \<not> r_removed s then (([], ''rejected'', captured s), s)
      else (case import_outputs authority (se_tree w) (captured s) (j_outputs j) of
          (Inr outs, q) \<Rightarrow> ((outs, ''trusted_side'', q), s)
        | (Inl e, q) \<Rightarrow> (([], ''rejected'', q), s\<lparr>r_reason := Some ''output_import_rejected''\<rparr>)))"

definition finish :: "session \<Rightarrow> job \<Rightarrow> path \<Rightarrow> run_state \<Rightarrow> exec_error + dict" where
  "finish w j authority s' =
     (let s0 = limited s'
      in bind_res (map_res (capture_record w authority) (captured s0)) (\<lambda>caps.
         case imported_outputs w j authority s0 of ((outs, imported, q), s) \<Rightarrow>
           bind_res (raised (json_digest (se_hashing w) (strs (j_argv j)))) (\<lambda>command.
           bind_res (raised (execution_config_sha256 (se_hashing w) (j_policy j) (j_outputs j))) (\<lambda>cfg.
           bind_res (raised (environment_sha256 (se_hashing w) (j_env j))) (\<lambda>es.
           bind_res (backend_of j s) (\<lambda>backend.
           write_receipt (se_hashing w) q (receipt_dict w j authority s backend imported caps outs command cfg es)))))))"

subsection \<open>The whole run\<close>

definition fresh_output_dir :: "session \<Rightarrow> pyval \<Rightarrow> path \<Rightarrow> path option \<Rightarrow> exec_error + path" where
  "fresh_output_dir w v cwd scratch = (case v of
       PStr s \<Rightarrow>
         bind_res (require (absolute s \<and> utf8_length (posix_absolute s) \<le> MAX_PATH_BYTES)) (\<lambda>_.
         bind_res (require (\<not> se_exists w s \<and> path_parts s \<noteq> [])) (\<lambda>_.
         bind_res (resolve_strict (se_disk w At_Validation) (path_text (butlast (path_parts s)))) (\<lambda>parent.
         let candidate = parent @ [last (path_parts s)]
         in bind_res (require (\<not> is_within candidate cwd)) (\<lambda>_.
            bind_res (require (case scratch of None \<Rightarrow> True | Some t \<Rightarrow> \<not> is_within candidate t)) (\<lambda>_.
            bind_res (se_mkdir w) (\<lambda>_. Inr candidate))))))
     | _ \<Rightarrow> invalid)"

definition initial_state :: "dict \<Rightarrow> run_state" where
  "initial_state n = \<lparr>r_attempted = False, r_created = False, r_cid = None, r_readback = None, r_verified = False,
     r_network = (if profiled n then ''configured_proxy_unverified'' else ''configured_denied_unverified''),
     r_captures = [], r_process = False, r_exit = None, r_termination = ''exited'', r_reason = None,
     r_removed = (getv n ''backend'' = PStr ''native''), r_log = []\<rparr>"

definition launch :: "session \<Rightarrow> job \<Rightarrow> path \<Rightarrow> (exec_error + dict) \<times> event list" where
  "launch w j authority = (case guarded_run w j (initial_state (j_policy j)) of
       (Inl e, s) \<Rightarrow> (Inl e, r_log s)
     | (Inr _, s) \<Rightarrow> (finish w j authority s, r_log s))"

definition run_policy ::
    "session \<Rightarrow> string list \<Rightarrow> path \<Rightarrow> pyval \<Rightarrow> env \<Rightarrow> outfile list \<Rightarrow> pyval \<Rightarrow> exec_error + (dict + job \<times> path)" where
  "run_policy w argv target out e xs policy =
     (let hs = se_hashing w; k = se_disk w At_Validation
      in bind_res (validate_policy hs k policy target) (\<lambda>(n, scratch, eng).
         bind_res (if getv n ''backend'' = PStr ''docker''
                   then bind_res (raised (mount_inventory hs target (dk_tree k target))) (\<lambda>m. Inr (Some m)) else Inr None) (\<lambda>m.
         bind_res (fresh_output_dir w out target (Some scratch)) (\<lambda>authority.
         case eng of
           Inl reason \<Rightarrow> bind_res (unavailable_receipt w argv target reason (Some n)) (\<lambda>r. Inr (Inl r))
         | Inr engine \<Rightarrow>
             if se_expired w
             then bind_res (unavailable_receipt w argv target ''deadline_already_expired'' (Some n)) (\<lambda>r. Inr (Inl r))
             else bind_res (se_scratch w) (\<lambda>sc.
                  bind_res (build_backend_argv hs (se_disk w At_Building) (strs argv) (path_text target) (path_text sc) (PDict n)
                    (''bugsweep-'' @ se_id w) (PDict (env_dict e))) (\<lambda>launch.
                  Inr (Inr (\<lparr>j_argv = argv, j_env = e, j_outputs = xs, j_target = target, j_policy = n, j_engine = engine,
                    j_scratch = sc, j_name = ''bugsweep-'' @ se_id w, j_mount = m, j_launch = launch\<rparr>, authority))))))))"

definition run_inputs :: "session \<Rightarrow> pyval \<Rightarrow> pyval \<Rightarrow> pyval \<Rightarrow> pyval \<Rightarrow> pyval \<Rightarrow> exec_error + string list \<times> path \<times> env \<times> outfile list" where
  "run_inputs w command cwd deadline e outputs =
     bind_res (raised (validate_command command)) (\<lambda>argv.
     bind_res (existing_dir (se_disk w At_Validation) cwd) (\<lambda>target.
     bind_res (finite_that (\<lambda>q. True) deadline) (\<lambda>finite.
     bind_res (require finite) (\<lambda>_.
     bind_res (raised (validate_environment e)) (\<lambda>ev.
     bind_res (raised (validate_outputs outputs)) (\<lambda>xs. Inr (argv, target, ev, xs)))))))"

definition run_command ::
    "session \<Rightarrow> pyval \<Rightarrow> pyval \<Rightarrow> pyval \<Rightarrow> pyval \<Rightarrow> pyval \<Rightarrow> pyval \<Rightarrow> pyval \<Rightarrow> (exec_error + dict) \<times> event list" where
  "run_command w command cwd out deadline policy e outputs =
     (case run_inputs w command cwd deadline e outputs of
        Inl err \<Rightarrow> (Inl err, [])
      | Inr (argv, target, ev, xs) \<Rightarrow>
          if policy = PNone
          then (bind_res (fresh_output_dir w out target None) (\<lambda>_.
                  unavailable_receipt w argv target ''required_untrusted_backend_not_configured'' None), [])
          else (case run_policy w argv target out ev xs policy of
              Inl err \<Rightarrow> (Inl err, [])
            | Inr (Inl r) \<Rightarrow> (Inr r, [])
            | Inr (Inr (j, authority)) \<Rightarrow> launch w j authority))"

subsection \<open>What the steps leave alone\<close>

lemma act_bind_cases:
  assumes "act_bind m f s = (r, t)"
  obtains (raises) e where "m s = (Inl e, t)" "r = Inl e" | (goes_on) x s' where "m s = (Inr x, s')" "f x s' = (r, t)"
  using assms by (cases "m s"; cases "fst (m s)") (auto simp: act_bind_eval)

lemma act_bind_Inr: "act_bind m f s = (Inr y, t) \<longleftrightarrow> (\<exists>x s'. m s = (Inr x, s') \<and> f x s' = (Inr y, t))"
  by (cases "m s"; cases "fst (m s)") (auto simp: act_bind_eval)

text \<open>Control commands and removals only append to the log and set \<open>r_removed\<close>.\<close>

definition quiet :: "run_state \<Rightarrow> run_state \<Rightarrow> bool" where
  "quiet s t \<longleftrightarrow> (\<exists>cs b. t = s\<lparr>r_log := r_log s @ map Ran cs, r_removed := b\<rparr>)"

lemma quiet_refl [simp]: "quiet s s"
  unfolding quiet_def by (intro exI [of _ "[]"] exI [of _ "r_removed s"]) simp

lemma quiet_trans: "quiet s t \<Longrightarrow> quiet t u \<Longrightarrow> quiet s u"
proof -
  assume "quiet s t" "quiet t u"
  then obtain cs b ds c where "t = s\<lparr>r_log := r_log s @ map Ran cs, r_removed := b\<rparr>"
      "u = t\<lparr>r_log := r_log t @ map Ran ds, r_removed := c\<rparr>"
    by (auto simp: quiet_def)
  then have "u = s\<lparr>r_log := r_log s @ map Ran (cs @ ds), r_removed := c\<rparr>" by simp
  then show ?thesis unfolding quiet_def by blast
qed

lemma quiet_bind: "act_rel quiet m \<Longrightarrow> (\<And>x. act_rel quiet (f x)) \<Longrightarrow> act_rel quiet (act_bind m f)"
  by (rule act_rel_bind [OF quiet_trans])

lemma quiet_result: "act_rel quiet (result r)"
  by (simp add: act_rel_def step_eval)

lemma quiet_ran: "act_rel quiet (log_event (Ran c))"
proof -
  have "quiet s (s\<lparr>r_log := r_log s @ [Ran c]\<rparr>)" for s
    unfolding quiet_def by (intro exI [of _ "[c]"] exI [of _ "r_removed s"]) simp
  then show ?thesis by (simp add: act_rel_def log_event_def step_eval)
qed

lemma quiet_control: "act_rel quiet (control_capture w n engine c)"
  unfolding control_capture_def by (intro quiet_bind quiet_result quiet_ran)

lemma quiet_json: "act_rel quiet (docker_json w n engine c)"
  unfolding docker_json_def by (intro quiet_bind quiet_result quiet_control)

lemma quiet_timed: "act_rel quiet (timed_json w n engine c)"
  unfolding timed_json_def in_time_def by (intro quiet_bind quiet_result quiet_json)

lemma quietD: "act_rel quiet m \<Longrightarrow> m s = (r, t) \<Longrightarrow> quiet s t"
  unfolding act_rel_def by (metis snd_conv)

lemma quiet_engine: "act_rel quiet (control_engine w n engine c)"
  unfolding act_rel_def control_engine_def
  by (auto split: prod.split sum.split intro: quietD [OF quiet_control])

lemma quiet_owned: "act_rel quiet (remove_owned w n engine name final)"
proof -
  have "quiet s (snd (remove_owned w n engine name final s))" for s
  proof (cases "docker_json w n engine (Cleanup_Inspect final) s")
    case (Pair r t)
    note q = quietD [OF quiet_json Pair]
    show ?thesis
    proof (cases r)
      case (Inr v)
      have "quiet t (snd (control_engine w n engine (Remove final) t))" using quiet_engine by (simp add: act_rel_def)
      with q Pair Inr show ?thesis by (auto simp: remove_owned_def intro: quiet_trans)
    qed (use q Pair in \<open>simp add: remove_owned_def\<close>)
  qed
  then show ?thesis by (simp add: act_rel_def)
qed

lemma quiet_remove: "act_rel quiet (remove_backend w n engine name final)"
proof -
  have "act_rel quiet (change (\<lambda>s. s\<lparr>r_removed := b\<rparr>))" for b
    unfolding act_rel_def step_eval quiet_def by (intro allI exI [of _ "[]"] exI [of _ b]) simp
  then show ?thesis unfolding remove_backend_def by (intro quiet_bind quiet_owned)
qed

lemma quiet_read: "act_rel quiet (read_backend w j cid)"
proof -
  have ret: "act_rel quiet (act_return x)" for x :: dict by (simp add: act_rel_def act_return_def)
  have choice: "act_rel quiet (if b then m else m')" if "act_rel quiet m" "act_rel quiet m'" for b and m m' :: "dict step"
    using that by simp
  show ?thesis unfolding read_backend_def Let_def
    by (intro quiet_bind quiet_timed quiet_result choice ret)
qed

lemma quiet_fields:
  "quiet s t \<Longrightarrow> r_verified t = r_verified s \<and> r_cid t = r_cid s \<and> r_readback t = r_readback s \<and> r_network t = r_network s \<and>
     r_created t = r_created s \<and> r_attempted t = r_attempted s \<and> r_process t = r_process s \<and>
     (\<forall>a. Started a \<in> set (r_log t) \<longleftrightarrow> Started a \<in> set (r_log s)) \<and> set (r_log s) \<subseteq> set (r_log t)"
  by (auto simp: quiet_def)

subsection \<open>Nothing starts unverified\<close>

text \<open>What Docker answered to a command, and the readback those answers make up.\<close>

definition docker_answer :: "session \<Rightarrow> control \<Rightarrow> exec_error + pyval" where
  "docker_answer w c =
     bind_res (se_status w c) (\<lambda>status.
     bind_res (verify (status = 0)) (\<lambda>_.
     bind_res (se_stdout w c) (decoded w (At_Control c))))"

definition answered_readback :: "session \<Rightarrow> job \<Rightarrow> string \<Rightarrow> exec_error + dict" where
  "answered_readback w j cid =
     bind_res (bind_res (docker_answer w (Inspect cid)) only_item) (\<lambda>analysis.
     let rb = [(''schema_version'', PInt 1), (''kind'', PStr ''docker-inspect-readback''), (''analysis'', analysis)]
     in if profiled (j_policy j)
        then bind_res (bind_res (docker_answer w (proxy_inspect j)) only_item) (\<lambda>proxy.
             bind_res (docker_answer w (network_inspect j)) (\<lambda>nets.
             Inr (rb @ [(''proxy'', proxy), (''networks'', nets)])))
        else Inr rb)"

text \<open>What a state with a container knows of it, and what a verified state knows.\<close>

definition known :: "session \<Rightarrow> string \<Rightarrow> run_state \<Rightarrow> bool" where
  "known w cid s \<longleftrightarrow> r_created s \<and> r_cid s = Some cid \<and> sha256_text cid \<and>
     (\<exists>raw. se_stdout w Create = Inr raw \<and> cid = strip raw)"

definition evidence :: "session \<Rightarrow> job \<Rightarrow> run_state \<Rightarrow> bool" where
  "evidence w j s \<longleftrightarrow> (\<exists>cid rb bytes. known w cid s \<and> answered_readback w j cid = Inr rb \<and>
     verify_run w j cid rb = Inr (r_network s) \<and> r_readback s = Some bytes \<and>
     canonical_json (se_hashing w) (PDict rb) = Inr bytes \<and> length bytes \<le> MAX_READBACK \<and> source_unchanged w j = Inr ())"

definition same_evidence :: "run_state \<Rightarrow> run_state \<Rightarrow> bool" where
  "same_evidence s t \<longleftrightarrow> r_verified t = r_verified s \<and> r_cid t = r_cid s \<and> r_readback t = r_readback s \<and>
     r_network t = r_network s \<and> r_created t = r_created s"

text \<open>A process that was started, and the commands that ran before it.\<close>

definition begun :: "job \<Rightarrow> run_state \<Rightarrow> string list \<Rightarrow> bool" where
  "begun j s argv \<longleftrightarrow> (\<exists>cid before later. r_cid s = Some cid \<and> argv = start_argv j cid \<and>
     r_log s = before @ Started argv # later \<and> Ran Create \<in> set before \<and> Ran (Inspect cid) \<in> set before)"

lemma quiet_begun: "quiet s t \<Longrightarrow> begun j s argv \<Longrightarrow> begun j t argv"
  by (fastforce simp: quiet_def begun_def)

lemma begun_same: "begun j s argv \<Longrightarrow> r_cid t = r_cid s \<Longrightarrow> r_log t = r_log s \<Longrightarrow> begun j t argv"
  by (simp add: begun_def)

lemma same_evidence_keeps: "same_evidence s t \<Longrightarrow> evidence w j t = evidence w j s"
  by (simp add: same_evidence_def evidence_def known_def)

lemma quiet_same_evidence: "quiet s t \<Longrightarrow> same_evidence s t"
  by (auto simp: same_evidence_def dest: quiet_fields)

lemma same_evidence_trans: "same_evidence s t \<Longrightarrow> same_evidence t u \<Longrightarrow> same_evidence s u"
  by (simp add: same_evidence_def)

lemma control_ran:
  "control_capture w n engine c s = (Inr status, t) \<Longrightarrow> Ran c \<in> set (r_log t) \<and> se_status w c = Inr status"
  by (auto simp: control_capture_def act_simps step_eval log_event_def split: sum.splits if_splits)

lemma create_container_state:
  assumes "create_container w j s = (r, t)"
  shows "r_verified t = r_verified s \<and> r_readback t = r_readback s \<and> r_process t = r_process s \<and>
    (\<forall>a. Started a \<in> set (r_log t) \<longleftrightarrow> Started a \<in> set (r_log s)) \<and> r_attempted t \<and>
    (\<forall>cid. r = Inr cid \<longrightarrow> known w cid t \<and> Ran Create \<in> set (r_log t))"
proof -
  let ?s = "s\<lparr>r_attempted := True\<rparr>"
  obtain c1 t1 where c1: "control_capture w (j_policy j) (j_engine j) Create ?s = (c1, t1)" by force
  note q = quiet_fields [OF quietD [OF quiet_control c1]]
  have ran: "Ran Create \<in> set (r_log t1)" if "c1 = Inr x" for x
    using control_ran [of w "j_policy j" "j_engine j" Create ?s x t1] c1 that by simp
  show ?thesis
    using assms q ran
    by (auto simp: create_container_def in_time_def act_simps step_eval c1 known_def ascii_def split: sum.splits if_splits)
qed

lemma json_answers:
  assumes "docker_json w n engine c s = (Inr v, t)"
  shows "docker_answer w c = Inr v \<and> Ran c \<in> set (r_log t)"
proof -
  obtain status s' where c: "control_capture w n engine c s = (Inr status, s')"
      "act_bind (result (verify (status = 0))) (\<lambda>_. act_bind (result (se_stdout w c)) (\<lambda>raw. result (decoded w (At_Control c) raw))) s' = (Inr v, t)"
    using assms unfolding docker_json_def by (auto simp: act_bind_Inr)
  from c(2) control_ran [OF c(1)] show ?thesis
    by (auto simp: docker_answer_def act_simps step_eval split: sum.splits)
qed

lemma timed_answers: "timed_json w n engine c s = (Inr v, t) \<Longrightarrow> docker_answer w c = Inr v \<and> Ran c \<in> set (r_log t)"
  unfolding timed_json_def in_time_def act_bind_Inr
  by (auto simp: step_eval split: if_splits dest: json_answers)

lemma read_backend_answers:
  assumes "read_backend w j cid s = (Inr rb, t)"
  shows "answered_readback w j cid = Inr rb \<and> Ran (Inspect cid) \<in> set (r_log t)"
proof -
  obtain a s1 where a: "timed_json w (j_policy j) (j_engine j) (Inspect cid) s = (Inr a, s1)"
    using assms unfolding read_backend_def by (auto simp: act_bind_Inr)
  note a' = timed_answers [OF a]
  show ?thesis
  proof (cases "profiled (j_policy j)")
    case False
    then show ?thesis using assms a a'
      by (auto simp: read_backend_def answered_readback_def Let_def act_simps step_eval split: sum.splits)
  next
    case True
    then obtain analysis p s2 nets s3 proxy where more: "only_item a = Inr analysis"
        "timed_json w (j_policy j) (j_engine j) (proxy_inspect j) s1 = (Inr p, s2)"
        "timed_json w (j_policy j) (j_engine j) (network_inspect j) s2 = (Inr nets, s3)" "only_item p = Inr proxy"
        "rb = [(''schema_version'', PInt 1), (''kind'', PStr ''docker-inspect-readback''), (''analysis'', analysis),
               (''proxy'', proxy), (''networks'', nets)]" "t = s3"
      using assms a unfolding read_backend_def by (auto simp: act_bind_Inr Let_def step_eval act_return_def)
    from a' timed_answers [OF more(2)] timed_answers [OF more(3)] quiet_fields [OF quietD [OF quiet_timed more(2)]]
      quiet_fields [OF quietD [OF quiet_timed more(3)]] True more(1,4-6)
    show ?thesis by (auto simp: answered_readback_def Let_def)
  qed
qed

lemma write_readback_state:
  assumes "write_readback w rb s = (r, t)"
  shows "same_evidence (s\<lparr>r_readback := r_readback t\<rparr>) t \<and> r_log t = r_log s \<and> r_process t = r_process s \<and> r_attempted t = r_attempted s \<and>
    (r = Inr () \<longrightarrow> (\<exists>bytes. r_readback t = Some bytes \<and> canonical_json (se_hashing w) (PDict rb) = Inr bytes \<and> length bytes \<le> MAX_READBACK))"
  using assms
  by (cases "canonical_json (se_hashing w) (PDict rb)"; cases "se_write w"; cases "r_readback t")
    (auto simp: write_readback_def verify_def guard_def act_simps step_eval same_evidence_def split: if_splits)

lemma verify_container_state:
  assumes "verify_container w j cid s = (r, t)"
  shows "r_process t = r_process s \<and> r_attempted t = r_attempted s \<and> r_created t = r_created s \<and> r_cid t = r_cid s \<and>
    (\<forall>a. Started a \<in> set (r_log t) \<longleftrightarrow> Started a \<in> set (r_log s)) \<and> set (r_log s) \<subseteq> set (r_log t) \<and>
    (case r of Inl e \<Rightarrow> r_verified t = r_verified s
     | Inr u \<Rightarrow> known w cid s \<longrightarrow> evidence w j t \<and> Ran (Inspect cid) \<in> set (r_log t))"
proof -
  obtain a s1 where a: "read_backend w j cid s = (a, s1)" by force
  note q = quiet_fields [OF quietD [OF quiet_read a]]
  show ?thesis
  proof (cases a)
    case (Inl e)
    then have "t = s1" "r = Inl e" using assms a by (simp_all add: verify_container_def act_simps)
    with q show ?thesis by simp
  next
    case rb: (Inr rb)
    then have ans: "answered_readback w j cid = Inr rb" "Ran (Inspect cid) \<in> set (r_log s1)"
      using read_backend_answers a by auto
    obtain b s2 where b: "write_readback w rb s1 = (b, s2)" by force
    note q2 = write_readback_state [OF b, unfolded same_evidence_def]
    show ?thesis
    proof (cases b)
      case (Inl e)
      then have "t = s2" "r = Inl e" using assms a rb b by (simp_all add: verify_container_def act_simps)
      with q q2 show ?thesis by simp
    next
      case (Inr u)
      with q2 obtain bytes where bytes: "r_readback s2 = Some bytes" "canonical_json (se_hashing w) (PDict rb) = Inr bytes"
          "length bytes \<le> MAX_READBACK" by auto
      show ?thesis
      proof (cases "verify_run w j cid rb")
        case (Inl e)
        then have "t = s2" "r = Inl e"
          using assms a rb b \<open>b = Inr u\<close> by (simp_all add: verify_container_def act_simps step_eval)
        with q q2 show ?thesis by simp
      next
        case net: (Inr net)
        show ?thesis
        proof (cases "source_unchanged w j")
          case (Inl e)
          then have "t = s2\<lparr>r_network := net\<rparr>" "r = Inl e"
            using assms a rb b \<open>b = Inr u\<close> net by (simp_all add: verify_container_def act_simps step_eval)
          with q q2 show ?thesis by simp
        next
          case src: (Inr u')
          then have t: "t = s2\<lparr>r_network := net, r_verified := True\<rparr>" "r = Inr ()"
            using assms a rb b \<open>b = Inr u\<close> net by (simp_all add: verify_container_def act_simps step_eval)
          have "evidence w j t" if known: "known w cid s"
            unfolding evidence_def
            by (intro exI [of _ cid] exI [of _ rb] exI [of _ bytes]) (use known t(1) q q2 bytes net src ans(1) in \<open>simp add: known_def\<close>)
          with q q2 t ans(2) show ?thesis by simp
        qed
      qed
    qed
  qed
qed

lemma run_process_state:
  "run_process w j argv s = (r, t) \<Longrightarrow> same_evidence s t \<and> r_attempted t = r_attempted s \<and>
     (r_log t = r_log s \<or> r_log t = r_log s @ [Started argv])"
  by (auto simp: run_process_def open_capture_def act_simps step_eval same_evidence_def ended_def
    split: sum.splits ending.splits if_splits)

definition backed :: "session \<Rightarrow> job \<Rightarrow> run_state \<Rightarrow> bool" where
  "backed w j t \<longleftrightarrow> (r_verified t \<longrightarrow> evidence w j t) \<and>
     (docker j \<longrightarrow> (\<forall>argv. Started argv \<in> set (r_log t) \<longrightarrow> evidence w j t \<and> begun j t argv))"

lemma not_started_backed:
  "(r_verified t \<longrightarrow> evidence w j t) \<Longrightarrow> \<forall>a. Started a \<notin> set (r_log t) \<Longrightarrow> backed w j t"
  by (simp add: backed_def)

lemma quiet_backed: "quiet s t \<Longrightarrow> backed w j s \<Longrightarrow> backed w j t"
  using quiet_fields [of s t] same_evidence_keeps [OF quiet_same_evidence, of s t w j] quiet_begun [of s t j]
  by (simp add: backed_def)

lemma same_backed: "same_evidence s t \<Longrightarrow> r_log t = r_log s \<Longrightarrow> backed w j s \<Longrightarrow> backed w j t"
  using same_evidence_keeps [of s t w j] by (auto simp: backed_def same_evidence_def intro: begun_same)

lemma removal_backed:
  assumes "(if r_created s
     then act_bind (remove_backend w n engine name False) (\<lambda>_.
            change (\<lambda>s. if r_removed s then s else s\<lparr>r_reason := Some ''backend_removal_failed''\<rparr>)) s
     else (Inr (), s)) = (r, t)" "backed w j s"
  shows "backed w j t"
proof (cases "r_created s")
  case True
  obtain c s' where c: "remove_backend w n engine name False s = (c, s')" by force
  have b: "backed w j s'" by (rule quiet_backed [OF quietD [OF quiet_remove c] assms(2)])
  have "t = s' \<or> t = s'\<lparr>r_reason := Some ''backend_removal_failed''\<rparr>"
    using assms(1) True c by (auto simp: act_simps step_eval split: sum.splits if_splits)
  then have "same_evidence s' t" "r_log t = r_log s'" by (auto simp: same_evidence_def)
  then show ?thesis using b by (rule same_backed)
qed (use assms in simp)

text \<open>Preparing a run: nothing has started yet, and what is to be started is verified.\<close>

definition ready :: "session \<Rightarrow> job \<Rightarrow> string list \<Rightarrow> run_state \<Rightarrow> bool" where
  "ready w j argv s \<longleftrightarrow> evidence w j s \<and> (\<exists>cid. r_cid s = Some cid \<and> argv = start_argv j cid \<and>
     Ran Create \<in> set (r_log s) \<and> Ran (Inspect cid) \<in> set (r_log s))"

lemma prepare_state:
  assumes "prepare w j s = (r, t)" "\<not> r_verified s" "\<forall>a. Started a \<notin> set (r_log s)"
  shows "backed w j t \<and> (\<forall>a. Started a \<notin> set (r_log t)) \<and> (\<forall>argv. r = Inr argv \<longrightarrow> docker j \<longrightarrow> ready w j argv t)"
proof (cases "docker j")
  case True
  then have "act_bind (create_container w j) (\<lambda>cid. act_bind (verify_container w j cid) (\<lambda>_. act_return (start_argv j cid))) s = (r, t)"
    using assms(1) by (simp add: prepare_def)
  then show ?thesis
  proof (cases rule: act_bind_cases)
    case (raises e)
    with create_container_state [OF raises(1)] assms(2,3) show ?thesis by (simp add: not_started_backed)
  next
    case (goes_on cid s')
    note c = create_container_state [OF goes_on(1)]
    from goes_on(2) show ?thesis
    proof (cases rule: act_bind_cases)
      case (raises e)
      with c verify_container_state [OF raises(1)] assms(2,3) show ?thesis by (simp add: not_started_backed)
    next
      case (goes_on u s'')
      note v = verify_container_state [OF goes_on(1)]
      have t: "t = s''" "r = Inr (start_argv j cid)" using goes_on(2) by (simp_all add: act_return_def)
      have ev: "evidence w j t" "Ran (Inspect cid) \<in> set (r_log t)" "Ran Create \<in> set (r_log t)" "r_cid t = Some cid"
        using c v \<open>create_container w j s = (Inr cid, s')\<close> by (auto simp: t known_def)
      then show ?thesis using c v assms(3) t by (simp add: ready_def not_started_backed)
    qed
  qed
next
  case False
  with assms show ?thesis by (auto simp: prepare_def act_return_def not_started_backed)
qed

lemma run_process_backed:
  assumes "run_process w j argv s = (r, t)" "backed w j s" "\<forall>a. Started a \<notin> set (r_log s)" "docker j \<longrightarrow> ready w j argv s"
  shows "backed w j t"
proof -
  note p = run_process_state [OF assms(1)]
  then consider "r_log t = r_log s" | (begins) "r_log t = r_log s @ [Started argv]" by blast
  then show ?thesis
  proof cases
    case begins
    have "begun j t argv" if "docker j"
      using assms(4) that p begins unfolding begun_def ready_def same_evidence_def by (metis append_Cons append_Nil)
    then show ?thesis
      using begins assms(2-4) p same_evidence_keeps [of s t w j] by (auto simp: backed_def ready_def same_evidence_def)
  qed (use p assms(2) same_backed in blast)
qed

lemma guarded_backed:
  assumes "guarded w j s = (r, t)" "\<not> r_verified s" "\<forall>a. Started a \<notin> set (r_log s)"
  shows "backed w j t"
  using assms(1) [unfolded guarded_def]
proof (cases rule: act_bind_cases)
  case (raises e)
  then have "t = s" by (simp add: step_eval)
  with assms(2,3) show ?thesis by (simp add: not_started_backed)
next
  case (goes_on x s1)
  then have s1: "s1 = s" by (simp add: step_eval)
  from goes_on(2) show ?thesis
  proof (cases rule: act_bind_cases)
    case (raises e)
    with prepare_state [of w j s] assms(2,3) s1 show ?thesis by blast
  next
    case (goes_on argv s2)
    note p = prepare_state [OF goes_on(1) [unfolded s1] assms(2,3)]
    from goes_on(2) show ?thesis
    proof (cases rule: act_bind_cases)
      case (raises e)
      with p show ?thesis using run_process_backed by blast
    next
      case (goes_on z s3)
      with p have "backed w j s3" using run_process_backed by blast
      with goes_on(2) removal_backed show ?thesis by blast
    qed
  qed
qed

lemma reaped_fields: "same_evidence s (reaped w s) \<and> r_log (reaped w s) = r_log s \<and> r_attempted (reaped w s) = r_attempted s \<and>
    r_removed (reaped w s) = r_removed s"
  by (auto simp: reaped_def same_evidence_def split: bool.split ending.split)

lemma handle_state:
  "handle w e s = (r, t) \<Longrightarrow> same_evidence s t \<and> r_log t = r_log s \<and> r_attempted t = r_attempted s \<and> r_removed t = r_removed s"
  using reaped_fields [of _ w]
  by (fastforce simp: handle_def same_evidence_def split: if_splits)

lemma handle_backed: "handle w e s = (r, t) \<Longrightarrow> backed w j s \<Longrightarrow> backed w j t"
  using handle_state [of w e s r t] same_backed by blast

lemma finally_state: "finally_remove w j q s = (r, t) \<Longrightarrow> quiet s t"
  by (auto simp: finally_remove_def split: if_splits prod.splits sum.splits dest: quietD [OF quiet_remove])

lemma finally_backed: "finally_remove w j q s = (r, t) \<Longrightarrow> backed w j s \<Longrightarrow> backed w j t"
  using quiet_backed [OF finally_state] .

lemma guarded_run_backed:
  assumes "guarded_run w j s = (r, t)" "\<not> r_verified s" "\<forall>a. Started a \<notin> set (r_log s)"
  shows "backed w j t"
proof -
  obtain q u where g: "guarded w j s = (q, u)" by force
  note b = guarded_backed [OF g assms(2,3)]
  show ?thesis
  proof (cases q)
    case (Inr x)
    with assms(1) g have "finally_remove w j (Inr x) u = (r, t)" by (simp add: guarded_run_def)
    then show ?thesis using b by (rule finally_backed)
  next
    case (Inl e)
    obtain h v where h: "handle w e u = (h, v)" by force
    with assms(1) g Inl have "finally_remove w j h v = (r, t)" by (simp add: guarded_run_def)
    then show ?thesis using handle_backed [OF h b] by (rule finally_backed)
  qed
qed

lemma launch_cases:
  assumes "launch w j authority = (r, events)"
  obtains q t where "guarded_run w j (initial_state (j_policy j)) = (q, t)" "events = r_log t"
    "r = (case q of Inl e \<Rightarrow> Inl e | Inr u \<Rightarrow> finish w j authority t)" "backed w j t"
proof -
  obtain q t where g: "guarded_run w j (initial_state (j_policy j)) = (q, t)" by force
  have "backed w j t" by (rule guarded_run_backed [OF g]) (simp_all add: initial_state_def)
  with assms g show ?thesis by (intro that [OF g]) (auto simp: launch_def split: sum.splits)
qed


subsection \<open>What a receipt binds\<close>

lemma imported_outputs_state:
  "imported_outputs w j authority s = ((outs, imp, q), t) \<Longrightarrow> same_evidence s t \<and> r_log t = r_log s"
  by (auto simp: imported_outputs_def same_evidence_def split: if_splits prod.splits sum.splits)

lemma limited_state [simp]:
  "same_evidence s (limited s)" "r_readback (limited s) = r_readback s" "r_captures (limited s) = r_captures s"
  by (simp_all add: limited_def same_evidence_def)

lemma finish_Inr:
  assumes "finish w j authority s = Inr receipt"
  obtains t caps outs imp q command cfg es backend where "same_evidence s t" "backend_of j t = Inr backend"
    "receipt = receipt_dict w j authority t backend imp caps outs command cfg es"
    "r_removed s \<or> imp \<in> {''not_run'', ''rejected''}"
proof -
  obtain caps x t where c: "imported_outputs w j authority (limited s) = (x, t)"
      "map_res (capture_record w authority) (captured (limited s)) = Inr caps"
    using assms by (cases "imported_outputs w j authority (limited s)") (auto simp: finish_def Let_def bind_res_Inr_iff)
  obtain outs imp q where x: "x = (outs, imp, q)" by (cases x)
  have t: "same_evidence s t"
    using imported_outputs_state [OF c(1) [unfolded x]] same_evidence_trans [of s "limited s" t] by simp
  have imp: "r_removed s \<or> imp \<in> {''not_run'', ''rejected''}"
    using c(1) x by (auto simp: imported_outputs_def limited_def split: if_splits)
  from assms c x obtain command cfg es backend where
      "backend_of j t = Inr backend"
      "write_receipt (se_hashing w) q (receipt_dict w j authority t backend imp caps outs command cfg es) = Inr receipt"
    by (auto simp: finish_def Let_def bind_res_Inr_iff)
  moreover from this(2) have "receipt = receipt_dict w j authority t backend imp caps outs command cfg es"
    by (auto simp: write_receipt_def bind_res_Inr_iff split: if_splits)
  ultimately show ?thesis using t imp by (intro that)
qed

lemma receipt_fields:
  fixes t :: run_state
  assumes "receipt = receipt_dict w j authority t backend imp caps outs command cfg es"
  shows "getv receipt ''capabilities'' = capabilities_of j t imp" "getv receipt ''backend'' = backend"
    "getv receipt ''backend_readback_sha256'' = optional (map_option (hs_sha (se_hashing w)) (r_readback t))"
    "getv receipt ''execution_policy'' = PDict (j_policy j)"
  unfolding assms by (simp_all add: receipt_dict_def getv_def)

definition tier :: "dict \<Rightarrow> pyval" where
  "tier receipt = getv (dict_of (getv receipt ''capabilities'')) ''evidence_tier''"

lemma tier_verified: "getv receipt ''capabilities'' = capabilities_of j t imp \<Longrightarrow> tier receipt = PStr ''verified_backend'' \<Longrightarrow> r_verified t"
  by (auto simp: tier_def capabilities_of_def getv_def split: if_splits)

lemma network_of_receipt: "getv (dict_of (capabilities_of j t imp)) ''network'' = PStr (if docker j then r_network t else ''host'')"
  by (simp add: capabilities_of_def getv_def)

text \<open>
  C16: A receipt of the tier \<open>verified_backend\<close> names a container whose readback, as Docker answered it, passed verification against the policy
  in the receipt, with that readback's digest and the network it was verified for.\<close>

theorem verified_receipt_binds_readback:
  assumes "launch w j authority = (Inr receipt, events)" "docker j" "tier receipt = PStr ''verified_backend''"
  shows "\<exists>cid rb net bytes. answered_readback w j cid = Inr rb \<and> verify_run w j cid rb = Inr net \<and>
    canonical_json (se_hashing w) (PDict rb) = Inr bytes \<and>
    source_unchanged w j = Inr () \<and> getv receipt ''execution_policy'' = PDict (j_policy j) \<and>
    getv (dict_of (getv receipt ''backend'')) ''container_id'' = PStr cid \<and>
    getv receipt ''backend_readback_sha256'' = PStr (hs_sha (se_hashing w) bytes) \<and>
    getv (dict_of (getv receipt ''capabilities'')) ''network'' = PStr net"
  using assms(1)
proof (rule launch_cases)
  fix q t
  assume r: "Inr receipt = (case q of Inl e \<Rightarrow> Inl e | Inr u \<Rightarrow> finish w j authority t)" and b: "backed w j t"
  then have "finish w j authority t = Inr receipt" by (cases q) simp_all
  then show ?thesis
  proof (rule finish_Inr)
    fix u caps outs imp p command cfg es backend
    assume u: "same_evidence t u" "backend_of j u = Inr backend"
      "receipt = receipt_dict w j authority u backend imp caps outs command cfg es"
    note f = receipt_fields [OF u(3)]
    have "r_verified u" by (rule tier_verified [OF f(1) assms(3)])
    then have "evidence w j u" using b u(1) same_evidence_keeps [OF u(1), of w j] by (simp add: backed_def same_evidence_def)
    then obtain cid rb bytes where ev: "r_created u" "r_cid u = Some cid" "verify_run w j cid rb = Inr (r_network u)"
        "answered_readback w j cid = Inr rb" "r_readback u = Some bytes" "canonical_json (se_hashing w) (PDict rb) = Inr bytes" "source_unchanged w j = Inr ()"
      by (auto simp: evidence_def known_def)
    have "getv (dict_of backend) ''container_id'' = PStr cid"
      using u(2) ev(1,2) by (auto simp: backend_of_def getv_def)
    then show ?thesis
      by (intro exI [of _ cid] exI [of _ rb] exI [of _ "r_network u"] exI [of _ bytes])
        (simp add: ev f network_of_receipt assms(2) optional_def)
  qed
qed

subsection \<open>Containers are removed\<close>

definition calm :: "run_state \<Rightarrow> run_state \<Rightarrow> bool" where
  "calm s t \<longleftrightarrow> r_removed t = r_removed s"

lemma calm_bind: "act_rel calm m \<Longrightarrow> (\<And>x. act_rel calm (f x)) \<Longrightarrow> act_rel calm (act_bind m f)"
  by (rule act_rel_bind) (simp_all add: calm_def)

lemma calm_steps:
  "act_rel calm (result r)" "act_rel calm (act_return x)" "act_rel calm (log_event c)"
  "(\<And>s. r_removed (f s) = r_removed s) \<Longrightarrow> act_rel calm (change f)"
  "act_rel calm m \<Longrightarrow> act_rel calm m' \<Longrightarrow> act_rel calm (if b then m else m')"
  by (simp_all add: act_rel_def calm_def step_eval log_event_def act_return_def)

lemma calm_control: "act_rel calm (control_capture w n engine c)"
  unfolding control_capture_def by (intro calm_bind calm_steps)

lemma calm_json: "act_rel calm (docker_json w n engine c)"
  unfolding docker_json_def by (intro calm_bind calm_steps calm_control)

lemma calm_timed: "act_rel calm (timed_json w n engine c)"
  unfolding timed_json_def in_time_def by (intro calm_bind calm_steps calm_json)

lemma calm_create: "act_rel calm (create_container w j)"
  unfolding create_container_def in_time_def by (intro calm_bind calm_steps calm_control) simp_all

lemma calm_verify: "act_rel calm (verify_container w j cid)"
  unfolding verify_container_def read_backend_def write_readback_def Let_def
  by (intro calm_bind calm_steps calm_timed) simp_all

lemma calm_process: "act_rel calm (run_process w j argv)"
  unfolding run_process_def open_capture_def
  by (intro calm_bind calm_steps) (simp_all add: ended_def split: ending.split)

lemma calmD: "act_rel calm m \<Longrightarrow> m s = (r, t) \<Longrightarrow> r_removed t = r_removed s"
  unfolding act_rel_def calm_def by (metis snd_conv)

lemma removed_ran:
  assumes "remove_owned w n engine name final s = (Inr True, t)"
  shows "Ran (Remove final) \<in> set (r_log t) \<and> se_status w (Remove final) = Inr 0"
proof -
  obtain v s' where "docker_json w n engine (Cleanup_Inspect final) s = (Inr v, s')"
      "control_engine w n engine (Remove final) s' = (Inr True, t)"
    using assms by (auto simp: remove_owned_def split: prod.splits sum.splits if_splits)
  then have "control_capture w n engine (Remove final) s' = (Inr 0, t)"
    by (auto simp: control_engine_def split: prod.splits sum.splits if_splits)
  then show ?thesis using control_ran by blast
qed

lemma owned_calm: "remove_owned w n engine name final s = (r, t) \<Longrightarrow> r_removed t = r_removed s"
  by (auto simp: remove_owned_def control_engine_def split: prod.splits sum.splits if_splits
      dest!: calmD [OF calm_json] calmD [OF calm_control])

definition settled_removal :: "session \<Rightarrow> run_state \<Rightarrow> bool" where
  "settled_removal w s \<longleftrightarrow> (r_removed s \<longrightarrow> (\<exists>b. Ran (Remove b) \<in> set (r_log s) \<and> se_status w (Remove b) = Inr 0))"

lemma remove_backend_settled:
  assumes "remove_backend w n engine name final s = (r, t)" "\<not> r_removed s"
  shows "settled_removal w t"
proof -
  obtain q s' where q: "remove_owned w n engine name final s = (q, s')" by force
  show ?thesis
  proof (cases q)
    case (Inl e)
    with assms q owned_calm [OF q] show ?thesis by (auto simp: remove_backend_def act_simps settled_removal_def)
  next
    case (Inr b)
    then have t: "t = s'\<lparr>r_removed := b\<rparr>" using assms(1) q by (auto simp: remove_backend_def act_simps step_eval)
    show ?thesis
    proof (cases b)
      case True
      with q Inr have "remove_owned w n engine name final s = (Inr True, s')" by simp
      from removed_ran [OF this] show ?thesis by (auto simp: settled_removal_def t)
    qed (simp add: settled_removal_def t)
  qed
qed

text \<open>Until the container is to be created the log is empty; afterwards \<open>r_attempted\<close> stays set.\<close>

definition tracked :: "session \<Rightarrow> run_state \<Rightarrow> bool" where
  "tracked w s \<longleftrightarrow> (r_attempted s \<or> r_log s = []) \<and> settled_removal w s"

lemma prepare_attempted:
  assumes "prepare w j s = (r, t)" "docker j" "\<not> r_removed s"
  shows "r_attempted t \<and> \<not> r_removed t"
proof -
  from assms(1,2) have "act_bind (create_container w j) (\<lambda>cid. act_bind (verify_container w j cid) (\<lambda>_. act_return (start_argv j cid))) s = (r, t)"
    by (simp add: prepare_def)
  then show ?thesis
  proof (cases rule: act_bind_cases)
    case (raises e)
    with create_container_state calmD [OF calm_create raises(1)] assms(3) show ?thesis by blast
  next
    case (goes_on cid s')
    note c = create_container_state [OF goes_on(1)] calmD [OF calm_create goes_on(1)]
    from goes_on(2) obtain q where "verify_container w j cid s' = (q, t)"
      by (cases rule: act_bind_cases) (auto simp: act_return_def)
    from verify_container_state [OF this] calmD [OF calm_verify this] c assms(3) show ?thesis by simp
  qed
qed

lemma guarded_tracked:
  assumes "guarded w j s = (r, t)" "docker j" "r_log s = []" "\<not> r_removed s"
  shows "tracked w t"
  using assms(1) [unfolded guarded_def]
proof (cases rule: act_bind_cases)
  case (raises e)
  then have "t = s" by (simp add: step_eval)
  then show ?thesis using assms(3,4) by (simp add: tracked_def settled_removal_def)
next
  case (goes_on x s1)
  then have s1: "s1 = s" by (simp add: step_eval)
  have alive: "tracked w u" if "r_attempted u" "\<not> r_removed u" for u
    using that by (simp add: tracked_def settled_removal_def)
  from goes_on(2) show ?thesis
  proof (cases rule: act_bind_cases)
    case (raises e)
    with prepare_attempted [of w j s] assms(2,4) s1 alive show ?thesis by blast
  next
    case (goes_on argv s2)
    have s2: "r_attempted s2 \<and> \<not> r_removed s2" using prepare_attempted [OF goes_on(1) [unfolded s1] assms(2,4)] .
    have run: "r_attempted s' \<and> \<not> r_removed s'" if "run_process w j argv s2 = (q, s')" for q s'
      using run_process_state [OF that] calmD [OF calm_process that] s2 by simp
    from goes_on(2) show ?thesis
    proof (cases rule: act_bind_cases)
      case (raises e)
      with run alive show ?thesis by blast
    next
      case (goes_on z s3)
      show ?thesis
      proof (cases "r_created s3")
        case True
        obtain c u where c: "remove_backend w (j_policy j) (j_engine j) (j_name j) False s3 = (c, u)" by force
        have u: "settled_removal w u" "r_attempted u"
          using remove_backend_settled [OF c] quiet_fields [OF quietD [OF quiet_remove c]] run [OF goes_on(1)] by auto
        have "t = u \<or> t = u\<lparr>r_reason := Some ''backend_removal_failed''\<rparr>"
          using goes_on(2) True c by (auto simp: act_simps step_eval split: sum.splits if_splits)
        with u show ?thesis by (auto simp: tracked_def settled_removal_def)
      next
        case False
        with goes_on(2) run [OF goes_on(1)] alive show ?thesis by auto
      qed
    qed
  qed
qed

text \<open>Docker still answers when the run is over: the engine is the same file, it reports the container as ours
  and removes it.\<close>

definition removable :: "session \<Rightarrow> job \<Rightarrow> bool" where
  "removable w j \<longleftrightarrow>
     engine_still w (At_Control (Cleanup_Inspect True)) (j_policy j) (j_engine j) \<and> se_status w (Cleanup_Inspect True) = Inr 0 \<and>
     (case se_stdout w (Cleanup_Inspect True) of
        Inl e \<Rightarrow> False
      | Inr raw \<Rightarrow> (case decoded w (At_Control (Cleanup_Inspect True)) raw of Inl e \<Rightarrow> False | Inr v \<Rightarrow> owned (j_name j) v)) \<and>
     engine_still w (At_Control (Remove True)) (j_policy j) (j_engine j) \<and> se_status w (Remove True) = Inr 0"

lemma removable_removes:
  assumes "removable w j"
  shows "\<exists>t. remove_owned w (j_policy j) (j_engine j) (j_name j) True s = (Inr True, t)"
  using assms
  by (auto simp: removable_def remove_owned_def control_engine_def docker_json_def control_capture_def act_simps
      step_eval log_event_def verify_def guard_def split: sum.splits)

lemma finally_settled:
  assumes "finally_remove w j h v = (p, t)" "tracked w v" "r_log t \<noteq> []"
  shows "settled_removal w t" "removable w j \<Longrightarrow> r_removed t"
proof -
  have "settled_removal w t \<and> (removable w j \<longrightarrow> r_removed t)"
  proof (cases "r_attempted v \<and> \<not> r_removed v")
    case True
    obtain c t' where c: "remove_backend w (j_policy j) (j_engine j) (j_name j) True v = (c, t')" by force
    then have t: "t = t'" using assms(1) True by (auto simp: finally_remove_def split: sum.splits)
    have "r_removed t" if "removable w j"
      using removable_removes [OF that, of v] c by (auto simp: t remove_backend_def act_simps step_eval)
    with remove_backend_settled [OF c] True show ?thesis by (simp add: t)
  next
    case False
    then have "t = v" using assms(1) by (auto simp: finally_remove_def)
    with assms(2,3) False show ?thesis by (auto simp: tracked_def)
  qed
  then show "settled_removal w t" "removable w j \<Longrightarrow> r_removed t" by simp_all
qed

lemma guarded_run_settled:
  assumes "guarded_run w j (initial_state (j_policy j)) = (p, t)" "docker j" "r_log t \<noteq> []"
  shows "settled_removal w t \<and> (removable w j \<longrightarrow> r_removed t)"
proof -
  let ?s = "initial_state (j_policy j)"
  obtain q u where g: "guarded w j ?s = (q, u)" by force
  have u: "tracked w u"
    by (rule guarded_tracked [OF g assms(2)]) (use assms(2) in \<open>simp_all add: initial_state_def docker_def\<close>)
  show ?thesis
  proof (cases q)
    case (Inr x)
    with g assms(1) have "finally_remove w j (Inr x) u = (p, t)" by (simp add: guarded_run_def)
    from finally_settled [OF this u assms(3)] show ?thesis by simp
  next
    case (Inl e)
    obtain h v where h: "handle w e u = (h, v)" by force
    with g assms(1) Inl have f: "finally_remove w j h v = (p, t)" by (simp add: guarded_run_def)
    have "tracked w v" using u handle_state [OF h] by (simp add: tracked_def settled_removal_def)
    from finally_settled [OF f this assms(3)] show ?thesis by simp
  qed
qed

definition output_import :: "dict \<Rightarrow> pyval" where
  "output_import receipt = getv (dict_of (getv receipt ''capabilities'')) ''output_import''"

text \<open>
  C7: Once a run has asked Docker to create a container, the container is removed before the run is over - after
  success, a rejected readback, a timeout, an interrupt or an escaping exception alike - as long as the last
  inspection and removal still work (\<open>removable\<close>: the engine is the same file, Docker answers both commands with
  status 0 and reports the container as this run's).  Where no removal was confirmed, no receipt imports an output of
  the container.\<close>

theorem no_container_leaks:
  assumes "launch w j authority = (r, events)" "docker j" "Ran Create \<in> set events"
  shows "(\<exists>b. Ran (Remove b) \<in> set events \<and> se_status w (Remove b) = Inr 0) \<or>
    (\<not> removable w j \<and> (\<forall>receipt. r = Inr receipt \<longrightarrow> output_import receipt \<in> {PStr ''not_run'', PStr ''rejected''}))"
  using assms(1)
proof (rule launch_cases)
  fix q t
  assume l: "guarded_run w j (initial_state (j_policy j)) = (q, t)" "events = r_log t"
    "r = (case q of Inl e \<Rightarrow> Inl e | Inr u \<Rightarrow> finish w j authority t)"
  from l(2) assms(3) have "r_log t \<noteq> []" by auto
  from guarded_run_settled [OF l(1) assms(2) this]
  have s: "settled_removal w t" "removable w j \<longrightarrow> r_removed t" by simp_all
  have "output_import receipt \<in> {PStr ''not_run'', PStr ''rejected''}" if "r = Inr receipt" "\<not> r_removed t" for receipt
  proof -
    from that l(3) have "finish w j authority t = Inr receipt" by (cases q) simp_all
    then show ?thesis
    proof (rule finish_Inr)
      fix u caps outs imp p command cfg es backend
      assume u: "receipt = receipt_dict w j authority u backend imp caps outs command cfg es"
        "r_removed t \<or> imp \<in> {''not_run'', ''rejected''}"
      then show ?thesis
        using that(2) receipt_fields(1) [OF u(1)] by (auto simp: output_import_def capabilities_of_def getv_def)
    qed
  qed
  with s l(2) show ?thesis by (auto simp: settled_removal_def)
qed

subsection \<open>Runs without a receipt\<close>

lemma caught_handled: "caught e \<Longrightarrow> \<exists>t. handle w e s = (Inr (), t) \<and> same_evidence s t"
  using handle_state [of w e s] by (cases "handle w e s") (auto simp: handle_def caught_def)

lemma guarded_run_caught:
  assumes "guarded w j s = (Inl e, u)" "caught e" "guarded_run w j s = (Inr (), t)"
  shows "same_evidence u t"
proof -
  obtain v where v: "handle w e u = (Inr (), v)" "same_evidence u v" using caught_handled [OF assms(2)] by blast
  then have "finally_remove w j (Inr ()) v = (Inr (), t)" using assms(1,3) by (simp add: guarded_run_def)
  then show ?thesis using v(2) quiet_same_evidence [OF finally_state] same_evidence_trans by blast
qed

text \<open>
  C23: The id of a created container is recorded in the receipt, but bound only after it was read: when reading
  Docker's answer fails, the run ends in \<open>UnboundLocalError\<close> (or an earlier exception) and writes no receipt.\<close>

theorem unread_container_id_leaves_no_receipt:
  assumes "docker j" "engine_still w At_Launch (j_policy j) (j_engine j)" "engine_still w (At_Control Create) (j_policy j) (j_engine j)"
    and "\<not> se_late w Create" "se_status w Create = Inr 0" "se_stdout w Create = Inl e" "caught e"
  shows "\<exists>x. fst (launch w j authority) = Inl x"
proof -
  let ?s = "initial_state (j_policy j)"
  obtain u where u: "guarded w j ?s = (Inl e, u)" "r_created u" "r_cid u = None"
    using assms by (simp add: guarded_def prepare_def create_container_def control_capture_def in_time_def log_event_def act_simps
      step_eval initial_state_def verify_def guard_def)
  obtain r t where g: "guarded_run w j ?s = (r, t)" by force
  show ?thesis
  proof (cases r)
    case (Inl x)
    with g show ?thesis by (simp add: launch_def)
  next
    case (Inr x)
    with g have "same_evidence u t" using guarded_run_caught [OF u(1) assms(7)] by simp
    with u have t: "r_created t" "r_cid t = None" by (simp_all add: same_evidence_def)
    have "finish w j authority t \<noteq> Inr receipt" for receipt
    proof
      assume "finish w j authority t = Inr receipt"
      then show False
      proof (rule finish_Inr)
        fix v backend assume "same_evidence t v" "backend_of j v = Inr backend"
        with t show False by (simp add: same_evidence_def backend_of_def)
      qed
    qed
    then obtain x where "finish w j authority t = Inl x" by (cases "finish w j authority t") blast+
    with g Inr show ?thesis by (simp add: launch_def)
  qed
qed

text \<open>
  C24: When the sources changed between validation and start, the check before the start raises \<open>ValueError\<close>, which no
  handler catches: the run ends without a receipt, unlike every other rejected readback.\<close>

theorem changed_source_leaves_no_receipt:
  assumes "docker j" "engine_still w At_Launch (j_policy j) (j_engine j)"
    and "create_container w j (initial_state (j_policy j)) = (Inr cid, s1)" "read_backend w j cid s1 = (Inr rb, s2)"
    and "write_readback w rb s2 = (Inr (), s3)" "verify_run w j cid rb = Inr net"
    and "source_unchanged w j = Inl (Raised x)"
  shows "\<exists>e. fst (launch w j authority) = Inl e"
proof -
  let ?s = "initial_state (j_policy j)"
  have g: "guarded w j ?s = (Inl (Raised x), s3\<lparr>r_network := net\<rparr>)"
    using assms by (simp add: guarded_def prepare_def verify_container_def act_simps step_eval verify_def guard_def)
  have "\<exists>e t. guarded_run w j ?s = (Inl e, t)"
    by (simp add: guarded_run_def g handle_def caught_def finally_remove_def split: prod.split sum.split)
  then show ?thesis by (auto simp: launch_def)
qed

lemma copied_present:
  "copy_outputs authority t present xs = (Inr outs, q) \<Longrightarrow> x \<in> set xs \<Longrightarrow>
     scratch_node t (path_parts (o_path x)) \<noteq> None \<Longrightarrow> o_path x \<in> set q"
proof (induction authority t present xs arbitrary: outs q rule: copy_outputs.induct)
  case (2 authority t present y ys)
  have mono: "set p \<subseteq> set q'" if "copy_outputs authority t p zs = (r, q')" for p zs r q'
    using that
    by (induction authority t p zs arbitrary: r q' rule: copy_outputs.induct) (fastforce split: option.splits sum.splits prod.splits)+
  show ?case
  proof (cases "scratch_node t (path_parts (o_path y))")
    case None
    with 2 show ?thesis by auto
  next
    case (Some v)
    with 2 obtain a as where a: "copy_exclusive authority present y v = Inr a"
        "copy_outputs authority t (o_path y # present) ys = (Inr as, q)"
      by (auto split: sum.splits prod.splits)
    show ?thesis
    proof (cases "x = y")
      case True
      with mono [OF a(2)] show ?thesis by simp
    next
      case False
      with "2.IH"(2) [OF Some a(1,2)] "2.prems"(2,3) show ?thesis by simp
    qed
  qed
qed simp

text \<open>
  C25: Only the two logs are reserved names: an output declared as \<^verbatim>\<open>execution-receipt.json\<close> is accepted, its file is
  imported in the place of the receipt, and then no receipt can be written - what stays under the receipt's
  name is the file the untrusted command wrote.\<close>

theorem output_takes_the_place_of_the_receipt:
  assumes "guarded_run w j (initial_state (j_policy j)) = (Inr (), s)" "r_process s" "r_removed s"
    and "import_outputs authority (se_tree w) (captured s) (j_outputs j) = (Inr outs, q)"
    and "x \<in> set (j_outputs j)" "o_path x = ''execution-receipt.json''"
    and "scratch_node (se_tree w) [''execution-receipt.json''] = Some v"
  shows "(\<exists>e. fst (launch w j authority) = Inl e) \<and> ''execution-receipt.json'' \<in> set q"
proof -
  have parts: "path_parts ''execution-receipt.json'' = [''execution-receipt.json'']" by code_simp
  have "copy_outputs authority (se_tree w) (captured s) (j_outputs j) = (Inr outs, q)"
    using assms(4) by (simp add: import_outputs_def split: if_splits)
  from copied_present [OF this assms(5)] have q: "''execution-receipt.json'' \<in> set q" by (simp add: assms(6,7) parts)
  have lim: "r_process (limited s) = r_process s" "r_removed (limited s) = r_removed s" "captured (limited s) = captured s"
    by (simp_all add: limited_def captured_def)
  have imp: "imported_outputs w j authority (limited s) = ((outs, ''trusted_side'', q), limited s)"
    using assms(2-4) by (simp add: imported_outputs_def lim)
  have no_write: "write_receipt hs q r \<noteq> Inr r'" for hs r r'
    using q by (simp add: write_receipt_def bind_res_Inr_iff)
  have "finish w j authority s \<noteq> Inr r" for r
    unfolding finish_def Let_def imp using no_write by (simp add: bind_res_Inr_iff)
  then obtain e where "finish w j authority s = Inl e" by (cases "finish w j authority s") blast+
  with assms(1) q show ?thesis by (simp add: launch_def)
qed

subsection \<open>A run\<close>

definition demo_report :: pyval where
  "demo_report = PList [PDict (AList.update ''Id'' (PStr zeros) offline_inspect)]"

definition demo_disk :: disk where
  "demo_disk = \<lparr>dk_symlink = (\<lambda>s. False), dk_resolve = (\<lambda>s. Some [''d'']), dk_dir = (\<lambda>p. True), dk_file = (\<lambda>p. Inr []),
     dk_tree = (\<lambda>p. Some [(''a'', Regular plain_stat (Some ''h''))]), dk_stat = (\<lambda>s. None), dk_loads = (\<lambda>s. Some demo_report)\<rparr>"

definition receipt_tree :: listing where
  "receipt_tree = [(''execution-receipt.json'', Regular plain_stat (Some ''x''))]"

definition demo_session :: "exec_error + string \<Rightarrow> disk \<Rightarrow> session" where
  "demo_session created at_start = \<lparr>se_hashing = zero_hashing, se_disk = (\<lambda>t. if t = At_Start then at_start else demo_disk),
     se_exists = (\<lambda>s. False), se_mkdir = Inr (), se_id = ''1'', se_expired = False, se_scratch = Inr [''o''], se_late = (\<lambda>c. False),
     se_status = (\<lambda>c. Inr 0), se_stdout = (\<lambda>c. if c = Create then created else Inr ''I''), se_write = Inr (),
     se_open = (\<lambda>s. Inr ()), se_popen = Inr (), se_ending = Exited 0, se_artifact = (\<lambda>s. Inr (zeros, 0)),
     se_tree = Some receipt_tree, se_started_at = ''t'', se_finished_at = ''t''\<rparr>"

definition demo_output :: outfile where
  "demo_output = \<lparr>o_path = ''execution-receipt.json'', o_kind = ''junit'', o_max = 10\<rparr>"

definition demo_policy :: dict where
  "demo_policy = offline_policy @ [(''backend'', PStr ''docker''), (''canonical_engine_path'', PStr ''/d''), (''engine_sha256'', PStr zeros),
     (''source_identity'', PDict [(''sha256'', PStr zeros), (''source_file_sha256'', PDict [(''a'', PStr ''h'')])])]"

definition demo_job :: "outfile list \<Rightarrow> job" where
  "demo_job xs = \<lparr>j_argv = [''pytest'', ''-q''], j_env = [(''CI'', ''1'')], j_outputs = xs, j_target = [''s''],
     j_policy = demo_policy, j_engine = ''/d'', j_scratch = [''o''], j_name = ''bugsweep-1'', j_mount = Some zeros, j_launch = [''/d'', ''create'']\<rparr>"

lemma mapping_PDict [simp]: "mapping (PDict d) = Inr d" by (simp add: mapping_def)

lemma zeros_facts: "sha256_text zeros" "ascii zeros = Inr zeros" "strip zeros = zeros"
  by (simp_all add: sha256_text_def ascii_def zeros_def strip_def py_space_def list_all_iff)

lemma demo_fields [simp]:
  "j_policy (demo_job xs) = demo_policy" "j_engine (demo_job xs) = ''/d''" "j_name (demo_job xs) = ''bugsweep-1''"
  "j_target (demo_job xs) = [''s'']" "j_scratch (demo_job xs) = [''o'']" "j_outputs (demo_job xs) = xs"
  "j_argv (demo_job xs) = [''pytest'', ''-q'']" "j_env (demo_job xs) = [(''CI'', ''1'')]" "j_mount (demo_job xs) = Some zeros"
  by (simp_all add: demo_job_def)

lemma demo_world [simp]:
  "se_hashing (demo_session c d) = zero_hashing" "se_late (demo_session c d) x = False" "se_status (demo_session c d) x = Inr 0"
  "se_write (demo_session c d) = Inr ()" "se_open (demo_session c d) n = Inr ()" "se_popen (demo_session c d) = Inr ()"
  "se_ending (demo_session c d) = Exited 0" "se_tree (demo_session c d) = Some receipt_tree"
  "se_artifact (demo_session c d) n = Inr (zeros, 0)" "se_stdout (demo_session c d) Create = c"
  "x \<noteq> Create \<Longrightarrow> se_stdout (demo_session c d) x = Inr ''I''"
  "t \<noteq> At_Start \<Longrightarrow> se_disk (demo_session c d) t = demo_disk" "se_disk (demo_session c d) At_Start = d"
  by (simp_all add: demo_session_def)

lemma demo_policy_fields [simp]:
  "getv demo_policy ''canonical_engine_path'' = PStr ''/d''" "getv demo_policy ''engine_sha256'' = PStr zeros"
  "getv demo_policy ''backend'' = PStr ''docker''" "getv demo_policy ''network_mode'' = PStr ''none''"
  by (simp_all add: demo_policy_def offline_policy_def getv_def)

lemma demo_engine: "t \<noteq> At_Start \<Longrightarrow> engine_still (demo_session c d) t demo_policy ''/d''"
proof -
  have "same_path ''/d'' [''d'']" "absolute ''/d''" by code_simp+
  then show "t \<noteq> At_Start \<Longrightarrow> engine_still (demo_session c d) t demo_policy ''/d''"
    by (simp add: engine_still_def engine_identity_def engine_check_def zeros_facts demo_disk_def zero_hashing_def)
qed

definition demo_analysis :: dict where "demo_analysis = AList.update ''Id'' (PStr zeros) offline_inspect"

lemma demo_decoded: "t \<noteq> At_Start \<Longrightarrow> decoded (demo_session c d) t raw = Inr (PList [PDict demo_analysis])"
  by (simp add: decoded_def demo_disk_def demo_report_def demo_analysis_def)

lemma inspect_any_id:
  assumes "getv p ''network_mode'' = PStr ''none''" "verify_analysis_inspect hs (AList.update ''Id'' (PStr c) ins) p cwd scratch c name argv e = r"
  shows "verify_analysis_inspect hs (AList.update ''Id'' (PStr c') ins) p cwd scratch c' name argv e = r"
  using assms by (simp add: verify_analysis_inspect_def identity_checked_def mounts_checked_def)

definition demo_readback :: dict where
  "demo_readback = [(''schema_version'', PInt 1), (''kind'', PStr ''docker-inspect-readback''), (''analysis'', PDict demo_analysis)]"

lemma demo_verified: "verify_run (demo_session c d) (demo_job xs) zeros demo_readback = Inr ''verified_denied''"
proof -
  have p: "getv demo_policy ''network_mode'' = PStr ''none''" by simp
  have i: "AList.update ''Id'' (PStr ''c1'') offline_inspect = offline_inspect"
    by (rule update_same) (simp add: offline_inspect_def)
  have "verify_analysis_inspect zero_hashing offline_inspect demo_policy [''s''] [''o''] ''c1'' ''bugsweep-1''
      [''pytest'', ''-q''] [(''CI'', ''1'')] = Inr ''verified_denied''"
    by code_simp
  then have "verify_analysis_inspect zero_hashing demo_analysis demo_policy [''s''] [''o''] zeros ''bugsweep-1''
      [''pytest'', ''-q''] [(''CI'', ''1'')] = Inr ''verified_denied''"
    unfolding demo_analysis_def by (rule inspect_any_id [OF p, of zero_hashing "''c1''" offline_inspect, unfolded i])
  moreover have "item (PDict demo_policy) ''network_mode'' = Inr (PStr ''none'')"
    by (simp add: item_def subscript_def demo_policy_def offline_policy_def)
  ultimately show ?thesis
    by (simp add: verify_run_def verify_backend_readback_def demo_readback_def Let_def) (simp add: getv_def)
qed

lemma demo_source: "source_unchanged (demo_session c demo_disk) (demo_job xs) = Inr ()"
proof -
  let ?es = "[(''a'', Regular plain_stat (Some ''h''))]"
  have t: "dk_tree demo_disk p = Some ?es" for p by (simp add: demo_disk_def)
  have "bound_identity (demo_job xs) = \<lparr>si_sha = zeros, si_files = [(''a'', ''h'')]\<rparr>"
    by (simp add: bound_identity_def demo_policy_def offline_policy_def getv_def env_of_def)
  moreover have "verify_source_identity (Some ?es) \<lparr>si_sha = s, si_files = [(''a'', ''h'')]\<rparr> ''archive-ro'' = Inr ()" for s
    by (simp add: verify_source_identity_def capture_source_files_def capture_loop.simps plain_stat_def MAX_SOURCE_FILES_def
      same_files_def relative_def)
  moreover have "getv demo_policy ''source_mount_mode'' = PStr ''archive-ro''" by (simp add: demo_policy_def offline_policy_def getv_def)
  moreover have "mount_inventory zero_hashing p (Some ?es) = Inr zeros" for p
    by (simp add: mount_inventory_def mount_entry_def mount_record_def plain_stat_def MAX_MOUNT_ENTRIES_def json_digest_def
      canonical_json_def zero_hashing_def)
  ultimately show ?thesis by (simp add: source_unchanged_def t)
qed

lemma demo_initial [simp]:
  "r_log (initial_state demo_policy) = []" "r_captures (initial_state demo_policy) = []" "\<not> r_removed (initial_state demo_policy)"
  by (simp_all add: initial_state_def)

lemma demo_created:
  "create_container (demo_session (Inr zeros) d) (demo_job xs) (initial_state demo_policy) =
     (Inr zeros, (initial_state demo_policy)\<lparr>r_attempted := True, r_log := [Ran Create], r_created := True, r_cid := Some zeros\<rparr>)"
  by (simp add: create_container_def control_capture_def in_time_def log_event_def act_simps step_eval demo_engine zeros_facts
    verify_def guard_def initial_state_def)

lemma demo_read:
  "read_backend (demo_session c d) (demo_job xs) cid s = (Inr demo_readback, s\<lparr>r_log := r_log s @ [Ran (Inspect cid)]\<rparr>)"
  by (simp add: read_backend_def timed_json_def docker_json_def control_capture_def in_time_def log_event_def act_simps step_eval
    demo_engine demo_decoded only_item_def demo_readback_def profiled_def verify_def guard_def)

definition demo_bytes :: string where "demo_bytes = json_dumps False (hs_frepr zero_hashing) (PDict demo_readback)"

primrec json_bound :: "pyval \<Rightarrow> nat" where
  "json_bound PNone = 4"
| "json_bound (PBool b) = 5"
| "json_bound (PInt i) = length (int_str i)"
| "json_bound (PFloat f) = 3"
| "json_bound (PStr s) = 6 * length s + 2"
| "json_bound (PList xs) = 2 + sum_list (map Suc (map json_bound xs))"
| "json_bound (PDict d) = 2 + sum_list (map (\<lambda>(k, n). 6 * length k + 4 + n) (map (map_prod id json_bound) d))"

lemma length_json_str: "length (json_str a s) \<le> 6 * length s + 2"
proof -
  have "length (concat (map (escape_char a) s)) \<le> 6 * length s"
  proof (induction s)
    case (Cons c s)
    have "length (escape_char a c) \<le> 6" by (simp add: escape_char_def Let_def)
    with Cons show ?case by simp
  qed simp
  then show ?thesis by (simp add: json_str_def)
qed

lemma length_join: "length (join_with [c] xs) \<le> sum_list (map (\<lambda>s. Suc (length s)) xs)"
  by (induction "[c]" xs rule: join_with.induct) auto

lemma sum_list_mset_cong: "mset xs = mset ys \<Longrightarrow> sum_list (map f xs) = (sum_list (map f ys) :: nat)"
  by (metis mset_map sum_mset_sum_list)

lemma length_json: "length (json_dumps False (\<lambda>f. ''1.0'') v) \<le> json_bound v"
proof (induction v)
  case (PList xs)
  have "sum_list (map (\<lambda>s. Suc (length s)) (map (json_dumps False (\<lambda>f. ''1.0'')) xs)) \<le> sum_list (map Suc (map json_bound xs))"
    using PList.IH by (induction xs) (auto intro: add_mono)
  with length_join [of "CHR '',''" "map (json_dumps False (\<lambda>f. ''1.0'')) xs"] show ?case by simp
next
  case (PDict d)
  let ?kv = "sort_key fst (map (map_prod id (json_dumps False (\<lambda>f. ''1.0''))) d)"
  let ?f = "\<lambda>kv. Suc (length (json_str False (fst kv) @ '':'' @ snd kv))"
  have "sum_list (map ?f ?kv) = sum_list (map ?f (map (map_prod id (json_dumps False (\<lambda>f. ''1.0''))) d))"
    by (rule sum_list_mset_cong) simp
  also have "\<dots> \<le> sum_list (map (\<lambda>(k, n). 6 * length k + 4 + n) (map (map_prod id json_bound) d))"
    unfolding map_map
  proof (rule sum_list_mono)
    fix e assume "e \<in> set d"
    then have "length (json_dumps False (\<lambda>f. ''1.0'') (snd e)) \<le> json_bound (snd e)" by (rule PDict.IH) (cases e, simp)
    with length_json_str [of False "fst e"]
    show "(?f \<circ> map_prod id (json_dumps False (\<lambda>f. ''1.0''))) e \<le> ((\<lambda>(k, n). 6 * length k + 4 + n) \<circ> map_prod id json_bound) e"
      by (cases e) simp
  qed
  finally show ?case
    using length_join [of "CHR '',''" "map (\<lambda>kv. json_str False (fst kv) @ '':'' @ snd kv) ?kv"] by (simp add: o_def)
qed (use length_json_str [of False] in simp_all)

lemma demo_bytes_short: "length demo_bytes \<le> MAX_READBACK"
proof -
  have "json_bound (PDict demo_readback) < 100000"
    by (simp add: demo_readback_def demo_analysis_def offline_inspect_def offline_host_def env_text_def fixed_environment_def zeros_def
      int_str_def nat_str.simps)
  then show ?thesis using length_json [of "PDict demo_readback"] by (simp add: MAX_READBACK_def demo_bytes_def zero_hashing_def)
qed

lemma demo_canonical: "canonical_json zero_hashing (PDict demo_readback) = Inr demo_bytes"
proof -
  have "\<not> nonfinite (PDict demo_readback)"
    by (simp add: demo_readback_def demo_analysis_def offline_inspect_def offline_host_def env_text_def fixed_environment_def)
  then show ?thesis by (simp add: canonical_json_def demo_bytes_def)
qed

lemma demo_write: "write_readback (demo_session c d) demo_readback s = (Inr (), s\<lparr>r_readback := Some demo_bytes\<rparr>)"
  using demo_bytes_short by (simp add: write_readback_def act_simps step_eval demo_canonical verify_def guard_def)

lemma demo_owned: "owned ''bugsweep-1'' (PList [PDict demo_analysis])"
  by (simp add: owned_def demo_analysis_def offline_inspect_def getv_def invocation_of_def starts_with_def)

lemma demo_removed:
  "remove_owned (demo_session c d) demo_policy ''/d'' ''bugsweep-1'' b s =
     (Inr True, s\<lparr>r_log := r_log s @ [Ran (Cleanup_Inspect b), Ran (Remove b)]\<rparr>)"
  by (simp add: remove_owned_def control_engine_def docker_json_def control_capture_def log_event_def act_simps step_eval
    demo_engine demo_decoded demo_owned verify_def guard_def)

definition demo_log :: "event list" where
  "demo_log = [Ran Create, Ran (Inspect zeros), Started [''/d'', ''start'', ''--attach'', zeros],
     Ran (Cleanup_Inspect False), Ran (Remove False)]"

lemma demo_guarded:
  "\<exists>t. guarded_run (demo_session (Inr zeros) demo_disk) (demo_job xs) (initial_state demo_policy) = (Inr (), t) \<and>
     r_log t = demo_log \<and> r_process t \<and> r_removed t \<and>
     r_verified t \<and> captured t = [''stdout.log'', ''stderr.log'', ''backend-readback.json''] \<and> r_created t \<and> r_cid t = Some zeros"
proof -
  have d: "docker (demo_job xs)" by (simp add: docker_def)
  show ?thesis
    by (simp add: guarded_run_def guarded_def prepare_def start_argv_def demo_log_def d verify_container_def run_process_def open_capture_def remove_backend_def finally_remove_def
        act_simps step_eval demo_engine demo_created demo_read demo_write demo_verified demo_source demo_removed verify_def guard_def
        ended_def captured_def)
qed

lemma demo_launch:
  "\<exists>r. launch (demo_session (Inr zeros) demo_disk) (demo_job xs) authority =
     (r, demo_log)"
  using demo_guarded [of xs] by (auto simp: launch_def)

lemma demo_docker: "docker (demo_job xs)"
  by (simp add: docker_def)


lemma demo_removable: "removable (demo_session c d) (demo_job xs)"
  by (simp add: removable_def demo_engine demo_decoded demo_owned)

theorem no_container_leaks_witness: "\<exists>b. Ran (Remove b) \<in> set demo_log"
proof -
  obtain r where r: "launch (demo_session (Inr zeros) demo_disk) (demo_job []) [''out''] = (r, demo_log)"
    using demo_launch by blast
  have "Ran Create \<in> set demo_log" by (simp add: demo_log_def)
  from no_container_leaks [OF r demo_docker this] demo_removable show ?thesis by blast
qed

theorem unread_container_id_leaves_no_receipt_witness:
  "\<exists>x. fst (launch (demo_session (Inl ExecutionError) demo_disk) (demo_job []) [''out'']) = Inl x"
  by (rule unread_container_id_leaves_no_receipt [where e = ExecutionError, OF demo_docker]) (simp_all add: demo_engine caught_def)

definition changed_disk :: disk where
  "changed_disk = demo_disk\<lparr>dk_tree := (\<lambda>p. Some [(''a'', Regular plain_stat (Some ''changed''))])\<rparr>"

lemma changed_source: "source_unchanged (demo_session c changed_disk) (demo_job xs) = Inl (Raised ValueError)"
proof -
  let ?es = "[(''a'', Regular plain_stat (Some ''changed''))]"
  have t: "dk_tree changed_disk p = Some ?es" for p by (simp add: changed_disk_def)
  have "bound_identity (demo_job xs) = \<lparr>si_sha = zeros, si_files = [(''a'', ''h'')]\<rparr>"
    by (simp add: bound_identity_def demo_policy_def offline_policy_def getv_def env_of_def)
  moreover have "verify_source_identity (Some ?es) \<lparr>si_sha = s, si_files = [(''a'', ''h'')]\<rparr> ''archive-ro'' = Inl ValueError" for s
    by (simp add: verify_source_identity_def capture_source_files_def capture_loop.simps plain_stat_def MAX_SOURCE_FILES_def
      same_files_def relative_def guard_def)
  moreover have "getv demo_policy ''source_mount_mode'' = PStr ''archive-ro''" by (simp add: demo_policy_def offline_policy_def getv_def)
  ultimately show ?thesis by (simp add: source_unchanged_def t)
qed

theorem changed_source_leaves_no_receipt_witness:
  "\<exists>e. fst (launch (demo_session (Inr zeros) changed_disk) (demo_job []) [''out'']) = Inl e"
proof (rule changed_source_leaves_no_receipt [OF demo_docker])
  show "create_container (demo_session (Inr zeros) changed_disk) (demo_job []) (initial_state (j_policy (demo_job []))) =
      (Inr zeros, (initial_state demo_policy)\<lparr>r_attempted := True, r_log := [Ran Create], r_created := True, r_cid := Some zeros\<rparr>)"
    by (simp add: demo_created)
qed (simp_all add: demo_engine, (rule demo_read demo_write demo_verified changed_source)+)

theorem output_takes_the_place_of_the_receipt_witness:
  "validate_outputs (PList [output_value demo_output]) = Inr [demo_output] \<and>
   (\<exists>e. fst (launch (demo_session (Inr zeros) demo_disk) (demo_job [demo_output]) [''out'']) = Inl e)"
proof -
  obtain t where t: "guarded_run (demo_session (Inr zeros) demo_disk) (demo_job [demo_output]) (initial_state demo_policy) = (Inr (), t)"
      "r_process t" "r_removed t" "captured t = [''stdout.log'', ''stderr.log'', ''backend-readback.json'']"
    using demo_guarded [of "[demo_output]"] by blast
  have "import_outputs [''out''] (Some receipt_tree) [''stdout.log'', ''stderr.log'', ''backend-readback.json''] [demo_output] =
      (Inr [artifact_value [''out''] ''junit'' ''execution-receipt.json'' ''x'' 1],
       [''execution-receipt.json'', ''stdout.log'', ''stderr.log'', ''backend-readback.json''])"
    by code_simp
  then have imp: "import_outputs [''out''] (se_tree (demo_session (Inr zeros) demo_disk)) (captured t) (j_outputs (demo_job [demo_output])) =
      (Inr [artifact_value [''out''] ''junit'' ''execution-receipt.json'' ''x'' 1],
       [''execution-receipt.json'', ''stdout.log'', ''stderr.log'', ''backend-readback.json''])"
    by (simp add: t(4))
  have node: "scratch_node (Some receipt_tree) [''execution-receipt.json''] = Some (Regular plain_stat (Some ''x''))" by code_simp
  have "wf_output demo_output \<and> fresh_path [] (o_path demo_output)" by code_simp
  then have "normal_outputs [demo_output]" by (simp add: normal_outputs_def MAX_OUTPUTS_def)
  then have "validate_outputs (PList [output_value demo_output]) = Inr [demo_output]" using validate_normal_outputs by fastforce
  moreover have "\<exists>e. fst (launch (demo_session (Inr zeros) demo_disk) (demo_job [demo_output]) [''out'']) = Inl e"
    using output_takes_the_place_of_the_receipt [of "demo_session (Inr zeros) demo_disk" "demo_job [demo_output]" t "[''out'']" _ _ demo_output, OF _ t(2,3) imp]
      t(1) node by (simp add: demo_output_def)
  ultimately show ?thesis by blast
qed

lemma finite_parts:
  "\<not> nonfinite (optional x)" "\<not> nonfinite (path_if b p n)" "\<not> nonfinite (artifact_value p k n s i)"
  "\<not> nonfinite (capabilities_of j t imp)" "\<not> nonfinite (strs xs)" "\<not> nonfinite (output_value y)"
  by (auto simp: optional_def path_if_def artifact_value_def capabilities_of_def strs_def output_value_def list_ex_iff split: option.split)

lemma zero_digest: "\<not> nonfinite v \<Longrightarrow> json_digest zero_hashing v = Inr zeros"
  by (simp add: json_digest_def canonical_json_def zero_hashing_def)

lemma demo_policy_finite: "\<not> nonfinite (PDict demo_policy)"
  by (simp add: demo_policy_def offline_policy_def)

lemma demo_config: "execution_config_sha256 zero_hashing demo_policy [] = Inr zeros"
proof -
  have "stable_policy demo_policy = Inr (filter (\<lambda>kv. fst kv \<notin> {''source_identity'', ''target_root'', ''scratch_root''}) demo_policy)"
    by (simp add: stable_policy_def demo_policy_def offline_policy_def getv_def)
  moreover have "\<not> nonfinite (PDict (filter P demo_policy))" for P
    using demo_policy_finite by (auto simp: list_ex_iff)
  ultimately show ?thesis by (simp add: execution_config_sha256_def zero_digest)
qed

lemma sha_of_kind_finite: "\<forall>a\<in>set as. \<not> nonfinite a \<and> is_dict a \<and> is_str (getv (dict_of a) ''sha256'') \<Longrightarrow> \<not> nonfinite (sha_of_kind k as)"
proof -
  assume a: "\<forall>a\<in>set as. \<not> nonfinite a \<and> is_dict a \<and> is_str (getv (dict_of a) ''sha256'')"
  have "\<not> nonfinite (getv (dict_of x) ''sha256'')" if "x \<in> set as" for x
    using a that by (cases "getv (dict_of x) ''sha256''") auto
  then show ?thesis
    by (cases "filter (\<lambda>a. getv (dict_of a) ''kind'' = PStr k) as") (auto simp: sha_of_kind_def dest!: filter_eq_ConsD)
qed

lemma captured_limited: "captured (limited s) = captured s"
  by (simp add: limited_def captured_def)

lemma demo_receipt:
  assumes "r_created t" "r_cid t = Some zeros" "r_process t" "r_removed t" "r_verified t"
    and "captured t = [''stdout.log'', ''stderr.log'', ''backend-readback.json'']"
  shows "\<exists>receipt. finish (demo_session (Inr zeros) demo_disk) (demo_job []) [''out''] t = Inr receipt \<and> tier receipt = PStr ''verified_backend''"
proof -
  let ?w = "demo_session (Inr zeros) demo_disk" and ?j = "demo_job []"
  let ?caps = "map (\<lambda>n. artifact_value [''out''] (capture_kind n) n zeros 0) [''stdout.log'', ''stderr.log'', ''backend-readback.json'']"
  let ?t = "(limited t)\<lparr>r_reason := Some ''output_import_rejected''\<rparr>"
  have lim: "r_process (limited t)" "r_removed (limited t)" "r_created (limited t)" "r_cid (limited t) = Some zeros" "r_verified (limited t)"
      "captured (limited t) = [''stdout.log'', ''stderr.log'', ''backend-readback.json'']"
    using assms(1-5) by (simp_all only: captured_limited assms(6)) (simp_all add: limited_def)
  have "scratch_expected (Some receipt_tree) [] = False" by code_simp
  then have imp: "imported_outputs ?w ?j [''out''] (limited t) = (([], ''rejected'', captured (limited t)), ?t)"
    by (simp add: imported_outputs_def import_outputs_def lim)
  have caps: "map_res (capture_record ?w [''out'']) (captured (limited t)) = Inr ?caps"
    by (simp add: lim capture_record_def)
  have be: "backend_of ?j ?t = Inr (PDict [(''name'', PStr ''docker''), (''engine_path'', PStr ''/d''), (''engine_sha256'', PStr zeros),
      (''image_digest'', optional (image_digest ''i'')), (''container_id'', PStr zeros), (''container_name'', PStr ''bugsweep-1'')])" (is "_ = Inr ?b")
    by (simp add: backend_of_def lim) (simp add: demo_policy_def offline_policy_def getv_def)
  have "environment_sha256 zero_hashing [(''CI'', ''1'')] = Inr zeros"
    by (simp add: environment_sha256_def zero_digest env_dict_def)
  moreover have "json_digest zero_hashing (strs [''pytest'', ''-q'']) = Inr zeros" by (simp add: zero_digest finite_parts)
  moreover have "\<not> nonfinite (PDict (receipt_dict ?w ?j [''out''] ?t ?b ''rejected'' ?caps [] zeros zeros zeros))"
  proof -
    have "\<not> nonfinite (getv demo_policy ''source_identity'')" "\<not> nonfinite (getv (dict_of (getv demo_policy ''source_identity'')) ''sha256'')"
      by (simp_all add: demo_policy_def offline_policy_def getv_def)
    moreover have "\<not> nonfinite (applied_limits demo_policy)" by (simp add: applied_limits_def profiled_def)
    moreover have "\<not> nonfinite (sha_of_kind k ?caps)" for k
      by (rule sha_of_kind_finite) (auto simp: finite_parts artifact_value_def getv_def)
    ultimately show ?thesis
      using demo_policy_finite by (simp add: receipt_dict_def finite_parts env_dict_def split: option.split)
  qed
  ultimately have "finish ?w ?j [''out''] t = Inr (receipt_dict ?w ?j [''out''] ?t ?b ''rejected'' ?caps [] zeros zeros zeros)"
    by (simp add: finish_def Let_def imp caps be demo_config write_receipt_def canonical_json_def lim capture_record_def)
  moreover have "tier (receipt_dict ?w ?j [''out''] ?t ?b ''rejected'' ?caps [] zeros zeros zeros) = PStr ''verified_backend''"
    unfolding tier_def receipt_fields [OF refl] by (simp add: capabilities_of_def getv_def lim)
  ultimately show ?thesis by blast
qed

theorem verified_receipt_binds_readback_witness:
  "\<exists>receipt cid rb net bytes. verify_run (demo_session (Inr zeros) demo_disk) (demo_job []) cid rb = Inr net \<and>
     canonical_json zero_hashing (PDict rb) = Inr bytes \<and> getv receipt ''backend_readback_sha256'' = PStr (hs_sha zero_hashing bytes)"
proof -
  obtain t where t: "guarded_run (demo_session (Inr zeros) demo_disk) (demo_job []) (initial_state demo_policy) = (Inr (), t)"
      "r_process t" "r_removed t" "r_verified t" "captured t = [''stdout.log'', ''stderr.log'', ''backend-readback.json'']"
      "r_created t" "r_cid t = Some zeros"
    using demo_guarded [of "[]"] by blast
  obtain receipt where r: "finish (demo_session (Inr zeros) demo_disk) (demo_job []) [''out''] t = Inr receipt"
      "tier receipt = PStr ''verified_backend''"
    using demo_receipt [OF t(6,7,2,3,4,5)] by blast
  then have l: "launch (demo_session (Inr zeros) demo_disk) (demo_job []) [''out''] = (Inr receipt, r_log t)"
    using t(1) by (simp add: launch_def)
  from verified_receipt_binds_readback [OF l demo_docker r(2)] show ?thesis by (simp only: demo_world) blast
qed

end
