(* ===== verification/Spec2Isabelle.thy ===== *)
theory Spec2Isabelle
  imports Recon_Plan Provider_Proxy Terminal_Lifecycle Session_Summary Report_Parsing Judging Checkpoint_Crash Scoring Suite_Run Stage_Run Human_Labels Run_Command
begin

text \<open>
  \<^bold>\<open>bugsweep\<close> is a bug-hunting skill for coding agents: scripts under \<^verbatim>\<open>scripts/\<close> prepare a run, record its
  progress and close it out, and the benchmark under \<^verbatim>\<open>bench/\<close> runs the skill on known bugs, reads its
  reports back and scores them.  This development models the Python code of both that decides something:
  what is planned, what counts as covered, what may be spent, what is reported and how it is scored.

  \<^bold>\<open>How a run goes, and which theory models which part.\<close>

  \<^enum> \<^verbatim>\<open>bench/scorer/recon_plan.py\<close> turns the tracked files into batches (\<^theory_text>\<open>Recon_Plan\<close>; \<^theory_text>\<open>Py_Fnmatch\<close> is the
    \<open>fnmatch\<close> it excludes files with).  \<open>build_plan\<close> is a loop over directories and paths with the open
    batch as its state (\<open>plan_acc\<close>).
  \<^enum> While the agent hunts, \<^verbatim>\<open>scripts/_mark_batch_covered.py\<close> records each finished batch on three durable
    surfaces (\<^theory_text>\<open>Jsonl\<close>: the bounded record files; \<^theory_text>\<open>Batch_Checkpoint\<close>: plan validation, Git objects, the
    checkpoint, the verification and \<open>main\<close>; \<^theory_text>\<open>Checkpoint_Crash\<close>: what a crash leaves and what a rerun makes of it).
    Its state is the record \<open>run\<close> of the three files \<^verbatim>\<open>recon.json\<close>, \<^verbatim>\<open>ledger.jsonl\<close> and
    \<^verbatim>\<open>audit-snapshots.jsonl\<close>; every read precedes the first write, so \<open>checkpoint\<close> is the list of its writes
    (\<open>checkpoint_writes\<close>) performed in order.
  \<^enum> \<^verbatim>\<open>scripts/_terminal_lifecycle.py\<close> closes the run out through a marker, a receipt and an observation file
    (\<^theory_text>\<open>Terminal_Lifecycle\<close>, over the contract \<^theory_text>\<open>Stage_System\<close> of a durable progress record).  Its state is the
    disk; each command is a state-and-error step whose writes stay when it raises.
  \<^enum> \<^verbatim>\<open>bench/scorer/run_summary.py\<close> reduces plan and ledger to a summary (\<^theory_text>\<open>Run_Summary\<close>), and
    \<^verbatim>\<open>session_summary.py\<close> merges the summaries of a session (\<^theory_text>\<open>Session_Summary\<close>, over \<^theory_text>\<open>Order_Free\<close>).
  \<^enum> \<^verbatim>\<open>bench/provider_proxy.py\<close> stands between the agent and the model provider and enforces the budget
    (\<^theory_text>\<open>Provider_Proxy\<close>, over the contract \<^theory_text>\<open>Reservations\<close> of an account that reserves and settles).
  \<^enum> \<^verbatim>\<open>scripts/_check_results.py\<close> and \<^verbatim>\<open>scripts/_proof.py\<close> decide what a fix has proved: the records of checks
    before and after (\<^theory_text>\<open>Check_Results\<close>), the receipt of a red-green proof and its revalidation (\<^theory_text>\<open>Fix_Proof\<close>,
    over the parameters \<open>host\<close>), the run that makes a proof (\<^theory_text>\<open>Fix_Repro\<close>, over \<open>world\<close>) and the suite gate
    (\<^theory_text>\<open>Suite_Run\<close>, over \<open>suite_world\<close>).
  \<^enum> \<^verbatim>\<open>parse_report.py\<close> and \<^verbatim>\<open>extract.py\<close> read the findings back from a report (\<^theory_text>\<open>Report_Parsing\<close>);
    \<^verbatim>\<open>localize.py\<close>, \<^verbatim>\<open>judge.py\<close>, \<^verbatim>\<open>evidence.py\<close> and \<^verbatim>\<open>precision.py\<close> match and judge them (\<^theory_text>\<open>Judging\<close>);
    \<^verbatim>\<open>score.py\<close> aggregates the verdicts (\<^theory_text>\<open>Scoring\<close>).
  \<^enum> \<^verbatim>\<open>bench/_stages.py\<close> declares the stages of an ablation and reads what a model answers (\<^theory_text>\<open>Stages\<close>, with
    the native output read by \<^theory_text>\<open>Host_Messages\<close> from \<^verbatim>\<open>scripts/_review_evidence.py\<close>); \<open>_run_pipeline_stages\<close>
    of \<^verbatim>\<open>bench/harness.py\<close> runs them (\<^theory_text>\<open>Stage_Run\<close>): its state is the record \<open>pipeline\<close> of receipts,
    candidates, assessments and seen sessions, and \<open>host_answer\<close> is what the host did with a stage.
  \<^enum> \<^verbatim>\<open>bench/scorer/calibration.py\<close> samples candidates for human labels and blinds them (\<^theory_text>\<open>Calibration\<close>), resolves
    the labels and weighs them back to the frame (\<^theory_text>\<open>Human_Labels\<close>).

  \<^enum> \<^verbatim>\<open>scripts/_execution.py\<close> runs a command of the untrusted repository in a container.  \<^theory_text>\<open>Exec_Inputs\<close> validates
    what the caller passes, \<^theory_text>\<open>Source_Capture\<close> reads the source tree, \<^theory_text>\<open>Exec_Policy\<close> validates the policy and builds
    the argument vector (\<^theory_text>\<open>Sample_Policy\<close> is a policy it accepts), \<^theory_text>\<open>Exec_Readback\<close> checks what Docker reports about
    the created container, and \<^theory_text>\<open>Run_Command\<close> is \<open>run_command\<close> itself: its state is the record \<open>run_state\<close>, its
    \<open>try\<close> block a state-and-error step, and the parameter \<open>session\<close> what the disk and the engine answer.

  \<^theory_text>\<open>Py_Prelude\<close>, \<^theory_text>\<open>Py_Json\<close> and \<^theory_text>\<open>Py_Text\<close> hold the Python they share: values as \<open>pyval\<close>, dictionaries as
  association lists in insertion order, strings over code points below 256, results \<open>'e + 'a\<close> with \<open>Inl\<close>
  for an exception, steps \<open>('s, 'e, 'a) act\<close> that keep what was written before a raise.  \<^theory_text>\<open>Py_Order\<close> is what
  \<open>sort_keys\<close> does to a value (\<open>canon\<close>) and what reading does not notice of it; \<^theory_text>\<open>Py_Float\<close> is the rounding of a
  rational to a double (\<open>fl\<close>), used where the proxy adds money and where a number of CPUs becomes nanoseconds.

  \<^bold>\<open>What the groups of lemmas show.\<close>

  \<^item> Planning: the plan partitions the files in scope, keeps its caps, and depends on the set of files only.
  \<^item> Checkpointing: coverage seen through plan and ledger grows by exactly the batch, and atomically under a
    crash at any byte; a crash may cut every append anywhere (\<open>crash\<close>), and where the record files nevertheless end
    in whole lines, a rerun ends in the uninterrupted state; verification returns exactly the covered files, each
    equal to its Git object; the bounded reader agrees with reading everything.  A cut inside a snapshot line is
    not repaired: the rerun reports success and the batch never verifies again.
  \<^item> Close-out: no sequence of commands and crashes moves a stage back or changes an outcome; recovery ends;
    \<open>verified_completed\<close> needs agreeing evidence.
  \<^item> Budget: the ledger over \<open>admit\<close> and \<open>settle\<close> lets any request settle, and lets it settle a second time, which is
    what a disconnecting client causes.  Turns and tokens keep their caps; the requests in flight exceed theirs by
    the number of second settlements at most.  The spend cap is not kept: it is checked on rounded sums, and
    \<open>spend_cap_rounds_over\<close> is a run that ends above it.
  \<^item> Summaries: an audit is complete only when both surfaces cover every batch; the tallies are exactly the
    ledger's; merging is order free.
  \<^item> Fixes: a confirmed fix was red before and green after on exactly the intended change; \<open>post\<close> and \<open>reverify\<close>
    leave the files of a proved bug alone; the suite gate passes only if every target record is clean against its
    record in \<^verbatim>\<open>baseline.json\<close> (each check reads the target again, so \<open>suite_world\<close> has a tree per check).
  \<^item> Stages: a completed stage has completed predecessors and the claims of the Hunter; later stages see six
    fields of a claim only; a badly typed severity ends the whole run.
  \<^item> Calibration: the sample is levelled and its weights add up to the frame; packets are blind; a label needs
    two agreeing reviewers or an adjudicator; rates bracket the open labels, but not the unverifiable ones.
  \<^item> Execution: what is started is the container Docker reported as created, after Docker's answers about it were
    verified against the policy and the source was read again; a verified container without network has exactly two
    mounts, the exact environment and no privileges; a container that was asked for is removed on every path while
    Docker still answers, and nothing is imported where no removal was confirmed; three ways to lose the receipt.
  \<^item> Reading and judging: bullets of five fields round-trip, but the eight-field bullets of \<^verbatim>\<open>SKILL.md\<close> parse to
    nothing; a finding is reviewed only on evidence bound to trusted material, a whole source or an excerpt of the
    snapshot that \<open>load_trusted_sources\<close> of \<^verbatim>\<open>precision_score.py\<close> loads; the prompt's sanitizer can be escaped.
  \<^item> Scoring: the Wilson interval is sound over the reals; the paired difference depends on the shared cases only.

  \<^bold>\<open>Bounds and fuel.\<close>  The recovery loop of the lifecycle has fuel 4, one for each early stage, and
  \<open>recover_terminates\<close> shows it is never exhausted.  All other recursion is structural or by a measure.

  \<^bold>\<open>Parameters.\<close>  \<open>json.loads\<close> and \<open>bytes.decode\<close> (what they return on text this development does not write),
  \<open>hashlib.sha256\<close>, the text of floats, lists and dictionaries (\<open>frepr\<close>, \<open>srepr\<close>), Git, path resolution,
  the file system of the readers, the answers of the model clients and of the host, the random draws of
  sampling and bootstrap.  The hypotheses on them are named: \<open>documented\<close> (a commit id names itself, one object
  format, JSON written here with sorted keys reads back with sorted keys), \<open>removable\<close> (Docker still answers the
  last inspection and removal), \<open>honest_usage\<close> (no more tokens are reported than were reserved).

  \<^bold>\<open>Not modelled.\<close>  Argument parsing, printing, file permissions, \<open>fsync\<close>, temporary names beyond the one the
  lifecycle leaves behind, threads and sockets of the proxy's server, the clients of model services, the files an
  execution leaves under \<^verbatim>\<open>fix-proof-artifacts\<close>, CSV writing, and the rounding of the statistics in scoring and
  calibration (there a float is the rational or real it denotes) and of numbers read from a file.
  Not yet modelled, in the order planned: the revalidation of execution receipts, the schedule and protocol of the
  benchmark harness, the priority context and its scorer, the analyzer normalisation, review sets, integration
  checks and evaluation.
\<close>

end
